(* ===== verification/Prelude.thy ===== *)
theory Prelude
  imports Complex_Main "HOL-Library.Word" "HOL-Library.Monad_Syntax"
begin

text \<open>
  Shared vocabulary of the development: the machine integers of the firmware, byte
  buffers with \<open>memcpy\<close>, little- and big-endian loads and stores, C strings, and the
  two generic interfaces (a fixed-width codec and a streaming digest) that several
  components implement.
  Buffers are lists of bytes; \<open>memcpy_at buf off xs\<close> is \<open>memcpy(&buf[off], xs, length xs)\<close>.
  A C string is a list of characters without the terminating NUL.
\<close>

unbundle bit_operations_syntax

type_synonym u8 = "8 word"
type_synonym u16 = "16 word"
type_synonym u32 = "32 word"
type_synonym u64 = "64 word"
type_synonym bytes = "8 word list"

named_theorems codec_simps \<open>byte order loads and stores, lengths and round trips\<close>
named_theorems wf_intros \<open>well-formedness of the states of the components\<close>

section \<open>Buffers\<close>

definition memcpy_at :: "'a list \<Rightarrow> nat \<Rightarrow> 'a list \<Rightarrow> 'a list" where
  "memcpy_at buf off xs = take off buf @ xs @ drop (off + length xs) buf"

lemma length_memcpy_at [simp]:
  "off + length xs \<le> length buf \<Longrightarrow> length (memcpy_at buf off xs) = length buf"
  by (simp add: memcpy_at_def)

lemma memcpy_at_Nil [simp]: "memcpy_at buf off [] = buf"
  by (simp add: memcpy_at_def)

lemma take_memcpy_at:
  "off + length xs \<le> length buf \<Longrightarrow>
   take (off + length xs) (memcpy_at buf off xs) = take off buf @ xs"
  by (simp add: memcpy_at_def)

lemma drop_memcpy_at:
  "off + length xs \<le> length buf \<Longrightarrow>
   drop (off + length xs) (memcpy_at buf off xs) = drop (off + length xs) buf"
  by (simp add: memcpy_at_def)

lemma nth_memcpy_at:
  "off + length xs \<le> length buf \<Longrightarrow> i < length buf \<Longrightarrow>
   memcpy_at buf off xs ! i =
     (if off \<le> i \<and> i < off + length xs then xs ! (i - off) else buf ! i)"
  by (auto simp: memcpy_at_def nth_append)

section \<open>Words and bytes\<close>

lemma unat_of_nat_u32 [simp]: "n < 2 ^ 32 \<Longrightarrow> unat (of_nat n :: u32) = n"
  by (simp add: unat_of_nat)

lemma unat_less_u32: "unat (w :: u32) < 2 ^ 32"
  using unsigned_less [of w] by simp

lemma unat_add_u32: "unat a + unat b < 2 ^ 32 \<Longrightarrow> unat (a + b :: u32) = unat a + unat b"
  by (simp add: unat_word_ariths)

lemma unat_sub_u32: "b \<le> a \<Longrightarrow> unat (a - b :: u32) = unat a - unat b"
  by (rule unat_sub)

lemma sint_small_u32: "unat (w :: u32) < 2 ^ 31 \<Longrightarrow> sint w = int (unat w)"
proof -
  assume "unat w < 2 ^ 31"
  then have "int (unat w) < int (2 ^ 31)" by (simp only: of_nat_less_iff)
  then have "uint w < 2 ^ 31" by simp
  moreover have "- (2 ^ 31) \<le> uint w" by (rule order_trans [OF _ uint_ge_0]) simp
  ultimately have "signed_take_bit 31 (uint w) = uint w"
    by (intro signed_take_bit_int_eq_self) simp_all
  then show "sint w = int (unat w)" by (simp add: sint_uint)
qed

text \<open>
  One turn of the loops that work through \<open>n\<close> bytes in chunks of at most \<open>k\<close>: the position
  advances without wrapping and stays within the bound.
\<close>

lemma chunk_step:
  fixes p n k :: u32
  defines "c \<equiv> if n - p < k then n - p else k"
  assumes "p < n" "0 < k"
  shows "0 < unat c" "unat (p + c) = unat p + unat c" "unat p + unat c \<le> unat n"
    "unat c \<le> unat k" "unat c = min (unat n - unat p) (unat k)"
proof -
  have np: "unat (n - p) = unat n - unat p" "unat p < unat n"
    using assms(2) unat_sub_u32 [OF less_imp_le] by (simp_all add: word_less_nat_alt)
  then show c: "unat c = min (unat n - unat p) (unat k)"
    by (auto simp: c_def word_less_nat_alt)
  show "0 < unat c" using c np assms(3) by (simp add: word_less_nat_alt)
  show le: "unat p + unat c \<le> unat n" using c np by simp
  show "unat (p + c) = unat p + unat c"
    using le unat_less_u32 [of n] by (intro unat_add_u32) simp
  show "unat c \<le> unat k" using c by simp
qed

lemma chunk_progress:
  fixes p n k :: u32
  assumes "p < n" "0 < k"
  shows "\<not> n - p < k \<Longrightarrow> unat n - unat (p + k) < unat n - unat p" "unat p < unat n"
proof -
  show "unat p < unat n" using assms(1) by (simp add: word_less_nat_alt)
  then show "\<not> n - p < k \<Longrightarrow> unat n - unat (p + k) < unat n - unat p"
    using chunk_step(1,2) [OF assms] by simp
qed

subsection \<open>Little endian\<close>

definition load_le16 :: "bytes \<Rightarrow> nat \<Rightarrow> u16" where
  "load_le16 data i = ucast (data ! i) OR push_bit 8 (ucast (data ! (i + 1)))"

definition load_le32 :: "bytes \<Rightarrow> nat \<Rightarrow> u32" where
  "load_le32 data i =
     ucast (data ! i) OR
     push_bit 8 (ucast (data ! (i + 1))) OR
     push_bit 16 (ucast (data ! (i + 2))) OR
     push_bit 24 (ucast (data ! (i + 3)))"

definition store_le16 :: "u16 \<Rightarrow> bytes" where
  "store_le16 value = [ucast value, ucast (drop_bit 8 value)]"

definition store_le32 :: "u32 \<Rightarrow> bytes" where
  "store_le32 value =
     [ucast value, ucast (drop_bit 8 value),
      ucast (drop_bit 16 value), ucast (drop_bit 24 value)]"

subsection \<open>Big endian\<close>

definition load_be32 :: "bytes \<Rightarrow> nat \<Rightarrow> u32" where
  "load_be32 data i =
     push_bit 24 (ucast (data ! i)) OR
     push_bit 16 (ucast (data ! (i + 1))) OR
     push_bit 8 (ucast (data ! (i + 2))) OR
     ucast (data ! (i + 3))"

definition store_be32 :: "u32 \<Rightarrow> bytes" where
  "store_be32 value =
     [ucast (drop_bit 24 value), ucast (drop_bit 16 value),
      ucast (drop_bit 8 value), ucast value]"

lemma length_store [simp, codec_simps]:
  "length (store_le16 h) = 2" "length (store_le32 w) = 4" "length (store_be32 w) = 4"
  by (simp_all add: store_le16_def store_le32_def store_be32_def)

lemma load_le16_append:
  "load_le16 (xs @ ys) (length xs + i) = load_le16 ys i"
  by (simp add: load_le16_def nth_append)

lemma load_le32_append:
  "load_le32 (xs @ ys) (length xs + i) = load_le32 ys i"
  by (simp add: load_le32_def nth_append)


subsection \<open>Splitting and joining words\<close>

lemma join_bytes16:
  "(ucast (ucast w :: u8) :: u16) OR push_bit 8 (ucast (ucast (drop_bit 8 w) :: u8)) = w"
  (is "?l = w")
proof (rule bit_word_eqI)
  fix n assume "n < LENGTH(16)"
  then consider "n < 8" | "8 \<le> n \<and> n < 16" by fastforce
  then show "bit ?l n = bit w n" by cases (auto simp: bit_simps)
qed

lemma join_bytes32:
  "(ucast (ucast w :: u8) :: u32) OR
     push_bit 8 (ucast (ucast (drop_bit 8 w) :: u8)) OR
     push_bit 16 (ucast (ucast (drop_bit 16 w) :: u8)) OR
     push_bit 24 (ucast (ucast (drop_bit 24 w) :: u8)) = w" (is "?l = w")
proof (rule bit_word_eqI)
  fix n assume "n < LENGTH(32)"
  then consider "n < 8" | "8 \<le> n \<and> n < 16" | "16 \<le> n \<and> n < 24" | "24 \<le> n \<and> n < 32"
    by fastforce
  then show "bit ?l n = bit w n" by cases (auto simp: bit_simps)
qed

lemma split_bytes16:
  fixes a b :: u8
  defines "w \<equiv> (ucast a :: u16) OR push_bit 8 (ucast b)"
  shows "ucast w = a" "ucast (drop_bit 8 w) = b"
  unfolding w_def
  by (rule bit_word_eqI; auto simp: bit_simps dest: bit_imp_le_length)+

lemma split_bytes32:
  fixes a b c d :: u8
  defines "w \<equiv> (ucast a :: u32) OR push_bit 8 (ucast b) OR push_bit 16 (ucast c) OR
                 push_bit 24 (ucast d)"
  shows "ucast w = a" "ucast (drop_bit 8 w) = b"
    "ucast (drop_bit 16 w) = c" "ucast (drop_bit 24 w) = d"
  unfolding w_def
  by (rule bit_word_eqI; auto simp: bit_simps dest: bit_imp_le_length)+

subsection \<open>Fixed-width codecs\<close>

text \<open>
  The contract of a load/store pair: the store has a fixed width, and the pair
  round-trips in both directions.  The byte-order routines of the image header, the
  signed data, the digest and the network frames are its instances.
\<close>

locale codec =
  fixes store :: "'w \<Rightarrow> bytes" and load :: "bytes \<Rightarrow> nat \<Rightarrow> 'w" and width :: nat
  assumes width_store: "length (store w) = width"
    and load_cong: "take width (drop i xs) = take width (drop j ys) \<Longrightarrow>
          i + width \<le> length xs \<Longrightarrow> j + width \<le> length ys \<Longrightarrow> load xs i = load ys j"
    and load_store: "load (store w) 0 = w"
    and store_load: "length bs = width \<Longrightarrow> store (load bs 0) = bs"
begin

lemma load_at:
  assumes "length pre = n"
  shows "load (pre @ store w @ post) n = w"
proof -
  have "load (pre @ store w @ post) n = load (store w) 0"
    by (rule load_cong) (simp_all add: width_store flip: assms)
  then show ?thesis by (simp add: load_store)
qed

lemma load_front: "load (store w @ post) 0 = w"
  using load_at [of "[]" 0] by simp

lemma store_inj: "store v = store w \<Longrightarrow> v = w"
  by (metis load_store)

lemma store_eq_iff: "store v = store w \<longleftrightarrow> v = w"
  by (metis load_store)

lemma store_append_inj: "store v @ xs = store w @ ys \<longleftrightarrow> v = w \<and> xs = ys"
  by (metis append_eq_append_conv store_inj width_store)

lemma store_load_at:
  assumes "i + width \<le> length xs"
  shows "store (load xs i) = take width (drop i xs)"
proof -
  have "load xs i = load (take width (drop i xs)) 0"
    by (rule load_cong) (use assms in simp_all)
  then show ?thesis using assms by (simp add: store_load)
qed

end

lemma nth_of_take_drop:
  "take n (drop i xs) = take n (drop j ys) \<Longrightarrow> i + n \<le> length xs \<Longrightarrow> j + n \<le> length ys \<Longrightarrow>
   k < n \<Longrightarrow> xs ! (i + k) = ys ! (j + k)"
  by (metis add_leD1 nth_drop nth_take)

lemma list2_eq: "length bs = 2 \<Longrightarrow> [bs ! 0, bs ! 1] = bs"
  by (auto simp: numeral_2_eq_2 length_Suc_conv)

lemma list4_eq: "length bs = 4 \<Longrightarrow> [bs ! 0, bs ! 1, bs ! 2, bs ! 3] = bs"
  by (auto simp: numeral_eq_Suc length_Suc_conv)

interpretation le16: codec store_le16 load_le16 2
proof unfold_locales
  fix i j and xs ys :: bytes
  assume "take 2 (drop i xs) = take 2 (drop j ys)" "i + 2 \<le> length xs" "j + 2 \<le> length ys"
  note same = nth_of_take_drop [OF this]
  show "load_le16 xs i = load_le16 ys j"
    using same [of 0] same [of 1] by (simp add: load_le16_def)
next
  fix bs :: bytes assume "length bs = 2"
  then show "store_le16 (load_le16 bs 0) = bs"
    unfolding load_le16_def store_le16_def by (simp only: split_bytes16 add_0 list2_eq)
qed (simp_all add: load_le16_def store_le16_def join_bytes16)

interpretation le32: codec store_le32 load_le32 4
proof unfold_locales
  fix i j and xs ys :: bytes
  assume "take 4 (drop i xs) = take 4 (drop j ys)" "i + 4 \<le> length xs" "j + 4 \<le> length ys"
  note same = nth_of_take_drop [OF this]
  show "load_le32 xs i = load_le32 ys j"
    using same [of 0] same [of 1] same [of 2] same [of 3] by (simp add: load_le32_def)
next
  fix bs :: bytes assume "length bs = 4"
  then show "store_le32 (load_le32 bs 0) = bs"
    unfolding load_le32_def store_le32_def by (simp only: split_bytes32 add_0 list4_eq)
qed (simp_all add: load_le32_def store_le32_def join_bytes32)

section \<open>Streaming digests\<close>

text \<open>
  The contract the chunked read and receive loops rely on: feeding a digest in pieces
  is feeding it the concatenation.  CRC-32 and SHA-256 are the instances.
\<close>

locale stream_digest =
  fixes update :: "'c \<Rightarrow> bytes \<Rightarrow> 'c" and wf :: "'c \<Rightarrow> bool"
  assumes update_Nil: "wf c \<Longrightarrow> update c [] = c"
    and update_append: "wf c \<Longrightarrow> update (update c xs) ys = update c (xs @ ys)"
    and update_wf: "wf c \<Longrightarrow> wf (update c xs)"
begin

lemma update_chunks: "wf c \<Longrightarrow> foldl update c xss = update c (concat xss)"
  by (induction xss arbitrary: c) (simp_all add: update_Nil update_append update_wf)

lemma chunking_irrelevant:
  "wf c \<Longrightarrow> concat xss = concat yss \<Longrightarrow> foldl update c xss = foldl update c yss"
  by (simp add: update_chunks)

end

end
