(* ===== verification/Fal.thy ===== *)
theory Fal
  imports Prelude
begin

text \<open>
  \<open>rt-thread/components/fal\<close>: named partitions over flash devices.  The device drivers
  (SFUD over QSPI for the NOR chip) are a parameter: a record of the three operations of
  \<open>struct fal_flash_dev\<close> over a device state \<open>'f\<close>.  A failed \<open>assert\<close> stops the firmware;
  the partition calls return \<open>None\<close> there.
\<close>

section \<open>Partitions and devices\<close>

record fal_partition =
  part_name :: string
  part_flash_name :: string
  part_offset :: u32
  part_len :: u32

record 'f flash_ops =
  ops_read :: "u32 \<Rightarrow> u32 \<Rightarrow> 'f \<Rightarrow> int \<times> bytes \<times> 'f"
  ops_write :: "u32 \<Rightarrow> bytes \<Rightarrow> 'f \<Rightarrow> int \<times> 'f"
  ops_erase :: "u32 \<Rightarrow> u32 \<Rightarrow> 'f \<Rightarrow> int \<times> 'f"

record 'f fal_env =
  fal_table :: "fal_partition list"
  fal_device :: "string \<Rightarrow> 'f flash_ops option"

definition FAL_PART_TABLE :: "fal_partition list" where
  "FAL_PART_TABLE =
    [\<lparr>part_name = ''app'', part_flash_name = ''onchip_flash'',
        part_offset = 0, part_len = 1048576\<rparr>,
     \<lparr>part_name = ''upgrade'', part_flash_name = ''norflash0'',
        part_offset = 0, part_len = 1048576\<rparr>,
     \<lparr>part_name = ''factory'', part_flash_name = ''norflash0'',
        part_offset = 1048576, part_len = 1048576\<rparr>,
     \<lparr>part_name = ''download'', part_flash_name = ''norflash0'',
        part_offset = 2 * 1048576, part_len = 1048576\<rparr>,
     \<lparr>part_name = ''filesystem'', part_flash_name = ''norflash0'',
        part_offset = 3 * 1048576, part_len = 5 * 1048576\<rparr>]"

definition fal_partition_find :: "'f fal_env \<Rightarrow> string \<Rightarrow> fal_partition option" where
  "fal_partition_find E name = find (\<lambda>p. part_name p = name) (fal_table E)"

text \<open>The bytes of a read are those the driver stored; a refused call stores none.\<close>

definition fal_partition_read ::
  "'f fal_env \<Rightarrow> fal_partition option \<Rightarrow> u32 \<Rightarrow> u32 \<Rightarrow> 'f \<Rightarrow> (int \<times> bytes \<times> 'f) option" where
  "fal_partition_read E part addr len f =
     (case part of
        None \<Rightarrow> None
      | Some p \<Rightarrow>
          if addr + len > part_len p then Some (-1, [], f)
          else case fal_device E (part_flash_name p) of
            None \<Rightarrow> Some (-1, [], f)
          | Some dev \<Rightarrow> Some (ops_read dev (part_offset p + addr) len f))"

definition fal_partition_write ::
  "'f fal_env \<Rightarrow> fal_partition option \<Rightarrow> u32 \<Rightarrow> bytes \<Rightarrow> 'f \<Rightarrow> (int \<times> 'f) option" where
  "fal_partition_write E part addr buf f =
     (case part of
        None \<Rightarrow> None
      | Some p \<Rightarrow>
          if addr + of_nat (length buf) > part_len p then Some (-1, f)
          else case fal_device E (part_flash_name p) of
            None \<Rightarrow> Some (-1, f)
          | Some dev \<Rightarrow> Some (ops_write dev (part_offset p + addr) buf f))"

definition fal_partition_erase ::
  "'f fal_env \<Rightarrow> fal_partition option \<Rightarrow> u32 \<Rightarrow> u32 \<Rightarrow> 'f \<Rightarrow> (int \<times> 'f) option" where
  "fal_partition_erase E part addr len f =
     (case part of
        None \<Rightarrow> None
      | Some p \<Rightarrow>
          if addr + len > part_len p then Some (-1, f)
          else case fal_device E (part_flash_name p) of
            None \<Rightarrow> Some (-1, f)
          | Some dev \<Rightarrow> Some (ops_erase dev (part_offset p + addr) len f))"

definition fal_partition_erase_all ::
  "'f fal_env \<Rightarrow> fal_partition option \<Rightarrow> 'f \<Rightarrow> (int \<times> 'f) option" where
  "fal_partition_erase_all E part f =
     (case part of None \<Rightarrow> None | Some p \<Rightarrow> fal_partition_erase E part 0 (part_len p) f)"

lemma fal_partition_defined:
  "\<exists>r. fal_partition_read E (Some p) addr len f = Some r"
  "\<exists>r. fal_partition_write E (Some p) addr buf f = Some r"
  "\<exists>r. fal_partition_erase E (Some p) addr len f = Some r"
  by (simp_all add: fal_partition_read_def fal_partition_write_def fal_partition_erase_def
      split: option.split del: split_paired_Ex)

section \<open>The contract of a NOR device\<close>

text \<open>
  The documented behaviour of the serial NOR chip and its driver, over a view \<open>mem\<close> of the
  cells: reading changes nothing; a write that reports its full length has cleared the
  bits that are 0 in the data; an erase of whole sectors that reports its full length
  leaves them all ones; whatever is reported, only the addressed range is touched.
  Nothing is said of a call that reports anything else, so any call may fail half-way.
\<close>

definition nor_read :: "'f flash_ops \<Rightarrow> ('f \<Rightarrow> nat \<Rightarrow> u8) \<Rightarrow> bool" where
  "nor_read dev mem \<longleftrightarrow>
    (\<forall>off n f ret data f'. ops_read dev off n f = (ret, data, f') \<longrightarrow>
        mem f' = mem f \<and>
        (ret = int (unat n) \<longrightarrow> data = map (mem f) [unat off..<unat off + unat n]))"

definition nor_write :: "'f flash_ops \<Rightarrow> ('f \<Rightarrow> nat \<Rightarrow> u8) \<Rightarrow> bool" where
  "nor_write dev mem \<longleftrightarrow>
    (\<forall>off data f ret f'. ops_write dev off data f = (ret, f') \<longrightarrow>
        (\<forall>a. a < unat off \<or> unat off + length data \<le> a \<longrightarrow> mem f' a = mem f a) \<and>
        (ret = int (length data) \<longrightarrow>
          (\<forall>i<length data. mem f' (unat off + i) = mem f (unat off + i) AND data ! i)))"

definition nor_erase :: "'f flash_ops \<Rightarrow> ('f \<Rightarrow> nat \<Rightarrow> u8) \<Rightarrow> bool" where
  "nor_erase dev mem \<longleftrightarrow>
    (\<forall>off n f ret f'. ops_erase dev off n f = (ret, f') \<longrightarrow>
        4096 dvd unat off \<longrightarrow> 4096 dvd unat n \<longrightarrow>
        (\<forall>a. a < unat off \<or> unat off + unat n \<le> a \<longrightarrow> mem f' a = mem f a) \<and>
        (ret = int (unat n) \<longrightarrow>
          (\<forall>a. unat off \<le> a \<and> a < unat off + unat n \<longrightarrow> mem f' a = 0xFF)))"

definition nor_flash :: "'f flash_ops \<Rightarrow> ('f \<Rightarrow> nat \<Rightarrow> u8) \<Rightarrow> bool" where
  "nor_flash dev mem \<longleftrightarrow> nor_read dev mem \<and> nor_write dev mem \<and> nor_erase dev mem"

lemma nor_readD:
  assumes "nor_flash dev mem" "ops_read dev off n f = (ret, data, f')"
  shows "mem f' = mem f"
    and "ret = int (unat n) \<Longrightarrow> data = map (mem f) [unat off..<unat off + unat n]"
proof -
  have "nor_read dev mem" using assms(1) by (simp add: nor_flash_def)
  note both = this [unfolded nor_read_def, rule_format, OF assms(2)]
  show "mem f' = mem f"
    and "ret = int (unat n) \<Longrightarrow> data = map (mem f) [unat off..<unat off + unat n]"
    using both by simp_all
qed

lemma nor_writeD:
  assumes "nor_flash dev mem" "ops_write dev off data f = (ret, f')"
  shows "a < unat off \<or> unat off + length data \<le> a \<Longrightarrow> mem f' a = mem f a"
    and "ret = int (length data) \<Longrightarrow> i < length data \<Longrightarrow>
      mem f' (unat off + i) = mem f (unat off + i) AND data ! i"
proof -
  have "nor_write dev mem" using assms(1) by (simp add: nor_flash_def)
  note both = this [unfolded nor_write_def, rule_format, OF assms(2)]
  show "a < unat off \<or> unat off + length data \<le> a \<Longrightarrow> mem f' a = mem f a"
    using both by (elim disjE) simp_all
  show "ret = int (length data) \<Longrightarrow> i < length data \<Longrightarrow>
      mem f' (unat off + i) = mem f (unat off + i) AND data ! i"
    using both by simp
qed

lemma nor_eraseD:
  assumes "nor_flash dev mem" "ops_erase dev off n f = (ret, f')"
    "4096 dvd unat off" "4096 dvd unat n"
  shows "a < unat off \<or> unat off + unat n \<le> a \<Longrightarrow> mem f' a = mem f a"
    and "ret = int (unat n) \<Longrightarrow> unat off \<le> a \<Longrightarrow> a < unat off + unat n \<Longrightarrow> mem f' a = 0xFF"
proof -
  have "nor_erase dev mem" using assms(1) by (simp add: nor_flash_def)
  note both = this [unfolded nor_erase_def, rule_format, OF assms(2-4)]
  show "a < unat off \<or> unat off + unat n \<le> a \<Longrightarrow> mem f' a = mem f a"
    using both by (elim disjE) simp_all
  show "ret = int (unat n) \<Longrightarrow> unat off \<le> a \<Longrightarrow> a < unat off + unat n \<Longrightarrow> mem f' a = 0xFF"
    using both by simp
qed

text \<open>A partition inside the 31-bit address space of its device, on sector boundaries.\<close>

definition part_wf :: "fal_partition \<Rightarrow> bool" where
  "part_wf p \<longleftrightarrow> unat (part_offset p) + unat (part_len p) < 2 ^ 31 \<and>
     4096 dvd unat (part_offset p)"

text \<open>What a partition holds.\<close>

definition part_mem :: "('f \<Rightarrow> nat \<Rightarrow> u8) \<Rightarrow> fal_partition \<Rightarrow> 'f \<Rightarrow> nat \<Rightarrow> u8" where
  "part_mem mem p f i = mem f (unat (part_offset p) + i)"

text \<open>Two partitions of one device that share no cell.\<close>

definition part_disjoint :: "fal_partition \<Rightarrow> fal_partition \<Rightarrow> bool" where
  "part_disjoint p q \<longleftrightarrow>
     unat (part_offset p) + unat (part_len p) \<le> unat (part_offset q) \<or>
     unat (part_offset q) + unat (part_len q) \<le> unat (part_offset p)"

definition nor_part :: "'f fal_env \<Rightarrow> ('f \<Rightarrow> nat \<Rightarrow> u8) \<Rightarrow> fal_partition \<Rightarrow> bool" where
  "nor_part E mem p \<longleftrightarrow>
     (\<exists>dev. fal_device E (part_flash_name p) = Some dev \<and> nor_flash dev mem) \<and> part_wf p"

section \<open>Partition calls on a NOR device\<close>

lemma minus_one_not_len: "- 1 \<noteq> uint (n :: u32)"
  using uint_ge_0 [of n] by linarith

lemma part_addr_unat:
  assumes "part_wf p" "\<not> addr + len > part_len p" "unat addr + unat len < 2 ^ 32"
  shows "unat addr + unat len \<le> unat (part_len p)"
    and "unat (part_offset p + addr) = unat (part_offset p) + unat addr"
proof -
  have "unat (addr + len) = unat addr + unat len" using assms(3) by (rule unat_add_u32)
  with assms(2) show le: "unat addr + unat len \<le> unat (part_len p)"
    by (simp add: not_less word_le_nat_alt)
  show "unat (part_offset p + addr) = unat (part_offset p) + unat addr"
    using assms(1) le by (intro unat_add_u32) (simp add: part_wf_def)
qed

lemma fal_read_nor:
  assumes nor: "nor_part E mem p" and small: "unat addr + unat len < 2 ^ 32"
    and call: "fal_partition_read E (Some p) addr len f = Some (ret, data, f')"
  shows "mem f' = mem f"
    and "ret = int (unat len) \<Longrightarrow>
      data = map (part_mem mem p f) [unat addr..<unat addr + unat len]"
proof -
  from nor obtain dev where dev: "fal_device E (part_flash_name p) = Some dev"
    "nor_flash dev mem" and wf: "part_wf p" by (auto simp: nor_part_def)
  have "mem f' = mem f \<and> (ret = int (unat len) \<longrightarrow>
      data = map (part_mem mem p f) [unat addr..<unat addr + unat len])"
  proof (cases "addr + len > part_len p")
    case True
    then show ?thesis using call minus_one_not_len [of len]
      by (auto simp: fal_partition_read_def)
  next
    case False
    then have "ops_read dev (part_offset p + addr) len f = (ret, data, f')"
      using call dev by (simp add: fal_partition_read_def)
    note out = nor_readD [OF dev(2) this]
    have "map (mem f) [unat (part_offset p) + unat addr..<unat (part_offset p) + unat addr + unat len]
        = map (part_mem mem p f) [unat addr..<unat addr + unat len]"
      by (rule nth_equalityI) (simp_all add: part_mem_def add.assoc)
    with out show ?thesis using part_addr_unat [OF wf False small] by simp
  qed
  then show "mem f' = mem f" and "ret = int (unat len) \<Longrightarrow>
      data = map (part_mem mem p f) [unat addr..<unat addr + unat len]" by simp_all
qed

lemma fal_write_nor:
  assumes nor: "nor_part E mem p" and small: "unat addr + length buf < 2 ^ 32"
    and call: "fal_partition_write E (Some p) addr buf f = Some (ret, f')"
  shows "a < unat (part_offset p) + unat addr \<or>
         unat (part_offset p) + unat addr + length buf \<le> a \<or>
         unat (part_offset p) + unat (part_len p) \<le> a \<Longrightarrow> mem f' a = mem f a" (is "?out \<Longrightarrow> _")
    and "ret = int (length buf) \<Longrightarrow> i < length buf \<Longrightarrow>
      part_mem mem p f' (unat addr + i) = part_mem mem p f (unat addr + i) AND buf ! i"
proof -
  from nor obtain dev where dev: "fal_device E (part_flash_name p) = Some dev"
    "nor_flash dev mem" and wf: "part_wf p" by (auto simp: nor_part_def)
  have len: "unat (of_nat (length buf) :: u32) = length buf" using small by simp
  have "(?out \<longrightarrow> mem f' a = mem f a) \<and> (ret = int (length buf) \<longrightarrow> i < length buf \<longrightarrow>
      part_mem mem p f' (unat addr + i) = part_mem mem p f (unat addr + i) AND buf ! i)"
  proof (cases "addr + of_nat (length buf) > part_len p")
    case True
    then show ?thesis using call by (auto simp: fal_partition_write_def)
  next
    case False
    then have "ops_write dev (part_offset p + addr) buf f = (ret, f')"
      using call dev by (simp add: fal_partition_write_def)
    note out = nor_writeD [OF dev(2) this]
    show ?thesis
      using out(1) [of a] out(2) [of i] part_addr_unat [OF wf False] small len
      by (auto simp: part_mem_def add.assoc)
  qed
  then show "?out \<Longrightarrow> mem f' a = mem f a" and "ret = int (length buf) \<Longrightarrow> i < length buf \<Longrightarrow>
      part_mem mem p f' (unat addr + i) = part_mem mem p f (unat addr + i) AND buf ! i"
    by (simp_all only: simp_thms)
qed

lemma fal_erase_nor:
  assumes nor: "nor_part E mem p" and small: "unat addr + unat len < 2 ^ 32"
    and aligned: "4096 dvd unat addr" "4096 dvd unat len"
    and call: "fal_partition_erase E (Some p) addr len f = Some (ret, f')"
  shows "a < unat (part_offset p) + unat addr \<or>
         unat (part_offset p) + unat addr + unat len \<le> a \<or>
         unat (part_offset p) + unat (part_len p) \<le> a \<Longrightarrow> mem f' a = mem f a" (is "?out \<Longrightarrow> _")
    and "ret = int (unat len) \<Longrightarrow> unat addr \<le> i \<Longrightarrow> i < unat addr + unat len \<Longrightarrow>
      part_mem mem p f' i = 0xFF"
proof -
  from nor obtain dev where dev: "fal_device E (part_flash_name p) = Some dev"
    "nor_flash dev mem" and wf: "part_wf p" by (auto simp: nor_part_def)
  have "(?out \<longrightarrow> mem f' a = mem f a) \<and> (ret = int (unat len) \<longrightarrow> unat addr \<le> i \<longrightarrow>
      i < unat addr + unat len \<longrightarrow> part_mem mem p f' i = 0xFF)"
  proof (cases "addr + len > part_len p")
    case True
    then show ?thesis using call minus_one_not_len [of len]
      by (auto simp: fal_partition_erase_def)
  next
    case False
    note at = part_addr_unat [OF wf False small]
    have "ops_erase dev (part_offset p + addr) len f = (ret, f')"
      using call dev False by (simp add: fal_partition_erase_def)
    moreover have "4096 dvd unat (part_offset p + addr)"
      using wf aligned(1) at(2) by (simp add: part_wf_def)
    ultimately have out:
      "a < unat (part_offset p + addr) \<or> unat (part_offset p + addr) + unat len \<le> a \<Longrightarrow>
        mem f' a = mem f a"
      "ret = int (unat len) \<Longrightarrow> unat (part_offset p + addr) \<le> b \<Longrightarrow>
        b < unat (part_offset p + addr) + unat len \<Longrightarrow> mem f' b = 0xFF" for b
      using nor_eraseD [OF dev(2) _ _ aligned(2)] by blast+
    show ?thesis
      using out(1) out(2) [of "unat (part_offset p) + i"] at
      by (auto simp: part_mem_def add.assoc)
  qed
  then show "?out \<Longrightarrow> mem f' a = mem f a" and "ret = int (unat len) \<Longrightarrow> unat addr \<le> i \<Longrightarrow>
      i < unat addr + unat len \<Longrightarrow> part_mem mem p f' i = 0xFF"
    by (simp_all only: simp_thms)
qed

end
