(* ===== verification/Ota_Hash.thy ===== *)
theory Ota_Hash
  imports Prelude
begin

text \<open>
  \<open>applications/ota/ota_hash.c\<close>: the CRC-32 and SHA-256 contexts of the update service,
  each an init/update/finish triple over a mutable context, with the reference digests
  they compute.  A context passed to an init routine is uninitialised storage; the
  model takes it as an argument and overwrites the fields the code overwrites.
\<close>

section \<open>CRC-32\<close>

record ota_crc32_context =
  crc_value :: u32

definition ota_crc32_init :: "ota_crc32_context \<Rightarrow> ota_crc32_context" where
  "ota_crc32_init context = context\<lparr>crc_value := 0xFFFFFFFF\<rparr>"

text \<open>One round of the inner loop: the mask is all ones when the low bit is set.\<close>

definition crc32_bit :: "u32 \<Rightarrow> u32" where
  "crc32_bit crc =
     (let mask = - (crc AND 1) in drop_bit 1 crc XOR (0xEDB88320 AND mask))"

definition crc32_byte :: "u32 \<Rightarrow> u8 \<Rightarrow> u32" where
  "crc32_byte crc b = (crc32_bit ^^ 8) (crc XOR ucast b)"

definition ota_crc32_update :: "ota_crc32_context \<Rightarrow> bytes \<Rightarrow> ota_crc32_context" where
  "ota_crc32_update context data =
     context\<lparr>crc_value := foldl crc32_byte (crc_value context) data\<rparr>"

definition ota_crc32_finish :: "ota_crc32_context \<Rightarrow> u32" where
  "ota_crc32_finish context = crc_value context XOR 0xFFFFFFFF"

definition ota_crc32_calculate :: "bytes \<Rightarrow> u32" where
  "ota_crc32_calculate data =
     ota_crc32_finish (ota_crc32_update (ota_crc32_init \<lparr>crc_value = 0\<rparr>) data)"

interpretation crc: stream_digest ota_crc32_update "\<lambda>_. True"
  by unfold_locales (simp_all add: ota_crc32_update_def)

lemma crc32_init_any: "ota_crc32_init c = \<lparr>crc_value = 0xFFFFFFFF\<rparr>"
  by (cases c) (simp add: ota_crc32_init_def)

lemma crc32_stream_calculate:
  "ota_crc32_finish (ota_crc32_update (ota_crc32_init c) data) = ota_crc32_calculate data"
  by (simp add: ota_crc32_calculate_def crc32_init_any)

subsection \<open>The update of one byte loses nothing\<close>

lemma crc32_bit_alt:
  "crc32_bit crc = (if bit crc 0 then drop_bit 1 crc XOR 0xEDB88320 else drop_bit 1 crc)"
proof -
  have "crc AND 1 = (if bit crc 0 then 1 else 0)"
    by (simp add: and_one_eq mod2_eq_if bit_0)
  then show ?thesis by (simp add: crc32_bit_def)
qed

lemma crc32_bit_top: "bit (crc32_bit crc) 31 = bit crc 0"
  by (simp add: crc32_bit_alt bit_simps bit_numeral_rec)
     (auto simp: bit_simps dest: bit_imp_le_length)

lemma drop_bit_1_inj:
  assumes "drop_bit 1 a = drop_bit 1 (b :: u32)" and "bit a 0 = bit b 0"
  shows "a = b"
proof (rule bit_word_eqI)
  fix n assume "n < LENGTH(32)"
  show "bit a n = bit b n"
  proof (cases n)
    case 0
    then show ?thesis using assms(2) by simp
  next
    case (Suc m)
    have "bit (drop_bit 1 a) m = bit (drop_bit 1 b) m" using assms(1) by simp
    then show ?thesis using Suc by (simp add: bit_simps)
  qed
qed

lemma xor_cancel_right: "a XOR k = b XOR k \<longleftrightarrow> a = (b :: 'a::len word)"
proof
  assume "a XOR k = b XOR k"
  then have "(a XOR k) XOR k = (b XOR k) XOR k" by simp
  then show "a = b" by (simp add: xor.assoc)
qed simp

lemma crc32_bit_inj: "crc32_bit a = crc32_bit b \<longleftrightarrow> a = b"
proof
  assume eq: "crc32_bit a = crc32_bit b"
  then have low: "bit a 0 = bit b 0" by (metis crc32_bit_top)
  have "drop_bit 1 a = drop_bit 1 b"
    using eq low by (simp add: crc32_bit_alt xor_cancel_right split: if_splits)
  then show "a = b" using low by (rule drop_bit_1_inj)
qed simp

lemma crc32_bits_inj: "(crc32_bit ^^ n) a = (crc32_bit ^^ n) b \<longleftrightarrow> a = b"
  by (induction n arbitrary: a b) (simp_all add: crc32_bit_inj)

lemma crc32_byte_inj_crc: "crc32_byte a x = crc32_byte b x \<longleftrightarrow> a = b"
  by (simp add: crc32_byte_def crc32_bits_inj xor_cancel_right)

lemma crc32_byte_inj_data: "crc32_byte a x = crc32_byte a y \<longleftrightarrow> x = y"
proof
  assume "crc32_byte a x = crc32_byte a y"
  then have "a XOR ucast x = a XOR (ucast y :: u32)"
    by (simp add: crc32_byte_def crc32_bits_inj)
  then have "(ucast x :: u32) = ucast y"
    by (simp add: xor.commute [of a] xor_cancel_right)
  then have bits: "bit (ucast x :: u32) n = bit (ucast y :: u32) n" for n by simp
  show "x = y"
  proof (rule bit_word_eqI)
    fix n assume "n < LENGTH(8)"
    then show "bit x n = bit y n" using bits [of n] by (simp add: bit_simps)
  qed
qed simp

lemma crc32_foldl_inj:
  "foldl crc32_byte a data = foldl crc32_byte b data \<longleftrightarrow> a = b"
  by (induction data arbitrary: a b) (simp_all add: crc32_byte_inj_crc)

lemma crc32_calculate_foldl:
  "ota_crc32_calculate data = foldl crc32_byte 0xFFFFFFFF data XOR 0xFFFFFFFF"
  by (simp add: ota_crc32_calculate_def ota_crc32_finish_def ota_crc32_update_def
      ota_crc32_init_def)

lemma crc32_detects_change:
  "ota_crc32_calculate (pre @ x # post) = ota_crc32_calculate (pre @ y # post) \<longleftrightarrow> x = y"
  by (simp add: crc32_calculate_foldl xor_cancel_right crc32_foldl_inj crc32_byte_inj_data)

section \<open>SHA-256\<close>

definition sha256_round_constants :: "u32 list" where
  "sha256_round_constants =
    [0x428A2F98, 0x71374491, 0xB5C0FBCF, 0xE9B5DBA5,
     0x3956C25B, 0x59F111F1, 0x923F82A4, 0xAB1C5ED5,
     0xD807AA98, 0x12835B01, 0x243185BE, 0x550C7DC3,
     0x72BE5D74, 0x80DEB1FE, 0x9BDC06A7, 0xC19BF174,
     0xE49B69C1, 0xEFBE4786, 0x0FC19DC6, 0x240CA1CC,
     0x2DE92C6F, 0x4A7484AA, 0x5CB0A9DC, 0x76F988DA,
     0x983E5152, 0xA831C66D, 0xB00327C8, 0xBF597FC7,
     0xC6E00BF3, 0xD5A79147, 0x06CA6351, 0x14292967,
     0x27B70A85, 0x2E1B2138, 0x4D2C6DFC, 0x53380D13,
     0x650A7354, 0x766A0ABB, 0x81C2C92E, 0x92722C85,
     0xA2BFE8A1, 0xA81A664B, 0xC24B8B70, 0xC76C51A3,
     0xD192E819, 0xD6990624, 0xF40E3585, 0x106AA070,
     0x19A4C116, 0x1E376C08, 0x2748774C, 0x34B0BCB5,
     0x391C0CB3, 0x4ED8AA4A, 0x5B9CCA4F, 0x682E6FF3,
     0x748F82EE, 0x78A5636F, 0x84C87814, 0x8CC70208,
     0x90BEFFFA, 0xA4506CEB, 0xBEF9A3F7, 0xC67178F2]"

definition sha256_initial_state :: "u32 list" where
  "sha256_initial_state =
    [0x6A09E667, 0xBB67AE85, 0x3C6EF372, 0xA54FF53A,
     0x510E527F, 0x9B05688C, 0x1F83D9AB, 0x5BE0CD19]"

record ota_sha256_context =
  sha_state :: "u32 list"
  sha_bit_length :: u64
  sha_buffer_length :: nat
  sha_buffer :: bytes

definition ota_rotr32 :: "u32 \<Rightarrow> nat \<Rightarrow> u32" where
  "ota_rotr32 value bits = drop_bit bits value OR push_bit (32 - bits) value"

definition sha256_schedule_word :: "u32 list \<Rightarrow> u32" where
  "sha256_schedule_word schedule =
     (let index = length schedule;
          w15 = schedule ! (index - 15);
          w2 = schedule ! (index - 2);
          s0 = ota_rotr32 w15 7 XOR ota_rotr32 w15 18 XOR drop_bit 3 w15;
          s1 = ota_rotr32 w2 17 XOR ota_rotr32 w2 19 XOR drop_bit 10 w2
      in schedule ! (index - 16) + s0 + schedule ! (index - 7) + s1)"

definition sha256_schedule :: "bytes \<Rightarrow> u32 list" where
  "sha256_schedule block =
     ((\<lambda>schedule. schedule @ [sha256_schedule_word schedule]) ^^ 48)
       (map (\<lambda>index. load_be32 block (index * 4)) [0..<16])"

type_synonym sha256_vars = "u32 \<times> u32 \<times> u32 \<times> u32 \<times> u32 \<times> u32 \<times> u32 \<times> u32"

fun sha256_round :: "sha256_vars \<Rightarrow> u32 \<times> u32 \<Rightarrow> sha256_vars" where
  "sha256_round (a, b, c, d, e, f, g, h) (constant, word) =
     (let s1 = ota_rotr32 e 6 XOR ota_rotr32 e 11 XOR ota_rotr32 e 25;
          choice = (e AND f) XOR (NOT e AND g);
          temp1 = h + s1 + choice + constant + word;
          s0 = ota_rotr32 a 2 XOR ota_rotr32 a 13 XOR ota_rotr32 a 22;
          majority = (a AND b) XOR (a AND c) XOR (b AND c);
          temp2 = s0 + majority
      in (temp1 + temp2, a, b, c, d + temp1, e, f, g))"

text \<open>The new chaining value of \<open>sha256_transform\<close>, and the routine on the context.\<close>

definition sha256_compress :: "u32 list \<Rightarrow> bytes \<Rightarrow> u32 list" where
  "sha256_compress st block =
     (case foldl sha256_round
        (st ! 0, st ! 1, st ! 2, st ! 3, st ! 4, st ! 5, st ! 6, st ! 7)
        (zip sha256_round_constants (sha256_schedule block)) of
      (a, b, c, d, e, f, g, h) \<Rightarrow>
        [st ! 0 + a, st ! 1 + b, st ! 2 + c, st ! 3 + d,
         st ! 4 + e, st ! 5 + f, st ! 6 + g, st ! 7 + h])"

definition sha256_transform :: "ota_sha256_context \<Rightarrow> bytes \<Rightarrow> ota_sha256_context" where
  "sha256_transform context block =
     context\<lparr>sha_state := sha256_compress (sha_state context) block\<rparr>"


text \<open>
  The context keeps its eight words of state and its 64-byte buffer, and between calls
  the buffer is never full.
\<close>

definition sha256_wf :: "ota_sha256_context \<Rightarrow> bool" where
  "sha256_wf context \<longleftrightarrow>
     length (sha_buffer context) = 64 \<and> sha_buffer_length context < 64"

definition ota_sha256_init :: "ota_sha256_context \<Rightarrow> ota_sha256_context" where
  "ota_sha256_init context =
     context\<lparr>sha_state := sha256_initial_state, sha_bit_length := 0, sha_buffer_length := 0\<rparr>"

text \<open>
  The copy loop.  When the buffer has no room left the code would copy nothing and spin;
  the model stops there, and \<open>sha256_wf\<close> excludes the case (the loop body empties a
  full buffer).
\<close>

function sha256_update_loop :: "ota_sha256_context \<Rightarrow> bytes \<Rightarrow> ota_sha256_context" where
  "sha256_update_loop context bytes =
     (let available = 64 - sha_buffer_length context;
          copy_length = min (length bytes) available;
          buffer' = memcpy_at (sha_buffer context) (sha_buffer_length context)
                      (take copy_length bytes);
          context1 = context\<lparr>sha_buffer := buffer',
                        sha_buffer_length := sha_buffer_length context + copy_length\<rparr>
      in if copy_length = 0 then context
         else sha256_update_loop
           (if sha_buffer_length context1 = 64
            then (sha256_transform context1 buffer')\<lparr>sha_buffer_length := 0\<rparr>
            else context1)
           (drop copy_length bytes))"
  by pat_completeness auto
termination
  by (relation "measure (\<lambda>(context, bytes). length bytes)") auto

declare sha256_update_loop.simps [simp del]

definition ota_sha256_update :: "ota_sha256_context \<Rightarrow> bytes \<Rightarrow> ota_sha256_context" where
  "ota_sha256_update context data =
     sha256_update_loop
       (context\<lparr>sha_bit_length := sha_bit_length context + of_nat (length data) * 8\<rparr>) data"

definition ota_sha256_finish :: "ota_sha256_context \<Rightarrow> bytes" where
  "ota_sha256_finish context =
     (let index = sha_buffer_length context;
          buffer1 = memcpy_at (sha_buffer context) index [0x80];
          index1 = index + 1;
          (context2, index2) =
            (if index1 > 56
             then let buffer2 = memcpy_at buffer1 index1 (replicate (64 - index1) 0)
                  in (sha256_transform (context\<lparr>sha_buffer := buffer2\<rparr>) buffer2, 0)
             else (context\<lparr>sha_buffer := buffer1\<rparr>, index1));
          buffer3 = memcpy_at (sha_buffer context2) index2 (replicate (56 - index2) 0);
          buffer4 = foldl (\<lambda>buf i. buf[63 - i := ucast (drop_bit (i * 8) (sha_bit_length context2))])
                      buffer3 [0..<8];
          context3 = sha256_transform (context2\<lparr>sha_buffer := buffer4\<rparr>) buffer4
      in concat (map store_be32 (sha_state context3)))"

text \<open>
  A context as its owner declares it on the stack.  Its contents are indeterminate; the
  digest does not depend on them (\<open>sha256_digest_spec\<close> below), so the model fixes zeros.
\<close>

definition sha256_fresh :: ota_sha256_context where
  "sha256_fresh = \<lparr>sha_state = replicate 8 0, sha_bit_length = 0, sha_buffer_length = 0,
     sha_buffer = replicate 64 0\<rparr>"

subsection \<open>The buffered update is a byte-wise fold\<close>

text \<open>
  \<open>sha256_absorb\<close> is the update of a single byte.  The copy loop is its fold, so the
  context after an update depends on the stream of bytes only, not on how the calls cut it.
\<close>

definition sha256_absorb :: "ota_sha256_context \<Rightarrow> u8 \<Rightarrow> ota_sha256_context" where
  "sha256_absorb context b =
     (let buffer' = (sha_buffer context)[sha_buffer_length context := b];
          context1 = context\<lparr>sha_buffer := buffer',
                        sha_buffer_length := sha_buffer_length context + 1\<rparr>
      in if sha_buffer_length context1 = 64
         then (sha256_transform context1 buffer')\<lparr>sha_buffer_length := 0\<rparr>
         else context1)"

lemma sha256_absorb_wf: "sha256_wf c \<Longrightarrow> sha256_wf (sha256_absorb c b)"
  by (auto simp: sha256_wf_def sha256_absorb_def sha256_transform_def Let_def)

lemma sha256_absorb_foldl_wf: "sha256_wf c \<Longrightarrow> sha256_wf (foldl sha256_absorb c xs)"
  by (induction xs arbitrary: c) (simp_all add: sha256_absorb_wf)

lemma memcpy_at_snoc:
  assumes "off + length xs < length buf"
  shows "memcpy_at buf off (xs @ [b]) = (memcpy_at buf off xs)[off + length xs := b]"
proof -
  have "drop (off + length xs) buf = buf ! (off + length xs) # drop (Suc (off + length xs)) buf"
    using assms by (simp add: Cons_nth_drop_Suc)
  then show ?thesis using assms by (simp add: memcpy_at_def list_update_append)
qed

text \<open>Bytes that leave room in the buffer are simply stored.\<close>

lemma sha256_absorb_room:
  assumes "sha256_wf c" "sha_buffer_length c + length xs < 64"
  shows "foldl sha256_absorb c xs =
    c\<lparr>sha_buffer := memcpy_at (sha_buffer c) (sha_buffer_length c) xs,
      sha_buffer_length := sha_buffer_length c + length xs\<rparr>"
  using assms(2)
proof (induction xs rule: rev_induct)
  case Nil
  then show ?case by simp
next
  case (snoc b xs)
  then have "length (sha_buffer c) = 64" and "sha_buffer_length c + length xs < 63"
    using assms(1) by (simp_all add: sha256_wf_def)
  with snoc show ?case by (simp add: sha256_absorb_def memcpy_at_snoc Let_def)
qed

text \<open>The byte that fills the buffer runs the transform on it.\<close>

lemma sha256_absorb_fill:
  assumes "sha256_wf c" "sha_buffer_length c + length xs = 64"
  shows "foldl sha256_absorb c xs =
    (let buffer' = memcpy_at (sha_buffer c) (sha_buffer_length c) xs
     in (sha256_transform (c\<lparr>sha_buffer := buffer'\<rparr>) buffer')\<lparr>sha_buffer_length := 0\<rparr>)"
proof -
  have "xs \<noteq> []" using assms by (auto simp: sha256_wf_def)
  then obtain ys b where xs: "xs = ys @ [b]" by (metis rev_exhaust)
  have len: "length (sha_buffer c) = 64" using assms(1) by (simp add: sha256_wf_def)
  have ys: "sha_buffer_length c + length ys = 63" using assms(2) xs by simp
  with sha256_absorb_room [OF assms(1), of ys] len show ?thesis
    by (simp add: xs sha256_absorb_def memcpy_at_snoc Let_def sha256_transform_def)
qed

lemma sha256_update_loop_foldl:
  "sha256_wf c \<Longrightarrow> sha256_update_loop c xs = foldl sha256_absorb c xs"
proof (induction c xs rule: sha256_update_loop.induct)
  case (1 c xs)
  let ?room = "64 - sha_buffer_length c"
  let ?k = "min (length xs) ?room"
  let ?buf = "memcpy_at (sha_buffer c) (sha_buffer_length c) (take ?k xs)"
  let ?c1 = "c\<lparr>sha_buffer := ?buf, sha_buffer_length := sha_buffer_length c + ?k\<rparr>"
  let ?next = "if sha_buffer_length ?c1 = 64
            then (sha256_transform ?c1 ?buf)\<lparr>sha_buffer_length := 0\<rparr> else ?c1"
  have room: "0 < ?room" "sha_buffer_length c + ?room = 64"
    using "1.prems" by (simp_all add: sha256_wf_def)
  show ?case
  proof (cases "xs = []")
    case True
    then show ?thesis by (simp add: sha256_update_loop.simps [of c "[]"])
  next
    case False
    then have k: "?k \<noteq> 0" using room by simp
    have step: "?next = foldl sha256_absorb c (take ?k xs)"
    proof (cases "length xs < ?room")
      case True
      then show ?thesis
        using sha256_absorb_room [OF "1.prems", of xs] by simp
    next
      case False
      then have "sha_buffer_length c + length (take ?k xs) = 64" using room by simp
      from sha256_absorb_fill [OF "1.prems" this] show ?thesis
        using False room by (simp add: Let_def sha256_transform_def)
    qed
    have "sha256_update_loop c xs = sha256_update_loop ?next (drop ?k xs)"
      using k by (simp add: sha256_update_loop.simps [of c xs] Let_def)
    also have "\<dots> = foldl sha256_absorb ?next (drop ?k xs)"
      using "1.IH" [OF refl refl refl refl k] "1.prems"
      by (simp only: step sha256_absorb_foldl_wf)
    also have "\<dots> = foldl sha256_absorb c (take ?k xs @ drop ?k xs)"
      by (simp only: step foldl_append)
    finally show ?thesis by simp
  qed
qed


lemma sha256_absorb_bit_length:
  "sha256_absorb (c\<lparr>sha_bit_length := n\<rparr>) b = (sha256_absorb c b)\<lparr>sha_bit_length := n\<rparr>"
  by (simp add: sha256_absorb_def Let_def sha256_transform_def)

lemma sha256_absorb_foldl_bit_length:
  "foldl sha256_absorb (c\<lparr>sha_bit_length := n\<rparr>) xs =
   (foldl sha256_absorb c xs)\<lparr>sha_bit_length := n\<rparr>"
  by (induction xs arbitrary: c) (simp_all add: sha256_absorb_bit_length)

lemma sha256_absorb_keeps_length: "sha_bit_length (sha256_absorb c b) = sha_bit_length c"
  by (simp add: sha256_absorb_def Let_def sha256_transform_def)

lemma sha256_absorb_foldl_keeps_length:
  "sha_bit_length (foldl sha256_absorb c xs) = sha_bit_length c"
  by (induction xs arbitrary: c) (simp_all add: sha256_absorb_keeps_length)

lemma sha256_update_foldl:
  "sha256_wf c \<Longrightarrow> ota_sha256_update c xs =
     (foldl sha256_absorb c xs)\<lparr>sha_bit_length := sha_bit_length c + of_nat (length xs) * 8\<rparr>"
  by (simp add: ota_sha256_update_def sha256_update_loop_foldl sha256_wf_def
      sha256_absorb_foldl_bit_length)

interpretation sha: stream_digest ota_sha256_update sha256_wf
proof unfold_locales
  fix c and xs ys :: bytes assume wf: "sha256_wf c"
  show "ota_sha256_update c [] = c" using wf by (simp add: sha256_update_foldl)
  show wf': "sha256_wf (ota_sha256_update c xs)"
    using sha256_absorb_foldl_wf [OF wf, of xs]
    by (simp add: sha256_update_foldl [OF wf] sha256_wf_def)
  show "ota_sha256_update (ota_sha256_update c xs) ys = ota_sha256_update c (xs @ ys)"
    using wf wf' by (simp add: sha256_update_foldl sha256_absorb_foldl_bit_length
        sha256_absorb_foldl_keeps_length algebra_simps)
qed

section \<open>The digest against the standard's padding and blocks\<close>

definition blocks64 :: "bytes \<Rightarrow> bytes list" where
  "blocks64 m = map (\<lambda>i. take 64 (drop (64 * i) m)) [0..<length m div 64]"

definition rest64 :: "bytes \<Rightarrow> bytes" where
  "rest64 m = drop (64 * (length m div 64)) m"

definition store_be64 :: "u64 \<Rightarrow> bytes" where
  "store_be64 v = map (\<lambda>i. ucast (drop_bit (8 * (7 - i)) v)) [0..<8]"

definition sha256_pad :: "bytes \<Rightarrow> bytes" where
  "sha256_pad m = m @ [0x80] @ replicate ((119 - length m mod 64) mod 64) 0 @
     store_be64 (of_nat (8 * length m))"

definition sha256_spec :: "bytes \<Rightarrow> bytes" where
  "sha256_spec m = concat (map store_be32
     (foldl sha256_compress sha256_initial_state (blocks64 (sha256_pad m))))"

lemma length_rest64: "length (rest64 m) = length m mod 64"
  by (simp add: rest64_def minus_mult_div_eq_mod)

lemma blocks64_short: "length m < 64 \<Longrightarrow> blocks64 m = []"
  by (simp add: blocks64_def)

lemma blocks64_one: "length m = 64 \<Longrightarrow> blocks64 m = [m]"
  by (simp add: blocks64_def)

lemma blocks64_aligned_append:
  assumes "length pre = 64 * q"
  shows "blocks64 (pre @ m) = blocks64 pre @ blocks64 m"
proof -
  have split: "[0..<q + length m div 64] = [0..<q] @ map (\<lambda>i. i + q) [0..<length m div 64]"
    by (simp add: map_add_upt upt_add_eq_append [of 0 q] add.commute)
  have front: "take 64 (drop (64 * i) (pre @ m)) = take 64 (drop (64 * i) pre)" if "i < q" for i
  proof -
    have "64 * i + 64 \<le> 64 * q" using that by simp
    then show ?thesis using assms by simp
  qed
  show ?thesis
    by (simp add: blocks64_def assms split front algebra_simps cong: map_cong)
qed

lemma blocks64_append: "blocks64 (m @ x) = blocks64 m @ blocks64 (rest64 m @ x)"
proof -
  let ?q = "length m div 64"
  have len: "length (take (64 * ?q) m) = 64 * ?q" by simp
  have m: "m = take (64 * ?q) m @ rest64 m" by (simp add: rest64_def)
  have "blocks64 (m @ x) = blocks64 (take (64 * ?q) m @ rest64 m @ x)"
    using m by (metis append.assoc)
  also have "\<dots> = blocks64 (take (64 * ?q) m) @ blocks64 (rest64 m @ x)"
    by (rule blocks64_aligned_append [OF len])
  also have "blocks64 (take (64 * ?q) m) = blocks64 (take (64 * ?q) m @ rest64 m)"
    by (simp only: blocks64_aligned_append [OF len] blocks64_short length_rest64) simp
  finally show ?thesis using m by simp
qed


lemma rest64_append: "rest64 (m @ x) = rest64 (rest64 m @ x)"
proof -
  let ?q = "length m div 64" and ?r = "length m mod 64"
  let ?k = "(?r + length x) div 64"
  have "length m + length x = 64 * ?q + (?r + length x)" by simp
  then have "(length m + length x) div 64 = (64 * ?q + (?r + length x)) div 64" by (rule arg_cong)
  then have div: "length (m @ x) div 64 = ?k + ?q"
    by (simp only: length_append div_mult_self4 zero_neq_numeral not_False_eq_True)
  have "drop (64 * ?q) (m @ x) = rest64 m @ x" by (simp add: rest64_def)
  then have "drop (64 * ?k) (drop (64 * ?q) (m @ x)) = drop (64 * ?k) (rest64 m @ x)" by simp
  then show ?thesis
    by (simp add: rest64_def [of "m @ x"] rest64_def [of "rest64 m @ x"] div
        length_append [of "rest64 m" x] length_rest64 distrib_left
        del: drop_append length_append)
qed

text \<open>
  What a context holds after the stream \<open>m\<close>: the chaining value of the full blocks, and
  the unfinished block in the buffer.
\<close>

definition sha256_stream :: "ota_sha256_context \<Rightarrow> bytes \<Rightarrow> bool" where
  "sha256_stream c m \<longleftrightarrow>
     sha_state c = foldl sha256_compress sha256_initial_state (blocks64 m) \<and>
     length (sha_buffer c) = 64 \<and>
     sha_buffer_length c = length m mod 64 \<and>
     take (length m mod 64) (sha_buffer c) = rest64 m"

lemma sha256_stream_wf: "sha256_stream c m \<Longrightarrow> sha256_wf c"
  by (simp add: sha256_stream_def sha256_wf_def)

lemma sha256_stream_absorb:
  assumes "sha256_stream c m"
  shows "sha256_stream (sha256_absorb c b) (m @ [b])"
proof -
  let ?r = "length m mod 64"
  have len: "length (sha_buffer c) = 64" "sha_buffer_length c = ?r" "?r < 64"
    and pre: "take ?r (sha_buffer c) = rest64 m"
    using assms by (simp_all add: sha256_stream_def)
  have upd: "take (Suc ?r) ((sha_buffer c)[?r := b]) = rest64 m @ [b]"
    using len pre by (simp add: take_Suc_conv_app_nth take_update_cancel)
  show ?thesis
  proof (cases "?r = 63")
    case True
    have mod0: "Suc (length m) mod 64 = 0" using True by presburger
    have "(sha_buffer c)[63 := b] = rest64 m @ [b]"
      using upd True len by simp
    moreover have "blocks64 (m @ [b]) = blocks64 m @ [rest64 m @ [b]]"
      using True by (simp add: blocks64_append [of m] blocks64_one length_rest64)
    moreover have "rest64 (m @ [b]) = []"
      using mod0 length_rest64 [of "m @ [b]"] by simp
    ultimately show ?thesis using assms True len mod0
      by (simp add: sha256_stream_def sha256_absorb_def Let_def sha256_transform_def length_rest64)
  next
    case False
    then have small: "Suc ?r < 64" using len by simp
    have mod: "Suc (length m) mod 64 = Suc ?r" using small by (simp add: mod_Suc)
    have "blocks64 (m @ [b]) = blocks64 m"
      using small by (simp add: blocks64_append [of m] blocks64_short length_rest64)
    moreover have "rest64 (m @ [b]) = rest64 m @ [b]"
      using small by (subst rest64_append) (simp add: rest64_def [of "rest64 m @ [b]"] length_rest64)
    ultimately show ?thesis using assms False len mod upd
      by (simp add: sha256_stream_def sha256_absorb_def Let_def)
  qed
qed

lemma sha256_stream_foldl:
  "sha256_stream c m \<Longrightarrow> sha256_stream (foldl sha256_absorb c xs) (m @ xs)"
proof (induction xs arbitrary: c m)
  case Nil
  then show ?case by simp
next
  case (Cons b xs)
  from Cons.IH [OF sha256_stream_absorb [OF Cons.prems]] show ?case by simp
qed

lemma sha256_stream_init:
  "length (sha_buffer c) = 64 \<Longrightarrow> sha256_stream (ota_sha256_init c) []"
  by (simp add: sha256_stream_def ota_sha256_init_def blocks64_def rest64_def)

lemma store_be64_loop:
  assumes "length buf = 64"
  shows "foldl (\<lambda>buf i. buf[63 - i := ucast (drop_bit (i * 8) v)]) buf [0..<8] =
    take 56 buf @ store_be64 v"
proof -
  define xs where "xs = take 56 buf"
  define ys where "ys = drop 56 buf"
  have buf: "buf = xs @ ys" "length xs = 56" "length ys = 8"
    using assms by (simp_all add: xs_def ys_def)
  then obtain y0 y1 y2 y3 y4 y5 y6 y7 where ys: "ys = [y0, y1, y2, y3, y4, y5, y6, y7]"
    by (auto simp: numeral_eq_Suc length_Suc_conv)
  have upt: "[0..<8] = [0, 1, 2, 3, 4, 5, 6, 7::nat]" by (simp add: upt_rec)
  show ?thesis
    using buf(2) by (simp add: buf(1) ys upt list_update_append store_be64_def)
qed

lemma sha256_zero_tail:
  fixes buf :: bytes
  assumes "length buf = 64" "r < n" "n \<le> 64"
  shows "take n (memcpy_at (memcpy_at buf r [0x80]) (Suc r) (replicate (n - Suc r) 0)) =
    take r buf @ [0x80] @ replicate (n - Suc r) 0"
    and "length (memcpy_at (memcpy_at buf r [0x80]) (Suc r) (replicate (n - Suc r) 0)) = 64"
proof -
  have len1: "length (memcpy_at buf r [0x80]) = 64" using assms by simp
  have end1: "Suc r + length (replicate (n - Suc r) (0::u8)) = n" using assms by simp
  have "take (r + 1) (memcpy_at buf r [0x80]) = take r buf @ [0x80]"
    using take_memcpy_at [of r "[0x80]" buf] assms by simp
  moreover have "take (Suc r + length (replicate (n - Suc r) (0::u8)))
      (memcpy_at (memcpy_at buf r [0x80]) (Suc r) (replicate (n - Suc r) 0)) =
    take (Suc r) (memcpy_at buf r [0x80]) @ replicate (n - Suc r) 0"
    by (rule take_memcpy_at) (use len1 end1 assms in simp)
  ultimately show "take n (memcpy_at (memcpy_at buf r [0x80]) (Suc r) (replicate (n - Suc r) 0)) =
    take r buf @ [0x80] @ replicate (n - Suc r) 0"
    unfolding end1 by simp
  show "length (memcpy_at (memcpy_at buf r [0x80]) (Suc r) (replicate (n - Suc r) 0)) = 64"
    by (subst length_memcpy_at) (use assms end1 len1 in simp_all)
qed

lemma sha256_finish_short:
  assumes "length (sha_buffer c) = 64" "sha_buffer_length c = r" "r < 56"
  shows "ota_sha256_finish c = concat (map store_be32 (sha256_compress (sha_state c)
     (take r (sha_buffer c) @ [0x80] @ replicate (55 - r) 0 @ store_be64 (sha_bit_length c))))"
  using assms sha256_zero_tail [OF assms(1), of r 56]
  by (simp add: ota_sha256_finish_def Let_def store_be64_loop sha256_transform_def)

lemma sha256_finish_long:
  assumes "length (sha_buffer c) = 64" "sha_buffer_length c = r" "56 \<le> r" "r < 64"
  shows "ota_sha256_finish c = concat (map store_be32 (sha256_compress (sha256_compress (sha_state c)
     (take r (sha_buffer c) @ [0x80] @ replicate (63 - r) 0))
     (replicate 56 0 @ store_be64 (sha_bit_length c))))"
proof -
  have full: "memcpy_at (memcpy_at (sha_buffer c) r [0x80]) (Suc r) (replicate (63 - r) 0) =
      take r (sha_buffer c) @ [0x80] @ replicate (63 - r) 0"
    using sha256_zero_tail [OF assms(1), of r 64] assms by simp
  have zeros: "take 56 (memcpy_at b 0 (replicate 56 0)) = replicate 56 (0::u8)"
    "length (memcpy_at b 0 (replicate 56 0)) = 64" if "length b = 64" for b :: bytes
    using that by (simp_all add: memcpy_at_def)
  show ?thesis using assms
    by (simp add: ota_sha256_finish_def Let_def store_be64_loop sha256_transform_def full zeros)
qed

lemma sha256_pad_mod:
  fixes r :: nat
  shows "r < 56 \<Longrightarrow> (119 - r) mod 64 = 55 - r"
    and "56 \<le> r \<Longrightarrow> r < 64 \<Longrightarrow> (119 - r) mod 64 = 63 - r + 56"
  by (simp_all add: mod_if)

lemma sha256_finish_stream:
  assumes "sha256_stream c m"
  shows "ota_sha256_finish c = concat (map store_be32
     (foldl sha256_compress sha256_initial_state
        (blocks64 (m @ [0x80] @ replicate ((119 - length m mod 64) mod 64) 0 @
           store_be64 (sha_bit_length c)))))"
proof -
  let ?r = "length m mod 64" and ?be = "store_be64 (sha_bit_length c)"
  have len: "length (sha_buffer c) = 64" "sha_buffer_length c = ?r" "?r < 64"
    and pre: "take ?r (sha_buffer c) = rest64 m"
    and st: "sha_state c = foldl sha256_compress sha256_initial_state (blocks64 m)"
    using assms by (simp_all add: sha256_stream_def)
  have be: "length ?be = 8" by (simp add: store_be64_def)
  show ?thesis
  proof (cases "?r < 56")
    case True
    have k: "(119 - ?r) mod 64 = 55 - ?r" using True by (rule sha256_pad_mod)
    have "blocks64 (rest64 m @ [0x80] @ replicate (55 - ?r) 0 @ ?be) =
        [rest64 m @ [0x80] @ replicate (55 - ?r) 0 @ ?be]"
      using True be by (intro blocks64_one) (simp add: length_rest64)
    then show ?thesis using sha256_finish_short [OF len(1,2) True] pre st
      by (simp only: blocks64_append [of m] k) simp
  next
    case False
    have k: "(119 - ?r) mod 64 = 63 - ?r + 56" using False len by (intro sha256_pad_mod) simp_all
    have "blocks64 ((rest64 m @ [0x80] @ replicate (63 - ?r) 0) @ replicate 56 0 @ ?be) =
        blocks64 (rest64 m @ [0x80] @ replicate (63 - ?r) 0) @ blocks64 (replicate 56 0 @ ?be)"
      using False len by (intro blocks64_aligned_append [of _ 1]) (simp add: length_rest64)
    also have "\<dots> = [rest64 m @ [0x80] @ replicate (63 - ?r) 0, replicate 56 0 @ ?be]"
      using False len be by (simp add: blocks64_one length_rest64)
    finally show ?thesis using sha256_finish_long [OF len(1,2) _ len(3)] False pre st
      by (simp only: blocks64_append [of m] k replicate_add) simp
  qed
qed

lemma sha256_update_init_stream:
  assumes "length (sha_buffer c) = 64"
  shows "sha256_stream (ota_sha256_update (ota_sha256_init c) m) m"
    and "sha_bit_length (ota_sha256_update (ota_sha256_init c) m) = of_nat (8 * length m)"
proof -
  have st: "sha256_stream (ota_sha256_init c) []" using assms by (rule sha256_stream_init)
  note upd = sha256_update_foldl [OF sha256_stream_wf [OF st], of m]
  show "sha256_stream (ota_sha256_update (ota_sha256_init c) m) m"
    using sha256_stream_foldl [OF st, of m] by (simp add: upd sha256_stream_def)
  show "sha_bit_length (ota_sha256_update (ota_sha256_init c) m) = of_nat (8 * length m)"
    by (simp add: upd) (simp add: ota_sha256_init_def)
qed

lemma sha256_digest_spec:
  "length (sha_buffer c) = 64 \<Longrightarrow>
   ota_sha256_finish (ota_sha256_update (ota_sha256_init c) m) = sha256_spec m"
  using sha256_finish_stream [OF sha256_update_init_stream(1)]
  by (simp add: sha256_spec_def sha256_pad_def sha256_update_init_stream(2))

lemma sha256_calculate:
  "ota_sha256_finish (ota_sha256_update (ota_sha256_init sha256_fresh) m) = sha256_spec m"
  by (rule sha256_digest_spec) (simp add: sha256_fresh_def)

lemma length_sha256_compress [simp]: "length (sha256_compress st b) = 8"
  by (simp add: sha256_compress_def split: prod.splits)

lemma length_sha256_spec [simp]: "length (sha256_spec m) = 32"
proof -
  have st8: "length (foldl sha256_compress sha256_initial_state bs) = 8" for bs
    by (induction bs rule: rev_induct) (simp_all add: sha256_initial_state_def)
  have "length (concat (map store_be32 ws)) = 4 * length ws" for ws
    by (induction ws) simp_all
  then show ?thesis by (simp add: sha256_spec_def st8)
qed

section \<open>Results\<close>

text \<open>The CRC-32 notices the change of any one byte, wherever it is in the message.\<close>

theorem ota_crc32_single_change:
  "ota_crc32_calculate (pre @ x # post) = ota_crc32_calculate (pre @ y # post) \<longleftrightarrow> x = y"
  by (rule crc32_detects_change)

text \<open>C10: The buffered, incremental SHA-256 of the service is the SHA-256 of the FIPS 180-4
  padding and block iteration, however the message is cut into updates.\<close>

theorem ota_sha256_streaming:
  "ota_sha256_finish (foldl ota_sha256_update (ota_sha256_init sha256_fresh) chunks) =
   sha256_spec (concat chunks)"
proof -
  have "sha256_wf (ota_sha256_init sha256_fresh)"
    by (simp add: sha256_wf_def ota_sha256_init_def sha256_fresh_def)
  then show ?thesis by (simp add: sha.update_chunks sha256_calculate)
qed

end
