(* ===== verification/Ota_Types.thy ===== *)
theory Ota_Types
  imports Prelude
begin

text \<open>
  The shared data of the update service: the constants of \<open>ota_config.h\<close>, the result
  codes and states of \<open>ota.h\<close>, and the 256-byte image header of \<open>boot_image.h\<close> with its
  memory layout on the little-endian core.
\<close>

section \<open>Configuration constants\<close>

abbreviation (input) OTA_FLASH_SECTOR_SIZE :: u32 where "OTA_FLASH_SECTOR_SIZE \<equiv> 4096"
abbreviation (input) OTA_FLASH_ERASE_CHUNK_SIZE :: u32 where "OTA_FLASH_ERASE_CHUNK_SIZE \<equiv> 65536"
abbreviation (input) OTA_SLOT_SIZE :: u32 where "OTA_SLOT_SIZE \<equiv> 1048576"
abbreviation (input) OTA_IMAGE_PAYLOAD_OFFSET :: u32 where "OTA_IMAGE_PAYLOAD_OFFSET \<equiv> 4096"
abbreviation (input) OTA_IMAGE_MAX_SIZE :: u32 where "OTA_IMAGE_MAX_SIZE \<equiv> 1044480"
abbreviation (input) OTA_APP_BASE :: u32 where "OTA_APP_BASE \<equiv> 0x08100000"
abbreviation (input) OTA_HARDWARE_ID :: u32 where "OTA_HARDWARE_ID \<equiv> 0x48373433"
abbreviation (input) OTA_CURRENT_FIRMWARE_VERSION_CODE :: u32
  where "OTA_CURRENT_FIRMWARE_VERSION_CODE \<equiv> 0x00010004"
abbreviation (input) OTA_COPY_BUFFER_SIZE :: nat where "OTA_COPY_BUFFER_SIZE \<equiv> 1024"
abbreviation (input) OTA_ALLOW_UNSIGNED_IMAGES :: bool where "OTA_ALLOW_UNSIGNED_IMAGES \<equiv> False"

definition OTA_DOWNLOAD_PARTITION_NAME :: string where
  "OTA_DOWNLOAD_PARTITION_NAME = ''download''"

definition OTA_UPGRADE_PARTITION_NAME :: string where
  "OTA_UPGRADE_PARTITION_NAME = ''upgrade''"

section \<open>Result codes and states\<close>

abbreviation (input) OTA_OK :: int where "OTA_OK \<equiv> 0"
abbreviation (input) OTA_ERROR_ARGUMENT :: int where "OTA_ERROR_ARGUMENT \<equiv> -1"
abbreviation (input) OTA_ERROR_STATE :: int where "OTA_ERROR_STATE \<equiv> -2"
abbreviation (input) OTA_ERROR_PARTITION :: int where "OTA_ERROR_PARTITION \<equiv> -3"
abbreviation (input) OTA_ERROR_SIZE :: int where "OTA_ERROR_SIZE \<equiv> -4"
abbreviation (input) OTA_ERROR_FLASH :: int where "OTA_ERROR_FLASH \<equiv> -5"
abbreviation (input) OTA_ERROR_TRANSFER_CRC :: int where "OTA_ERROR_TRANSFER_CRC \<equiv> -6"
abbreviation (input) OTA_ERROR_HEADER :: int where "OTA_ERROR_HEADER \<equiv> -7"
abbreviation (input) OTA_ERROR_IMAGE_CRC :: int where "OTA_ERROR_IMAGE_CRC \<equiv> -8"
abbreviation (input) OTA_ERROR_IMAGE_SHA256 :: int where "OTA_ERROR_IMAGE_SHA256 \<equiv> -9"
abbreviation (input) OTA_ERROR_SIGNATURE :: int where "OTA_ERROR_SIGNATURE \<equiv> -10"
abbreviation (input) OTA_ERROR_NO_MEMORY :: int where "OTA_ERROR_NO_MEMORY \<equiv> -11"
abbreviation (input) OTA_ERROR_NETWORK :: int where "OTA_ERROR_NETWORK \<equiv> -12"
abbreviation (input) OTA_ERROR_PROTOCOL :: int where "OTA_ERROR_PROTOCOL \<equiv> -13"
abbreviation (input) OTA_ERROR_TIMEOUT :: int where "OTA_ERROR_TIMEOUT \<equiv> -14"
abbreviation (input) OTA_ERROR_PACKAGE_SHA256 :: int where "OTA_ERROR_PACKAGE_SHA256 \<equiv> -15"
abbreviation (input) OTA_ERROR_UNSUPPORTED :: int where "OTA_ERROR_UNSUPPORTED \<equiv> -16"
abbreviation (input) OTA_ERROR_CANCELLED :: int where "OTA_ERROR_CANCELLED \<equiv> -17"

datatype ota_state_t =
    OTA_STATE_UNINITIALIZED
  | OTA_STATE_IDLE
  | OTA_STATE_RECEIVING
  | OTA_STATE_VALIDATING
  | OTA_STATE_COMMITTING
  | OTA_STATE_READY
  | OTA_STATE_ERROR

primrec ota_state_code :: "ota_state_t \<Rightarrow> u32" where
  "ota_state_code OTA_STATE_UNINITIALIZED = 0"
| "ota_state_code OTA_STATE_IDLE = 1"
| "ota_state_code OTA_STATE_RECEIVING = 2"
| "ota_state_code OTA_STATE_VALIDATING = 3"
| "ota_state_code OTA_STATE_COMMITTING = 4"
| "ota_state_code OTA_STATE_READY = 5"
| "ota_state_code OTA_STATE_ERROR = 6"

record ota_status_t =
  st_state :: ota_state_t
  st_last_error :: int
  st_package_size :: u32
  st_received_size :: u32
  st_firmware_version :: u32
  st_source :: string

text \<open>The status after \<open>memset(&status, 0, sizeof status)\<close>.\<close>

definition ota_status_zero :: ota_status_t where
  "ota_status_zero = \<lparr>st_state = OTA_STATE_UNINITIALIZED, st_last_error = 0,
     st_package_size = 0, st_received_size = 0, st_firmware_version = 0, st_source = []\<rparr>"

section \<open>The image header\<close>

abbreviation (input) BOOT_IMAGE_MAGIC :: u32 where "BOOT_IMAGE_MAGIC \<equiv> 0x544F4F42"
abbreviation (input) BOOT_IMAGE_FORMAT_VERSION :: u16 where "BOOT_IMAGE_FORMAT_VERSION \<equiv> 1"
abbreviation (input) BOOT_IMAGE_HEADER_SIZE :: nat where "BOOT_IMAGE_HEADER_SIZE \<equiv> 256"
abbreviation (input) BOOT_IMAGE_FLAG_VALID :: u32 where "BOOT_IMAGE_FLAG_VALID \<equiv> 1"
abbreviation (input) BOOT_SIGNATURE_NONE :: u16 where "BOOT_SIGNATURE_NONE \<equiv> 0"
abbreviation (input) BOOT_SIGNATURE_ECDSA_P256_RAW :: u16 where "BOOT_SIGNATURE_ECDSA_P256_RAW \<equiv> 1"
abbreviation (input) BOOT_IMAGE_SIGNATURE_SIZE :: nat where "BOOT_IMAGE_SIGNATURE_SIZE \<equiv> 64"

record boot_image_header_t =
  hdr_magic :: u32
  hdr_format_version :: u16
  hdr_header_size :: u16
  hdr_flags :: u32
  hdr_hardware_id :: u32
  hdr_firmware_version :: u32
  hdr_payload_offset :: u32
  hdr_image_size :: u32
  hdr_load_address :: u32
  hdr_image_crc32 :: u32
  hdr_image_sha256 :: bytes
  hdr_signature_algorithm :: u16
  hdr_signature_size :: u16
  hdr_signature :: bytes
  hdr_reserved :: bytes
  hdr_header_crc32 :: u32

text \<open>The arrays have the lengths of the declaration.\<close>

definition header_wf :: "boot_image_header_t \<Rightarrow> bool" where
  "header_wf h \<longleftrightarrow> length (hdr_image_sha256 h) = 32 \<and> length (hdr_signature h) = 64 \<and>
     length (hdr_reserved h) = 116"

text \<open>
  The bytes of the struct: every field is naturally aligned, so there is no padding
  (the source asserts \<open>sizeof == 256\<close>), and multi-byte fields are little endian.
\<close>

definition header_bytes :: "boot_image_header_t \<Rightarrow> bytes" where
  "header_bytes h =
     store_le32 (hdr_magic h) @
     store_le16 (hdr_format_version h) @
     store_le16 (hdr_header_size h) @
     store_le32 (hdr_flags h) @
     store_le32 (hdr_hardware_id h) @
     store_le32 (hdr_firmware_version h) @
     store_le32 (hdr_payload_offset h) @
     store_le32 (hdr_image_size h) @
     store_le32 (hdr_load_address h) @
     store_le32 (hdr_image_crc32 h) @
     hdr_image_sha256 h @
     store_le16 (hdr_signature_algorithm h) @
     store_le16 (hdr_signature_size h) @
     hdr_signature h @
     hdr_reserved h @
     store_le32 (hdr_header_crc32 h)"

definition header_of_bytes :: "bytes \<Rightarrow> boot_image_header_t" where
  "header_of_bytes bs =
    \<lparr>hdr_magic = load_le32 bs 0,
     hdr_format_version = load_le16 bs 4,
     hdr_header_size = load_le16 bs 6,
     hdr_flags = load_le32 bs 8,
     hdr_hardware_id = load_le32 bs 12,
     hdr_firmware_version = load_le32 bs 16,
     hdr_payload_offset = load_le32 bs 20,
     hdr_image_size = load_le32 bs 24,
     hdr_load_address = load_le32 bs 28,
     hdr_image_crc32 = load_le32 bs 32,
     hdr_image_sha256 = take 32 (drop 36 bs),
     hdr_signature_algorithm = load_le16 bs 68,
     hdr_signature_size = load_le16 bs 70,
     hdr_signature = take 64 (drop 72 bs),
     hdr_reserved = take 116 (drop 136 bs),
     hdr_header_crc32 = load_le32 bs 252\<rparr>"

lemma length_header_bytes: "header_wf h \<Longrightarrow> length (header_bytes h) = 256"
  by (simp add: header_wf_def header_bytes_def)

lemma header_of_bytes_wf: "length bs = 256 \<Longrightarrow> header_wf (header_of_bytes bs)"
  by (simp add: header_wf_def header_of_bytes_def)

lemma take_drop_chain:
  "j = i + n \<Longrightarrow> take n (drop i xs) @ drop j xs = drop i xs"
  by (metis add.commute append_take_drop_id drop_drop)

lemma header_bytes_of_bytes:
  assumes "length bs = 256"
  shows "header_bytes (header_of_bytes bs) = bs"
proof -
  have tail: "take 4 (drop 252 bs) = drop 252 bs" using assms by simp
  show ?thesis
    by (simp add: header_bytes_def header_of_bytes_def assms le16.store_load_at
        le32.store_load_at tail take_drop_chain)
qed

lemma header_bytes_inj:
  assumes "header_wf g" "header_wf h" "header_bytes g = header_bytes h"
  shows "g = h"
  using assms
  by (cases g; cases h)
     (simp add: header_bytes_def header_wf_def le16.store_append_inj le32.store_append_inj
        le32.store_eq_iff append_eq_append_conv)

lemma header_of_bytes_header_bytes: "header_wf h \<Longrightarrow> header_of_bytes (header_bytes h) = h"
  by (rule header_bytes_inj)
     (simp_all add: header_of_bytes_wf length_header_bytes header_bytes_of_bytes)

text \<open>The 256 received bytes and the header record determine each other: reading any 256 bytes
  as a header and taking its bytes again gives them back, and two headers with the same bytes
  are equal.\<close>

theorem header_roundtrip:
  assumes "length bs = 256" "header_wf h"
  shows "header_bytes (header_of_bytes bs) = bs \<and> header_of_bytes (header_bytes h) = h \<and>
    (header_bytes h = bs \<longleftrightarrow> h = header_of_bytes bs)"
  using header_bytes_of_bytes [OF assms(1)] header_of_bytes_header_bytes [OF assms(2)] by auto

lemma header_roundtrip_witness:
  "header_bytes (header_of_bytes (replicate 256 7)) = replicate 256 7"
  using header_roundtrip [of "replicate 256 7" "header_of_bytes (replicate 256 7)"]
  by (simp add: header_of_bytes_wf)

end
