(* ===== verification/Ota_Signature.thy ===== *)
theory Ota_Signature
  imports Ota_Hash Ota_Types
begin

text \<open>
  \<open>applications/ota/ota_signature.c\<close>: the 80 bytes a release signature covers and the
  decision whether an image may be installed.  The curve arithmetic (\<open>uECC_verify\<close> of the
  vendored micro-ecc) is a parameter \<open>ecdsa key digest signature\<close>.
\<close>

definition OTA_SIGNATURE_DOMAIN :: bytes where
  "OTA_SIGNATURE_DOMAIN = [0x48, 0x37, 0x34, 0x33, 0x4F, 0x54, 0x41, 0x31]"

definition ota_trusted_public_key :: bytes where
  "ota_trusted_public_key =
    [0xED, 0xA3, 0x78, 0x8A, 0x1B, 0xBB, 0xD0, 0xF6,
     0x64, 0xFD, 0x16, 0xCA, 0x35, 0xB1, 0xE5, 0x97,
     0xF7, 0xA1, 0x74, 0x15, 0x01, 0x90, 0xB2, 0xC1,
     0xE2, 0x8D, 0xDB, 0xE5, 0xFB, 0xC7, 0xD4, 0x7A,
     0x59, 0xEF, 0xAC, 0x65, 0x89, 0x9E, 0x81, 0xC5,
     0xBE, 0xAD, 0xE4, 0xEA, 0xCC, 0x56, 0xC5, 0x00,
     0xB4, 0x5C, 0x4C, 0x2A, 0x9A, 0xA9, 0xA7, 0x3F,
     0xA2, 0xDC, 0x22, 0xA8, 0xC6, 0x71, 0x90, 0x77]"

definition build_signed_data :: "boot_image_header_t \<Rightarrow> bytes \<Rightarrow> bytes" where
  "build_signed_data header image_digest =
     OTA_SIGNATURE_DOMAIN @
     store_le32 (hdr_magic header) @
     store_le16 (hdr_format_version header) @
     store_le16 (hdr_header_size header) @
     store_le32 (hdr_flags header) @
     store_le32 (hdr_hardware_id header) @
     store_le32 (hdr_firmware_version header) @
     store_le32 (hdr_payload_offset header) @
     store_le32 (hdr_image_size header) @
     store_le32 (hdr_load_address header) @
     store_le32 (hdr_image_crc32 header) @
     image_digest @
     store_le16 (hdr_signature_algorithm header) @
     store_le16 (hdr_signature_size header)"

text \<open>\<open>None\<close> is the NULL pointer the routine refuses.\<close>

definition ota_signature_verify ::
  "(bytes \<Rightarrow> bytes \<Rightarrow> bytes \<Rightarrow> bool) \<Rightarrow> boot_image_header_t option \<Rightarrow> bytes option \<Rightarrow> bool" where
  "ota_signature_verify ecdsa header image_digest =
     (case (header, image_digest) of
        (Some h, Some digest) \<Rightarrow>
          if hdr_signature_algorithm h = BOOT_SIGNATURE_NONE
          then OTA_ALLOW_UNSIGNED_IMAGES \<and> hdr_signature_size h = 0
          else if hdr_signature_algorithm h \<noteq> BOOT_SIGNATURE_ECDSA_P256_RAW \<or>
                  hdr_signature_size h \<noteq> 64
          then False
          else
            let signed_data = build_signed_data h digest;
                sha = ota_sha256_update (ota_sha256_init sha256_fresh) signed_data;
                signed_digest = ota_sha256_finish sha
            in ecdsa ota_trusted_public_key signed_digest (hdr_signature h)
      | _ \<Rightarrow> False)"

text \<open>The decision, in closed form.\<close>

lemma ota_signature_verify_iff:
  "ota_signature_verify ecdsa (Some h) (Some digest) \<longleftrightarrow>
     hdr_signature_algorithm h = BOOT_SIGNATURE_ECDSA_P256_RAW \<and>
     hdr_signature_size h = 64 \<and>
     ecdsa ota_trusted_public_key (sha256_spec (build_signed_data h digest)) (hdr_signature h)"
  by (auto simp: ota_signature_verify_def sha256_calculate)

lemma length_build_signed_data:
  "length digest = 32 \<Longrightarrow> length (build_signed_data h digest) = 80"
  by (simp add: build_signed_data_def OTA_SIGNATURE_DOMAIN_def)

text \<open>The fields a signature covers: everything but the signature, padding and header CRC.\<close>

definition signed_fields_equal :: "boot_image_header_t \<Rightarrow> boot_image_header_t \<Rightarrow> bool" where
  "signed_fields_equal g h \<longleftrightarrow>
     hdr_magic g = hdr_magic h \<and> hdr_format_version g = hdr_format_version h \<and>
     hdr_header_size g = hdr_header_size h \<and> hdr_flags g = hdr_flags h \<and>
     hdr_hardware_id g = hdr_hardware_id h \<and> hdr_firmware_version g = hdr_firmware_version h \<and>
     hdr_payload_offset g = hdr_payload_offset h \<and> hdr_image_size g = hdr_image_size h \<and>
     hdr_load_address g = hdr_load_address h \<and> hdr_image_crc32 g = hdr_image_crc32 h \<and>
     hdr_signature_algorithm g = hdr_signature_algorithm h \<and>
     hdr_signature_size g = hdr_signature_size h"

lemma build_signed_data_inj:
  "length d = length e \<Longrightarrow>
   build_signed_data g d = build_signed_data h e \<longleftrightarrow> signed_fields_equal g h \<and> d = e"
  by (auto simp: build_signed_data_def signed_fields_equal_def le16.store_append_inj
      le32.store_append_inj le16.store_eq_iff append_eq_append_conv)

text \<open>A signature binds every field it is meant to bind: the signed data of two images is the
  same exactly when all header fields but signature, padding and header CRC, and the image
  digests, are the same.\<close>

theorem signed_data_binds:
  assumes "length d = 32" "length e = 32"
  shows "length (build_signed_data g d) = 80 \<and>
    (build_signed_data g d = build_signed_data h e \<longleftrightarrow> signed_fields_equal g h \<and> d = e)"
  using assms by (simp add: length_build_signed_data build_signed_data_inj)

lemma signed_data_binds_witness:
  "build_signed_data (header_of_bytes (replicate 256 0)) (replicate 32 0) \<noteq>
   build_signed_data (header_of_bytes (replicate 256 0)) (replicate 32 1)"
  using signed_data_binds [of "replicate 32 0" "replicate 32 1"
      "header_of_bytes (replicate 256 0)" "header_of_bytes (replicate 256 0)"] by simp

text \<open>An image is accepted exactly when it declares an ECDSA P-256 signature of 64 bytes and
  the curve check passes for the built-in key on the SHA-256 of the signed data; unsigned
  images and missing arguments are rejected.\<close>

theorem ota_signature_decision:
  "ota_signature_verify ecdsa header digest \<longleftrightarrow>
     (\<exists>h d. header = Some h \<and> digest = Some d \<and>
        hdr_signature_algorithm h = BOOT_SIGNATURE_ECDSA_P256_RAW \<and> hdr_signature_size h = 64 \<and>
        ecdsa ota_trusted_public_key (sha256_spec (build_signed_data h d)) (hdr_signature h))"
proof (cases "header = None \<or> digest = None")
  case True
  then show ?thesis by (auto simp: ota_signature_verify_def split: option.splits)
next
  case False
  then show ?thesis using ota_signature_verify_iff by auto
qed

end
