(* ===== verification/Ota_Service.thy ===== *)
theory Ota_Service
  imports Fal Ota_Signature
begin

text \<open>
  \<open>applications/ota/ota.c\<close>: the transport-neutral receiver of update packages.  The static
  \<open>ota_context\<close> and the flash device are one state record, threaded through the
  operations; every public operation runs under the service's mutex, so each is one step.
  \<open>None\<close> is a failed assertion of the partition layer (a call on a NULL partition).
\<close>

section \<open>State\<close>

record 'f ota_sys =
  ota_lock :: bool
  ota_download :: "fal_partition option"
  ota_upgrade :: "fal_partition option"
  ota_status :: ota_status_t
  ota_transfer_crc :: ota_crc32_context
  ota_expected_package_crc :: u32
  ota_header :: boot_image_header_t
  ota_flash :: 'f

text \<open>
  The environment: the partition layer, whether \<open>rt_mutex_create\<close> finds memory, and the
  signature primitive.
\<close>

record 'f ota_env =
  env_fal :: "'f fal_env"
  env_mutex_create :: bool
  env_ecdsa :: "bytes \<Rightarrow> bytes \<Rightarrow> bytes \<Rightarrow> bool"

definition header_zero :: boot_image_header_t where
  "header_zero = header_of_bytes (replicate 256 0)"

text \<open>The static storage at boot.\<close>

definition ota_boot :: "'f \<Rightarrow> 'f ota_sys" where
  "ota_boot f = \<lparr>ota_lock = False, ota_download = None, ota_upgrade = None,
     ota_status = ota_status_zero, ota_transfer_crc = \<lparr>crc_value = 0\<rparr>,
     ota_expected_package_crc = 0, ota_header = header_zero, ota_flash = f\<rparr>"

section \<open>Flash helpers\<close>

definition round_up_sector :: "u32 \<Rightarrow> u32" where
  "round_up_sector n = (n + OTA_FLASH_SECTOR_SIZE - 1) AND NOT (OTA_FLASH_SECTOR_SIZE - 1)"

definition partition_read_exact ::
  "'f ota_env \<Rightarrow> fal_partition option \<Rightarrow> u32 \<Rightarrow> u32 \<Rightarrow> 'f \<Rightarrow> (int \<times> bytes \<times> 'f) option" where
  "partition_read_exact E part offset len f = do {
     (result, buffer, f) \<leftarrow> fal_partition_read (env_fal E) part offset len f;
     Some (if result = sint len then OTA_OK else OTA_ERROR_FLASH, buffer, f)
   }"

definition partition_write_exact ::
  "'f ota_env \<Rightarrow> fal_partition option \<Rightarrow> u32 \<Rightarrow> bytes \<Rightarrow> 'f \<Rightarrow> (int \<times> 'f) option" where
  "partition_write_exact E part offset buffer f = do {
     (result, f) \<leftarrow> fal_partition_write (env_fal E) part offset buffer f;
     Some (if result = sint (of_nat (length buffer) :: u32) then OTA_OK else OTA_ERROR_FLASH, f)
   }"

function partition_erase_exact ::
  "'f ota_env \<Rightarrow> fal_partition option \<Rightarrow> u32 \<Rightarrow> u32 \<Rightarrow> 'f \<Rightarrow> (int \<times> 'f) option" where
  "partition_erase_exact E part offset len f =
     (if len = 0 then Some (OTA_OK, f)
      else
        let chunk = if len < OTA_FLASH_ERASE_CHUNK_SIZE then len else OTA_FLASH_ERASE_CHUNK_SIZE
        in do {
          (result, f1) \<leftarrow> fal_partition_erase (env_fal E) part offset chunk f;
          if result \<noteq> sint chunk then Some (OTA_ERROR_FLASH, f1)
          else partition_erase_exact E part (offset + chunk) (len - chunk) f1
        })"
  by pat_completeness auto
termination
  by (relation "measure (\<lambda>(E, part, offset, len, f). unat len)")
     (auto simp: unat_sub_u32 word_le_nat_alt word_less_nat_alt unat_gt_0 split: if_splits)

declare partition_erase_exact.simps [simp del]

section \<open>Comparing and checking bytes\<close>

definition digest_equal :: "bytes \<Rightarrow> bytes \<Rightarrow> nat \<Rightarrow> bool" where
  "digest_equal left right len =
     (foldl (\<lambda>difference index. difference OR (left ! index XOR right ! index)) 0 [0..<len] = 0)"

definition bytes_are_zero :: "bytes \<Rightarrow> bool" where
  "bytes_are_zero bs = (foldl (\<lambda>combined b. combined OR b) 0 bs = 0)"

definition header_validate :: "boot_image_header_t \<Rightarrow> int" where
  "header_validate header =
     (if hdr_magic header \<noteq> BOOT_IMAGE_MAGIC \<or>
         hdr_format_version header \<noteq> BOOT_IMAGE_FORMAT_VERSION \<or>
         hdr_header_size header \<noteq> 256 \<or>
         hdr_flags header AND BOOT_IMAGE_FLAG_VALID = 0 \<or>
         hdr_hardware_id header \<noteq> OTA_HARDWARE_ID \<or>
         hdr_payload_offset header \<noteq> OTA_IMAGE_PAYLOAD_OFFSET \<or>
         hdr_image_size header < 8 \<or>
         hdr_image_size header > OTA_IMAGE_MAX_SIZE \<or>
         hdr_load_address header \<noteq> OTA_APP_BASE \<or>
         \<not> bytes_are_zero (hdr_reserved header)
      then OTA_ERROR_HEADER
      else if (hdr_signature_algorithm header = BOOT_SIGNATURE_NONE \<and>
               hdr_signature_size header \<noteq> 0) \<or>
              (hdr_signature_algorithm header = BOOT_SIGNATURE_ECDSA_P256_RAW \<and>
               hdr_signature_size header \<noteq> 64) \<or>
              (hdr_signature_algorithm header \<noteq> BOOT_SIGNATURE_NONE \<and>
               hdr_signature_algorithm header \<noteq> BOOT_SIGNATURE_ECDSA_P256_RAW)
      then OTA_ERROR_HEADER
      else
        let copy = header\<lparr>hdr_header_crc32 := 0\<rparr>;
            expected_crc = hdr_header_crc32 header
        in if ota_crc32_calculate (header_bytes copy) \<noteq> expected_crc
           then OTA_ERROR_HEADER else OTA_OK)"

text \<open>The read loop of \<open>partition_payload_validate\<close>: both digests run over each chunk.\<close>

function payload_digest_loop ::
  "'f ota_env \<Rightarrow> fal_partition option \<Rightarrow> boot_image_header_t \<Rightarrow> u32 \<Rightarrow>
     ota_crc32_context \<Rightarrow> ota_sha256_context \<Rightarrow> 'f \<Rightarrow>
     (int \<times> ota_crc32_context \<times> ota_sha256_context \<times> 'f) option" where
  "payload_digest_loop E part header position crc sha f =
     (if position < hdr_image_size header then
        let remaining = hdr_image_size header - position;
            chunk = if remaining < 1024 then remaining else 1024
        in do {
          (result, buffer, f1) \<leftarrow>
            partition_read_exact E part (hdr_payload_offset header + position) chunk f;
          if result \<noteq> OTA_OK then Some (result, crc, sha, f1)
          else payload_digest_loop E part header (position + chunk)
                 (ota_crc32_update crc buffer) (ota_sha256_update sha buffer) f1
        }
      else Some (OTA_OK, crc, sha, f))"
  by pat_completeness auto
termination
  by (relation "measure (\<lambda>(E, part, header, position, crc, sha, f).
        unat (hdr_image_size header) - unat position)") (auto simp: chunk_progress word_less_nat_alt [THEN iffD1])

declare payload_digest_loop.simps [simp del]

definition partition_payload_validate ::
  "'f ota_env \<Rightarrow> fal_partition option \<Rightarrow> boot_image_header_t \<Rightarrow> bool \<Rightarrow> 'f \<Rightarrow>
     (int \<times> 'f) option" where
  "partition_payload_validate E part header verify_signature f = do {
     (result, crc, sha, f1) \<leftarrow>
       payload_digest_loop E part header 0 (ota_crc32_init \<lparr>crc_value = 0\<rparr>)
         (ota_sha256_init sha256_fresh) f;
     if result \<noteq> OTA_OK then Some (result, f1)
     else if ota_crc32_finish crc \<noteq> hdr_image_crc32 header then Some (OTA_ERROR_IMAGE_CRC, f1)
     else
       let digest = ota_sha256_finish sha
       in if \<not> digest_equal digest (hdr_image_sha256 header) 32
          then Some (OTA_ERROR_IMAGE_SHA256, f1)
          else if verify_signature \<and>
                  \<not> ota_signature_verify (env_ecdsa E) (Some header) (Some digest)
          then Some (OTA_ERROR_SIGNATURE, f1)
          else Some (OTA_OK, f1)
   }"

definition slot_validate ::
  "'f ota_env \<Rightarrow> fal_partition option \<Rightarrow> boot_image_header_t \<Rightarrow> 'f \<Rightarrow> (int \<times> 'f) option" where
  "slot_validate E part expected_header f = do {
     (result, buffer, f1) \<leftarrow> partition_read_exact E part 0 256 f;
     if result \<noteq> OTA_OK then Some (result, f1)
     else
       let stored_header = header_of_bytes buffer
       in if header_validate stored_header \<noteq> OTA_OK \<or>
             header_bytes stored_header \<noteq> header_bytes expected_header
          then Some (OTA_ERROR_HEADER, f1)
          else partition_payload_validate E part stored_header True f1
   }"

section \<open>Copying the staged image\<close>

function commit_copy_loop ::
  "'f ota_env \<Rightarrow> fal_partition option \<Rightarrow> fal_partition option \<Rightarrow> boot_image_header_t \<Rightarrow> u32 \<Rightarrow>
     'f \<Rightarrow> (int \<times> 'f) option" where
  "commit_copy_loop E download upgrade header position f =
     (if position < hdr_image_size header then
        let remaining = hdr_image_size header - position;
            chunk = if remaining < 1024 then remaining else 1024
        in do {
          (result, buffer, f1) \<leftarrow>
            partition_read_exact E download (hdr_payload_offset header + position) chunk f;
          if result \<noteq> OTA_OK then Some (result, f1)
          else do {
            (result, f2) \<leftarrow>
              partition_write_exact E upgrade (hdr_payload_offset header + position) buffer f1;
            if result \<noteq> OTA_OK then Some (result, f2)
            else commit_copy_loop E download upgrade header (position + chunk) f2
          }
        }
      else Some (OTA_OK, f))"
  by pat_completeness auto
termination
  by (relation "measure (\<lambda>(E, download, upgrade, header, position, f).
        unat (hdr_image_size header) - unat position)")
     (auto simp: chunk_progress word_less_nat_alt [THEN iffD1])

declare commit_copy_loop.simps [simp del]

definition commit_to_upgrade ::
  "'f ota_env \<Rightarrow> fal_partition option \<Rightarrow> fal_partition option \<Rightarrow> boot_image_header_t \<Rightarrow> 'f \<Rightarrow>
     (int \<times> 'f) option" where
  "commit_to_upgrade E download upgrade header f = do {
     let required_size = hdr_payload_offset header + hdr_image_size header;
     let erase_size = round_up_sector required_size;
     (result, f1) \<leftarrow> partition_erase_exact E upgrade 0 erase_size f;
     if result \<noteq> OTA_OK then Some (OTA_ERROR_FLASH, f1)
     else do {
       (result, f2) \<leftarrow> commit_copy_loop E download upgrade header 0 f1;
       if result \<noteq> OTA_OK then Some (result, f2)
       else do {
         (result, f3) \<leftarrow> partition_payload_validate E upgrade header True f2;
         if result \<noteq> OTA_OK then Some (result, f3)
         else do {
           (result, f4) \<leftarrow> partition_write_exact E upgrade 0 (header_bytes header) f3;
           if result \<noteq> OTA_OK then Some (result, f4)
           else slot_validate E upgrade header f4
         }
       }
     }
   }"

section \<open>Operations of the service\<close>

definition set_error :: "int \<Rightarrow> 'f ota_sys \<Rightarrow> 'f ota_sys" where
  "set_error error s =
     s\<lparr>ota_status := (ota_status s)\<lparr>st_state := OTA_STATE_ERROR, st_last_error := error\<rparr>\<rparr>"

definition ota_service_init :: "'f ota_env \<Rightarrow> 'f ota_sys \<Rightarrow> int \<times> 'f ota_sys" where
  "ota_service_init E s =
     (if ota_lock s then (OTA_OK, s)
      else if \<not> env_mutex_create E then (OTA_ERROR_NO_MEMORY, s)
      else
        let download = fal_partition_find (env_fal E) OTA_DOWNLOAD_PARTITION_NAME;
            upgrade = fal_partition_find (env_fal E) OTA_UPGRADE_PARTITION_NAME;
            s1 = s\<lparr>ota_lock := True, ota_download := download, ota_upgrade := upgrade\<rparr>
        in if (case (download, upgrade) of
                 (Some d, Some u) \<Rightarrow> part_len d < OTA_SLOT_SIZE \<or> part_len u < OTA_SLOT_SIZE
               | _ \<Rightarrow> True)
           then (OTA_ERROR_PARTITION,
                 s1\<lparr>ota_status := (ota_status s1)\<lparr>st_state := OTA_STATE_ERROR,
                                                  st_last_error := OTA_ERROR_PARTITION\<rparr>\<rparr>)
           else (OTA_OK,
                 s1\<lparr>ota_status := (ota_status s1)\<lparr>st_state := OTA_STATE_IDLE,
                                                  st_last_error := OTA_OK\<rparr>\<rparr>))"

text \<open>The \<open>source\<close> field holds 15 characters and a NUL; \<open>None\<close> is a NULL source.\<close>

definition ota_begin ::
  "'f ota_env \<Rightarrow> string option \<Rightarrow> u32 \<Rightarrow> u32 \<Rightarrow> 'f ota_sys \<Rightarrow> (int \<times> 'f ota_sys) option" where
  "ota_begin E source package_size package_crc32 s =
     (case ota_service_init E s of (result, s) \<Rightarrow>
        if result \<noteq> OTA_OK then Some (result, s)
        else if package_size < 256 \<or> package_size > OTA_SLOT_SIZE
        then Some (OTA_ERROR_SIZE, s)
        else if st_state (ota_status s) = OTA_STATE_RECEIVING \<or>
                st_state (ota_status s) = OTA_STATE_VALIDATING \<or>
                st_state (ota_status s) = OTA_STATE_COMMITTING
        then Some (OTA_ERROR_STATE, s)
        else
          let status = ota_status_zero\<lparr>st_state := OTA_STATE_RECEIVING,
                 st_package_size := package_size,
                 st_source := (case source of None \<Rightarrow> [] | Some name \<Rightarrow> take 15 name)\<rparr>;
              s1 = s\<lparr>ota_header := header_zero, ota_status := status,
                     ota_expected_package_crc := package_crc32,
                     ota_transfer_crc := ota_crc32_init (ota_transfer_crc s)\<rparr>;
              erase_size = round_up_sector package_size
          in do {
            (result, f) \<leftarrow> partition_erase_exact E (ota_download s1) 0 erase_size (ota_flash s1);
            if result \<noteq> OTA_OK
            then Some (OTA_ERROR_FLASH, set_error OTA_ERROR_FLASH (s1\<lparr>ota_flash := f\<rparr>))
            else Some (OTA_OK, s1\<lparr>ota_flash := f\<rparr>)
          })"

text \<open>
  \<open>None\<close> data is a NULL pointer.  The header bytes of the package go to the RAM copy, the
  rest to the download slot, so the slot's first 256 bytes stay erased.
\<close>

definition ota_write ::
  "'f ota_env \<Rightarrow> u32 \<Rightarrow> bytes option \<Rightarrow> 'f ota_sys \<Rightarrow> (int \<times> 'f ota_sys) option" where
  "ota_write E offset data s =
     (case data of
        None \<Rightarrow> Some (OTA_ERROR_ARGUMENT, s)
      | Some bs \<Rightarrow>
          if bs = [] then Some (OTA_ERROR_ARGUMENT, s)
          else if \<not> ota_lock s then Some (OTA_ERROR_STATE, s)
          else if st_state (ota_status s) \<noteq> OTA_STATE_RECEIVING \<or>
                  offset \<noteq> st_received_size (ota_status s) \<or>
                  offset > st_package_size (ota_status s) \<or>
                  length bs > unat (st_package_size (ota_status s) - offset)
          then Some (OTA_ERROR_STATE, s)
          else
            let s1 = s\<lparr>ota_transfer_crc := ota_crc32_update (ota_transfer_crc s) bs\<rparr>;
                header_length = min (BOOT_IMAGE_HEADER_SIZE - unat offset) (length bs);
                consumed = if unat offset < BOOT_IMAGE_HEADER_SIZE then header_length else 0;
                s2 = if unat offset < BOOT_IMAGE_HEADER_SIZE
                     then s1\<lparr>ota_header := header_of_bytes
                            (memcpy_at (header_bytes (ota_header s1)) (unat offset)
                               (take header_length bs))\<rparr>
                     else s1
            in do {
              (result, f) \<leftarrow>
                if consumed < length bs
                then partition_write_exact E (ota_download s2) (offset + of_nat consumed)
                       (drop consumed bs) (ota_flash s2)
                else Some (OTA_OK, ota_flash s2);
              let s3 = s2\<lparr>ota_flash := f\<rparr>;
              Some (result,
                if result = OTA_OK
                then s3\<lparr>ota_status := (ota_status s3)
                       \<lparr>st_received_size := st_received_size (ota_status s3) +
                                             of_nat (length bs)\<rparr>\<rparr>
                else set_error result s3)
            })"

definition set_state :: "ota_state_t \<Rightarrow> 'f ota_sys \<Rightarrow> 'f ota_sys" where
  "set_state state s = s\<lparr>ota_status := (ota_status s)\<lparr>st_state := state\<rparr>\<rparr>"

definition ota_finish :: "'f ota_env \<Rightarrow> 'f ota_sys \<Rightarrow> (int \<times> 'f ota_sys) option" where
  "ota_finish E s =
     (if \<not> ota_lock s then Some (OTA_ERROR_STATE, s)
      else if st_state (ota_status s) \<noteq> OTA_STATE_RECEIVING \<or>
              st_received_size (ota_status s) \<noteq> st_package_size (ota_status s)
      then Some (OTA_ERROR_STATE, s)
      else
        let s1 = set_state OTA_STATE_VALIDATING s;
            header = ota_header s1
        in if ota_crc32_finish (ota_transfer_crc s1) \<noteq> ota_expected_package_crc s1
           then Some (OTA_ERROR_TRANSFER_CRC, set_error OTA_ERROR_TRANSFER_CRC s1)
           else
             let result = header_validate header;
                 required_size = hdr_payload_offset header + hdr_image_size header
             in if result \<noteq> OTA_OK \<or> required_size < hdr_payload_offset header \<or>
                   required_size > st_package_size (ota_status s1)
                then let result = if result \<noteq> OTA_OK then result else OTA_ERROR_SIZE
                     in Some (result, set_error result s1)
                else do {
                  (result, f1) \<leftarrow>
                    partition_payload_validate E (ota_download s1) header True (ota_flash s1);
                  let s2 = s1\<lparr>ota_flash := f1\<rparr>;
                  if result \<noteq> OTA_OK then Some (result, set_error result s2)
                  else do {
                    (result, f2) \<leftarrow> partition_write_exact E (ota_download s2) 0
                                      (header_bytes header) (ota_flash s2);
                    (result, f3) \<leftarrow> if result = OTA_OK
                                    then slot_validate E (ota_download s2) header f2
                                    else Some (result, f2);
                    let s3 = s2\<lparr>ota_flash := f3\<rparr>;
                    if result \<noteq> OTA_OK then Some (result, set_error result s3)
                    else do {
                      let s4 = set_state OTA_STATE_COMMITTING s3;
                      (result, f4) \<leftarrow> commit_to_upgrade E (ota_download s4) (ota_upgrade s4)
                                        header (ota_flash s4);
                      let s5 = s4\<lparr>ota_flash := f4\<rparr>;
                      if result \<noteq> OTA_OK then Some (result, set_error result s5)
                      else Some (OTA_OK, s5\<lparr>ota_status := (ota_status s5)
                             \<lparr>st_state := OTA_STATE_READY, st_last_error := OTA_OK,
                              st_firmware_version := hdr_firmware_version header\<rparr>\<rparr>)
                    }
                  }
                })"

definition ota_abort :: "'f ota_env \<Rightarrow> 'f ota_sys \<Rightarrow> 'f ota_sys option" where
  "ota_abort E s =
     (if \<not> ota_lock s then Some s
      else do {
        f \<leftarrow> (case ota_download s of
                None \<Rightarrow> Some (ota_flash s)
              | Some p \<Rightarrow> do {
                  (result, f) \<leftarrow> fal_partition_erase (env_fal E) (Some p) 0 OTA_FLASH_SECTOR_SIZE
                                   (ota_flash s);
                  Some f
                });
        Some (s\<lparr>ota_flash := f,
                ota_status := ota_status_zero\<lparr>st_state := OTA_STATE_IDLE\<rparr>\<rparr>)
      })"

definition ota_get_status :: "'f ota_sys \<Rightarrow> ota_status_t" where
  "ota_get_status s =
     (if \<not> ota_lock s
      then ota_status_zero\<lparr>st_state := OTA_STATE_UNINITIALIZED\<rparr>
      else ota_status s)"

definition ota_result_string :: "int \<Rightarrow> string" where
  "ota_result_string result =
     (if result = OTA_OK then ''ok''
      else if result = OTA_ERROR_ARGUMENT then ''invalid argument''
      else if result = OTA_ERROR_STATE then ''invalid state or offset''
      else if result = OTA_ERROR_PARTITION then ''partition unavailable''
      else if result = OTA_ERROR_SIZE then ''package size invalid''
      else if result = OTA_ERROR_FLASH then ''flash I/O failed''
      else if result = OTA_ERROR_TRANSFER_CRC then ''package transfer CRC mismatch''
      else if result = OTA_ERROR_HEADER then ''image header invalid''
      else if result = OTA_ERROR_IMAGE_CRC then ''payload CRC mismatch''
      else if result = OTA_ERROR_IMAGE_SHA256 then ''payload SHA-256 mismatch''
      else if result = OTA_ERROR_SIGNATURE then ''signature rejected''
      else if result = OTA_ERROR_NO_MEMORY then ''out of memory''
      else if result = OTA_ERROR_NETWORK then ''network failed''
      else if result = OTA_ERROR_PROTOCOL then ''protocol error''
      else if result = OTA_ERROR_TIMEOUT then ''timeout''
      else if result = OTA_ERROR_PACKAGE_SHA256 then ''package SHA-256 mismatch''
      else if result = OTA_ERROR_UNSUPPORTED then ''feature unsupported''
      else if result = OTA_ERROR_CANCELLED then ''operation cancelled''
      else ''unknown error'')"

text \<open>A CPU reset does not return; it is the other outcome of \<open>ota_reboot_to_install\<close>.\<close>

datatype reboot_outcome = Returned int | CpuReset

definition ota_reboot_to_install :: "u32 \<Rightarrow> 'f ota_sys \<Rightarrow> reboot_outcome" where
  "ota_reboot_to_install delay_ms s =
     (let status = ota_get_status s
      in if st_state status \<noteq> OTA_STATE_READY then Returned OTA_ERROR_STATE else CpuReset)"

lemma set_state_simps [simp]:
  "ota_lock (set_state st s) = ota_lock s" "ota_download (set_state st s) = ota_download s"
  "ota_upgrade (set_state st s) = ota_upgrade s" "ota_flash (set_state st s) = ota_flash s"
  "ota_header (set_state st s) = ota_header s"
  "ota_transfer_crc (set_state st s) = ota_transfer_crc s"
  "ota_expected_package_crc (set_state st s) = ota_expected_package_crc s"
  "ota_status (set_state st s) = (ota_status s)\<lparr>st_state := st\<rparr>"
  by (simp_all add: set_state_def)

lemma set_error_simps [simp]:
  "ota_lock (set_error e s) = ota_lock s" "ota_download (set_error e s) = ota_download s"
  "ota_upgrade (set_error e s) = ota_upgrade s" "ota_flash (set_error e s) = ota_flash s"
  "ota_header (set_error e s) = ota_header s"
  "ota_transfer_crc (set_error e s) = ota_transfer_crc s"
  "ota_expected_package_crc (set_error e s) = ota_expected_package_crc s"
  "ota_status (set_error e s) =
     (ota_status s)\<lparr>st_state := OTA_STATE_ERROR, st_last_error := e\<rparr>"
  by (simp_all add: set_error_def)

end
