(* ===== verification/Ota_Install.thy ===== *)
theory Ota_Install
  imports Ota_Service
begin

text \<open>
  What the flash helpers of \<open>ota.c\<close> do to a NOR device: the exact read, write and erase
  calls, the digest loop, the slot check and the copy to the upgrade slot, and from them
  what a slot holds when \<open>ota_finish\<close> succeeds and when it fails.
\<close>

named_theorems frame_intros \<open>changes confined to one partition\<close>

section \<open>Views of a partition\<close>

definition part_bytes :: "('f \<Rightarrow> nat \<Rightarrow> u8) \<Rightarrow> fal_partition \<Rightarrow> 'f \<Rightarrow> nat \<Rightarrow> nat \<Rightarrow> bytes" where
  "part_bytes mem p f i n = map (part_mem mem p f) [i..<i + n]"

text \<open>Nothing outside the partition changed.\<close>

definition part_frame :: "('f \<Rightarrow> nat \<Rightarrow> u8) \<Rightarrow> fal_partition \<Rightarrow> 'f \<Rightarrow> 'f \<Rightarrow> bool" where
  "part_frame mem p f f' \<longleftrightarrow>
     (\<forall>a. a < unat (part_offset p) \<or> unat (part_offset p) + unat (part_len p) \<le> a \<longrightarrow>
        mem f' a = mem f a)"

lemma part_frame_same [frame_intros]: "mem f' = mem f \<Longrightarrow> part_frame mem p f f'"
  by (simp add: part_frame_def)

lemma part_frame_trans [trans]:
  "part_frame mem p f g \<Longrightarrow> part_frame mem p g h \<Longrightarrow> part_frame mem p f h"
  by (auto simp: part_frame_def)

lemma part_frame_disjoint:
  assumes "part_frame mem p f f'" "part_disjoint p q" "i < unat (part_len q)"
  shows "part_mem mem q f' i = part_mem mem q f i"
  using assms by (auto simp: part_frame_def part_disjoint_def part_mem_def)

lemma part_bytes_frame:
  assumes "part_frame mem p f f'" "part_disjoint p q" "i + n \<le> unat (part_len q)"
  shows "part_bytes mem q f' i n = part_bytes mem q f i n"
  using assms by (auto simp: part_bytes_def intro!: part_frame_disjoint)

lemma part_disjoint_sym: "part_disjoint p q \<longleftrightarrow> part_disjoint q p"
  by (auto simp: part_disjoint_def)

lemma length_part_bytes [simp]: "length (part_bytes mem p f i n) = n"
  by (simp add: part_bytes_def)

lemma nth_part_bytes [simp]: "k < n \<Longrightarrow> part_bytes mem p f i n ! k = part_mem mem p f (i + k)"
  by (simp add: part_bytes_def)

lemma part_bytes_append:
  "part_bytes mem p f i n @ part_bytes mem p f (i + n) k = part_bytes mem p f i (n + k)"
  using upt_add_eq_append [of i "i + n" k]
  by (simp add: part_bytes_def add.assoc flip: map_append)

lemma part_bytes_0 [simp]: "part_bytes mem p f i 0 = []"
  by (simp add: part_bytes_def)

lemma part_bytes_same: "mem f' = mem f \<Longrightarrow> part_bytes mem p f' i n = part_bytes mem p f i n"
  by (simp add: part_bytes_def part_mem_def)

lemma part_mem_same: "mem f' = mem f \<Longrightarrow> part_mem mem p f' = part_mem mem p f"
  by (simp add: part_mem_def fun_eq_iff)

lemma part_bytes_cong:
  "(\<And>k. i \<le> k \<Longrightarrow> k < i + n \<Longrightarrow> part_mem mem p f' k = part_mem mem p f k) \<Longrightarrow>
   part_bytes mem p f' i n = part_bytes mem p f i n"
  by (simp add: part_bytes_def)

section \<open>Comparing bytes\<close>

lemma foldl_or_zero:
  "foldl (\<lambda>d i. d OR g i) (d :: u8) xs = 0 \<longleftrightarrow> d = 0 \<and> (\<forall>i\<in>set xs. g i = 0)"
proof (induction xs arbitrary: d)
  case (Cons x xs)
  have "d OR g x = 0 \<longleftrightarrow> d = 0 \<and> g x = 0" by (rule or_eq_0_iff)
  with Cons show ?case by auto
qed simp

lemma xor_eq_0: "a XOR b = 0 \<longleftrightarrow> a = (b :: 'a::len word)"
  using xor_cancel_right [of a b b] by simp

lemma digest_equal_iff:
  "length left = n \<Longrightarrow> length right = n \<Longrightarrow> digest_equal left right n \<longleftrightarrow> left = right"
  unfolding digest_equal_def foldl_or_zero xor_eq_0 by (auto intro: nth_equalityI)

lemma bytes_are_zero_iff: "bytes_are_zero bs \<longleftrightarrow> (\<forall>b\<in>set bs. b = 0)"
  unfolding bytes_are_zero_def foldl_or_zero [of "\<lambda>b. b" 0 bs] by simp

section \<open>Sector rounding\<close>

lemma round_up_sector_unat:
  assumes "unat n \<le> 2 ^ 32 - 4096"
  shows "unat (round_up_sector n) = (unat n + 4095) div 4096 * 4096"
proof -
  define m where "m = n + 4095"
  have m: "unat m = unat n + 4095" using assms by (simp add: m_def unat_add_u32)
  have mask: "(4095 :: u32) = mask 12" by (simp add: mask_eq_exp_minus_1)
  have "round_up_sector n = m AND NOT (mask 12)"
    unfolding round_up_sector_def m_def mask [symmetric] by (simp add: add.commute)
  also have "\<dots> = m - take_bit 12 m"
    unfolding take_bit_eq_mask
    by (subst disjunctive_diff_eq_and_not) (auto simp: bit_eq_iff bit_simps)
  finally have diff: "round_up_sector n = m - take_bit 12 m" .
  have "take_bit 12 m \<le> m"
    by (simp add: word_le_nat_alt unsigned_take_bit_eq take_bit_nat_less_eq_self)
  then have "unat (round_up_sector n) = unat m - unat (take_bit 12 m)"
    unfolding diff by (rule unat_sub_u32)
  also have "\<dots> = unat m - unat m mod 4096"
    unfolding unsigned_take_bit_eq by (simp add: take_bit_eq_mod)
  finally show ?thesis using m by (simp add: minus_mod_eq_div_mult)
qed

section \<open>The exact calls\<close>

lemma read_exact_nor:
  assumes nor: "nor_part E mem p" and small: "unat addr + unat len < 2 ^ 31"
    and call: "partition_read_exact \<E> (Some p) addr len f = Some (r, data, f')"
    and env: "env_fal \<E> = E"
  shows "mem f' = mem f"
    and "r = OTA_OK \<Longrightarrow> data = part_bytes mem p f (unat addr) (unat len)"
proof -
  from call obtain res where res: "fal_partition_read E (Some p) addr len f = Some (res, data, f')"
    and r: "r = (if res = sint len then OTA_OK else OTA_ERROR_FLASH)"
    by (auto simp: partition_read_exact_def env split: Option.bind_splits)
  have small': "unat addr + unat len < 2 ^ 32" using small by simp
  have len: "sint len = int (unat len)" using small by (intro sint_small_u32) simp
  note out = fal_read_nor [OF nor small' res]
  show "mem f' = mem f" by (rule out(1))
  show "data = part_bytes mem p f (unat addr) (unat len)" if "r = OTA_OK"
    unfolding part_bytes_def by (rule out(2)) (use that r len in \<open>auto split: if_splits\<close>)
qed

lemma write_exact_nor:
  assumes nor: "nor_part E mem p" and small: "unat addr + length buf < 2 ^ 31"
    and call: "partition_write_exact \<E> (Some p) addr buf f = Some (r, f')"
    and env: "env_fal \<E> = E"
  shows "part_frame mem p f f'"
    and "i < unat addr \<or> unat addr + length buf \<le> i \<Longrightarrow> part_mem mem p f' i = part_mem mem p f i"
    and "r = OTA_OK \<Longrightarrow> k < length buf \<Longrightarrow>
      part_mem mem p f' (unat addr + k) = part_mem mem p f (unat addr + k) AND buf ! k"
proof -
  from call obtain res where res: "fal_partition_write E (Some p) addr buf f = Some (res, f')"
    and r: "r = (if res = sint (of_nat (length buf) :: u32) then OTA_OK else OTA_ERROR_FLASH)"
    by (auto simp: partition_write_exact_def env split: Option.bind_splits)
  have small': "unat addr + length buf < 2 ^ 32" using small by simp
  have un: "unat (of_nat (length buf) :: u32) = length buf" using small by simp
  then have len: "sint (of_nat (length buf) :: u32) = int (length buf)"
    using sint_small_u32 [of "of_nat (length buf)"] small by simp
  note out = fal_write_nor [OF nor small' res]
  show "part_frame mem p f f'"
    unfolding part_frame_def
  proof (intro allI impI)
    fix a assume "a < unat (part_offset p) \<or> unat (part_offset p) + unat (part_len p) \<le> a"
    then show "mem f' a = mem f a" by (intro out(1)) auto
  qed
  show "part_mem mem p f' i = part_mem mem p f i"
    if "i < unat addr \<or> unat addr + length buf \<le> i"
    unfolding part_mem_def by (rule out(1)) (use that in auto)
  show "part_mem mem p f' (unat addr + k) = part_mem mem p f (unat addr + k) AND buf ! k"
    if "r = OTA_OK" "k < length buf"
    by (rule out(2)) (use that r len in \<open>auto split: if_splits\<close>)
qed

lemma and_ff: "(0xFF :: u8) AND x = x"
proof -
  have "(0xFF :: u8) = - 1" by simp
  then show ?thesis by (simp only: and.left_neutral)
qed

lemma write_erased_nor:
  assumes "nor_part E mem p" "unat addr + length buf < 2 ^ 31"
    "partition_write_exact \<E> (Some p) addr buf f = Some (OTA_OK, f')" "env_fal \<E> = E"
    and erased: "\<And>i. unat addr \<le> i \<Longrightarrow> i < unat addr + length buf \<Longrightarrow> part_mem mem p f i = 0xFF"
  shows "part_bytes mem p f' (unat addr) (length buf) = buf"
  using write_exact_nor(3) [OF assms(1-4)] erased
  by (intro nth_equalityI) (simp_all add: and_ff)

lemma erase_exact_nor:
  assumes "nor_part E mem p" "env_fal \<E> = E" "unat addr + unat len < 2 ^ 31"
    "4096 dvd unat addr" "4096 dvd unat len"
    "partition_erase_exact \<E> (Some p) addr len f = Some (r, f')"
  shows "part_frame mem p f f' \<and>
    (\<forall>i. i < unat addr \<or> unat addr + unat len \<le> i \<longrightarrow> part_mem mem p f' i = part_mem mem p f i) \<and>
    (r = OTA_OK \<longrightarrow> (\<forall>i. unat addr \<le> i \<and> i < unat addr + unat len \<longrightarrow> part_mem mem p f' i = 0xFF))"
  using assms(2-6)
proof (induction "\<E>" "Some p" addr len f rule: partition_erase_exact.induct)
  case (1 \<E> addr len f)
  show ?case
  proof (cases "len = 0")
    case True
    then show ?thesis using "1.prems" by (auto simp: partition_erase_exact.simps frame_intros)
  next
    case False
    define chunk where "chunk = (if len < OTA_FLASH_ERASE_CHUNK_SIZE then len else OTA_FLASH_ERASE_CHUNK_SIZE)"
    have chunk: "unat chunk \<le> unat len" "4096 dvd unat chunk" "unat chunk < 2 ^ 31"
      using "1.prems"(2,4)
      by (auto simp: chunk_def word_less_nat_alt)
    from "1.prems"(5) False obtain res f1 where
      call: "fal_partition_erase E (Some p) addr chunk f = Some (res, f1)"
      and rest: "(if res \<noteq> sint chunk then Some (OTA_ERROR_FLASH, f1)
                 else partition_erase_exact \<E> (Some p) (addr + chunk) (len - chunk) f1) = Some (r, f')"
      by (subst (asm) partition_erase_exact.simps)
         (auto simp: Let_def chunk_def [symmetric] "1.prems"(1) split: Option.bind_splits)
    have small: "unat addr + unat chunk < 2 ^ 32" using "1.prems"(2) chunk by simp
    note out = fal_erase_nor [OF assms(1) small "1.prems"(3) chunk(2) call]
    have frame: "part_frame mem p f f1"
      unfolding part_frame_def
    proof (intro allI impI)
      fix a assume "a < unat (part_offset p) \<or> unat (part_offset p) + unat (part_len p) \<le> a"
      then show "mem f1 a = mem f a" by (intro out(1)) auto
    qed
    have keep: "part_mem mem p f1 i = part_mem mem p f i"
      if "i < unat addr \<or> unat addr + unat chunk \<le> i" for i
      unfolding part_mem_def by (rule out(1)) (use that in auto)
    show ?thesis
    proof (cases "res = sint chunk")
      case True
      have ok: "res = int (unat chunk)" using sint_small_u32 [OF chunk(3)] True by simp
      have pos: "unat (addr + chunk) = unat addr + unat chunk"
        "unat (len - chunk) = unat len - unat chunk"
        using small chunk(1) by (simp_all add: unat_add_u32 unat_sub_u32 word_le_nat_alt)
      have rec: "partition_erase_exact \<E> (Some p) (addr + chunk) (len - chunk) f1 = Some (r, f')"
        using rest True by simp
      have next_at: "unat (addr + chunk) + unat (len - chunk) < 2 ^ 31"
        "4096 dvd unat (addr + chunk)" "4096 dvd unat (len - chunk)"
        using "1.prems"(2-4) chunk by (simp_all add: pos dvd_diff_nat)
      have IH: "part_frame mem p f1 f' \<and>
         (\<forall>i. i < unat (addr + chunk) \<or> unat (addr + chunk) + unat (len - chunk) \<le> i \<longrightarrow>
            part_mem mem p f' i = part_mem mem p f1 i) \<and>
         (r = OTA_OK \<longrightarrow> (\<forall>i. unat (addr + chunk) \<le> i \<and> i < unat (addr + chunk) + unat (len - chunk) \<longrightarrow>
            part_mem mem p f' i = 0xFF))"
        by (rule "1.hyps" [OF False chunk_def])
           (use call True rec next_at "1.prems"(1) in simp_all)
      then have rest_ok: "part_frame mem p f1 f'"
        "\<And>i. i < unat addr + unat chunk \<or> unat addr + unat len \<le> i \<Longrightarrow>
           part_mem mem p f' i = part_mem mem p f1 i"
        "\<And>i. r = OTA_OK \<Longrightarrow> unat addr + unat chunk \<le> i \<Longrightarrow> i < unat addr + unat len \<Longrightarrow>
           part_mem mem p f' i = 0xFF"
        using chunk(1) by (auto simp: pos)
      show ?thesis
      proof (intro conjI allI impI)
        show "part_frame mem p f f'" using frame rest_ok(1) by (rule part_frame_trans)
        fix i assume "i < unat addr \<or> unat addr + unat len \<le> i"
        then show "part_mem mem p f' i = part_mem mem p f i"
          using rest_ok(2) [of i] keep [of i] chunk(1) by auto
      next
        fix i assume "r = OTA_OK" "unat addr \<le> i \<and> i < unat addr + unat len"
        then show "part_mem mem p f' i = 0xFF"
          using rest_ok(2,3) [of i] out(2) [OF ok, of i] by (cases "i < unat addr + unat chunk") auto
      qed
    next
      case False
      then have "r = OTA_ERROR_FLASH" "f' = f1" using rest by simp_all
      then show ?thesis using frame keep chunk(1) by auto
    qed
  qed
qed

section \<open>The digest loop\<close>

lemma payload_digest_loop_nor:
  assumes nor: "nor_part E mem p"
    and "env_fal \<E> = E" "unat (hdr_payload_offset h) + unat (hdr_image_size h) < 2 ^ 31"
    "unat position \<le> unat (hdr_image_size h)" "sha256_wf sha"
    "payload_digest_loop \<E> (Some p) h position crc sha f = Some (r, crc', sha', f')"
  shows "mem f' = mem f \<and>
    (r = OTA_OK \<longrightarrow>
       crc' = ota_crc32_update crc (part_bytes mem p f
         (unat (hdr_payload_offset h) + unat position) (unat (hdr_image_size h) - unat position)) \<and>
       sha' = ota_sha256_update sha (part_bytes mem p f
         (unat (hdr_payload_offset h) + unat position) (unat (hdr_image_size h) - unat position)))"
  using assms(2-6)
proof (induction "\<E>" "Some p" h position crc sha f rule: payload_digest_loop.induct)
  case (1 \<E> h position crc sha f)
  let ?size = "hdr_image_size h" and ?off = "hdr_payload_offset h"
  show ?case
  proof (cases "position < ?size")
    case False
    then show ?thesis using "1.prems"
      by (auto simp: payload_digest_loop.simps word_less_nat_alt crc.update_Nil sha.update_Nil)
  next
    case True
    define remaining where "remaining = ?size - position"
    define chunk where "chunk = (if remaining < 1024 then remaining else 1024)"
    have step: "0 < unat chunk" "unat (position + chunk) = unat position + unat chunk"
      "unat position + unat chunk \<le> unat ?size"
      using chunk_step(1-3) [OF True, of 1024, folded remaining_def, folded chunk_def] by simp_all
    have at: "unat (?off + position) = unat ?off + unat position"
      using "1.prems"(2) step by (intro unat_add_u32) simp
    from "1.prems"(5) True obtain res buf f1 where
      call: "partition_read_exact \<E> (Some p) (?off + position) chunk f = Some (res, buf, f1)"
      and rest: "(if res \<noteq> OTA_OK then Some (res, crc, sha, f1)
                 else payload_digest_loop \<E> (Some p) h (position + chunk)
                   (ota_crc32_update crc buf) (ota_sha256_update sha buf) f1)
                 = Some (r, crc', sha', f')"
      unfolding payload_digest_loop.simps [of \<E> "Some p" h position crc sha f]
        Let_def remaining_def [symmetric] chunk_def [symmetric]
      by (auto split: Option.bind_splits)
    have small: "unat (?off + position) + unat chunk < 2 ^ 31"
      using at step(3) "1.prems"(2) by simp
    note out = read_exact_nor [OF nor small call "1.prems"(1)]
    show ?thesis
    proof (cases "res = OTA_OK")
      case False
      then show ?thesis using rest out(1) by auto
    next
      case OK: True
      note buf = out(2) [OF OK, unfolded at]
      have rec: "payload_digest_loop \<E> (Some p) h (position + chunk)
           (ota_crc32_update crc buf) (ota_sha256_update sha buf) f1 = Some (r, crc', sha', f')"
        using rest OK by simp
      have IH: "mem f' = mem f1 \<and>
        (r = OTA_OK \<longrightarrow>
           crc' = ota_crc32_update (ota_crc32_update crc buf) (part_bytes mem p f1
             (unat ?off + unat (position + chunk)) (unat ?size - unat (position + chunk))) \<and>
           sha' = ota_sha256_update (ota_sha256_update sha buf) (part_bytes mem p f1
             (unat ?off + unat (position + chunk)) (unat ?size - unat (position + chunk))))"
        by (rule "1.hyps" [OF True remaining_def chunk_def])
           (use call OK rec step "1.prems"(1,2,4) in \<open>simp_all add: sha.update_wf\<close>)
      have join: "buf @ part_bytes mem p f1 (unat ?off + unat (position + chunk))
            (unat ?size - unat (position + chunk)) =
          part_bytes mem p f (unat ?off + unat position) (unat ?size - unat position)"
        using step part_bytes_append
          [of mem p f "unat ?off + unat position" "unat chunk" "unat ?size - (unat position + unat chunk)"]
        by (simp add: buf part_bytes_same [of mem f1 f, OF out(1)] add.assoc)
      show ?thesis
        using IH out(1) "1.prems"(4) join
        by (simp add: crc.update_append sha.update_append)
    qed
  qed
qed

section \<open>What a slot holds\<close>

text \<open>
  The payload in the slot has the header's CRC-32 and SHA-256, and the trusted key has
  signed the header's fields with that digest.
\<close>

definition payload_valid ::
  "(bytes \<Rightarrow> bytes \<Rightarrow> bytes \<Rightarrow> bool) \<Rightarrow> boot_image_header_t \<Rightarrow> bytes \<Rightarrow> bool" where
  "payload_valid ecdsa h payload \<longleftrightarrow>
     ota_crc32_calculate payload = hdr_image_crc32 h \<and>
     sha256_spec payload = hdr_image_sha256 h \<and>
     hdr_signature_algorithm h = BOOT_SIGNATURE_ECDSA_P256_RAW \<and>
     hdr_signature_size h = 64 \<and>
     ecdsa ota_trusted_public_key (sha256_spec (build_signed_data h (sha256_spec payload)))
       (hdr_signature h)"

definition slot_payload ::
  "('f \<Rightarrow> nat \<Rightarrow> u8) \<Rightarrow> fal_partition \<Rightarrow> boot_image_header_t \<Rightarrow> 'f \<Rightarrow> bytes" where
  "slot_payload mem p h f =
     part_bytes mem p f (unat (hdr_payload_offset h)) (unat (hdr_image_size h))"

definition slot_holds ::
  "(bytes \<Rightarrow> bytes \<Rightarrow> bytes \<Rightarrow> bool) \<Rightarrow> ('f \<Rightarrow> nat \<Rightarrow> u8) \<Rightarrow> fal_partition \<Rightarrow>
     boot_image_header_t \<Rightarrow> 'f \<Rightarrow> bool" where
  "slot_holds ecdsa mem p h f \<longleftrightarrow>
     header_validate h = OTA_OK \<and>
     part_bytes mem p f 0 256 = header_bytes h \<and>
     payload_valid ecdsa h (slot_payload mem p h f)"

lemma header_validate_fields:
  assumes "header_validate h = OTA_OK"
  shows "hdr_magic h = BOOT_IMAGE_MAGIC" "hdr_hardware_id h = OTA_HARDWARE_ID"
    "hdr_payload_offset h = OTA_IMAGE_PAYLOAD_OFFSET"
    "8 \<le> unat (hdr_image_size h)" "unat (hdr_image_size h) \<le> 1044480"
    "hdr_load_address h = OTA_APP_BASE"
    "ota_crc32_calculate (header_bytes (h\<lparr>hdr_header_crc32 := 0\<rparr>)) = hdr_header_crc32 h"
  using assms
  by (simp_all add: header_validate_def Let_def word_less_nat_alt not_less split: if_splits)

lemma header_validate_size: "header_validate h = OTA_OK \<Longrightarrow>
    unat (hdr_payload_offset h) + unat (hdr_image_size h) < 2 ^ 31"
  using header_validate_fields(3,5) [of h] by simp

lemma payload_validate_nor:
  assumes nor: "nor_part (env_fal E) mem p"
    and small: "unat (hdr_payload_offset h) + unat (hdr_image_size h) < 2 ^ 31"
    and wf: "header_wf h"
    and call: "partition_payload_validate E (Some p) h True f = Some (r, f')"
  shows "mem f' = mem f"
    and "r = OTA_OK \<Longrightarrow> payload_valid (env_ecdsa E) h (slot_payload mem p h f)"
proof -
  from call obtain res crc' sha' f1 where
    loop: "payload_digest_loop E (Some p) h 0 (ota_crc32_init \<lparr>crc_value = 0\<rparr>)
             (ota_sha256_init sha256_fresh) f = Some (res, crc', sha', f1)"
    by (auto simp: partition_payload_validate_def split: Option.bind_splits)
  have f': "f' = f1"
    using call by (auto simp: partition_payload_validate_def loop Let_def split: if_splits)
  have fresh: "sha256_wf (ota_sha256_init sha256_fresh)"
    by (simp add: sha256_wf_def ota_sha256_init_def sha256_fresh_def)
  note out = payload_digest_loop_nor [OF nor refl small _ fresh loop, simplified]
  show "mem f' = mem f" using out f' by simp
  assume "r = OTA_OK"
  then show "payload_valid (env_ecdsa E) h (slot_payload mem p h f)"
    using call out wf
    by (auto simp: partition_payload_validate_def loop Let_def payload_valid_def slot_payload_def
        crc32_stream_calculate sha256_calculate digest_equal_iff length_sha256_spec header_wf_def
        ota_signature_verify_iff split: if_splits)
qed

lemma slot_validate_nor:
  assumes nor: "nor_part (env_fal E) mem p" and wf: "header_wf h"
    and call: "slot_validate E (Some p) h f = Some (r, f')"
  shows "mem f' = mem f"
    and "r = OTA_OK \<Longrightarrow> slot_holds (env_ecdsa E) mem p h f"
proof -
  from call obtain res buf f1 where
    rd: "partition_read_exact E (Some p) 0 256 f = Some (res, buf, f1)"
    and rest: "(if res \<noteq> OTA_OK then Some (res, f1)
      else if header_validate (header_of_bytes buf) \<noteq> OTA_OK \<or>
              header_bytes (header_of_bytes buf) \<noteq> header_bytes h
      then Some (OTA_ERROR_HEADER, f1)
      else partition_payload_validate E (Some p) (header_of_bytes buf) True f1) = Some (r, f')"
    unfolding slot_validate_def Let_def by (auto split: Option.bind_splits)
  note out = read_exact_nor [OF nor _ rd refl, simplified]
  have "mem f' = mem f \<and> (r = OTA_OK \<longrightarrow> slot_holds (env_ecdsa E) mem p h f)"
  proof (cases "res = OTA_OK \<and> header_validate (header_of_bytes buf) = OTA_OK \<and>
      header_bytes (header_of_bytes buf) = header_bytes h")
    case False
    then show ?thesis using rest out(1) by (auto split: if_splits)
  next
    case True
    have buf: "buf = part_bytes mem p f 0 256" using out(2) True by simp
    then have wf': "header_wf (header_of_bytes buf)" by (intro header_of_bytes_wf) simp
    have h: "header_of_bytes buf = h" using header_bytes_inj [OF wf' wf] True by simp
    have val: "partition_payload_validate E (Some p) h True f1 = Some (r, f')"
      using rest True h by simp
    have "part_bytes mem p f 0 256 = header_bytes h"
      using True buf header_bytes_of_bytes [of buf] by simp
    then show ?thesis
      using payload_validate_nor [OF nor header_validate_size wf val] True h out(1)
      by (simp add: slot_holds_def slot_payload_def part_bytes_same [of mem f1 f])
  qed
  then show "mem f' = mem f" "r = OTA_OK \<Longrightarrow> slot_holds (env_ecdsa E) mem p h f" by simp_all
qed

section \<open>The copy to the upgrade slot\<close>

lemma commit_copy_loop_nor:
  assumes nor: "nor_part E mem d" "nor_part E mem u" "part_disjoint u d"
    and "env_fal \<E> = E"
    "unat (hdr_payload_offset h) + unat (hdr_image_size h) < 2 ^ 31"
    "unat (hdr_payload_offset h) + unat (hdr_image_size h) \<le> unat (part_len d)"
    "unat position \<le> unat (hdr_image_size h)"
    "commit_copy_loop \<E> (Some d) (Some u) h position f = Some (r, f')"
  shows "part_frame mem u f f' \<and>
    (\<forall>i < unat (hdr_payload_offset h) + unat position. part_mem mem u f' i = part_mem mem u f i) \<and>
    (r = OTA_OK \<longrightarrow>
      (\<forall>i. unat (hdr_payload_offset h) + unat position \<le> i \<and>
           i < unat (hdr_payload_offset h) + unat (hdr_image_size h) \<longrightarrow> part_mem mem u f i = 0xFF) \<longrightarrow>
      part_bytes mem u f' (unat (hdr_payload_offset h) + unat position)
          (unat (hdr_image_size h) - unat position) =
      part_bytes mem d f (unat (hdr_payload_offset h) + unat position)
          (unat (hdr_image_size h) - unat position))"
  using assms(4-8)
proof (induction "\<E>" "Some d" "Some u" h position f rule: commit_copy_loop.induct)
  case (1 \<E> h position f)
  let ?size = "hdr_image_size h" and ?off = "hdr_payload_offset h"
  let ?o = "unat ?off" and ?n = "unat ?size" and ?p = "unat position"
  show ?case
  proof (cases "position < ?size")
    case False
    then show ?thesis using "1.prems"
      by (auto simp: commit_copy_loop.simps word_less_nat_alt frame_intros)
  next
    case True
    define remaining where "remaining = ?size - position"
    define chunk where "chunk = (if remaining < 1024 then remaining else 1024)"
    let ?c = "unat chunk"
    have step: "0 < ?c" "unat (position + chunk) = ?p + ?c" "?p + ?c \<le> ?n"
      using chunk_step(1-3) [OF True, of 1024, folded remaining_def, folded chunk_def] by simp_all
    have at: "unat (?off + position) = ?o + ?p"
      using "1.prems"(2) step by (intro unat_add_u32) simp
    have small: "unat (?off + position) + ?c < 2 ^ 31"
      using at step(3) "1.prems"(2) by simp
    from "1.prems"(5) True obtain res buf f1 where
      rd: "partition_read_exact \<E> (Some d) (?off + position) chunk f = Some (res, buf, f1)"
      and rest: "(if res \<noteq> OTA_OK then Some (res, f1)
          else partition_write_exact \<E> (Some u) (?off + position) buf f1 \<bind>
            (\<lambda>(result, f2). if result \<noteq> OTA_OK then Some (result, f2)
               else commit_copy_loop \<E> (Some d) (Some u) h (position + chunk) f2)) = Some (r, f')"
      unfolding commit_copy_loop.simps [of \<E> "Some d" "Some u" h position f]
        Let_def remaining_def [symmetric] chunk_def [symmetric]
      by (auto split: Option.bind_splits)
    note rdo = read_exact_nor [OF nor(1) small rd "1.prems"(1)]
    show ?thesis
    proof (cases "res = OTA_OK")
      case False
      then show ?thesis using rest part_frame_same [OF rdo(1)] part_mem_same [OF rdo(1)] by auto
    next
      case OK: True
      have buf: "buf = part_bytes mem d f (?o + ?p) ?c" using rdo(2) OK at by simp
      then have len: "length buf = ?c" by simp
      from rest OK obtain res2 f2 where
        wr: "partition_write_exact \<E> (Some u) (?off + position) buf f1 = Some (res2, f2)"
        and rest2: "(if res2 \<noteq> OTA_OK then Some (res2, f2)
           else commit_copy_loop \<E> (Some d) (Some u) h (position + chunk) f2) = Some (r, f')"
        by (auto split: Option.bind_splits)
      have small': "unat (?off + position) + length buf < 2 ^ 31" using small len by simp
      note wro = write_exact_nor [OF nor(2) small' wr "1.prems"(1)]
      have f1: "part_mem mem q f1 = part_mem mem q f" for q using rdo(1) by (rule part_mem_same)
      have frame2: "part_frame mem u f f2"
        using part_frame_same [OF rdo(1), of u] wro(1) by (rule part_frame_trans)
      have low: "part_mem mem u f2 i = part_mem mem u f i"
        if "i < ?o + ?p \<or> ?o + ?p + ?c \<le> i" for i
        using wro(2) [of i] that at len f1 by simp
      show ?thesis
      proof (cases "res2 = OTA_OK")
        case False
        then show ?thesis using rest2 frame2 low by auto
      next
        case OK2: True
        have rec: "commit_copy_loop \<E> (Some d) (Some u) h (position + chunk) f2 = Some (r, f')"
          using rest2 OK2 by simp
        have IH: "part_frame mem u f2 f' \<and>
          (\<forall>i < ?o + unat (position + chunk). part_mem mem u f' i = part_mem mem u f2 i) \<and>
          (r = OTA_OK \<longrightarrow>
            (\<forall>i. ?o + unat (position + chunk) \<le> i \<and> i < ?o + ?n \<longrightarrow> part_mem mem u f2 i = 0xFF) \<longrightarrow>
            part_bytes mem u f' (?o + unat (position + chunk)) (?n - unat (position + chunk)) =
            part_bytes mem d f2 (?o + unat (position + chunk)) (?n - unat (position + chunk)))"
          by (rule "1.hyps" [OF True remaining_def chunk_def rd])
             (use OK wr OK2 rec step "1.prems"(1-3) in simp_all)
        show ?thesis
        proof (intro conjI impI allI)
          show "part_frame mem u f f'" using frame2 IH by (blast intro: part_frame_trans)
          show "part_mem mem u f' i = part_mem mem u f i" if "i < ?o + ?p" for i
            using IH low [of i] that step by simp
          assume r: "r = OTA_OK" and erased:
            "\<forall>i. ?o + ?p \<le> i \<and> i < ?o + ?n \<longrightarrow> part_mem mem u f i = 0xFF"
          have "part_bytes mem u f2 (?o + ?p) ?c = part_bytes mem d f (?o + ?p) ?c"
            using write_erased_nor [OF nor(2) small' wr [unfolded OK2] "1.prems"(1)]
              erased f1 at len step(3) buf by simp
          moreover have "part_bytes mem u f' (?o + ?p) ?c = part_bytes mem u f2 (?o + ?p) ?c"
            using IH step by (intro part_bytes_cong) simp
          moreover have "part_bytes mem u f' (?o + (?p + ?c)) (?n - (?p + ?c)) =
              part_bytes mem d f2 (?o + (?p + ?c)) (?n - (?p + ?c))"
            using IH r erased low step by simp
          moreover have "part_bytes mem d f2 (?o + (?p + ?c)) (?n - (?p + ?c)) =
              part_bytes mem d f (?o + (?p + ?c)) (?n - (?p + ?c))"
            using frame2 nor(3) "1.prems"(3) step by (intro part_bytes_frame) simp_all
          ultimately show "part_bytes mem u f' (?o + ?p) (?n - ?p) =
              part_bytes mem d f (?o + ?p) (?n - ?p)"
            using part_bytes_append [of mem u f' "?o + ?p" ?c "?n - (?p + ?c)"]
              part_bytes_append [of mem d f "?o + ?p" ?c "?n - (?p + ?c)"] step
            by (simp add: add.assoc)
        qed
      qed
    qed
  qed
qed

text \<open>Two slots of one NOR device, both of the size the service requires, sharing no cell.\<close>

definition slot_pair ::
  "'f ota_env \<Rightarrow> ('f \<Rightarrow> nat \<Rightarrow> u8) \<Rightarrow> fal_partition \<Rightarrow> fal_partition \<Rightarrow> bool" where
  "slot_pair E mem d u \<longleftrightarrow>
     nor_part (env_fal E) mem d \<and> nor_part (env_fal E) mem u \<and> part_disjoint d u \<and>
     OTA_SLOT_SIZE \<le> part_len d \<and> OTA_SLOT_SIZE \<le> part_len u"

lemma slot_pairD:
  assumes "slot_pair E mem d u"
  shows "nor_part (env_fal E) mem d" "nor_part (env_fal E) mem u" "part_disjoint d u"
    "part_disjoint u d" "1048576 \<le> unat (part_len d)" "1048576 \<le> unat (part_len u)"
  using assms by (auto simp: slot_pair_def part_disjoint_sym word_le_nat_alt)

lemma required_size:
  assumes "header_validate h = OTA_OK"
  defines "n \<equiv> hdr_payload_offset h + hdr_image_size h"
  shows "unat n = 4096 + unat (hdr_image_size h)" "unat n \<le> 1048576"
    "unat (round_up_sector n) \<le> 1048576" "unat n \<le> unat (round_up_sector n)"
    "4096 dvd unat (round_up_sector n)"
proof -
  note h = header_validate_fields(3,5) [OF assms(1)]
  show n: "unat n = 4096 + unat (hdr_image_size h)"
    using h unfolding n_def by (subst unat_add_u32) simp_all
  show le: "unat n \<le> 1048576" using n h by simp
  have r: "unat (round_up_sector n) = (unat n + 4095) div 4096 * 4096"
    by (rule round_up_sector_unat) (use le in simp)
  show "unat (round_up_sector n) \<le> 1048576" "unat n \<le> unat (round_up_sector n)"
    "4096 dvd unat (round_up_sector n)"
    using le r by simp_all
qed

lemma commit_to_upgrade_nor:
  assumes pair: "slot_pair E mem d u" and h: "header_wf h" "header_validate h = OTA_OK"
    and call: "commit_to_upgrade E (Some d) (Some u) h f = Some (r, f')"
  shows "part_frame mem u f f'"
    and "r = OTA_OK \<Longrightarrow> slot_holds (env_ecdsa E) mem u h f' \<and>
           slot_payload mem u h f' = slot_payload mem d h f"
    and "partition_erase_exact E (Some u) 0
           (round_up_sector (hdr_payload_offset h + hdr_image_size h)) f = Some (OTA_OK, g) \<Longrightarrow>
         (\<forall>i<256. part_mem mem u f' i = 0xFF) \<or>
         payload_valid (env_ecdsa E) h (slot_payload mem u h f')"
proof -
  let ?n = "hdr_payload_offset h + hdr_image_size h"
  let ?es = "round_up_sector ?n"
  let ?goal = "part_frame mem u f f' \<and>
     (r = OTA_OK \<longrightarrow> slot_holds (env_ecdsa E) mem u h f' \<and>
           slot_payload mem u h f' = slot_payload mem d h f) \<and>
     (partition_erase_exact E (Some u) 0 ?es f = Some (OTA_OK, g) \<longrightarrow>
        (\<forall>i<256. part_mem mem u f' i = 0xFF) \<or>
        payload_valid (env_ecdsa E) h (slot_payload mem u h f'))"
  note P = slot_pairD [OF pair] and sz = required_size [OF h(2)]
  note fields = header_validate_fields(3,5) [OF h(2)] and bound = header_validate_size [OF h(2)]
  from call obtain r1 f1 where er: "partition_erase_exact E (Some u) 0 ?es f = Some (r1, f1)"
    by (auto simp: commit_to_upgrade_def Let_def split: Option.bind_splits)
  note ero = erase_exact_nor [OF P(2) refl _ _ sz(5) er, simplified]
  have frame1: "part_frame mem u f f1" using ero sz(3) by simp
  have ?goal
  proof (cases "r1 = OTA_OK")
    case False
    then show ?thesis using call er frame1 by (simp add: commit_to_upgrade_def)
  next
    case OK1: True
    have ff1: "part_mem mem u f1 i = 0xFF" if "i < unat ?n" for i
      using ero sz(3,4) OK1 that by simp
    from call OK1 er obtain r2 f2 where
      cp: "commit_copy_loop E (Some d) (Some u) h 0 f1 = Some (r2, f2)"
      by (auto simp: commit_to_upgrade_def Let_def split: Option.bind_splits)
    have dlen: "unat (hdr_payload_offset h) + unat (hdr_image_size h) \<le> unat (part_len d)"
      using fields P(5) by simp
    note cpo = commit_copy_loop_nor [OF P(1,2,4) refl bound dlen _ cp, simplified]
    have frame2: "part_frame mem u f f2" using frame1 cpo by (blast intro: part_frame_trans)
    have hd2: "part_mem mem u f2 i = 0xFF" if "i < 4096" for i
      using cpo ff1 [of i] that fields(1) sz(1) by simp
    show ?thesis
    proof (cases "r2 = OTA_OK")
      case False
      then show ?thesis using call er OK1 cp frame2 hd2 by (simp add: commit_to_upgrade_def)
    next
      case OK2: True
      have copied: "slot_payload mem u h f2 = slot_payload mem d h f1"
        using cpo OK2 ff1 fields(1) sz(1) by (simp add: slot_payload_def)
      also have "\<dots> = slot_payload mem d h f"
        unfolding slot_payload_def by (rule part_bytes_frame [OF frame1 P(4) dlen])
      finally have copied: "slot_payload mem u h f2 = slot_payload mem d h f" .
      from call OK1 er OK2 cp obtain r3 f3 where
        pv: "partition_payload_validate E (Some u) h True f2 = Some (r3, f3)"
        by (auto simp: commit_to_upgrade_def Let_def split: Option.bind_splits)
      note pvo = payload_validate_nor [OF P(2) bound h(1) pv]
      have frame3: "part_frame mem u f f3"
        using frame2 part_frame_same [OF pvo(1)] by (rule part_frame_trans)
      have hd3: "part_mem mem u f3 i = 0xFF" if "i < 4096" for i
        using hd2 that part_mem_same [OF pvo(1)] by simp
      show ?thesis
      proof (cases "r3 = OTA_OK")
        case False
        then show ?thesis using call er OK1 cp OK2 pv frame3 hd3 by (simp add: commit_to_upgrade_def)
      next
        case OK3: True
        have valid2: "payload_valid (env_ecdsa E) h (slot_payload mem u h f2)"
          using pvo(2) OK3 by simp
        from call OK1 er OK2 cp OK3 pv obtain r4 f4 where
          wr: "partition_write_exact E (Some u) 0 (header_bytes h) f3 = Some (r4, f4)"
          by (auto simp: commit_to_upgrade_def Let_def split: Option.bind_splits)
        note wro = write_exact_nor [OF P(2) _ wr refl, simplified length_header_bytes [OF h(1)], simplified]
        have frame4: "part_frame mem u f f4" using frame3 wro(1) by (rule part_frame_trans)
        have keep: "slot_payload mem u h f4 = slot_payload mem u h f2"
          unfolding slot_payload_def fields(1) using wro(2) part_mem_same [OF pvo(1)]
          by (intro part_bytes_cong) simp
        show ?thesis
        proof (cases "r4 = OTA_OK")
          case False
          then show ?thesis using call er OK1 cp OK2 pv OK3 wr frame4 keep valid2
            by (simp add: commit_to_upgrade_def)
        next
          case True
          then have sv: "slot_validate E (Some u) h f4 = Some (r, f')"
            using call er OK1 cp OK2 pv OK3 wr by (simp add: commit_to_upgrade_def)
          note svo = slot_validate_nor [OF P(2) h(1) sv]
          have same: "slot_payload mem u h f' = slot_payload mem u h f4"
            "slot_holds (env_ecdsa E) mem u h f' = slot_holds (env_ecdsa E) mem u h f4"
            using svo(1) by (simp_all add: slot_holds_def slot_payload_def part_bytes_same [OF svo(1)])
          show ?thesis
            using part_frame_trans [OF frame4 part_frame_same [OF svo(1)]] svo(2) same keep valid2 copied
            by simp
        qed
      qed
    qed
  qed
  then show "part_frame mem u f f'"
    and "r = OTA_OK \<Longrightarrow> slot_holds (env_ecdsa E) mem u h f' \<and>
           slot_payload mem u h f' = slot_payload mem d h f"
    and "partition_erase_exact E (Some u) 0 ?es f = Some (OTA_OK, g) \<Longrightarrow>
         (\<forall>i<256. part_mem mem u f' i = 0xFF) \<or>
         payload_valid (env_ecdsa E) h (slot_payload mem u h f')"
    by blast+
qed

section \<open>Finishing a transfer\<close>

definition finish_enabled :: "'f ota_sys \<Rightarrow> bool" where
  "finish_enabled s \<longleftrightarrow> ota_lock s \<and> st_state (ota_status s) = OTA_STATE_RECEIVING \<and>
     st_received_size (ota_status s) = st_package_size (ota_status s)"

lemma ota_finish_disabled: "\<not> finish_enabled s \<Longrightarrow> ota_finish E s = Some (OTA_ERROR_STATE, s)"
  by (auto simp: ota_finish_def finish_enabled_def)

text \<open>The flash work of \<open>ota_finish\<close>, after its checks in RAM.\<close>

definition finish_checks :: "'f ota_sys \<Rightarrow> int" where
  "finish_checks s =
     (let h = ota_header s; required = hdr_payload_offset h + hdr_image_size h
      in if ota_crc32_finish (ota_transfer_crc s) \<noteq> ota_expected_package_crc s
         then OTA_ERROR_TRANSFER_CRC
         else if header_validate h \<noteq> OTA_OK then header_validate h
         else if required < hdr_payload_offset h \<or> required > st_package_size (ota_status s)
         then OTA_ERROR_SIZE else OTA_OK)"

definition finish_flash ::
  "'f ota_env \<Rightarrow> fal_partition option \<Rightarrow> fal_partition option \<Rightarrow> boot_image_header_t \<Rightarrow> 'f \<Rightarrow>
     (int \<times> 'f) option" where
  "finish_flash E d u h f = do {
     (r, f) \<leftarrow> partition_payload_validate E d h True f;
     if r \<noteq> OTA_OK then Some (r, f)
     else do {
       (r, f) \<leftarrow> partition_write_exact E d 0 (header_bytes h) f;
       if r \<noteq> OTA_OK then Some (r, f)
       else do {
         (r, f) \<leftarrow> slot_validate E d h f;
         if r \<noteq> OTA_OK then Some (r, f) else commit_to_upgrade E d u h f
       }
     }
   }"

lemma ota_finish_split:
  assumes "finish_enabled s"
  shows "ota_finish E s =
     (if finish_checks s \<noteq> OTA_OK
      then Some (finish_checks s, set_error (finish_checks s) s)
      else do {
        (r, f) \<leftarrow> finish_flash E (ota_download s) (ota_upgrade s) (ota_header s) (ota_flash s);
        Some (r, if r \<noteq> OTA_OK then (set_error r s)\<lparr>ota_flash := f\<rparr>
                 else s\<lparr>ota_flash := f, ota_status := (ota_status s)
                       \<lparr>st_state := OTA_STATE_READY, st_last_error := OTA_OK,
                        st_firmware_version := hdr_firmware_version (ota_header s)\<rparr>\<rparr>)
      })"
proof (cases "finish_checks s = OTA_OK")
  case False
  then show ?thesis using assms
    by (auto simp: ota_finish_def finish_enabled_def finish_checks_def Let_def set_error_def
        set_state_def split: if_splits)
next
  case True
  then show ?thesis using assms
    by (auto simp: ota_finish_def finish_enabled_def finish_checks_def Let_def finish_flash_def
        set_error_def set_state_def split: if_splits Option.bind_splits)
qed

lemma finish_flash_nor:
  assumes pair: "slot_pair E mem d u" and h: "header_wf h" "header_validate h = OTA_OK"
    and call: "finish_flash E (Some d) (Some u) h f = Some (r, f')"
  shows "r = OTA_OK \<Longrightarrow> slot_holds (env_ecdsa E) mem d h f' \<and> slot_holds (env_ecdsa E) mem u h f' \<and>
           slot_payload mem u h f' = slot_payload mem d h f"
    and "part_bytes mem u f' 0 (unat (part_len u)) = part_bytes mem u f 0 (unat (part_len u)) \<or>
         slot_holds (env_ecdsa E) mem d h f'"
    and "part_bytes mem d f' 0 256 = part_bytes mem d f 0 256 \<or>
         payload_valid (env_ecdsa E) h (slot_payload mem d h f')"
    and "slot_payload mem d h f' = slot_payload mem d h f"
proof -
  let ?goal = "(r = OTA_OK \<longrightarrow> slot_holds (env_ecdsa E) mem d h f' \<and> slot_holds (env_ecdsa E) mem u h f' \<and>
           slot_payload mem u h f' = slot_payload mem d h f) \<and>
     (part_bytes mem u f' 0 (unat (part_len u)) = part_bytes mem u f 0 (unat (part_len u)) \<or>
         slot_holds (env_ecdsa E) mem d h f') \<and>
     (part_bytes mem d f' 0 256 = part_bytes mem d f 0 256 \<or>
         payload_valid (env_ecdsa E) h (slot_payload mem d h f')) \<and>
     slot_payload mem d h f' = slot_payload mem d h f"
  note P = slot_pairD [OF pair] and bound = header_validate_size [OF h(2)]
  note fields = header_validate_fields(3,5) [OF h(2)]
  have u_frame: "part_bytes mem u g 0 (unat (part_len u)) = part_bytes mem u f 0 (unat (part_len u))"
    if "part_frame mem d f g" for g using that P(3) by (rule part_bytes_frame) simp
  have dlen: "unat (hdr_payload_offset h) + unat (hdr_image_size h) \<le> unat (part_len d)"
    using fields P(5) by simp
  from call obtain r1 f1 where pv: "partition_payload_validate E (Some d) h True f = Some (r1, f1)"
    by (auto simp: finish_flash_def split: Option.bind_splits)
  note pvo = payload_validate_nor [OF P(1) bound h(1) pv]
  have ?goal
  proof (cases "r1 = OTA_OK")
    case False
    then show ?thesis using call pv u_frame [OF part_frame_same [OF pvo(1)]] part_bytes_same [OF pvo(1)]
      by (simp add: finish_flash_def slot_payload_def)
  next
    case OK1: True
    from call OK1 pv obtain r2 f2 where
      wr: "partition_write_exact E (Some d) 0 (header_bytes h) f1 = Some (r2, f2)"
      by (auto simp: finish_flash_def split: Option.bind_splits)
    note wro = write_exact_nor [OF P(1) _ wr refl, simplified length_header_bytes [OF h(1)], simplified]
    have frame2: "part_frame mem d f f2"
      using part_frame_same [OF pvo(1)] wro(1) by (rule part_frame_trans)
    have keep: "slot_payload mem d h f2 = slot_payload mem d h f"
      unfolding slot_payload_def fields(1) using wro(2) part_mem_same [OF pvo(1)]
      by (intro part_bytes_cong) simp
    have valid2: "payload_valid (env_ecdsa E) h (slot_payload mem d h f2)"
      using pvo(2) OK1 keep by simp
    show ?thesis
    proof (cases "r2 = OTA_OK")
      case False
      then show ?thesis using call pv OK1 wr u_frame [OF frame2] valid2 keep by (simp add: finish_flash_def)
    next
      case OK2: True
      from call OK1 pv OK2 wr obtain r3 f3 where sv: "slot_validate E (Some d) h f2 = Some (r3, f3)"
        by (auto simp: finish_flash_def split: Option.bind_splits)
      note svo = slot_validate_nor [OF P(1) h(1) sv]
      have frame3: "part_frame mem d f f3"
        using frame2 part_frame_same [OF svo(1)] by (rule part_frame_trans)
      have same3: "slot_payload mem d h f3 = slot_payload mem d h f2"
        by (simp add: slot_payload_def part_bytes_same [OF svo(1)])
      show ?thesis
      proof (cases "r3 = OTA_OK")
        case False
        then show ?thesis using call pv OK1 wr OK2 sv u_frame [OF frame3] valid2 same3 keep
          by (simp add: finish_flash_def)
      next
        case OK3: True
        then have cm: "commit_to_upgrade E (Some d) (Some u) h f3 = Some (r, f')"
          using call pv OK1 wr OK2 sv by (simp add: finish_flash_def)
        note cmo = commit_to_upgrade_nor [OF pair h cm]
        have "slot_holds (env_ecdsa E) mem d h f3"
          using svo(2) OK3 same3 by (simp add: slot_holds_def part_bytes_same [OF svo(1)])
        moreover have "part_bytes mem d f' 0 256 = part_bytes mem d f3 0 256"
          by (rule part_bytes_frame [OF cmo(1) P(4)]) (use P(5) in simp)
        moreover have same4: "slot_payload mem d h f' = slot_payload mem d h f3"
          unfolding slot_payload_def by (rule part_bytes_frame [OF cmo(1) P(4) dlen])
        ultimately have dh: "slot_holds (env_ecdsa E) mem d h f'" by (simp add: slot_holds_def)
        then have "payload_valid (env_ecdsa E) h (slot_payload mem d h f')"
          by (simp add: slot_holds_def)
        with dh show ?thesis using cmo(2) same3 same4 keep by auto
      qed
    qed
  qed
  then show "r = OTA_OK \<Longrightarrow> slot_holds (env_ecdsa E) mem d h f' \<and> slot_holds (env_ecdsa E) mem u h f' \<and>
           slot_payload mem u h f' = slot_payload mem d h f"
    and "part_bytes mem u f' 0 (unat (part_len u)) = part_bytes mem u f 0 (unat (part_len u)) \<or>
         slot_holds (env_ecdsa E) mem d h f'"
    and "part_bytes mem d f' 0 256 = part_bytes mem d f 0 256 \<or>
         payload_valid (env_ecdsa E) h (slot_payload mem d h f')"
    and "slot_payload mem d h f' = slot_payload mem d h f"
    by blast+
qed

lemma finish_checks_ok:
  assumes "finish_checks s = OTA_OK"
  shows "ota_crc32_finish (ota_transfer_crc s) = ota_expected_package_crc s"
    "header_validate (ota_header s) = OTA_OK"
    "4096 + unat (hdr_image_size (ota_header s)) \<le> unat (st_package_size (ota_status s))"
proof -
  show "ota_crc32_finish (ota_transfer_crc s) = ota_expected_package_crc s"
    and ok: "header_validate (ota_header s) = OTA_OK"
    using assms by (auto simp: finish_checks_def Let_def split: if_splits)
  have "hdr_payload_offset (ota_header s) + hdr_image_size (ota_header s) \<le>
      st_package_size (ota_status s)"
    using assms by (auto simp: finish_checks_def Let_def not_less split: if_splits)
  then show "4096 + unat (hdr_image_size (ota_header s)) \<le> unat (st_package_size (ota_status s))"
    using required_size(1) [OF ok] by (simp add: word_le_nat_alt)
qed

section \<open>Devices that do not fail\<close>

text \<open>
  The hypothesis of the progress results: every call inside the partition reports its full
  length.
\<close>

definition part_reliable :: "'f fal_env \<Rightarrow> fal_partition \<Rightarrow> bool" where
  "part_reliable E p \<longleftrightarrow>
     (\<exists>dev. fal_device E (part_flash_name p) = Some dev \<and>
        (\<forall>off n f. fst (ops_read dev off n f) = int (unat n)) \<and>
        (\<forall>off data f. fst (ops_write dev off data f) = int (length data)) \<and>
        (\<forall>off n f. fst (ops_erase dev off n f) = int (unat n)))"

lemma in_part_u32:
  "unat addr + n \<le> unat (part_len p) \<Longrightarrow> n < 2 ^ 31 \<Longrightarrow> \<not> addr + of_nat n > part_len p"
  using unat_less_u32 [of "part_len p"]
  by (simp add: not_less word_le_nat_alt unat_add_u32)

lemma read_exact_ok:
  assumes "part_reliable (env_fal E) p" "unat addr + unat len \<le> unat (part_len p)" "unat len < 2 ^ 31"
  obtains buf f' where "partition_read_exact E (Some p) addr len f = Some (OTA_OK, buf, f')"
proof -
  obtain dev where dev: "fal_device (env_fal E) (part_flash_name p) = Some dev"
    "fst (ops_read dev off n f) = int (unat n)" for off n f
    using assms(1) by (auto simp: part_reliable_def)
  have "\<not> addr + len > part_len p" using in_part_u32 [OF assms(2,3)] by simp
  moreover obtain r buf f' where call: "ops_read dev (part_offset p + addr) len f = (r, buf, f')"
    by (metis prod.exhaust)
  moreover have "r = sint len" using dev(2) [of "part_offset p + addr" len f] call
      sint_small_u32 [OF assms(3)] by simp
  ultimately show thesis
    using that dev(1) by (simp add: partition_read_exact_def fal_partition_read_def)
qed

lemma write_exact_ok:
  assumes "part_reliable (env_fal E) p" "unat addr + length buf \<le> unat (part_len p)" "length buf < 2 ^ 31"
  obtains f' where "partition_write_exact E (Some p) addr buf f = Some (OTA_OK, f')"
proof -
  obtain dev where dev: "fal_device (env_fal E) (part_flash_name p) = Some dev"
    "fst (ops_write dev off data f) = int (length data)" for off data f
    using assms(1) by (auto simp: part_reliable_def)
  obtain r f' where call: "ops_write dev (part_offset p + addr) buf f = (r, f')"
    by (metis prod.exhaust)
  moreover have "r = sint (of_nat (length buf) :: u32)"
    using dev(2) [of "part_offset p + addr" buf f] call assms(3)
      sint_small_u32 [of "of_nat (length buf)"] by simp
  ultimately show thesis
    using that dev(1) in_part_u32 [OF assms(2,3)]
    by (simp add: partition_write_exact_def fal_partition_write_def)
qed

lemma erase_exact_ok:
  assumes "part_reliable (env_fal E) p" "unat addr + unat len \<le> unat (part_len p)" "unat len < 2 ^ 31"
  shows "\<exists>f'. partition_erase_exact E (Some p) addr len f = Some (OTA_OK, f')"
  using assms
proof (induction E "Some p" addr len f rule: partition_erase_exact.induct)
  case (1 E addr len f)
  show ?case
  proof (cases "len = 0")
    case True
    then show ?thesis by (simp add: partition_erase_exact.simps)
  next
    case False
    obtain dev where dev: "fal_device (env_fal E) (part_flash_name p) = Some dev"
      "fst (ops_erase dev off n f) = int (unat n)" for off n f
      using "1.prems"(1) by (auto simp: part_reliable_def)
    define chunk where "chunk = (if len < OTA_FLASH_ERASE_CHUNK_SIZE then len else OTA_FLASH_ERASE_CHUNK_SIZE)"
    have chunk: "unat chunk \<le> unat len" by (auto simp: chunk_def word_less_nat_alt)
    obtain r f1 where call: "ops_erase dev (part_offset p + addr) chunk f = (r, f1)"
      by (metis prod.exhaust)
    have "r = sint chunk"
      using dev(2) [of "part_offset p + addr" chunk f] call chunk "1.prems"(3)
        sint_small_u32 [of chunk] by simp
    moreover have "\<not> addr + chunk > part_len p"
      using in_part_u32 [of addr "unat chunk" p] chunk "1.prems"(2,3) by simp
    ultimately have er: "fal_partition_erase (env_fal E) (Some p) addr chunk f = Some (sint chunk, f1)"
      using dev(1) call by (simp add: fal_partition_erase_def)
    have next_at: "unat (addr + chunk) = unat addr + unat chunk"
      "unat (len - chunk) = unat len - unat chunk"
      using chunk "1.prems"(2) unat_less_u32 [of "part_len p"]
      by (simp_all add: unat_add_u32 unat_sub_u32 word_le_nat_alt)
    have "\<exists>f'. partition_erase_exact E (Some p) (addr + chunk) (len - chunk) f1 = Some (OTA_OK, f')"
      by (rule "1.hyps" [OF False chunk_def]) (use er chunk next_at "1.prems" in simp_all)
    then show ?thesis
      using False er partition_erase_exact.simps [of E "Some p" addr len f]
      by (simp add: Let_def chunk_def [symmetric])
  qed
qed

lemma payload_digest_loop_ok:
  assumes "part_reliable (env_fal E) p"
    "unat (hdr_payload_offset h) + unat (hdr_image_size h) \<le> unat (part_len p)"
  shows "\<exists>crc' sha' f'. payload_digest_loop E (Some p) h position crc sha f = Some (OTA_OK, crc', sha', f')"
  using assms
proof (induction E "Some p" h position crc sha f rule: payload_digest_loop.induct)
  case (1 E h position crc sha f)
  let ?size = "hdr_image_size h" and ?off = "hdr_payload_offset h"
  show ?case
  proof (cases "position < ?size")
    case False
    then show ?thesis by (simp add: payload_digest_loop.simps)
  next
    case True
    define remaining where "remaining = ?size - position"
    define chunk where "chunk = (if remaining < 1024 then remaining else 1024)"
    have step: "unat position + unat chunk \<le> unat ?size" "unat chunk \<le> 1024"
      using chunk_step(3,4) [OF True, of 1024, folded remaining_def, folded chunk_def] by simp_all
    have at: "unat (?off + position) = unat ?off + unat position"
      using "1.prems"(2) step unat_less_u32 [of "part_len p"] by (intro unat_add_u32) simp
    obtain buf f1 where rd: "partition_read_exact E (Some p) (?off + position) chunk f = Some (OTA_OK, buf, f1)"
      by (rule read_exact_ok [OF "1.prems"(1), of "?off + position" chunk f]) (use at step "1.prems"(2) in simp_all)
    have "\<exists>crc' sha' f'. payload_digest_loop E (Some p) h (position + chunk)
        (ota_crc32_update crc buf) (ota_sha256_update sha buf) f1 = Some (OTA_OK, crc', sha', f')"
      by (rule "1.hyps" [OF True remaining_def chunk_def]) (use rd "1.prems" in simp_all)
    then show ?thesis
      using True rd payload_digest_loop.simps [of E "Some p" h position crc sha f]
      by (simp add: Let_def remaining_def [symmetric] chunk_def [symmetric])
  qed
qed

lemma payload_validate_ok:
  assumes rel: "part_reliable (env_fal E) p" and nor: "nor_part (env_fal E) mem p"
    and h: "header_wf h" "header_validate h = OTA_OK" and len: "1048576 \<le> unat (part_len p)"
    and valid: "payload_valid (env_ecdsa E) h (slot_payload mem p h f)"
  obtains f' where "partition_payload_validate E (Some p) h True f = Some (OTA_OK, f')"
proof -
  note fields = header_validate_fields(3,5) [OF h(2)] and bound = header_validate_size [OF h(2)]
  have "unat (hdr_payload_offset h) + unat (hdr_image_size h) \<le> unat (part_len p)"
    using fields len by simp
  from payload_digest_loop_ok [OF rel this] obtain crc' sha' f'
    where loop: "payload_digest_loop E (Some p) h 0 (ota_crc32_init \<lparr>crc_value = 0\<rparr>)
      (ota_sha256_init sha256_fresh) f = Some (OTA_OK, crc', sha', f')"
    by blast
  have fresh: "sha256_wf (ota_sha256_init sha256_fresh)"
    by (simp add: sha256_wf_def ota_sha256_init_def sha256_fresh_def)
  note out = payload_digest_loop_nor [OF nor refl bound _ fresh loop, simplified]
  have "partition_payload_validate E (Some p) h True f = Some (OTA_OK, f')"
    using out valid h(1)
    by (auto simp: partition_payload_validate_def loop Let_def payload_valid_def slot_payload_def
        crc32_stream_calculate sha256_calculate digest_equal_iff length_sha256_spec header_wf_def
        ota_signature_verify_iff)
  then show thesis by (rule that)
qed

lemma slot_validate_ok:
  assumes rel: "part_reliable (env_fal E) p" and nor: "nor_part (env_fal E) mem p"
    and wf: "header_wf h" and len: "1048576 \<le> unat (part_len p)"
    and holds: "slot_holds (env_ecdsa E) mem p h f"
  obtains f' where "slot_validate E (Some p) h f = Some (OTA_OK, f')"
proof -
  obtain buf f1 where rd: "partition_read_exact E (Some p) 0 256 f = Some (OTA_OK, buf, f1)"
    by (rule read_exact_ok [OF rel, of 0 256 f]) (use len in simp_all)
  note out = read_exact_nor [OF nor _ rd refl, simplified]
  have h: "header_of_bytes buf = h" "header_validate h = OTA_OK"
    using holds wf out(2) by (simp_all add: slot_holds_def header_of_bytes_header_bytes)
  have "payload_valid (env_ecdsa E) h (slot_payload mem p h f1)"
    using holds by (simp add: slot_holds_def slot_payload_def part_bytes_same [OF out(1)])
  from payload_validate_ok [OF rel nor wf h(2) len this] obtain f'
    where "partition_payload_validate E (Some p) h True f1 = Some (OTA_OK, f')" .
  then show thesis using that rd h by (simp add: slot_validate_def Let_def)
qed

lemma commit_copy_loop_ok:
  assumes "part_reliable (env_fal E) d" "part_reliable (env_fal E) u" "nor_part (env_fal E) mem d"
    "unat (hdr_payload_offset h) + unat (hdr_image_size h) \<le> unat (part_len d)"
    "unat (hdr_payload_offset h) + unat (hdr_image_size h) \<le> unat (part_len u)"
    "unat (hdr_payload_offset h) + unat (hdr_image_size h) < 2 ^ 31"
  shows "\<exists>f'. commit_copy_loop E (Some d) (Some u) h position f = Some (OTA_OK, f')"
  using assms
proof (induction E "Some d" "Some u" h position f rule: commit_copy_loop.induct)
  case (1 E h position f)
  let ?size = "hdr_image_size h" and ?off = "hdr_payload_offset h"
  show ?case
  proof (cases "position < ?size")
    case False
    then show ?thesis by (simp add: commit_copy_loop.simps)
  next
    case True
    define remaining where "remaining = ?size - position"
    define chunk where "chunk = (if remaining < 1024 then remaining else 1024)"
    have step: "unat position + unat chunk \<le> unat ?size" "unat chunk \<le> 1024"
      using chunk_step(3,4) [OF True, of 1024, folded remaining_def, folded chunk_def] by simp_all
    have at: "unat (?off + position) = unat ?off + unat position"
      using "1.prems"(6) step by (intro unat_add_u32) simp
    obtain buf f1 where rd: "partition_read_exact E (Some d) (?off + position) chunk f = Some (OTA_OK, buf, f1)"
      by (rule read_exact_ok [OF "1.prems"(1), of "?off + position" chunk f]) (use at step "1.prems"(4) in simp_all)
    have len: "length buf = unat chunk"
      using read_exact_nor(2) [OF "1.prems"(3) _ rd refl] at step "1.prems"(6) by simp
    obtain f2 where wr: "partition_write_exact E (Some u) (?off + position) buf f1 = Some (OTA_OK, f2)"
      by (rule write_exact_ok [OF "1.prems"(2), of "?off + position" buf f1])
         (use at step "1.prems"(5) len in simp_all)
    have "\<exists>f'. commit_copy_loop E (Some d) (Some u) h (position + chunk) f2 = Some (OTA_OK, f')"
      by (rule "1.hyps" [OF True remaining_def chunk_def rd]) (use wr "1.prems" in simp_all)
    then show ?thesis
      using True rd wr commit_copy_loop.simps [of E "Some d" "Some u" h position f]
      by (simp add: Let_def remaining_def [symmetric] chunk_def [symmetric])
  qed
qed

lemma commit_to_upgrade_ok:
  assumes rel: "part_reliable (env_fal E) d" "part_reliable (env_fal E) u"
    and pair: "slot_pair E mem d u" and h: "header_wf h" "header_validate h = OTA_OK"
    and valid: "payload_valid (env_ecdsa E) h (slot_payload mem d h f)"
  obtains f' where "commit_to_upgrade E (Some d) (Some u) h f = Some (OTA_OK, f')"
proof -
  note P = slot_pairD [OF pair] and sz = required_size [OF h(2)]
  note fields = header_validate_fields(3,5) [OF h(2)] and bound = header_validate_size [OF h(2)]
  let ?es = "round_up_sector (hdr_payload_offset h + hdr_image_size h)"
  obtain f1 where er: "partition_erase_exact E (Some u) 0 ?es f = Some (OTA_OK, f1)"
    using erase_exact_ok [OF rel(2), of 0 ?es f] sz(3) P(6) by auto
  note ero = erase_exact_nor [OF P(2) refl _ _ sz(5) er, simplified]
  have ff1: "part_mem mem u f1 i = 0xFF" if "i < 4096 + unat (hdr_image_size h)" for i
    using ero sz that by simp
  have len: "unat (hdr_payload_offset h) + unat (hdr_image_size h) \<le> unat (part_len d)"
    "unat (hdr_payload_offset h) + unat (hdr_image_size h) \<le> unat (part_len u)"
    using fields P(5,6) by simp_all
  obtain f2 where cp: "commit_copy_loop E (Some d) (Some u) h 0 f1 = Some (OTA_OK, f2)"
    using commit_copy_loop_ok [OF rel P(1) len bound] by blast
  note cpo = commit_copy_loop_nor [OF P(1,2,4) refl bound len(1) _ cp, simplified]
  have "slot_payload mem u h f2 = slot_payload mem d h f1"
    using cpo ff1 fields(1) by (simp add: slot_payload_def)
  also have "\<dots> = slot_payload mem d h f"
    unfolding slot_payload_def by (rule part_bytes_frame [OF _ P(4) len(1)]) (use ero sz(3) in simp)
  finally have valid2: "payload_valid (env_ecdsa E) h (slot_payload mem u h f2)"
    using valid by simp
  obtain f3 where pv: "partition_payload_validate E (Some u) h True f2 = Some (OTA_OK, f3)"
    by (rule payload_validate_ok [OF rel(2) P(2) h P(6) valid2])
  note pvo = payload_validate_nor(1) [OF P(2) bound h(1) pv]
  note hlen = length_header_bytes [OF h(1)]
  obtain f4 where wr: "partition_write_exact E (Some u) 0 (header_bytes h) f3 = Some (OTA_OK, f4)"
    by (rule write_exact_ok [OF rel(2), of 0 "header_bytes h" f3]) (use hlen P(6) in simp_all)
  note wro = write_exact_nor(2) [OF P(2) _ wr refl, simplified hlen, simplified]
  have "part_mem mem u f3 i = 0xFF" if "i < 256" for i
    using cpo ff1 [of i] that fields(1) part_mem_same [OF pvo] by simp
  then have "part_bytes mem u f4 0 256 = header_bytes h"
    using write_erased_nor [OF P(2) _ wr refl] hlen by simp
  moreover have "slot_payload mem u h f4 = slot_payload mem u h f2"
    unfolding slot_payload_def fields(1) using wro part_mem_same [OF pvo]
    by (intro part_bytes_cong) simp
  ultimately have "slot_holds (env_ecdsa E) mem u h f4"
    using valid2 h(2) by (simp add: slot_holds_def)
  then obtain f5 where "slot_validate E (Some u) h f4 = Some (OTA_OK, f5)"
    by (rule slot_validate_ok [OF rel(2) P(2) h(1) P(6)])
  then show thesis using that er cp pv wr by (simp add: commit_to_upgrade_def)
qed

lemma finish_flash_ok:
  assumes rel: "part_reliable (env_fal E) d" "part_reliable (env_fal E) u"
    and pair: "slot_pair E mem d u" and h: "header_wf h" "header_validate h = OTA_OK"
    and valid: "payload_valid (env_ecdsa E) h (slot_payload mem d h f)"
    and erased: "\<And>i. i < 256 \<Longrightarrow> part_mem mem d f i = 0xFF"
  obtains f' where "finish_flash E (Some d) (Some u) h f = Some (OTA_OK, f')"
proof -
  note P = slot_pairD [OF pair] and fields = header_validate_fields(3,5) [OF h(2)]
  note bound = header_validate_size [OF h(2)] and hlen = length_header_bytes [OF h(1)]
  obtain f1 where pv: "partition_payload_validate E (Some d) h True f = Some (OTA_OK, f1)"
    by (rule payload_validate_ok [OF rel(1) P(1) h P(5) valid])
  note pvo = payload_validate_nor(1) [OF P(1) bound h(1) pv]
  obtain f2 where wr: "partition_write_exact E (Some d) 0 (header_bytes h) f1 = Some (OTA_OK, f2)"
    by (rule write_exact_ok [OF rel(1), of 0 "header_bytes h" f1]) (use hlen P(5) in simp_all)
  note wro = write_exact_nor(2) [OF P(1) _ wr refl, simplified hlen, simplified]
  have "part_bytes mem d f2 0 256 = header_bytes h"
    using write_erased_nor [OF P(1) _ wr refl] hlen erased part_mem_same [OF pvo] by simp
  moreover have "slot_payload mem d h f2 = slot_payload mem d h f"
    unfolding slot_payload_def fields(1) using wro part_mem_same [OF pvo]
    by (intro part_bytes_cong) simp
  ultimately have holds: "slot_holds (env_ecdsa E) mem d h f2"
    using valid h(2) by (simp add: slot_holds_def)
  then obtain f3 where sv: "slot_validate E (Some d) h f2 = Some (OTA_OK, f3)"
    by (rule slot_validate_ok [OF rel(1) P(1) h(1) P(5)])
  have "payload_valid (env_ecdsa E) h (slot_payload mem d h f3)"
    using holds slot_validate_nor(1) [OF P(1) h(1) sv]
    by (simp add: slot_holds_def slot_payload_def part_bytes_same [of mem f3 f2])
  then obtain f4 where "commit_to_upgrade E (Some d) (Some u) h f3 = Some (OTA_OK, f4)"
    by (rule commit_to_upgrade_ok [OF rel pair h])
  then show thesis using that pv wr sv by (simp add: finish_flash_def)
qed

section \<open>No assertion fires on existing partitions\<close>

named_theorems defined_intros \<open>calls that cannot hit an assertion\<close>

definition returns :: "'a option \<Rightarrow> bool" where
  "returns x \<longleftrightarrow> x \<noteq> None"

lemma returns_Some [defined_intros, simp]: "returns (Some x)"
  by (simp add: returns_def)

lemma returns_bind [defined_intros]:
  "returns x \<Longrightarrow> (\<And>y. x = Some y \<Longrightarrow> returns (k y)) \<Longrightarrow> returns (x \<bind> k)"
  by (cases x) (auto simp: returns_def)

lemma returns_if [defined_intros]:
  "(b \<Longrightarrow> returns x) \<Longrightarrow> (\<not> b \<Longrightarrow> returns y) \<Longrightarrow> returns (if b then x else y)"
  by simp

lemma returns_split [defined_intros]:
  "(\<And>a b. y = (a, b) \<Longrightarrow> returns (k a b)) \<Longrightarrow> returns (case y of (a, b) \<Rightarrow> k a b)"
  by (cases y) simp

lemma exact_returns [defined_intros]:
  "returns (partition_read_exact E (Some p) addr len f)"
  "returns (partition_write_exact E (Some p) addr buf f)"
  "returns (fal_partition_erase (env_fal E) (Some p) addr len f)"
  using fal_partition_defined(1) [of "env_fal E" p addr len f]
    fal_partition_defined(2) [of "env_fal E" p addr buf f]
    fal_partition_defined(3) [of "env_fal E" p addr len f]
  by (auto simp: partition_read_exact_def partition_write_exact_def returns_def)

lemma erase_exact_returns [defined_intros]: "returns (partition_erase_exact E (Some p) addr len f)"
proof (induction E "Some p" addr len f rule: partition_erase_exact.induct)
  case (1 E addr len f)
  show ?case
    by (subst partition_erase_exact.simps) (auto simp: Let_def intro!: defined_intros "1.hyps" simp del: not_None_eq)
qed

lemma payload_digest_loop_returns [defined_intros]:
  "returns (payload_digest_loop E (Some p) h position crc sha f)"
proof (induction E "Some p" h position crc sha f rule: payload_digest_loop.induct)
  case (1 E h position crc sha f)
  show ?case
    by (subst payload_digest_loop.simps) (auto simp: Let_def intro!: defined_intros "1.hyps")
qed

lemma commit_copy_loop_returns [defined_intros]:
  "returns (commit_copy_loop E (Some d) (Some u) h position f)"
proof (induction E "Some d" "Some u" h position f rule: commit_copy_loop.induct)
  case (1 E h position f)
  show ?case
    by (subst commit_copy_loop.simps) (auto simp: Let_def intro!: defined_intros "1.hyps")
qed

lemma validate_returns [defined_intros]:
  "returns (partition_payload_validate E (Some p) h v f)"
  "returns (slot_validate E (Some p) h f)"
  unfolding partition_payload_validate_def slot_validate_def Let_def
  by (intro defined_intros)+

lemma commit_returns [defined_intros]: "returns (commit_to_upgrade E (Some d) (Some u) h f)"
  unfolding commit_to_upgrade_def Let_def by (intro defined_intros)

lemma finish_flash_returns [defined_intros]: "returns (finish_flash E (Some d) (Some u) h f)"
  unfolding finish_flash_def by (intro defined_intros)

end
