(* ===== verification/Ota_Example.thy ===== *)
theory Ota_Example
  imports Ota_Install
begin

text \<open>
  A concrete board for the witnesses: the partition table of \<open>fal_cfg.h\<close> over an array that
  behaves as the NOR chip does, a signature check that accepts, and a small valid package.
  It shows that the hypotheses of the results on the service can hold together.
\<close>

definition ram_nor :: "(nat \<Rightarrow> u8) flash_ops" where
  "ram_nor =
    \<lparr>ops_read = \<lambda>off n f. (int (unat n), map f [unat off..<unat off + unat n], f),
     ops_write = \<lambda>off data f. (int (length data),
       \<lambda>a. if unat off \<le> a \<and> a < unat off + length data
           then f a AND data ! (a - unat off) else f a),
     ops_erase = \<lambda>off n f. (int (unat n),
       \<lambda>a. if unat off \<le> a \<and> a < unat off + unat n then 0xFF else f a)\<rparr>"

lemma ram_nor_flash: "nor_flash ram_nor (\<lambda>f. f)"
  by (auto simp: nor_flash_def nor_read_def nor_write_def nor_erase_def ram_nor_def)

definition example_env :: "(nat \<Rightarrow> u8) ota_env" where
  "example_env =
    \<lparr>env_fal = \<lparr>fal_table = FAL_PART_TABLE,
                fal_device = \<lambda>name. if name = ''norflash0'' then Some ram_nor else None\<rparr>,
     env_mutex_create = True, env_ecdsa = \<lambda>key digest signature. True\<rparr>"

definition example_download :: fal_partition where
  "example_download = \<lparr>part_name = ''download'', part_flash_name = ''norflash0'',
     part_offset = 2 * 1048576, part_len = 1048576\<rparr>"

definition example_upgrade :: fal_partition where
  "example_upgrade = \<lparr>part_name = ''upgrade'', part_flash_name = ''norflash0'',
     part_offset = 0, part_len = 1048576\<rparr>"

lemma example_find:
  "fal_partition_find (env_fal example_env) OTA_DOWNLOAD_PARTITION_NAME = Some example_download"
  "fal_partition_find (env_fal example_env) OTA_UPGRADE_PARTITION_NAME = Some example_upgrade"
  by (simp_all add: fal_partition_find_def example_env_def FAL_PART_TABLE_def
      OTA_DOWNLOAD_PARTITION_NAME_def OTA_UPGRADE_PARTITION_NAME_def example_download_def
      example_upgrade_def)

lemma example_pair: "slot_pair example_env (\<lambda>f. f) example_download example_upgrade"
  by (simp add: slot_pair_def nor_part_def example_env_def example_download_def
      example_upgrade_def part_wf_def part_disjoint_def ram_nor_flash)

lemma example_reliable:
  "part_reliable (env_fal example_env) example_download"
  "part_reliable (env_fal example_env) example_upgrade"
  by (simp_all add: part_reliable_def example_env_def example_download_def example_upgrade_def
      ram_nor_def)

definition example_payload :: bytes where
  "example_payload = [1, 2, 3, 4, 5, 6, 7, 8]"

definition example_header :: boot_image_header_t where
  "example_header =
    (let h = \<lparr>hdr_magic = BOOT_IMAGE_MAGIC, hdr_format_version = 1, hdr_header_size = 256,
       hdr_flags = 1, hdr_hardware_id = OTA_HARDWARE_ID, hdr_firmware_version = 0x00020000,
       hdr_payload_offset = 4096, hdr_image_size = 8, hdr_load_address = OTA_APP_BASE,
       hdr_image_crc32 = ota_crc32_calculate example_payload,
       hdr_image_sha256 = sha256_spec example_payload,
       hdr_signature_algorithm = BOOT_SIGNATURE_ECDSA_P256_RAW, hdr_signature_size = 64,
       hdr_signature = replicate 64 7, hdr_reserved = replicate 116 0, hdr_header_crc32 = 0\<rparr>
     in h\<lparr>hdr_header_crc32 := ota_crc32_calculate (header_bytes h)\<rparr>)"

definition example_body :: bytes where
  "example_body = replicate 3840 0xFF @ example_payload"

definition example_package :: bytes where
  "example_package = header_bytes example_header @ example_body"

lemma example_header_wf: "header_wf example_header"
  by (simp add: header_wf_def example_header_def Let_def length_sha256_spec)

lemma example_header_valid: "header_validate example_header = OTA_OK"
  by (simp add: header_validate_def example_header_def Let_def bytes_are_zero_iff)

lemma example_fields:
  "hdr_image_size example_header = 8" "hdr_payload_offset example_header = 4096"
  "hdr_firmware_version example_header = 0x00020000"
  by (simp_all add: example_header_def Let_def)

lemma example_payload_valid:
  "payload_valid (env_ecdsa example_env) example_header example_payload"
  by (simp add: payload_valid_def example_header_def Let_def example_env_def)

lemma example_package_parts:
  "length example_package = 4104"
  "header_of_bytes (take 256 example_package) = example_header"
  "take 8 (drop 4096 example_package) = example_payload"
  using length_header_bytes [OF example_header_wf] header_of_bytes_header_bytes [OF example_header_wf]
  by (simp_all add: example_package_def example_body_def example_payload_def)

lemma example_slot:
  "slot_holds (env_ecdsa example_env) (\<lambda>f. f) example_upgrade example_header
     (\<lambda>a. if a < 4104 then example_package ! a else 0xFF)"
proof -
  note len = length_header_bytes [OF example_header_wf] example_package_parts(1)
  have "part_bytes (\<lambda>f. f) example_upgrade (\<lambda>a. if a < 4104 then example_package ! a else 0xFF) i n =
      take n (drop i example_package)" if "i + n \<le> 4104" for i n
    using that len
    by (intro nth_equalityI) (simp_all add: part_mem_def example_upgrade_def)
  then show ?thesis
    using example_header_valid example_payload_valid example_package_parts(3) len
    by (simp add: slot_holds_def slot_payload_def example_fields example_package_def
        example_payload_def)
qed

text \<open>C8: On a device that does not fail, \<open>slot_validate\<close> accepts a slot exactly when it holds the
  expected header, valid, before a payload with the right CRC, SHA-256 and signature; and it
  never changes the flash.\<close>

theorem slot_validate_exact:
  assumes "part_reliable (env_fal E) p" "nor_part (env_fal E) mem p" "header_wf h"
    and "1048576 \<le> unat (part_len p)"
  shows "\<exists>r f'. slot_validate E (Some p) h f = Some (r, f') \<and> mem f' = mem f \<and>
    (r = OTA_OK \<longleftrightarrow> slot_holds (env_ecdsa E) mem p h f)"
proof -
  obtain r f' where call: "slot_validate E (Some p) h f = Some (r, f')"
    using validate_returns(2) [of E p h f] by (auto simp: returns_def)
  note out = slot_validate_nor [OF assms(2,3) call]
  have "r = OTA_OK" if "slot_holds (env_ecdsa E) mem p h f"
    using slot_validate_ok [OF assms that] call by auto
  then show ?thesis using out call by blast
qed

lemma slot_validate_exact_witness:
  "\<exists>f'. slot_validate example_env (Some example_upgrade) example_header
     (\<lambda>a. if a < 4104 then example_package ! a else 0xFF) = Some (OTA_OK, f')"
  using slot_validate_exact [OF example_reliable(2) slot_pairD(2) [OF example_pair] example_header_wf
      slot_pairD(6) [OF example_pair]] example_slot by blast

text \<open>\<open>round_up_sector\<close> is the next multiple of the 4 KiB sector, without wrap-around for
  every size up to 4 GiB less a sector.\<close>

theorem round_up_sector_next:
  assumes "unat n \<le> 2 ^ 32 - 4096"
  shows "4096 dvd unat (round_up_sector n) \<and> n \<le> round_up_sector n \<and>
    unat (round_up_sector n) < unat n + 4096"
proof -
  have "k \<le> (k + 4095) div 4096 * 4096 \<and> (k + 4095) div 4096 * 4096 < k + 4096" for k :: nat
    using div_mult_mod_eq [of "k + 4095" 4096] mod_less_divisor [of 4096 "k + 4095"] by linarith
  then show ?thesis using round_up_sector_unat [OF assms] by (simp add: word_le_nat_alt)
qed

lemma round_up_sector_next_witness: "4096 dvd unat (round_up_sector 5000)"
  using round_up_sector_next [of 5000] by simp

end
