(* ===== verification/Ota_Session.thy ===== *)
theory Ota_Session
  imports Ota_Example
begin

text \<open>
  Whole transfers: the state between \<open>ota_begin\<close> and \<open>ota_finish\<close>, the client's sequence of
  writes, the step relation of the service over all its entry points, and the invariants of
  every reachable state.
\<close>

section \<open>The environment of a configured board\<close>

definition env_slots ::
  "'f ota_env \<Rightarrow> ('f \<Rightarrow> nat \<Rightarrow> u8) \<Rightarrow> fal_partition \<Rightarrow> fal_partition \<Rightarrow> bool" where
  "env_slots E mem d u \<longleftrightarrow>
     fal_partition_find (env_fal E) OTA_DOWNLOAD_PARTITION_NAME = Some d \<and>
     fal_partition_find (env_fal E) OTA_UPGRADE_PARTITION_NAME = Some u \<and>
     slot_pair E mem d u"

definition sys_slots :: "fal_partition \<Rightarrow> fal_partition \<Rightarrow> 'f ota_sys \<Rightarrow> bool" where
  "sys_slots d u s \<longleftrightarrow>
     (ota_lock s \<longrightarrow> ota_download s = Some d \<and> ota_upgrade s = Some u)"

lemma service_init_slots:
  assumes "env_slots E mem d u" "sys_slots d u s" "ota_service_init E s = (r, s')"
  shows "sys_slots d u s'" "r = OTA_OK \<Longrightarrow> ota_lock s'" "ota_flash s' = ota_flash s"
    "ota_header s' = ota_header s" "r \<noteq> OTA_OK \<Longrightarrow> r = OTA_ERROR_NO_MEMORY \<and> s' = s"
    "ota_lock s \<Longrightarrow> s' = s" "ota_lock s \<or> env_mutex_create E \<Longrightarrow> r = OTA_OK"
    "\<not> ota_lock s \<Longrightarrow> r = OTA_OK \<Longrightarrow>
       ota_status s' = (ota_status s)\<lparr>st_state := OTA_STATE_IDLE, st_last_error := OTA_OK\<rparr>"
  using assms
  by (auto simp: ota_service_init_def env_slots_def sys_slots_def slot_pair_def Let_def not_less
      split: if_splits)

section \<open>The state of a transfer\<close>

text \<open>
  \<open>staged mem d n c data s\<close>: \<open>ota_begin\<close> announced \<open>n\<close> bytes with CRC \<open>c\<close> and \<open>data\<close> has
  arrived.  The first 256 bytes of it are in the RAM header, the others in the download slot,
  and the rest of the slot, the header cells first, is erased.
\<close>

definition staged ::
  "('f \<Rightarrow> nat \<Rightarrow> u8) \<Rightarrow> fal_partition \<Rightarrow> u32 \<Rightarrow> u32 \<Rightarrow> bytes \<Rightarrow> 'f ota_sys \<Rightarrow> bool" where
  "staged mem d n c data s \<longleftrightarrow>
     ota_lock s \<and> st_state (ota_status s) = OTA_STATE_RECEIVING \<and>
     st_package_size (ota_status s) = n \<and> 256 \<le> unat n \<and> unat n \<le> 1048576 \<and>
     length data \<le> unat n \<and> st_received_size (ota_status s) = of_nat (length data) \<and>
     ota_expected_package_crc s = c \<and>
     ota_transfer_crc s = ota_crc32_update (ota_crc32_init \<lparr>crc_value = 0\<rparr>) data \<and>
     header_wf (ota_header s) \<and>
     take (length data) (header_bytes (ota_header s)) = take 256 data \<and>
     (\<forall>i. 256 \<le> i \<and> i < length data \<longrightarrow> part_mem mem d (ota_flash s) i = data ! i) \<and>
     (\<forall>i < unat n. i < 256 \<or> length data \<le> i \<longrightarrow> part_mem mem d (ota_flash s) i = 0xFF)"

lemma header_zero_wf: "header_wf header_zero"
  by (simp add: header_zero_def header_of_bytes_wf)

lemma ota_begin_staged:
  assumes env: "env_slots E mem d u" and sys: "sys_slots d u s"
    and call: "ota_begin E source n c s = Some (OTA_OK, s')"
  shows "staged mem d n c [] s'" "sys_slots d u s'"
    "part_frame mem d (ota_flash s) (ota_flash s')"
    "ota_lock s \<Longrightarrow> st_state (ota_status s) \<noteq> OTA_STATE_RECEIVING"
proof -
  obtain r1 s1 where init: "ota_service_init E s = (r1, s1)" by fastforce
  note io = service_init_slots [OF env sys init]
  have r1: "r1 = OTA_OK"
    using call init io(5) by (auto simp: ota_begin_def split: if_splits)
  note P = slot_pairD [OF env [unfolded env_slots_def, THEN conjunct2, THEN conjunct2]]
  have slots: "ota_download s1 = Some d" "ota_upgrade s1 = Some u" "ota_lock s1"
    using io(1,2) r1 by (simp_all add: sys_slots_def)
  have n: "256 \<le> unat n" "unat n \<le> 1048576"
    using call init r1 by (auto simp: ota_begin_def word_le_nat_alt not_less split: if_splits)
  from call init r1 slots obtain r2 f2 where
    er: "partition_erase_exact E (Some d) 0 (round_up_sector n) (ota_flash s1) = Some (r2, f2)"
    and r2: "r2 = OTA_OK"
    and s': "s' = s1\<lparr>ota_header := header_zero,
        ota_status := ota_status_zero\<lparr>st_state := OTA_STATE_RECEIVING, st_package_size := n,
          st_source := (case source of None \<Rightarrow> [] | Some name \<Rightarrow> take 15 name)\<rparr>,
        ota_expected_package_crc := c, ota_transfer_crc := ota_crc32_init (ota_transfer_crc s1),
        ota_flash := f2\<rparr>"
    by (auto simp: ota_begin_def Let_def split: if_splits Option.bind_splits)
  have r: "unat (round_up_sector n) = (unat n + 4095) div 4096 * 4096"
    by (rule round_up_sector_unat) (use n in simp)
  have al: "4096 dvd unat (round_up_sector n)" "unat (round_up_sector n) < 2147483648"
    "unat n \<le> unat (round_up_sector n)"
    using n r by simp_all
  note ero = erase_exact_nor [OF P(1) refl _ _ al(1) er, simplified, OF al(2)]
  show "staged mem d n c [] s'"
    using s' slots n ero r2 al(3)
    by (simp add: staged_def ota_status_zero_def crc32_init_any ota_crc32_update_def header_zero_wf)
  show "sys_slots d u s'" using s' slots by (simp add: sys_slots_def)
  show "part_frame mem d (ota_flash s) (ota_flash s')" using s' ero io(3) by simp
  show "st_state (ota_status s) \<noteq> OTA_STATE_RECEIVING" if "ota_lock s"
    using call init r1 io(6) that by (auto simp: ota_begin_def split: if_splits)
qed

text \<open>Where the bytes of one write go.\<close>

definition write_consumed :: "nat \<Rightarrow> bytes \<Rightarrow> nat" where
  "write_consumed offset bs = min (256 - offset) (length bs)"

definition write_header :: "boot_image_header_t \<Rightarrow> nat \<Rightarrow> bytes \<Rightarrow> boot_image_header_t" where
  "write_header h offset bs =
     (if offset < 256
      then header_of_bytes (memcpy_at (header_bytes h) offset (take (write_consumed offset bs) bs))
      else h)"

lemma write_header_wf: "header_wf h \<Longrightarrow> header_wf (write_header h offset bs)"
  by (auto simp: write_header_def write_consumed_def length_header_bytes intro!: header_of_bytes_wf)

lemma write_header_bytes:
  assumes wf: "header_wf h" and "take (length data) (header_bytes h) = take 256 data"
  shows "take (length (data @ bs)) (header_bytes (write_header h (length data) bs)) =
         take 256 (data @ bs)"
proof (cases "length data < 256")
  case False
  then have "header_bytes h = take 256 data"
    using assms length_header_bytes [OF wf] by simp
  with False show ?thesis by (simp add: write_header_def)
next
  case True
  define xs where "xs = take (write_consumed (length data) bs) bs"
  have len: "length data + length xs \<le> 256" "length xs = min (256 - length data) (length bs)"
    using True by (simp_all add: xs_def write_consumed_def)
  let ?m = "memcpy_at (header_bytes h) (length data) xs"
  have l256: "length ?m = 256" using len length_header_bytes [OF wf] by simp
  have hb: "header_bytes (write_header h (length data) bs) = ?m"
    using True header_bytes_of_bytes [OF l256] by (simp add: write_header_def xs_def)
  have "take (length data + length xs) ?m = data @ xs"
    using take_memcpy_at [of "length data" xs "header_bytes h"] len length_header_bytes [OF wf]
      assms(2) True by simp
  moreover have "take (length data + length bs) ?m = take (length data + length xs) ?m"
    using len l256 by (cases "length bs \<le> 256 - length data") simp_all
  moreover have "take 256 (data @ bs) = data @ xs"
    using True by (simp add: xs_def write_consumed_def min_def)
  ultimately show ?thesis using hb by simp
qed

lemma ota_write_shape:
  assumes lock: "ota_lock s" and st: "st_state (ota_status s) = OTA_STATE_RECEIVING"
    and off: "offset = st_received_size (ota_status s)" "offset \<le> st_package_size (ota_status s)"
    and bs: "bs \<noteq> []" "length bs \<le> unat (st_package_size (ota_status s) - offset)"
  shows "ota_write E offset (Some bs) s =
    (let k = write_consumed (unat offset) bs;
         s2 = s\<lparr>ota_transfer_crc := ota_crc32_update (ota_transfer_crc s) bs,
                ota_header := write_header (ota_header s) (unat offset) bs\<rparr>
     in do {
       (r, f) \<leftarrow> if k < length bs
                then partition_write_exact E (ota_download s) (offset + of_nat k) (drop k bs) (ota_flash s)
                else Some (OTA_OK, ota_flash s);
       Some (r, if r = OTA_OK
                then s2\<lparr>ota_flash := f, ota_status := (ota_status s)
                       \<lparr>st_received_size := st_received_size (ota_status s) + of_nat (length bs)\<rparr>\<rparr>
                else set_error r (s2\<lparr>ota_flash := f\<rparr>))
     })"
  using assms
  by (auto simp: ota_write_def Let_def write_consumed_def write_header_def not_le not_less
      cong: if_cong)

lemma ota_write_guard:
  assumes "ota_write E offset (Some bs) s = Some (OTA_OK, s')"
  shows "ota_lock s" "st_state (ota_status s) = OTA_STATE_RECEIVING"
    "offset = st_received_size (ota_status s)" "offset \<le> st_package_size (ota_status s)"
    "bs \<noteq> []" "length bs \<le> unat (st_package_size (ota_status s) - offset)"
  using assms by (auto simp: ota_write_def split: if_splits)

text \<open>What the flash part of a write leaves, whatever it reports.\<close>

definition write_flash ::
  "'f ota_env \<Rightarrow> fal_partition option \<Rightarrow> nat \<Rightarrow> bytes \<Rightarrow> 'f \<Rightarrow> (int \<times> 'f) option" where
  "write_flash E p offset bs f =
     (let k = write_consumed offset bs
      in if k < length bs
         then partition_write_exact E p (of_nat (offset + k)) (drop k bs) f
         else Some (OTA_OK, f))"

lemma write_flash_nor:
  assumes nor: "nor_part (env_fal E) mem d" and small: "offset + length bs \<le> 1048576"
    and call: "write_flash E (Some d) offset bs f = Some (r, f')"
  shows "part_frame mem d f f'"
    and "i < 256 \<or> i < offset \<or> offset + length bs \<le> i \<Longrightarrow> part_mem mem d f' i = part_mem mem d f i"
    and "r = OTA_OK \<Longrightarrow> 256 \<le> i \<Longrightarrow> offset \<le> i \<Longrightarrow> i < offset + length bs \<Longrightarrow>
           part_mem mem d f' i = part_mem mem d f i AND bs ! (i - offset)"
proof -
  let ?k = "write_consumed offset bs"
  have k: "?k \<le> length bs" "?k < length bs \<Longrightarrow> offset + ?k = max 256 offset"
    by (auto simp: write_consumed_def)
  have "part_frame mem d f f' \<and>
    (i < 256 \<or> i < offset \<or> offset + length bs \<le> i \<longrightarrow> part_mem mem d f' i = part_mem mem d f i) \<and>
    (r = OTA_OK \<longrightarrow> 256 \<le> i \<longrightarrow> offset \<le> i \<longrightarrow> i < offset + length bs \<longrightarrow>
           part_mem mem d f' i = part_mem mem d f i AND bs ! (i - offset))"
  proof (cases "?k < length bs")
    case False
    then have "offset + length bs \<le> 256 \<or> bs = []"
      by (cases bs) (auto simp: write_consumed_def min_def split: if_splits)
    then show ?thesis using call False by (auto simp: write_flash_def frame_intros)
  next
    case True
    define pos where "pos = max 256 offset"
    have wr: "partition_write_exact E (Some d) (of_nat pos) (drop ?k bs) f = Some (r, f')"
      using call True k(2) by (simp add: write_flash_def pos_def)
    have at: "unat (of_nat pos :: u32) = pos" "offset + ?k = pos" "pos + length (drop ?k bs) = offset + length bs"
      using small True k by (simp_all add: pos_def)
    have sm: "unat (of_nat pos :: u32) + length (drop ?k bs) < 2 ^ 31"
      using at small by simp
    note out = write_exact_nor [OF nor sm wr refl, unfolded at(1)]
    have "part_mem mem d f' i = part_mem mem d f i AND bs ! (i - offset)"
      if "r = OTA_OK" "pos \<le> i" "i < offset + length bs"
    proof -
      have "?k + (i - pos) = i - offset" using that(2) at(2) by simp
      then show ?thesis using out(3) [OF that(1), of "i - pos"] that(2,3) at by simp
    qed
    moreover have "part_mem mem d f' i = part_mem mem d f i" if "i < pos \<or> offset + length bs \<le> i"
      using out(2) [of i] that at(3) by simp
    ultimately show ?thesis using out(1) by (auto simp: pos_def max_def split: if_splits)
  qed
  then show "part_frame mem d f f'"
    and "i < 256 \<or> i < offset \<or> offset + length bs \<le> i \<Longrightarrow> part_mem mem d f' i = part_mem mem d f i"
    and "r = OTA_OK \<Longrightarrow> 256 \<le> i \<Longrightarrow> offset \<le> i \<Longrightarrow> i < offset + length bs \<Longrightarrow>
           part_mem mem d f' i = part_mem mem d f i AND bs ! (i - offset)"
    by blast+
qed

lemma stagedD:
  assumes "staged mem d n c data s"
  shows "ota_lock s" "st_state (ota_status s) = OTA_STATE_RECEIVING"
    "st_package_size (ota_status s) = n" "length data \<le> unat n" "unat n \<le> 1048576"
    "unat (st_received_size (ota_status s)) = length data"
    "header_wf (ota_header s)" "256 \<le> unat n"
  using assms by (simp_all add: staged_def)

lemma staged_write_eq:
  assumes st: "staged mem d n c data s" and bs: "bs \<noteq> []" "length data + length bs \<le> unat n"
  shows "ota_write E (of_nat (length data)) (Some bs) s =
    (let s2 = s\<lparr>ota_transfer_crc := ota_crc32_update (ota_transfer_crc s) bs,
                ota_header := write_header (ota_header s) (length data) bs\<rparr>
     in do {
       (r, f) \<leftarrow> write_flash E (ota_download s) (length data) bs (ota_flash s);
       Some (r, if r = OTA_OK
                then s2\<lparr>ota_flash := f, ota_status := (ota_status s)
                       \<lparr>st_received_size := of_nat (length (data @ bs))\<rparr>\<rparr>
                else set_error r (s2\<lparr>ota_flash := f\<rparr>))
     })"
proof -
  note S = stagedD [OF st]
  have rec: "st_received_size (ota_status s) = of_nat (length data)"
    using st by (simp add: staged_def)
  have un: "unat (of_nat (length data) :: u32) = length data" using S(4,5) by simp
  have le: "(of_nat (length data) :: u32) \<le> n" using un S(4) by (simp add: word_le_nat_alt)
  have room: "unat (n - of_nat (length data)) = unat n - length data"
    using unat_sub_u32 [OF le] un by simp
  show ?thesis
    using ota_write_shape [of s "of_nat (length data)" bs E] S(1-3) rec le room un bs
    by (simp add: write_flash_def Let_def cong: if_cong)
qed

lemma staged_write:
  assumes st: "staged mem d n c data s" and nor: "nor_part (env_fal E) mem d"
    and dl: "ota_download s = Some d"
    and call: "ota_write E offset (Some bs) s = Some (OTA_OK, s')"
  shows "staged mem d n c (data @ bs) s'" "ota_download s' = Some d" "ota_upgrade s' = ota_upgrade s"
    "part_frame mem d (ota_flash s) (ota_flash s')" "offset = of_nat (length data)"
proof -
  note S = stagedD [OF st] and G = ota_write_guard [OF call]
  have rec: "st_received_size (ota_status s) = of_nat (length data)"
    using st by (simp add: staged_def)
  show off: "offset = of_nat (length data)" using G(3) rec by simp
  have un: "unat (of_nat (length data) :: u32) = length data" using S(4,5) by simp
  have le: "(of_nat (length data) :: u32) \<le> n" using un S(4) by (simp add: word_le_nat_alt)
  have len: "length data + length bs \<le> unat n"
    using G(6) off S(3,4) unat_sub_u32 [OF le] un by simp
  from call off obtain f where
    fl: "write_flash E (Some d) (length data) bs (ota_flash s) = Some (OTA_OK, f)"
    and s': "s' = s\<lparr>ota_transfer_crc := ota_crc32_update (ota_transfer_crc s) bs,
                ota_header := write_header (ota_header s) (length data) bs, ota_flash := f,
                ota_status := (ota_status s)\<lparr>st_received_size := of_nat (length (data @ bs))\<rparr>\<rparr>"
    unfolding off staged_write_eq [OF st G(5) len] dl Let_def
    by (auto split: Option.bind_splits if_splits)
  have small: "length data + length bs \<le> 1048576" using len S(5) by simp
  note fo = write_flash_nor [OF nor small fl]
  have cells: "\<forall>i. 256 \<le> i \<and> i < length data \<longrightarrow> part_mem mem d (ota_flash s) i = data ! i"
    "\<forall>i < unat n. i < 256 \<or> length data \<le> i \<longrightarrow> part_mem mem d (ota_flash s) i = 0xFF"
    using st by (simp_all add: staged_def)
  have new: "part_mem mem d f i = (data @ bs) ! i" if "256 \<le> i" "i < length (data @ bs)" for i
  proof (cases "i < length data")
    case True
    then show ?thesis using fo(2) [of i] cells(1) that by (simp add: nth_append)
  next
    case False
    then show ?thesis using fo(3) [OF refl, of i] cells(2) that len by (simp add: nth_append and_ff)
  qed
  have blank: "part_mem mem d f i = 0xFF" if "i < unat n" "i < 256 \<or> length (data @ bs) \<le> i" for i
    using fo(2) [of i] cells(2) that by auto
  have crc: "ota_crc32_update (ota_transfer_crc s) bs =
      ota_crc32_update (ota_crc32_init \<lparr>crc_value = 0\<rparr>) (data @ bs)"
    using st by (simp add: staged_def crc.update_append)
  have hd: "header_wf (write_header (ota_header s) (length data) bs)"
    "take (length (data @ bs)) (header_bytes (write_header (ota_header s) (length data) bs)) =
       take 256 (data @ bs)"
    using write_header_wf [OF S(7)] write_header_bytes [OF S(7), of data bs] st
    by (simp_all add: staged_def)
  show "staged mem d n c (data @ bs) s'"
    using st len hd crc new blank unfolding s' staged_def by simp
  show "ota_download s' = Some d" "ota_upgrade s' = ota_upgrade s"
    "part_frame mem d (ota_flash s) (ota_flash s')"
    using s' dl fo(1) by simp_all
qed

section \<open>A whole transfer\<close>

text \<open>The client side of a transfer: consecutive writes, stopped by the first error.\<close>

fun ota_write_all ::
  "'f ota_env \<Rightarrow> nat \<Rightarrow> bytes list \<Rightarrow> 'f ota_sys \<Rightarrow> (int \<times> 'f ota_sys) option" where
  "ota_write_all E offset [] s = Some (OTA_OK, s)"
| "ota_write_all E offset (bs # chunks) s = do {
     (r, s1) \<leftarrow> ota_write E (of_nat offset) (Some bs) s;
     if r \<noteq> OTA_OK then Some (r, s1)
     else ota_write_all E (offset + length bs) chunks s1
   }"

definition ota_transfer ::
  "'f ota_env \<Rightarrow> string option \<Rightarrow> u32 \<Rightarrow> u32 \<Rightarrow> bytes list \<Rightarrow> 'f ota_sys \<Rightarrow>
     (int \<times> 'f ota_sys) option" where
  "ota_transfer E source n c chunks s = do {
     (r, s1) \<leftarrow> ota_begin E source n c s;
     if r \<noteq> OTA_OK then Some (r, s1)
     else do {
       (r, s2) \<leftarrow> ota_write_all E 0 chunks s1;
       if r \<noteq> OTA_OK then Some (r, s2) else ota_finish E s2
     }
   }"

lemma staged_write_all:
  assumes "staged mem d n c data s" "nor_part (env_fal E) mem d" "ota_download s = Some d"
    "ota_write_all E off chunks s = Some (OTA_OK, s')"
  shows "staged mem d n c (data @ concat chunks) s' \<and> ota_download s' = Some d \<and>
    ota_upgrade s' = ota_upgrade s \<and> part_frame mem d (ota_flash s) (ota_flash s')"
  using assms
proof (induction chunks arbitrary: data s off)
  case Nil
  then show ?case by (simp add: frame_intros)
next
  case (Cons bs chunks)
  from Cons.prems(4) obtain s1 where wr: "ota_write E (of_nat off) (Some bs) s = Some (OTA_OK, s1)"
    and rest: "ota_write_all E (off + length bs) chunks s1 = Some (OTA_OK, s')"
    by (auto split: Option.bind_splits if_splits)
  note w = staged_write [OF Cons.prems(1-3) wr]
  show ?case
    using Cons.IH [OF w(1) Cons.prems(2) w(2) rest] w(3,4)
    by (auto intro: part_frame_trans)
qed

lemma staged_finish_enabled:
  assumes "staged mem d n c data s"
  shows "finish_enabled s \<longleftrightarrow> length data = unat n"
  using stagedD [OF assms]
    word_unat_eq_iff [of "st_received_size (ota_status s)" "st_package_size (ota_status s)"]
  by (simp add: finish_enabled_def)

lemma staged_complete:
  assumes st: "staged mem d n c data s" and len: "length data = unat n"
    and req: "4096 + unat (hdr_image_size (ota_header s)) \<le> unat n"
    and off: "hdr_payload_offset (ota_header s) = OTA_IMAGE_PAYLOAD_OFFSET"
  shows "ota_header s = header_of_bytes (take 256 data)"
    and "slot_payload mem d (ota_header s) (ota_flash s) =
           take (unat (hdr_image_size (ota_header s))) (drop 4096 data)"
proof -
  note S = stagedD [OF st]
  have "take (length data) (header_bytes (ota_header s)) = take 256 data"
    using st by (simp add: staged_def)
  then have "header_bytes (ota_header s) = take 256 data"
    using S(8) len length_header_bytes [OF S(7)] by simp
  then show "ota_header s = header_of_bytes (take 256 data)"
    using header_of_bytes_header_bytes [OF S(7)] by simp
  show "slot_payload mem d (ota_header s) (ota_flash s) =
      take (unat (hdr_image_size (ota_header s))) (drop 4096 data)"
    using st len req by (intro nth_equalityI) (simp_all add: slot_payload_def off staged_def)
qed

lemma ota_finish_ok:
  assumes pair: "slot_pair E mem d u" and sys: "ota_download s = Some d" "ota_upgrade s = Some u"
    and wf: "header_wf (ota_header s)" and call: "ota_finish E s = Some (OTA_OK, s')"
  shows "finish_enabled s" "finish_checks s = OTA_OK"
    "slot_holds (env_ecdsa E) mem d (ota_header s) (ota_flash s')"
    "slot_holds (env_ecdsa E) mem u (ota_header s) (ota_flash s')"
    "slot_payload mem u (ota_header s) (ota_flash s') = slot_payload mem d (ota_header s) (ota_flash s)"
    "ota_lock s' = ota_lock s" "ota_header s' = ota_header s" "ota_download s' = Some d" "ota_upgrade s' = Some u"
    "ota_status s' = (ota_status s)\<lparr>st_state := OTA_STATE_READY, st_last_error := OTA_OK,
        st_firmware_version := hdr_firmware_version (ota_header s)\<rparr>"
proof -
  show en: "finish_enabled s" using call ota_finish_disabled [of s E] by fastforce
  show ok: "finish_checks s = OTA_OK"
    using call ota_finish_split [OF en, of E] by (auto split: if_splits)
  from call obtain f where fl: "finish_flash E (Some d) (Some u) (ota_header s) (ota_flash s) = Some (OTA_OK, f)"
    and s': "s' = s\<lparr>ota_flash := f, ota_status := (ota_status s)
        \<lparr>st_state := OTA_STATE_READY, st_last_error := OTA_OK,
         st_firmware_version := hdr_firmware_version (ota_header s)\<rparr>\<rparr>"
    unfolding ota_finish_split [OF en] using ok sys by (auto split: Option.bind_splits if_splits)
  note out = finish_flash_nor(1) [OF pair wf finish_checks_ok(2) [OF ok] fl refl]
  show "slot_holds (env_ecdsa E) mem d (ota_header s) (ota_flash s')"
    "slot_holds (env_ecdsa E) mem u (ota_header s) (ota_flash s')"
    "slot_payload mem u (ota_header s) (ota_flash s') = slot_payload mem d (ota_header s) (ota_flash s)"
    "ota_lock s' = ota_lock s" "ota_header s' = ota_header s" "ota_download s' = Some d" "ota_upgrade s' = Some u"
    "ota_status s' = (ota_status s)\<lparr>st_state := OTA_STATE_READY, st_last_error := OTA_OK,
        st_firmware_version := hdr_firmware_version (ota_header s)\<rparr>"
    using out s' sys by simp_all
qed

section \<open>Progress\<close>

text \<open>A package the service has to accept: \<open>n\<close> announced bytes with CRC \<open>c\<close>.\<close>

definition package_valid ::
  "(bytes \<Rightarrow> bytes \<Rightarrow> bytes \<Rightarrow> bool) \<Rightarrow> u32 \<Rightarrow> u32 \<Rightarrow> bytes \<Rightarrow> bool" where
  "package_valid ecdsa n c data \<longleftrightarrow>
     (let h = header_of_bytes (take 256 data)
      in 256 \<le> unat n \<and> unat n \<le> 1048576 \<and> length data = unat n \<and>
         ota_crc32_calculate data = c \<and>
         header_validate h = OTA_OK \<and>
         4096 + unat (hdr_image_size h) \<le> unat n \<and>
         payload_valid ecdsa h (take (unat (hdr_image_size h)) (drop 4096 data)))"

lemma ota_begin_ok:
  assumes env: "env_slots E mem d u" and rel: "part_reliable (env_fal E) d" and sys: "sys_slots d u s"
    and lock: "ota_lock s \<or> env_mutex_create E"
    and idle: "ota_lock s \<Longrightarrow> st_state (ota_status s) \<notin>
        {OTA_STATE_RECEIVING, OTA_STATE_VALIDATING, OTA_STATE_COMMITTING}"
    and n: "256 \<le> unat n" "unat n \<le> 1048576"
  obtains s' where "ota_begin E source n c s = Some (OTA_OK, s')"
proof -
  obtain r1 s1 where init: "ota_service_init E s = (r1, s1)" by fastforce
  note io = service_init_slots [OF env sys init]
  have r1: "r1 = OTA_OK" using io(7) lock .
  have dl: "ota_download s1 = Some d" using io(1,2) r1 by (simp add: sys_slots_def)
  have st: "st_state (ota_status s1) \<notin>
      {OTA_STATE_RECEIVING, OTA_STATE_VALIDATING, OTA_STATE_COMMITTING}"
    using io(6,8) r1 idle by (cases "ota_lock s") auto
  note P = slot_pairD [OF env [unfolded env_slots_def, THEN conjunct2, THEN conjunct2]]
  have r: "unat (round_up_sector n) = (unat n + 4095) div 4096 * 4096"
    by (rule round_up_sector_unat) (use n in simp)
  then have "unat (round_up_sector n) \<le> 1048576" using n by simp
  then obtain f where "partition_erase_exact E (Some d) 0 (round_up_sector n) (ota_flash s1) = Some (OTA_OK, f)"
    using erase_exact_ok [OF rel, of 0 "round_up_sector n"] P(5) by auto
  moreover have "\<not> (n < 256 \<or> n > OTA_SLOT_SIZE)" using n by (simp add: word_less_nat_alt not_less)
  ultimately show thesis
    using that init r1 st dl by (simp add: ota_begin_def Let_def)
qed

lemma write_flash_ok:
  assumes rel: "part_reliable (env_fal E) d" and len: "1048576 \<le> unat (part_len d)"
    and small: "offset + length bs \<le> 1048576"
  obtains f' where "write_flash E (Some d) offset bs f = Some (OTA_OK, f')"
proof (cases "write_consumed offset bs < length bs")
  case False
  then show thesis using that by (simp add: write_flash_def)
next
  case True
  let ?k = "write_consumed offset bs"
  have at: "unat (of_nat (offset + ?k) :: u32) = offset + ?k"
    by (rule unat_of_nat_u32) (use small True in simp)
  obtain f' where "partition_write_exact E (Some d) (of_nat (offset + ?k)) (drop ?k bs) f = Some (OTA_OK, f')"
    by (rule write_exact_ok [OF rel, of "of_nat (offset + ?k)" "drop ?k bs" f])
       (use at small len True in \<open>simp_all del: of_nat_add\<close>)
  then show thesis using that True by (simp add: write_flash_def)
qed

lemma staged_write_ok:
  assumes st: "staged mem d n c data s" and rel: "part_reliable (env_fal E) d"
    and len: "1048576 \<le> unat (part_len d)" and dl: "ota_download s = Some d"
    and bs: "bs \<noteq> []" "length data + length bs \<le> unat n"
  obtains s' where "ota_write E (of_nat (length data)) (Some bs) s = Some (OTA_OK, s')"
proof -
  have "length data + length bs \<le> 1048576" using bs(2) stagedD(5) [OF st] by simp
  then obtain f where "write_flash E (Some d) (length data) bs (ota_flash s) = Some (OTA_OK, f)"
    by (rule write_flash_ok [OF rel len])
  then show thesis using that staged_write_eq [OF st bs] dl by (simp add: Let_def)
qed

lemma staged_write_all_ok:
  assumes "staged mem d n c data s" "part_reliable (env_fal E) d" "nor_part (env_fal E) mem d"
    "1048576 \<le> unat (part_len d)" "ota_download s = Some d"
    "[] \<notin> set chunks" "length data + length (concat chunks) \<le> unat n"
  shows "\<exists>s'. ota_write_all E (length data) chunks s = Some (OTA_OK, s')"
  using assms
proof (induction chunks arbitrary: data s)
  case (Cons bs chunks)
  obtain s1 where wr: "ota_write E (of_nat (length data)) (Some bs) s = Some (OTA_OK, s1)"
    by (rule staged_write_ok [OF Cons.prems(1,2,4,5), of bs]) (use Cons.prems(6,7) in auto)
  note w = staged_write [OF Cons.prems(1,3,5) wr]
  have "\<exists>s'. ota_write_all E (length (data @ bs)) chunks s1 = Some (OTA_OK, s')"
    by (rule Cons.IH [OF w(1) Cons.prems(2-4) w(2)]) (use Cons.prems(6,7) in auto)
  then show ?case using wr by simp
qed simp

lemma staged_finish_ok:
  assumes st: "staged mem d n c data s" and pair: "slot_pair E mem d u"
    and rel: "part_reliable (env_fal E) d" "part_reliable (env_fal E) u"
    and sys: "ota_download s = Some d" "ota_upgrade s = Some u"
    and valid: "package_valid (env_ecdsa E) n c data"
  obtains s' where "ota_finish E s = Some (OTA_OK, s')"
proof -
  note S = stagedD [OF st]
  define h where "h = header_of_bytes (take 256 data)"
  have V: "length data = unat n" "ota_crc32_calculate data = c" "header_validate h = OTA_OK"
    "4096 + unat (hdr_image_size h) \<le> unat n"
    "payload_valid (env_ecdsa E) h (take (unat (hdr_image_size h)) (drop 4096 data))"
    using valid by (simp_all add: package_valid_def Let_def h_def)
  have "take (length data) (header_bytes (ota_header s)) = take 256 data"
    using st by (simp add: staged_def)
  then have "header_bytes (ota_header s) = take 256 data"
    using S(8) V(1) length_header_bytes [OF S(7)] by simp
  then have hs: "ota_header s = h"
    using header_of_bytes_header_bytes [OF S(7)] by (simp add: h_def)
  have "hdr_payload_offset (ota_header s) = OTA_IMAGE_PAYLOAD_OFFSET"
    using header_validate_fields(3) [OF V(3)] hs by simp
  from staged_complete(2) [OF st V(1) _ this]
  have "slot_payload mem d h (ota_flash s) = take (unat (hdr_image_size h)) (drop 4096 data)"
    using V(4) hs by simp
  then have pv: "payload_valid (env_ecdsa E) h (slot_payload mem d h (ota_flash s))"
    using V(5) by simp
  have wf: "header_wf h" using S(7) hs by simp
  have blank: "part_mem mem d (ota_flash s) i = 0xFF" if "i < 256" for i
    using st that S(8) by (simp add: staged_def)
  obtain f where fl: "finish_flash E (Some d) (Some u) h (ota_flash s) = Some (OTA_OK, f)"
    by (rule finish_flash_ok [OF rel pair wf V(3) pv blank])
  have en: "finish_enabled s" using staged_finish_enabled [OF st] V(1) by simp
  note sz = required_size(1) [OF V(3)]
  have "finish_checks s = OTA_OK"
    using V st hs sz header_validate_fields(3) [OF V(3)] S(3)
    by (simp add: finish_checks_def staged_def crc32_stream_calculate word_less_nat_alt not_less)
  then show thesis using that ota_finish_split [OF en, of E] sys hs fl by simp
qed

lemma transfer_ok:
  assumes "env_slots E mem d u" "sys_slots d u s"
    and "part_reliable (env_fal E) d" "part_reliable (env_fal E) u"
    and "ota_lock s \<or> env_mutex_create E"
    and "ota_lock s \<Longrightarrow> st_state (ota_status s) \<notin>
        {OTA_STATE_RECEIVING, OTA_STATE_VALIDATING, OTA_STATE_COMMITTING}"
    and "package_valid (env_ecdsa E) n c (concat chunks)" "[] \<notin> set chunks"
  shows "\<exists>s'. ota_transfer E source n c chunks s = Some (OTA_OK, s')"
proof -
  have n: "256 \<le> unat n" "unat n \<le> 1048576" "length (concat chunks) = unat n"
    using assms(7) unfolding package_valid_def Let_def by blast+
  have pair: "slot_pair E mem d u" using assms(1) by (simp add: env_slots_def)
  note P = slot_pairD [OF pair]
  obtain s1 where start: "ota_begin E source n c s = Some (OTA_OK, s1)"
    by (rule ota_begin_ok [OF assms(1,3,2,5,6) n(1,2)])
  note b = ota_begin_staged [OF assms(1,2) start]
  have s1: "ota_download s1 = Some d" "ota_upgrade s1 = Some u"
    using b(2) stagedD(1) [OF b(1)] by (simp_all add: sys_slots_def)
  obtain s2 where writes: "ota_write_all E 0 chunks s1 = Some (OTA_OK, s2)"
    using staged_write_all_ok [OF b(1) assms(3) P(1,5) s1(1) assms(8)] n(3) by auto
  have s2: "staged mem d n c (concat chunks) s2" "ota_download s2 = Some d" "ota_upgrade s2 = Some u"
    using staged_write_all [OF b(1) P(1) s1(1) writes] s1(2) by simp_all
  obtain s3 where "ota_finish E s2 = Some (OTA_OK, s3)"
    by (rule staged_finish_ok [OF s2(1) pair assms(3,4) s2(2,3) assms(7)])
  then show ?thesis using start writes by (simp add: ota_transfer_def)
qed

lemma example_package_valid:
  "package_valid (env_ecdsa example_env) 4104 (ota_crc32_calculate example_package) example_package"
  using example_package_parts example_fields example_header_valid example_payload_valid
  by (simp add: package_valid_def Let_def example_payload_def)

lemma example_env_slots: "env_slots example_env (\<lambda>f. f) example_download example_upgrade"
  using example_find example_pair by (simp add: env_slots_def)

lemma example_boot_slots: "sys_slots d u (ota_boot f)"
  by (simp add: sys_slots_def ota_boot_def)

lemma example_chunks:
  "concat [header_bytes example_header, example_body] = example_package"
  "[] \<notin> set [header_bytes example_header, example_body]"
  using length_header_bytes [OF example_header_wf]
  by (auto simp: example_package_def example_body_def)

lemma example_transfer:
  obtains s' where "ota_transfer example_env (Some ''test'') 4104 (ota_crc32_calculate example_package)
     [header_bytes example_header, example_body] (ota_boot (\<lambda>_. 0xFF)) = Some (OTA_OK, s')"
  using transfer_ok [OF example_env_slots example_boot_slots example_reliable _ _ _ example_chunks(2)]
    example_package_valid example_chunks(1)
  by (fastforce simp add: ota_boot_def example_env_def simp del: concat.simps)

section \<open>Results on a transfer\<close>

text \<open>C1: A transfer that reports OK installed exactly the package the client sent: the chunks
  joined have the announced length and CRC-32, the upgrade slot holds the header in their
  first 256 bytes and the payload from offset 4096, both digests and the signature of that
  payload check, and the service is READY.\<close>

theorem ota_transfer_installs:
  assumes "env_slots E mem d u" "sys_slots d u s"
    and "ota_transfer E source n c chunks s = Some (OTA_OK, s')"
  shows "let data = concat chunks; h = header_of_bytes (take 256 data) in
    length data = unat n \<and> ota_crc32_calculate data = c \<and>
    slot_holds (env_ecdsa E) mem u h (ota_flash s') \<and>
    slot_payload mem u h (ota_flash s') = take (unat (hdr_image_size h)) (drop 4096 data) \<and>
    st_state (ota_get_status s') = OTA_STATE_READY \<and>
    st_firmware_version (ota_get_status s') = hdr_firmware_version h"
proof -
  from assms(3) obtain s1 s2 where start: "ota_begin E source n c s = Some (OTA_OK, s1)"
    and writes: "ota_write_all E 0 chunks s1 = Some (OTA_OK, s2)"
    and finish: "ota_finish E s2 = Some (OTA_OK, s')"
    by (auto simp: ota_transfer_def split: Option.bind_splits if_splits)
  have pair: "slot_pair E mem d u" using assms(1) by (simp add: env_slots_def)
  note P = slot_pairD [OF pair] and b = ota_begin_staged [OF assms(1,2) start]
  have s1: "ota_download s1 = Some d" "ota_upgrade s1 = Some u"
    using b(2) stagedD(1) [OF b(1)] by (simp_all add: sys_slots_def)
  have s2: "staged mem d n c (concat chunks) s2" "ota_download s2 = Some d" "ota_upgrade s2 = Some u"
    using staged_write_all [OF b(1) P(1) s1(1) writes] s1(2) by simp_all
  note f = ota_finish_ok [OF pair s2(2,3) stagedD(7) [OF s2(1)] finish]
  have len: "length (concat chunks) = unat n"
    using f(1) staged_finish_enabled [OF s2(1)] by simp
  note ok = finish_checks_ok [OF f(2)]
  have req: "4096 + unat (hdr_image_size (ota_header s2)) \<le> unat n"
    using ok(3) stagedD(3) [OF s2(1)] by simp
  note c = staged_complete [OF s2(1) len req header_validate_fields(3) [OF ok(2)]]
  have "ota_crc32_calculate (concat chunks) = c"
    using ok(1) s2(1) by (simp add: staged_def crc32_stream_calculate)
  then show ?thesis
    using len f(4,5,6,10) c stagedD(1) [OF s2(1)]
    by (simp add: Let_def ota_get_status_def)
qed

lemma ota_transfer_installs_witness:
  "\<exists>s'. ota_transfer example_env (Some ''test'') 4104 (ota_crc32_calculate example_package)
       [header_bytes example_header, example_body] (ota_boot (\<lambda>_. 0xFF)) = Some (OTA_OK, s') \<and>
     slot_holds (env_ecdsa example_env) (\<lambda>f. f) example_upgrade example_header (ota_flash s')"
proof -
  obtain s' where call: "ota_transfer example_env (Some ''test'') 4104
      (ota_crc32_calculate example_package) [header_bytes example_header, example_body]
      (ota_boot (\<lambda>_. 0xFF)) = Some (OTA_OK, s')"
    by (rule example_transfer)
  from ota_transfer_installs [OF example_env_slots example_boot_slots call]
  have "slot_holds (env_ecdsa example_env) (\<lambda>f. f) example_upgrade example_header (ota_flash s')"
    unfolding example_chunks(1) Let_def example_package_parts(2) by blast
  with call show ?thesis by blast
qed

text \<open>C3: On devices that do not fail, a valid package split into any non-empty chunks is
  accepted: the transfer runs to its end and reports OK.\<close>

theorem ota_transfer_succeeds:
  assumes "env_slots E mem d u" "sys_slots d u s"
    and "part_reliable (env_fal E) d" "part_reliable (env_fal E) u"
    and "ota_lock s \<or> env_mutex_create E"
    and "ota_lock s \<Longrightarrow> st_state (ota_status s) \<notin>
        {OTA_STATE_RECEIVING, OTA_STATE_VALIDATING, OTA_STATE_COMMITTING}"
    and "package_valid (env_ecdsa E) n c (concat chunks)" "[] \<notin> set chunks"
  shows "\<exists>s'. ota_transfer E source n c chunks s = Some (OTA_OK, s')"
  by (rule transfer_ok [OF assms])

lemma ota_transfer_succeeds_witness:
  "\<exists>s'. ota_transfer example_env (Some ''test'') 4104 (ota_crc32_calculate example_package)
     [header_bytes example_header, example_body] (ota_boot (\<lambda>_. 0xFF)) = Some (OTA_OK, s')"
  by (rule ota_transfer_succeeds [OF example_env_slots example_boot_slots example_reliable])
     (use example_package_valid example_chunks in
        \<open>simp_all add: ota_boot_def example_env_def del: concat.simps\<close>)

section \<open>Every reachable state\<close>

text \<open>
  One step is one public call with any arguments; its mutex makes it atomic for the other
  threads.
\<close>

inductive ota_step :: "'f ota_env \<Rightarrow> 'f ota_sys \<Rightarrow> 'f ota_sys \<Rightarrow> bool" for E where
  init: "ota_service_init E s = (r, s') \<Longrightarrow> ota_step E s s'"
| begins: "ota_begin E source n c s = Some (r, s') \<Longrightarrow> ota_step E s s'"
| writes: "ota_write E offset data s = Some (r, s') \<Longrightarrow> ota_step E s s'"
| finishes: "ota_finish E s = Some (r, s') \<Longrightarrow> ota_step E s s'"
| aborts: "ota_abort E s = Some s' \<Longrightarrow> ota_step E s s'"

inductive ota_reach :: "'f ota_env \<Rightarrow> 'f \<Rightarrow> 'f ota_sys \<Rightarrow> bool" for E f where
  boot: "ota_reach E f (ota_boot f)"
| step: "ota_reach E f s \<Longrightarrow> ota_step E s s' \<Longrightarrow> ota_reach E f s'"

definition ota_inv ::
  "'f ota_env \<Rightarrow> ('f \<Rightarrow> nat \<Rightarrow> u8) \<Rightarrow> fal_partition \<Rightarrow> fal_partition \<Rightarrow> 'f ota_sys \<Rightarrow> bool" where
  "ota_inv E mem d u s \<longleftrightarrow>
     sys_slots d u s \<and> (\<not> ota_lock s \<longrightarrow> ota_status s = ota_status_zero) \<and>
     (case st_state (ota_status s) of
        OTA_STATE_UNINITIALIZED \<Rightarrow> \<not> ota_lock s
      | OTA_STATE_IDLE \<Rightarrow> ota_lock s
      | OTA_STATE_RECEIVING \<Rightarrow>
          (\<exists>data. staged mem d (st_package_size (ota_status s)) (ota_expected_package_crc s) data s)
      | OTA_STATE_VALIDATING \<Rightarrow> False
      | OTA_STATE_COMMITTING \<Rightarrow> False
      | OTA_STATE_READY \<Rightarrow> ota_lock s \<and>
          (\<exists>h. header_wf h \<and> slot_holds (env_ecdsa E) mem u h (ota_flash s) \<and>
               st_firmware_version (ota_status s) = hdr_firmware_version h)
      | OTA_STATE_ERROR \<Rightarrow> ota_lock s)"

lemma ota_inv_boot [wf_intros]: "ota_inv E mem d u (ota_boot f)"
  by (simp add: ota_inv_def ota_boot_def sys_slots_def ota_status_zero_def)

lemma ota_inv_staged:
  assumes st: "staged mem d n c data s" and "sys_slots d u s"
  shows "ota_inv E mem d u s"
proof -
  have "ota_lock s" "st_state (ota_status s) = OTA_STATE_RECEIVING"
    "st_package_size (ota_status s) = n" "ota_expected_package_crc s = c"
    using st by (simp_all add: staged_def)
  then show ?thesis using assms by (auto simp: ota_inv_def)
qed

lemma ota_inv_error:
  "sys_slots d u s \<Longrightarrow> ota_lock s \<Longrightarrow> st_state (ota_status s) = OTA_STATE_ERROR \<Longrightarrow> ota_inv E mem d u s"
  by (simp add: ota_inv_def)

lemma ota_inv_init:
  assumes env: "env_slots E mem d u" and inv: "ota_inv E mem d u s"
    and call: "ota_service_init E s = (r, s')"
  shows "ota_inv E mem d u s'"
proof (cases "ota_lock s")
  case True
  then show ?thesis using call inv by (simp add: ota_service_init_def)
next
  case False
  have sys: "sys_slots d u s" using inv by (simp add: ota_inv_def)
  note io = service_init_slots [OF env sys call]
  show ?thesis
  proof (cases "r = OTA_OK")
    case True
    then show ?thesis using io(1,2) io(8) [OF False True] by (simp add: ota_inv_def)
  next
    case False
    then show ?thesis using io(5) inv by simp
  qed
qed

lemma ota_begin_cases:
  assumes "ota_service_init E s = (r1, s1)" "ota_begin E source n c s = Some (r, s')"
  shows "s' = s1 \<or> (r = OTA_OK) \<or>
    (r = OTA_ERROR_FLASH \<and> st_state (ota_status s') = OTA_STATE_ERROR \<and> ota_lock s' = ota_lock s1 \<and>
     ota_download s' = ota_download s1 \<and> ota_upgrade s' = ota_upgrade s1)"
  using assms by (auto simp: ota_begin_def Let_def split: if_splits Option.bind_splits)

lemma ota_inv_begin:
  assumes env: "env_slots E mem d u" and inv: "ota_inv E mem d u s"
    and call: "ota_begin E source n c s = Some (r, s')"
  shows "ota_inv E mem d u s'"
proof -
  obtain r1 s1 where init: "ota_service_init E s = (r1, s1)" by fastforce
  have sys: "sys_slots d u s" using inv by (simp add: ota_inv_def)
  note inv1 = ota_inv_init [OF env inv init]
  note io = service_init_slots [OF env sys init]
  from ota_begin_cases [OF init call] consider "s' = s1" | "r = OTA_OK" |
    (err) "r = OTA_ERROR_FLASH" "st_state (ota_status s') = OTA_STATE_ERROR" "ota_lock s' = ota_lock s1"
      "ota_download s' = ota_download s1" "ota_upgrade s' = ota_upgrade s1" "s' \<noteq> s1"
    by blast
  then show ?thesis
  proof cases
    case 1
    then show ?thesis using inv1 by simp
  next
    case 2
    note b = ota_begin_staged [OF env sys call [unfolded 2]]
    show ?thesis by (rule ota_inv_staged [OF b(1,2)])
  next
    case err
    have "r1 = OTA_OK" using call init err(6) by (auto simp: ota_begin_def split: if_splits)
    then have "ota_lock s1" by (rule io(2))
    then show ?thesis using err io(1) by (intro ota_inv_error) (simp_all add: sys_slots_def)
  qed
qed

lemma ota_write_cases:
  assumes "ota_write E offset data s = Some (r, s')"
  shows "(s' = s \<and> r < 0) \<or> (r = OTA_OK \<and> (\<exists>bs. data = Some bs)) \<or>
    (ota_lock s \<and> st_state (ota_status s') = OTA_STATE_ERROR \<and> ota_lock s' \<and>
     st_last_error (ota_status s') = r \<and>
     ota_download s' = ota_download s \<and> ota_upgrade s' = ota_upgrade s)"
  using assms
  by (auto simp: ota_write_def Let_def split: if_splits Option.bind_splits option.splits cong: if_cong)

lemma ota_inv_receiving:
  assumes "ota_inv E mem d u s" "st_state (ota_status s) = OTA_STATE_RECEIVING"
  obtains data where
    "staged mem d (st_package_size (ota_status s)) (ota_expected_package_crc s) data s"
    "ota_download s = Some d" "ota_upgrade s = Some u"
proof -
  obtain data where st:
    "staged mem d (st_package_size (ota_status s)) (ota_expected_package_crc s) data s"
    using assms by (auto simp: ota_inv_def)
  with that assms(1) stagedD(1) [OF st] show thesis by (simp add: ota_inv_def sys_slots_def)
qed

lemma ota_inv_write:
  assumes env: "env_slots E mem d u" and inv: "ota_inv E mem d u s"
    and call: "ota_write E offset data s = Some (r, s')"
  shows "ota_inv E mem d u s'"
proof -
  have P: "nor_part (env_fal E) mem d" using env by (simp add: env_slots_def slot_pair_def)
  from ota_write_cases [OF call] consider "s' = s" | (ok) bs where "r = OTA_OK" "data = Some bs" |
    (err) "ota_lock s" "st_state (ota_status s') = OTA_STATE_ERROR" "ota_lock s'"
     "ota_download s' = ota_download s" "ota_upgrade s' = ota_upgrade s"
    by blast
  then show ?thesis
  proof cases
    case 1
    then show ?thesis using inv by simp
  next
    case ok
    note call' = call [unfolded ok]
    obtain old where st: "staged mem d (st_package_size (ota_status s)) (ota_expected_package_crc s) old s"
      and sl: "ota_download s = Some d" "ota_upgrade s = Some u"
      by (rule ota_inv_receiving [OF inv ota_write_guard(2) [OF call']])
    note w = staged_write [OF st P sl(1) call']
    have "sys_slots d u s'" using w(2,3) sl by (simp add: sys_slots_def)
    then show ?thesis by (rule ota_inv_staged [OF w(1)])
  next
    case err
    then show ?thesis using inv by (intro ota_inv_error) (simp_all add: sys_slots_def ota_inv_def)
  qed
qed

lemma ota_finish_error:
  assumes en: "finish_enabled s" and call: "ota_finish E s = Some (r, s')" and bad: "r \<noteq> OTA_OK"
  shows "s' = (set_error r s)\<lparr>ota_flash := ota_flash s'\<rparr>"
proof -
  have *: "finish_checks s \<noteq> OTA_OK \<Longrightarrow> r = finish_checks s"
    using call unfolding ota_finish_split [OF en] by simp
  show ?thesis
  proof (cases "finish_checks s = OTA_OK")
    case True
    then obtain f where "s' = (set_error r s)\<lparr>ota_flash := f\<rparr>"
      using call bad unfolding ota_finish_split [OF en]
      by (auto split: Option.bind_splits)
    then show ?thesis by simp
  next
    case False
    then show ?thesis using call * unfolding ota_finish_split [OF en]
      by (simp add: set_error_def)
  qed
qed

lemma ota_inv_finish:
  assumes env: "env_slots E mem d u" and inv: "ota_inv E mem d u s"
    and call: "ota_finish E s = Some (r, s')"
  shows "ota_inv E mem d u s'"
proof (cases "finish_enabled s")
  case False
  then show ?thesis using ota_finish_disabled [of s E] call inv by simp
next
  case en: True
  have pair: "slot_pair E mem d u" using env by (simp add: env_slots_def)
  have rec: "st_state (ota_status s) = OTA_STATE_RECEIVING" using en by (simp add: finish_enabled_def)
  obtain old where st: "staged mem d (st_package_size (ota_status s)) (ota_expected_package_crc s) old s"
    and sl: "ota_download s = Some d" "ota_upgrade s = Some u"
    by (rule ota_inv_receiving [OF inv rec])
  show ?thesis
  proof (cases "r = OTA_OK")
    case True
    note f = ota_finish_ok [OF pair sl stagedD(7) [OF st] call [unfolded True]]
    show ?thesis
      using f(4,6,8,9,10) stagedD(1,7) [OF st] by (auto simp: ota_inv_def sys_slots_def)
  next
    case False
    have "s' = (set_error r s)\<lparr>ota_flash := ota_flash s'\<rparr>" by (rule ota_finish_error [OF en call False])
    moreover have "ota_inv E mem d u ((set_error r s)\<lparr>ota_flash := g\<rparr>)" for g
      using stagedD(1) [OF st] sl by (intro ota_inv_error) (simp_all add: sys_slots_def)
    ultimately show ?thesis by metis
  qed
qed

lemma ota_inv_abort:
  assumes inv: "ota_inv E mem d u s" and call: "ota_abort E s = Some s'"
  shows "ota_inv E mem d u s'"
proof (cases "ota_lock s")
  case False
  then show ?thesis using inv call by (simp add: ota_abort_def)
next
  case True
  then obtain f where "s' = s\<lparr>ota_flash := f, ota_status := ota_status_zero\<lparr>st_state := OTA_STATE_IDLE\<rparr>\<rparr>"
    using call by (auto simp: ota_abort_def split: Option.bind_splits)
  then show ?thesis using inv True by (simp add: ota_inv_def sys_slots_def)
qed

lemmas ota_inv_ops = ota_inv_init ota_inv_begin ota_inv_write ota_inv_finish ota_inv_abort

lemma ota_inv_step:
  assumes "ota_step E s s'" "env_slots E mem d u" "ota_inv E mem d u s"
  shows "ota_inv E mem d u s'"
  using assms by (cases rule: ota_step.cases) (blast intro: ota_inv_ops)+

lemma ota_inv_reach:
  "ota_reach E f s \<Longrightarrow> env_slots E mem d u \<Longrightarrow> ota_inv E mem d u s"
  by (induction rule: ota_reach.induct) (auto intro: ota_inv_step wf_intros)

lemma ota_finish_returns:
  assumes "ota_download s = Some d" "ota_upgrade s = Some u"
  shows "returns (ota_finish E s)"
  using assms
  by (cases "finish_enabled s")
     (auto simp: ota_finish_disabled ota_finish_split intro!: defined_intros)

lemma ota_begin_returns:
  assumes "env_slots E mem d u" "sys_slots d u s"
  shows "returns (ota_begin E source n c s)"
proof -
  obtain r1 s1 where init: "ota_service_init E s = (r1, s1)" by fastforce
  note io = service_init_slots [OF assms init]
  show ?thesis
  proof (cases "r1 = OTA_OK")
    case True
    then have "ota_download s1 = Some d" using io(1,2) by (simp add: sys_slots_def)
    then show ?thesis unfolding ota_begin_def init by (auto simp: Let_def intro!: defined_intros)
  qed (simp add: ota_begin_def init)
qed

lemma ota_write_returns:
  assumes "sys_slots d u s"
  shows "returns (ota_write E offset data s)"
proof (cases "ota_lock s")
  case True
  then have "ota_download s = Some d" using assms by (simp add: sys_slots_def)
  then show ?thesis
    by (cases data) (auto simp: ota_write_def Let_def intro!: defined_intros)
qed (auto simp: ota_write_def split: option.split)

lemma ota_abort_returns: "returns (ota_abort E s)"
  by (cases "ota_download s")
     (auto simp: ota_abort_def intro!: defined_intros)

lemma example_received:
  obtains s2 s3 where "ota_reach example_env (\<lambda>_. 0xFF) s2" "finish_enabled s2"
    "ota_finish example_env s2 = Some (OTA_OK, s3)"
proof -
  obtain s3 where call: "ota_transfer example_env (Some ''test'') 4104
      (ota_crc32_calculate example_package) [header_bytes example_header, example_body]
      (ota_boot (\<lambda>_. 0xFF)) = Some (OTA_OK, s3)"
    by (rule example_transfer)
  then obtain s1 s2 s2' where
    "ota_begin example_env (Some ''test'') 4104 (ota_crc32_calculate example_package)
       (ota_boot (\<lambda>_. 0xFF)) = Some (OTA_OK, s1)"
    "ota_write example_env (of_nat 0) (Some (header_bytes example_header)) s1 = Some (OTA_OK, s2)"
    "ota_write example_env (of_nat (0 + length (header_bytes example_header))) (Some example_body) s2
       = Some (OTA_OK, s2')"
    and fin: "ota_finish example_env s2' = Some (OTA_OK, s3)"
    by (auto simp: ota_transfer_def split: Option.bind_splits if_splits)
  then have "ota_reach example_env (\<lambda>_. 0xFF) s2'"
    by (meson ota_reach.boot ota_reach.step begins writes)
  moreover have "finish_enabled s2'" using fin ota_finish_disabled [of s2' example_env] by fastforce
  ultimately show thesis using that fin by blast
qed

lemma example_ready:
  obtains s' where "ota_reach example_env (\<lambda>_. 0xFF) s'" "st_state (ota_status s') = OTA_STATE_READY"
    "ota_lock s'"
proof -
  obtain s2 s3 where reach2: "ota_reach example_env (\<lambda>_. 0xFF) s2" and en: "finish_enabled s2"
    and fin: "ota_finish example_env s2 = Some (OTA_OK, s3)" by (rule example_received)
  have reach: "ota_reach example_env (\<lambda>_. 0xFF) s3"
    using reach2 fin by (meson ota_reach.step finishes)
  have inv: "ota_inv example_env (\<lambda>f. f) example_download example_upgrade s2"
    by (rule ota_inv_reach [OF reach2 example_env_slots])
  have rec: "st_state (ota_status s2) = OTA_STATE_RECEIVING" using en by (simp add: finish_enabled_def)
  obtain data where st: "staged (\<lambda>f. f) example_download (st_package_size (ota_status s2))
      (ota_expected_package_crc s2) data s2"
    and sl: "ota_download s2 = Some example_download" "ota_upgrade s2 = Some example_upgrade"
    by (rule ota_inv_receiving [OF inv rec])
  note f = ota_finish_ok [OF example_pair sl stagedD(7) [OF st] fin]
  show thesis
    by (rule that [OF reach]) (use f(6,10) stagedD(1) [OF st] in simp_all)
qed

text \<open>C5: In every state the service can reach, a validating or committing state is never
  visible between calls, a transfer in progress never exceeds the announced size nor the slot,
  and READY means that the upgrade slot holds a header and payload that passed every check,
  of the reported version.\<close>

theorem ota_reach_invariant:
  assumes "env_slots E mem d u" "ota_reach E f s"
  shows "st_state (ota_status s) \<notin> {OTA_STATE_VALIDATING, OTA_STATE_COMMITTING} \<and>
    (st_state (ota_status s) = OTA_STATE_RECEIVING \<longrightarrow>
       st_received_size (ota_status s) \<le> st_package_size (ota_status s) \<and>
       256 \<le> st_package_size (ota_status s) \<and> st_package_size (ota_status s) \<le> OTA_SLOT_SIZE) \<and>
    (st_state (ota_status s) = OTA_STATE_READY \<longrightarrow>
       (\<exists>h. header_wf h \<and> slot_holds (env_ecdsa E) mem u h (ota_flash s) \<and>
            st_firmware_version (ota_status s) = hdr_firmware_version h))"
proof -
  have inv: "ota_inv E mem d u s" by (rule ota_inv_reach [OF assms(2,1)])
  have "st_received_size (ota_status s) \<le> st_package_size (ota_status s) \<and>
      256 \<le> st_package_size (ota_status s) \<and> st_package_size (ota_status s) \<le> OTA_SLOT_SIZE"
    if rec: "st_state (ota_status s) = OTA_STATE_RECEIVING"
  proof -
    obtain data where st: "staged mem d (st_package_size (ota_status s)) (ota_expected_package_crc s) data s"
      by (rule ota_inv_receiving [OF inv rec])
    show ?thesis using stagedD [OF st] by (simp add: word_le_nat_alt)
  qed
  then show ?thesis using inv by (auto simp: ota_inv_def)
qed

lemma ota_reach_invariant_witness:
  "\<exists>(s :: (nat \<Rightarrow> u8) ota_sys) h. st_state (ota_status s) = OTA_STATE_READY \<and>
     slot_holds (env_ecdsa example_env) (\<lambda>f. f) example_upgrade h (ota_flash s)"
proof -
  obtain s where s: "ota_reach example_env (\<lambda>_. 0xFF) s" "st_state (ota_status s) = OTA_STATE_READY"
    by (rule example_ready)
  show ?thesis using ota_reach_invariant [OF example_env_slots s(1)] s(2) by blast
qed



text \<open>C21: When both partitions exist, no public call of the service hits an assertion of the
  partition layer, in any reachable state and whatever the flash device reports.\<close>

theorem ota_no_assertion:
  assumes "env_slots E mem d u" "ota_reach E f s"
  shows "ota_begin E source n c s \<noteq> None \<and> ota_write E offset data s \<noteq> None \<and>
         ota_finish E s \<noteq> None \<and> ota_abort E s \<noteq> None"
proof -
  have sys: "sys_slots d u s" using ota_inv_reach [OF assms(2,1)] by (simp add: ota_inv_def)
  have "returns (ota_finish E s)"
  proof (cases "ota_lock s")
    case True
    then show ?thesis using sys by (intro ota_finish_returns [of s d u]) (simp_all add: sys_slots_def)
  qed (simp add: ota_finish_def)
  then show ?thesis
    using ota_begin_returns [OF assms(1) sys] ota_write_returns [OF sys] ota_abort_returns
    by (simp only: returns_def simp_thms)
qed

lemma ota_no_assertion_witness:
  "ota_begin example_env None 4104 0 (ota_boot (\<lambda>_. 0)) \<noteq> None"
  using ota_no_assertion [OF example_env_slots ota_reach.boot] by blast

text \<open>C20: A missing partition is reported once only: the first initialisation fails with a
  partition error but keeps the mutex, so the next one reports OK, and the transfer that then
  starts runs into the assertion of the partition layer on a NULL partition.\<close>

theorem ota_init_retry_masks_error:
  assumes "\<not> ota_lock s" "env_mutex_create E"
    and "fal_partition_find (env_fal E) OTA_DOWNLOAD_PARTITION_NAME = None"
    and "256 \<le> unat n" "unat n \<le> 1048576"
  shows "\<exists>s1. ota_service_init E s = (OTA_ERROR_PARTITION, s1) \<and>
           ota_service_init E s1 = (OTA_OK, s1) \<and> ota_begin E source n c s1 = None"
proof -
  obtain s1 where s1: "ota_service_init E s = (OTA_ERROR_PARTITION, s1)" "ota_lock s1"
    "ota_download s1 = None" "st_state (ota_status s1) = OTA_STATE_ERROR"
    using assms(1-3) by (auto simp: ota_service_init_def Let_def)
  have r: "unat (round_up_sector n) = (unat n + 4095) div 4096 * 4096"
    by (rule round_up_sector_unat) (use assms(5) in simp)
  have "round_up_sector n \<noteq> 0" using r assms(4) by (auto simp: unat_eq_0 [symmetric])
  then have "partition_erase_exact E None 0 (round_up_sector n) f = None" for f
    by (simp add: partition_erase_exact.simps fal_partition_erase_def Let_def)
  then have "ota_begin E source n c s1 = None"
    using s1 assms(4,5) by (simp add: ota_begin_def ota_service_init_def Let_def word_less_nat_alt not_less)
  then show ?thesis using s1(1,2) by (auto simp: ota_service_init_def)
qed

lemma ota_init_retry_masks_error_witness:
  "\<exists>s1. ota_service_init (example_env\<lparr>env_fal := \<lparr>fal_table = [], fal_device = \<lambda>_. None\<rparr>\<rparr>)
      (ota_boot (\<lambda>_. 0)) = (OTA_ERROR_PARTITION, s1) \<and>
     ota_begin (example_env\<lparr>env_fal := \<lparr>fal_table = [], fal_device = \<lambda>_. None\<rparr>\<rparr>) None 4104 0 s1 = None"
  using ota_init_retry_masks_error
    [of "ota_boot (\<lambda>_. 0)" "example_env\<lparr>env_fal := \<lparr>fal_table = [], fal_device = \<lambda>_. None\<rparr>\<rparr>" 4104 None 0]
  by (auto simp: ota_boot_def example_env_def fal_partition_find_def)

section \<open>What a failed transfer leaves\<close>

lemma ota_begin_frame:
  assumes env: "env_slots E mem d u" and sys: "sys_slots d u s"
    and call: "ota_begin E source n c s = Some (r, s')"
  shows "part_frame mem d (ota_flash s) (ota_flash s')"
proof -
  obtain r1 s1 where init: "ota_service_init E s = (r1, s1)" by fastforce
  note io = service_init_slots [OF env sys init]
  note P = slot_pairD [OF env [unfolded env_slots_def, THEN conjunct2, THEN conjunct2]]
  show ?thesis
  proof (cases "ota_flash s' = ota_flash s1")
    case True
    then show ?thesis using io(3) by (simp add: frame_intros)
  next
    case False
    then have r1: "r1 = OTA_OK" and n: "unat n \<le> 1048576"
      using call init by (auto simp: ota_begin_def word_le_nat_alt not_less split: if_splits)
    have dl: "ota_download s1 = Some d" using io(1,2) r1 by (simp add: sys_slots_def)
    from call init r1 dl False obtain r2 f2 where
      er: "partition_erase_exact E (Some d) 0 (round_up_sector n) (ota_flash s1) = Some (r2, f2)"
      and s': "ota_flash s' = f2"
      by (auto simp: ota_begin_def Let_def split: if_splits Option.bind_splits)
    have r: "unat (round_up_sector n) = (unat n + 4095) div 4096 * 4096"
      by (rule round_up_sector_unat) (use n in simp)
    have al: "4096 dvd unat (round_up_sector n)" "unat (round_up_sector n) < 2147483648"
      using n r by simp_all
    show ?thesis
      using erase_exact_nor [OF P(1) refl _ _ al(1) er, simplified, OF al(2)] s' io(3) by simp
  qed
qed

lemma ota_write_frame:
  assumes env: "env_slots E mem d u" and inv: "ota_inv E mem d u s"
    and call: "ota_write E offset data s = Some (r, s')"
  shows "part_frame mem d (ota_flash s) (ota_flash s')"
proof (cases "ota_flash s' = ota_flash s")
  case True
  then show ?thesis by (simp add: frame_intros)
next
  case False
  have P: "nor_part (env_fal E) mem d" using env by (simp add: env_slots_def slot_pair_def)
  from call False obtain bs where data: "data = Some bs" and
    rec: "st_state (ota_status s) = OTA_STATE_RECEIVING" and bs: "bs \<noteq> []"
    and off: "offset = st_received_size (ota_status s)" "offset \<le> st_package_size (ota_status s)"
    and room: "length bs \<le> unat (st_package_size (ota_status s) - offset)"
    by (auto simp: ota_write_def split: if_splits option.splits)
  obtain old where st: "staged mem d (st_package_size (ota_status s)) (ota_expected_package_crc s) old s"
    and sl: "ota_download s = Some d" by (rule ota_inv_receiving [OF inv rec])
  note S = stagedD [OF st]
  have len: "length old + length bs \<le> unat (st_package_size (ota_status s))"
    using room unat_sub_u32 [OF off(2)] S(6) off(1) S(4) by simp
  have ofn: "offset = of_nat (length old)" using off(1) st by (simp add: staged_def)
  obtain r2 f2 where fl: "write_flash E (Some d) (length old) bs (ota_flash s) = Some (r2, f2)"
    and s': "ota_flash s' = f2"
    using call unfolding data ofn staged_write_eq [OF st bs len] sl Let_def
    by (auto split: Option.bind_splits if_splits)
  have "length old + length bs \<le> 1048576" using len S(5) by simp
  then show ?thesis using write_flash_nor(1) [OF P _ fl] s' by simp
qed

lemma ota_write_all_frame:
  assumes "env_slots E mem d u" "ota_inv E mem d u s"
    "ota_write_all E off chunks s = Some (r, s')"
  shows "part_frame mem d (ota_flash s) (ota_flash s')"
  using assms
proof (induction chunks arbitrary: s off)
  case Nil
  then show ?case by (simp add: frame_intros)
next
  case (Cons bs chunks)
  from Cons.prems(3) obtain r1 s1 where wr: "ota_write E (of_nat off) (Some bs) s = Some (r1, s1)"
    and rest: "(if r1 \<noteq> OTA_OK then Some (r1, s1)
                else ota_write_all E (off + length bs) chunks s1) = Some (r, s')"
    by (auto split: Option.bind_splits)
  note frame = ota_write_frame [OF Cons.prems(1,2) wr]
  note inv = ota_inv_write [OF Cons.prems(1,2) wr]
  show ?case
    using rest frame Cons.IH [OF Cons.prems(1) inv]
    by (auto intro: part_frame_trans split: if_splits)
qed

lemma part_frame_upgrade:
  assumes "part_frame mem d f g" "slot_pair E mem d u"
  shows "part_bytes mem u g 0 (unat (part_len u)) = part_bytes mem u f 0 (unat (part_len u))"
  by (rule part_bytes_frame [OF assms(1) slot_pairD(3) [OF assms(2)]]) simp

text \<open>What any \<open>ota_finish\<close> leaves, in terms of the data received.\<close>

lemma staged_finish_any:
  assumes st: "staged mem d n c data s" and pair: "slot_pair E mem d u"
    and sl: "ota_download s = Some d" "ota_upgrade s = Some u"
    and call: "ota_finish E s = Some (r, s')"
  shows "part_bytes mem u (ota_flash s') 0 (unat (part_len u)) =
           part_bytes mem u (ota_flash s) 0 (unat (part_len u)) \<and> r \<noteq> OTA_OK \<or>
         package_valid (env_ecdsa E) n c data"
    and "part_bytes mem d (ota_flash s') 0 256 = replicate 256 0xFF \<or>
         payload_valid (env_ecdsa E) (ota_header s) (slot_payload mem d (ota_header s) (ota_flash s'))"
proof -
  let ?h = "ota_header s"
  let ?same = "part_bytes mem u (ota_flash s') 0 (unat (part_len u)) =
           part_bytes mem u (ota_flash s) 0 (unat (part_len u))"
  note S = stagedD [OF st]
  have blank: "part_bytes mem d (ota_flash s) 0 256 = replicate 256 0xFF"
    using st S(8) by (intro nth_equalityI) (simp_all add: staged_def)
  have "((?same \<and> r \<noteq> OTA_OK) \<or> package_valid (env_ecdsa E) n c data) \<and>
    (part_bytes mem d (ota_flash s') 0 256 = replicate 256 0xFF \<or>
         payload_valid (env_ecdsa E) ?h (slot_payload mem d ?h (ota_flash s')))"
  proof (cases "finish_enabled s \<and> finish_checks s = OTA_OK")
    case False
    then have "ota_flash s' = ota_flash s" "r \<noteq> OTA_OK"
      using call ota_finish_disabled [of s E] ota_finish_split [of s E]
      by (cases "finish_enabled s"; auto)+
    then show ?thesis using blank by simp
  next
    case True
    then have en: "finish_enabled s" and ok: "finish_checks s = OTA_OK" by auto
    note K = finish_checks_ok [OF ok]
    from call obtain f where fl: "finish_flash E (Some d) (Some u) ?h (ota_flash s) = Some (r, f)"
      and s': "ota_flash s' = f"
      unfolding ota_finish_split [OF en] using ok sl by (auto split: Option.bind_splits if_splits)
    note out = finish_flash_nor [OF pair S(7) K(2) fl]
    have len: "length data = unat n" using staged_finish_enabled [OF st] en by simp
    have req: "4096 + unat (hdr_image_size ?h) \<le> unat n" using K(3) S(3) by simp
    note C = staged_complete [OF st len req header_validate_fields(3) [OF K(2)]]
    have "package_valid (env_ecdsa E) n c data" if "slot_holds (env_ecdsa E) mem d ?h f"
    proof -
      have "payload_valid (env_ecdsa E) ?h (take (unat (hdr_image_size ?h)) (drop 4096 data))"
        using that out(4) C(2) by (simp add: slot_holds_def)
      moreover have "ota_crc32_calculate data = c"
        using K(1) st by (simp add: staged_def crc32_stream_calculate)
      ultimately show ?thesis
        using S(5,8) len K(2) req unfolding package_valid_def C(1) [symmetric] by simp
    qed
    then show ?thesis using out(1-3) s' blank by auto
  qed
  then show "part_bytes mem u (ota_flash s') 0 (unat (part_len u)) =
           part_bytes mem u (ota_flash s) 0 (unat (part_len u)) \<and> r \<noteq> OTA_OK \<or>
         package_valid (env_ecdsa E) n c data"
    and "part_bytes mem d (ota_flash s') 0 256 = replicate 256 0xFF \<or>
         payload_valid (env_ecdsa E) ?h (slot_payload mem d ?h (ota_flash s'))"
    by blast+
qed

lemma ota_reach_inv: "env_slots E mem d u \<Longrightarrow> ota_reach E f s \<Longrightarrow> ota_inv E mem d u s"
  by (rule ota_inv_reach)

lemma finish_enabled_staged:
  assumes "ota_inv E mem d u s" "finish_enabled s"
  obtains data where
    "staged mem d (st_package_size (ota_status s)) (ota_expected_package_crc s) data s"
    "ota_download s = Some d" "ota_upgrade s = Some u"
  using assms ota_inv_receiving [of E mem d u s] by (auto simp: finish_enabled_def)

lemma ota_finish_inv_returns: "ota_inv E mem d u s \<Longrightarrow> returns (ota_finish E s)"
  using ota_finish_returns [of s d u E]
  by (cases "ota_lock s") (simp_all add: ota_inv_def sys_slots_def ota_finish_def)

lemma ota_write_all_returns:
  "env_slots E mem d u \<Longrightarrow> ota_inv E mem d u s \<Longrightarrow> returns (ota_write_all E off chunks s)"
proof (induction chunks arbitrary: off s)
  case (Cons bs chunks)
  have "returns (ota_write E (of_nat off) (Some bs) s)"
    using Cons.prems(2) by (intro ota_write_returns [of d u]) (simp add: ota_inv_def)
  then obtain r s1 where w: "ota_write E (of_nat off) (Some bs) s = Some (r, s1)"
    by (auto simp: returns_def)
  then show ?case
    using Cons.IH [OF Cons.prems(1) ota_inv_write [OF Cons.prems w]] by simp
qed simp

lemma ota_inv_write_all:
  "env_slots E mem d u \<Longrightarrow> ota_inv E mem d u s \<Longrightarrow> ota_write_all E off chunks s = Some (r, s') \<Longrightarrow>
   ota_inv E mem d u s'"
proof (induction chunks arbitrary: off s)
  case (Cons bs chunks)
  from Cons.prems(3) obtain r1 s1 where w: "ota_write E (of_nat off) (Some bs) s = Some (r1, s1)"
    and rest: "(if r1 \<noteq> OTA_OK then Some (r1, s1)
                else ota_write_all E (off + length bs) chunks s1) = Some (r, s')"
    by (auto split: Option.bind_splits)
  have "ota_inv E mem d u s1" by (rule ota_inv_write [OF Cons.prems(1,2) w])
  then show ?case using rest Cons.IH [OF Cons.prems(1)] by (auto split: if_splits)
qed simp

lemma ota_transfer_returns:
  assumes env: "env_slots E mem d u" and inv: "ota_inv E mem d u s"
  shows "returns (ota_transfer E source n c chunks s)"
proof -
  have sys: "sys_slots d u s" using inv by (simp add: ota_inv_def)
  obtain r1 s1 where b: "ota_begin E source n c s = Some (r1, s1)"
    using ota_begin_returns [OF env sys, of source n c] by (auto simp: returns_def)
  note inv1 = ota_inv_begin [OF env inv b]
  obtain r2 s2 where w: "ota_write_all E 0 chunks s1 = Some (r2, s2)"
    using ota_write_all_returns [OF env inv1, of 0 chunks] by (auto simp: returns_def)
  show ?thesis
    using ota_finish_inv_returns [OF ota_inv_write_all [OF env inv1 w]]
    by (simp add: ota_transfer_def b w)
qed

text \<open>C2: A package that is not valid never reaches the upgrade slot: whatever chunks the client
  sends and whatever the flash device reports, the transfer ends in an error and the slot
  keeps every byte it had.\<close>

theorem ota_transfer_rejects_invalid:
  assumes "env_slots E mem d u" "ota_reach E f0 s"
    and "ota_transfer E source n c chunks s = Some (r, s')"
    and "\<not> package_valid (env_ecdsa E) n c (concat chunks)"
  shows "r \<noteq> OTA_OK \<and> part_bytes mem u (ota_flash s') 0 (unat (part_len u)) =
           part_bytes mem u (ota_flash s) 0 (unat (part_len u))"
proof -
  have pair: "slot_pair E mem d u" using assms(1) by (simp add: env_slots_def)
  note P = slot_pairD [OF pair] and inv = ota_reach_inv [OF assms(1,2)]
  have sys: "sys_slots d u s" using inv by (simp add: ota_inv_def)
  from assms(3) obtain r1 s1 where b: "ota_begin E source n c s = Some (r1, s1)"
    and rest: "(if r1 \<noteq> OTA_OK then Some (r1, s1) else do {
        (r, s2) \<leftarrow> ota_write_all E 0 chunks s1;
        if r \<noteq> OTA_OK then Some (r, s2) else ota_finish E s2 }) = Some (r, s')"
    by (auto simp: ota_transfer_def split: Option.bind_splits)
  note f1 = part_frame_upgrade [OF ota_begin_frame [OF assms(1) sys b] pair]
  note inv1 = ota_inv_begin [OF assms(1) inv b]
  show ?thesis
  proof (cases "r1 = OTA_OK")
    case False
    then show ?thesis using rest f1 by auto
  next
    case OK1: True
    from rest OK1 obtain r2 s2 where w: "ota_write_all E 0 chunks s1 = Some (r2, s2)"
      and rest2: "(if r2 \<noteq> OTA_OK then Some (r2, s2) else ota_finish E s2) = Some (r, s')"
      by (auto split: Option.bind_splits)
    note f2 = part_frame_upgrade [OF ota_write_all_frame [OF assms(1) inv1 w] pair]
    show ?thesis
    proof (cases "r2 = OTA_OK")
      case False
      then show ?thesis using rest2 f1 f2 by auto
    next
      case OK2: True
      note st1 = ota_begin_staged [OF assms(1) sys b [unfolded OK1]]
      have sl: "ota_download s1 = Some d" "ota_upgrade s1 = Some u"
        using st1(2) stagedD(1) [OF st1(1)] by (simp_all add: sys_slots_def)
      note st2 = staged_write_all [OF st1(1) P(1) sl(1) w [unfolded OK2], simplified]
      have "ota_finish E s2 = Some (r, s')" using rest2 OK2 by simp
      from staged_finish_any(1) [OF _ pair _ _ this] st2 sl(2) assms(4) f1 f2
      show ?thesis by auto
    qed
  qed
qed

lemma ota_transfer_rejects_invalid_witness:
  "\<exists>r s'. ota_transfer example_env None 300 0 [replicate 10 0] (ota_boot (\<lambda>_. 1)) = Some (r, s') \<and>
     r \<noteq> OTA_OK"
proof -
  have "returns (ota_transfer example_env None 300 0 [replicate 10 0] (ota_boot (\<lambda>_. 1)))"
    by (rule ota_transfer_returns [OF example_env_slots ota_inv_boot])
  then obtain r s' where call:
    "ota_transfer example_env None 300 0 [replicate 10 0] (ota_boot (\<lambda>_. 1)) = Some (r, s')"
    by (auto simp: returns_def)
  have "\<not> package_valid (env_ecdsa example_env) 300 0 (concat [replicate 10 0])"
    by (simp add: package_valid_def Let_def)
  from ota_transfer_rejects_invalid [OF example_env_slots ota_reach.boot call this] call
  show ?thesis by blast
qed

text \<open>C4: \<open>ota_finish\<close> is safe to interrupt, since the device may fail at any call: afterwards
  either the upgrade slot is untouched or the download slot holds the complete verified
  package, and the download header is either still erased or stands before a verified payload;
  an error is recorded in the status.\<close>

theorem ota_finish_power_cut:
  assumes "env_slots E mem d u" "ota_reach E f0 s" "finish_enabled s"
    and "ota_finish E s = Some (r, s')"
  shows "(part_bytes mem u (ota_flash s') 0 (unat (part_len u)) =
            part_bytes mem u (ota_flash s) 0 (unat (part_len u)) \<or>
          slot_holds (env_ecdsa E) mem d (ota_header s) (ota_flash s')) \<and>
         (part_bytes mem d (ota_flash s') 0 256 = replicate 256 0xFF \<or>
          payload_valid (env_ecdsa E) (ota_header s)
            (slot_payload mem d (ota_header s) (ota_flash s'))) \<and>
         (r \<noteq> OTA_OK \<longrightarrow> st_state (ota_get_status s') = OTA_STATE_ERROR \<and>
                        st_last_error (ota_get_status s') = r)"
proof -
  have pair: "slot_pair E mem d u" using assms(1) by (simp add: env_slots_def)
  obtain data where st: "staged mem d (st_package_size (ota_status s)) (ota_expected_package_crc s) data s"
    and sl: "ota_download s = Some d" "ota_upgrade s = Some u"
    by (rule finish_enabled_staged [OF ota_reach_inv [OF assms(1,2)] assms(3)])
  have "part_bytes mem u (ota_flash s') 0 (unat (part_len u)) =
        part_bytes mem u (ota_flash s) 0 (unat (part_len u)) \<or>
      slot_holds (env_ecdsa E) mem d (ota_header s) (ota_flash s')"
  proof (cases "finish_checks s = OTA_OK")
    case False
    then show ?thesis using assms(4) unfolding ota_finish_split [OF assms(3)] by auto
  next
    case True
    then obtain f where "finish_flash E (Some d) (Some u) (ota_header s) (ota_flash s) = Some (r, f)"
      "ota_flash s' = f"
      using assms(4) sl unfolding ota_finish_split [OF assms(3)]
      by (auto split: Option.bind_splits if_splits)
    then show ?thesis
      using finish_flash_nor(2) [OF pair stagedD(7) [OF st] finish_checks_ok(2) [OF True]] by simp
  qed
  moreover have "st_state (ota_get_status s') = OTA_STATE_ERROR \<and> st_last_error (ota_get_status s') = r"
    if "r \<noteq> OTA_OK"
  proof -
    have "ota_status s' = ota_status (set_error r s)" "ota_lock s' = ota_lock (set_error r s)"
      by (subst ota_finish_error [OF assms(3,4) that], simp)+
    then show ?thesis using stagedD(1) [OF st] by (simp add: ota_get_status_def)
  qed
  ultimately show ?thesis using staged_finish_any(2) [OF st pair sl assms(4)] by blast
qed

lemma ota_finish_power_cut_witness:
  "\<exists>(s :: (nat \<Rightarrow> u8) ota_sys) s'. ota_finish example_env s = Some (OTA_OK, s') \<and>
     (part_bytes (\<lambda>f. f) example_upgrade (ota_flash s') 0 1048576 =
        part_bytes (\<lambda>f. f) example_upgrade (ota_flash s) 0 1048576 \<or>
      slot_holds (env_ecdsa example_env) (\<lambda>f. f) example_download (ota_header s) (ota_flash s'))"
proof -
  obtain s2 s3 where s: "ota_reach example_env (\<lambda>_. 0xFF) s2" "finish_enabled s2"
    "ota_finish example_env s2 = Some (OTA_OK, s3)" by (rule example_received)
  have "unat (part_len example_upgrade) = 1048576" by (simp add: example_upgrade_def)
  with ota_finish_power_cut [OF example_env_slots s] s(3) show ?thesis by auto
qed

text \<open>The commit writes the header last: whatever fails after the upgrade slot was erased,
  the header cells are still erased, or the payload behind them has passed both digests and
  the signature.\<close>

theorem commit_header_last:
  assumes "slot_pair E mem d u" "header_wf h" "header_validate h = OTA_OK"
    and "partition_erase_exact E (Some u) 0
           (round_up_sector (hdr_payload_offset h + hdr_image_size h)) f = Some (OTA_OK, g)"
    and "commit_to_upgrade E (Some d) (Some u) h f = Some (r, f')"
  shows "part_bytes mem u f' 0 256 = replicate 256 0xFF \<or>
         payload_valid (env_ecdsa E) h (slot_payload mem u h f')"
  using commit_to_upgrade_nor(3) [OF assms(1,2,3,5,4)]
  by (auto intro!: nth_equalityI)

lemma commit_header_last_witness:
  "\<exists>r f'. commit_to_upgrade example_env (Some example_download) (Some example_upgrade)
      example_header (\<lambda>_. 0) = Some (r, f') \<and>
    (part_bytes (\<lambda>f. f) example_upgrade f' 0 256 = replicate 256 0xFF \<or>
     payload_valid (env_ecdsa example_env) example_header
       (slot_payload (\<lambda>f. f) example_upgrade example_header f'))"
proof -
  obtain r f' where call: "commit_to_upgrade example_env (Some example_download)
      (Some example_upgrade) example_header (\<lambda>_. 0) = Some (r, f')"
    using commit_returns [of example_env example_download example_upgrade example_header "\<lambda>_. 0"]
    by (auto simp: returns_def)
  obtain g where "partition_erase_exact example_env (Some example_upgrade) 0
      (round_up_sector (hdr_payload_offset example_header + hdr_image_size example_header)) (\<lambda>_. 0)
      = Some (OTA_OK, g)"
    using erase_exact_ok [OF example_reliable(2), of 0
        "round_up_sector (hdr_payload_offset example_header + hdr_image_size example_header)"]
      required_size(3) [OF example_header_valid] slot_pairD(6) [OF example_pair] by auto
  from commit_header_last [OF example_pair example_header_wf example_header_valid this call] call
  show ?thesis by blast
qed

text \<open>A write is accepted only in sequence: while no transfer runs, at any offset but the
  next one, or beyond the announced size, it returns a state error and changes nothing; NULL
  or empty data is refused in every state.\<close>

theorem ota_write_out_of_sequence:
  assumes "st_state (ota_status s) \<noteq> OTA_STATE_RECEIVING \<or>
           offset \<noteq> st_received_size (ota_status s) \<or>
           unat offset + length bs > unat (st_package_size (ota_status s)) \<or> bs = []"
  shows "ota_write E offset (Some bs) s =
           Some (if bs = [] then OTA_ERROR_ARGUMENT else OTA_ERROR_STATE, s) \<and>
         ota_write E offset None s = Some (OTA_ERROR_ARGUMENT, s)"
proof -
  have over: "offset > st_package_size (ota_status s) \<or>
      length bs > unat (st_package_size (ota_status s) - offset)"
    if "unat offset + length bs > unat (st_package_size (ota_status s))"
  proof (cases "offset \<le> st_package_size (ota_status s)")
    case True
    then have "length bs > unat (st_package_size (ota_status s) - offset)"
      using that unat_sub_u32 [OF True] True [unfolded word_le_nat_alt] by linarith
    then show ?thesis ..
  next
    case False
    then show ?thesis by (simp add: not_le)
  qed
  show ?thesis
    using assms over by (cases "bs = []") (auto simp: ota_write_def)
qed

lemma ota_write_out_of_sequence_witness:
  "ota_write example_env 7 (Some [1, 2]) (ota_boot (\<lambda>_. 0)) =
     Some (OTA_ERROR_STATE, ota_boot (\<lambda>_. 0))"
  using ota_write_out_of_sequence [of "ota_boot (\<lambda>_. 0)" 7 "[1, 2]" example_env]
  by (simp add: ota_boot_def ota_status_zero_def)

text \<open>C9: How a client cuts the package does not matter: two runs of writes that succeed from
  the same state with the same bytes in total leave the same RAM header, running CRC and status,
  and the same package area in the download slot.\<close>

theorem ota_write_chunking:
  assumes "env_slots E mem d u" "ota_reach E f0 s"
    and "st_state (ota_status s) = OTA_STATE_RECEIVING" "st_received_size (ota_status s) = 0"
    and "ota_write_all E 0 xss s = Some (OTA_OK, s1)" "ota_write_all E 0 yss s = Some (OTA_OK, s2)"
    and "concat xss = concat yss" "256 \<le> length (concat xss)"
  shows "ota_header s1 = ota_header s2 \<and> ota_transfer_crc s1 = ota_transfer_crc s2 \<and>
    st_received_size (ota_status s1) = st_received_size (ota_status s2) \<and>
    ota_header s1 = header_of_bytes (take 256 (concat xss)) \<and>
    part_bytes mem d (ota_flash s1) 0 (unat (st_package_size (ota_status s))) =
    part_bytes mem d (ota_flash s2) 0 (unat (st_package_size (ota_status s)))"
proof -
  let ?n = "st_package_size (ota_status s)" and ?c = "ota_expected_package_crc s"
  let ?data = "concat xss"
  have P: "nor_part (env_fal E) mem d" using assms(1) by (simp add: env_slots_def slot_pair_def)
  obtain old where old: "staged mem d ?n ?c old s" and dl: "ota_download s = Some d"
    by (rule ota_inv_receiving [OF ota_reach_inv [OF assms(1,2)] assms(3)])
  have "old = []" using stagedD(6) [OF old] assms(4) by simp
  then have st0: "staged mem d ?n ?c [] s" using old by simp
  have st: "staged mem d ?n ?c ?data s1" "staged mem d ?n ?c ?data s2"
    using staged_write_all [OF st0 P dl assms(5)] staged_write_all [OF st0 P dl assms(6)] assms(7)
    by simp_all
  have hd: "ota_header t = header_of_bytes (take 256 ?data)" if "staged mem d ?n ?c ?data t" for t
  proof -
    have "take (length ?data) (header_bytes (ota_header t)) = take 256 ?data"
      using that by (simp add: staged_def)
    then have "header_bytes (ota_header t) = take 256 ?data"
      using assms(8) length_header_bytes [OF stagedD(7) [OF that]] by simp
    then show ?thesis using header_of_bytes_header_bytes [OF stagedD(7) [OF that]] by simp
  qed
  have cell: "part_mem mem d (ota_flash t) i =
      (if 256 \<le> i \<and> i < length ?data then ?data ! i else 0xFF)"
    if "staged mem d ?n ?c ?data t" "i < unat ?n" for t i
    using that unfolding staged_def by (cases "256 \<le> i"; cases "i < length ?data"; simp)
  have "part_bytes mem d (ota_flash s1) 0 (unat ?n) = part_bytes mem d (ota_flash s2) 0 (unat ?n)"
    using cell [OF st(1)] cell [OF st(2)] by (intro nth_equalityI) simp_all
  then show ?thesis using st hd [OF st(1)] hd [OF st(2)] by (simp add: staged_def)
qed

lemma ota_write_chunking_witness:
  "\<exists>(s :: (nat \<Rightarrow> u8) ota_sys) s1. ota_write_all example_env 0
      [header_bytes example_header, example_body] s = Some (OTA_OK, s1) \<and>
     ota_header s1 = example_header"
proof -
  obtain s2 where call: "ota_transfer example_env (Some ''test'') 4104
      (ota_crc32_calculate example_package) [header_bytes example_header, example_body]
      (ota_boot (\<lambda>_. 0xFF)) = Some (OTA_OK, s2)"
    by (rule example_transfer)
  then obtain s1 t where
    b: "ota_begin example_env (Some ''test'') 4104 (ota_crc32_calculate example_package)
       (ota_boot (\<lambda>_. 0xFF)) = Some (OTA_OK, s1)"
    and w: "ota_write_all example_env 0 [header_bytes example_header, example_body] s1 = Some (OTA_OK, t)"
    by (auto simp: ota_transfer_def simp del: ota_write_all.simps split: Option.bind_splits if_splits)
  have reach: "ota_reach example_env (\<lambda>_. 0xFF) s1"
    using b by (meson ota_reach.boot ota_reach.step begins)
  note st = ota_begin_staged(1) [OF example_env_slots example_boot_slots b]
  have "st_state (ota_status s1) = OTA_STATE_RECEIVING" "st_received_size (ota_status s1) = 0"
    using st by (simp_all add: staged_def)
  from ota_write_chunking [OF example_env_slots reach this w w refl]
  have "ota_header t = example_header"
    unfolding example_chunks(1) example_package_parts(1,2) by simp
  with w show ?thesis by blast
qed

end
