(* ===== verification/Ota_Http.thy ===== *)
theory Ota_Http
  imports Ota_Session
begin

text \<open>
  \<open>applications/ota/ota_http.c\<close>: the HTTP client that downloads a package into the update
  service.  The RT-Thread webclient package and the caller's progress callback are
  parameters: operations over a world state \<open>'w\<close>, called in the order of the code.  The
  routine's own \<open>digest_equal\<close> has the text of the one in \<open>ota.c\<close> and shares its definition.
\<close>

section \<open>Hexadecimal digests\<close>

definition tolower :: "int \<Rightarrow> int" where
  "tolower c = (if 65 \<le> c \<and> c \<le> 90 then c + 32 else c)"

definition hex_nibble :: "char \<Rightarrow> int" where
  "hex_nibble character =
     (let c = of_char character
      in if c \<ge> 48 \<and> c \<le> 57 then c - 48
         else let c = tolower c
              in if c \<ge> 97 \<and> c \<le> 102 then c - 97 + 10 else -1)"

text \<open>The loop over the 32 pairs of digits; \<open>None\<close> is its early return.\<close>

fun parse_hex_pairs :: "string \<Rightarrow> bytes option" where
  "parse_hex_pairs (h # l # text) =
     (let high = hex_nibble h; low = hex_nibble l
      in if high < 0 \<or> low < 0 then None
         else map_option (\<lambda>digest. (push_bit 4 (word_of_int high) OR word_of_int low) # digest)
                (parse_hex_pairs text))"
| "parse_hex_pairs _ = Some []"

definition parse_sha256 :: "string option \<Rightarrow> int + bytes" where
  "parse_sha256 text =
     (case text of
        None \<Rightarrow> Inl OTA_ERROR_PROTOCOL
      | Some text \<Rightarrow>
          if length text \<noteq> 64 then Inl OTA_ERROR_PROTOCOL
          else case parse_hex_pairs text of
                 None \<Rightarrow> Inl OTA_ERROR_PROTOCOL
               | Some digest \<Rightarrow> Inr digest)"

section \<open>The download\<close>

datatype ota_http_stage_t = OTA_HTTP_STAGE_DOWNLOAD | OTA_HTTP_STAGE_VERIFY | OTA_HTTP_STAGE_COMMIT

record ota_http_request_t =
  req_url :: "string option"
  req_package_size :: u32
  req_package_crc32 :: u32
  req_package_sha256 :: "string option"

text \<open>
  \<open>http_read\<close> returns what \<open>webclient_read\<close> returns and the contents of the buffer after it;
  \<open>http_progress\<close> is \<open>None\<close> for a NULL callback.
\<close>

record 'w http_env =
  http_malloc :: "'w \<Rightarrow> bool \<times> 'w"
  http_session_create :: "'w \<Rightarrow> bool \<times> 'w"
  http_get :: "string \<Rightarrow> 'w \<Rightarrow> int \<times> 'w"
  http_content_length :: "'w \<Rightarrow> int \<times> 'w"
  http_read :: "u32 \<Rightarrow> 'w \<Rightarrow> int \<times> bytes \<times> 'w"
  http_close :: "'w \<Rightarrow> 'w"
  http_free :: "'w \<Rightarrow> 'w"
  http_progress :: "(ota_http_stage_t \<Rightarrow> u32 \<Rightarrow> u32 \<Rightarrow> nat \<Rightarrow> 'w \<Rightarrow> int \<times> 'w) option"

abbreviation (input) OTA_HTTP_BUFFER_SIZE :: u32 where "OTA_HTTP_BUFFER_SIZE \<equiv> 2048"
abbreviation (input) OTA_HTTP_PROGRESS_STEP :: nat where "OTA_HTTP_PROGRESS_STEP \<equiv> 5"

definition notify_progress ::
  "'w http_env \<Rightarrow> ota_http_stage_t \<Rightarrow> u32 \<Rightarrow> u32 \<Rightarrow> nat \<Rightarrow> 'w \<Rightarrow> int \<times> 'w" where
  "notify_progress W stage received total_size percent w =
     (case http_progress W of
        None \<Rightarrow> (OTA_OK, w)
      | Some callback \<Rightarrow>
          (case callback stage received total_size percent w of (result, w) \<Rightarrow>
             if result \<noteq> 0 then (if result < 0 then result else OTA_ERROR_CANCELLED, w)
             else (OTA_OK, w)))"

lemma read_step:
  fixes received size :: u32
  assumes "received < size" "\<not> n \<le> 0" "\<not> n > int (unat (size - received))"
  shows "unat (received + word_of_int n) = unat received + nat n"
    "unat received + nat n \<le> unat size" "0 < nat n"
    "unat size - unat (received + word_of_int n) < unat size - unat received"
proof -
  have lt: "unat received < unat size" using assms(1) by (simp only: word_less_nat_alt)
  have "unat (size - received) = unat size - unat received"
    using assms(1) by (intro unat_sub_u32) simp
  with assms(3) have "n \<le> int (unat size - unat received)" by linarith
  with lt show le: "unat received + nat n \<le> unat size" by linarith
  show pos: "0 < nat n" using assms(2) by simp
  have "(word_of_int n :: u32) = of_nat (nat n)" using assms(2) by simp
  moreover have "unat (of_nat (nat n) :: u32) = nat n"
    using le unat_less_u32 [of size] by (intro unat_of_nat_u32) linarith
  ultimately show eq: "unat (received + word_of_int n) = unat received + nat n"
    using le unat_less_u32 [of size] by (simp only: unat_add_u32)
  show "unat size - unat (received + word_of_int n) < unat size - unat received"
    unfolding eq using le pos lt by linarith
qed

text \<open>
  The receive loop: the result, the bytes received, the digest context, and both states.  The
  product of the percentage is computed in 64 bits in the code and cannot overflow there.
\<close>

function http_receive_loop ::
  "'w http_env \<Rightarrow> 'f ota_env \<Rightarrow> u32 \<Rightarrow> u32 \<Rightarrow> nat \<Rightarrow> ota_sha256_context \<Rightarrow> 'w \<Rightarrow> 'f ota_sys \<Rightarrow>
     (int \<times> u32 \<times> ota_sha256_context \<times> 'w \<times> 'f ota_sys) option" where
  "http_receive_loop W E package_size received last_percent sha w s =
     (if received < package_size then
        let remaining = package_size - received;
            chunk = if remaining < OTA_HTTP_BUFFER_SIZE then remaining else OTA_HTTP_BUFFER_SIZE;
            (bytes_read, buffer, w) = http_read W chunk w
        in if bytes_read \<le> 0 then Some (OTA_ERROR_NETWORK, received, sha, w, s)
           else if bytes_read > int (unat remaining)
           then Some (OTA_ERROR_SIZE, received, sha, w, s)
           else
             let bs = take (nat bytes_read) buffer;
                 sha = ota_sha256_update sha bs
             in do {
               (result, s) \<leftarrow> ota_write E received (Some bs) s;
               if result \<noteq> OTA_OK then Some (result, received, sha, w, s)
               else
                 let received = received + word_of_int bytes_read;
                     percent = (unat received * 100 div unat package_size) mod 256
                 in if percent = 100 \<or> percent \<ge> (last_percent + OTA_HTTP_PROGRESS_STEP) mod 256
                    then case notify_progress W OTA_HTTP_STAGE_DOWNLOAD received package_size
                                percent w of
                      (result, w) \<Rightarrow>
                        if result \<noteq> OTA_OK then Some (result, received, sha, w, s)
                        else http_receive_loop W E package_size received percent sha w s
                    else http_receive_loop W E package_size received last_percent sha w s
             }
      else Some (OTA_OK, received, sha, w, s))"
  by pat_completeness auto

termination
  by (relation "measure (\<lambda>(W, E, size, received, last, sha, w, s). unat size - unat received)")
     (simp, (simp only: in_measure case_prod_conv, rule read_step(4); simp only: simp_thms)+)

declare http_receive_loop.simps [simp del]

text \<open>The code after the label \<open>exit\<close>.\<close>

definition http_exit ::
  "'w http_env \<Rightarrow> 'f ota_env \<Rightarrow> bool \<Rightarrow> bool \<Rightarrow> bool \<Rightarrow> int \<Rightarrow> 'w \<Rightarrow> 'f ota_sys \<Rightarrow>
     (int \<times> 'w \<times> 'f ota_sys) option" where
  "http_exit W E begun session buffer result w s = do {
     s \<leftarrow> if begun then ota_abort E s else Some s;
     let w = (if session then http_close W w else w);
     let w = (if buffer then http_free W w else w);
     Some (result, w, s)
   }"

text \<open>From \<open>ota_begin\<close> to the end of the routine, with session and buffer allocated.\<close>

definition http_transfer ::
  "'w http_env \<Rightarrow> 'f ota_env \<Rightarrow> u32 \<Rightarrow> u32 \<Rightarrow> bytes \<Rightarrow> 'w \<Rightarrow> 'f ota_sys \<Rightarrow>
     (int \<times> 'w \<times> 'f ota_sys) option" where
  "http_transfer W E package_size package_crc32 expected_sha w s = do {
     (result, s) \<leftarrow> ota_begin E (Some ''http'') package_size package_crc32 s;
     if result \<noteq> OTA_OK then http_exit W E False True True result w s
     else
       let sha = ota_sha256_init sha256_fresh in
       case notify_progress W OTA_HTTP_STAGE_DOWNLOAD 0 package_size 0 w of (result, w) \<Rightarrow>
       if result \<noteq> OTA_OK then http_exit W E True True True result w s
       else do {
         (result, received, sha, w, s) \<leftarrow> http_receive_loop W E package_size 0 0 sha w s;
         if result \<noteq> OTA_OK then http_exit W E True True True result w s
         else
           case notify_progress W OTA_HTTP_STAGE_VERIFY received package_size 100 w of (result, w) \<Rightarrow>
           if result \<noteq> OTA_OK then http_exit W E True True True result w s
           else
             let actual_sha = ota_sha256_finish sha in
             if \<not> digest_equal actual_sha expected_sha 32
             then http_exit W E True True True OTA_ERROR_PACKAGE_SHA256 w s
             else do {
               (result, s) \<leftarrow> ota_finish E s;
               if result \<noteq> OTA_OK then http_exit W E True True True result w s
               else
                 case notify_progress W OTA_HTTP_STAGE_COMMIT received package_size 100 w of
                   (result, w) \<Rightarrow> http_exit W E False True True result w s
             }
       }
   }"

definition ota_http_download ::
  "'w http_env \<Rightarrow> 'f ota_env \<Rightarrow> ota_http_request_t option \<Rightarrow> 'w \<Rightarrow> 'f ota_sys \<Rightarrow>
     (int \<times> 'w \<times> 'f ota_sys) option" where
  "ota_http_download W E request w s =
     (case request of
        None \<Rightarrow> Some (OTA_ERROR_ARGUMENT, w, s)
      | Some r \<Rightarrow>
          (case (req_url r, req_package_sha256 r) of
             (Some url, Some text) \<Rightarrow>
               if req_package_size r < 256 \<or> req_package_size r > OTA_SLOT_SIZE
               then Some (OTA_ERROR_ARGUMENT, w, s)
               else if take 8 url = ''https://'' then Some (OTA_ERROR_UNSUPPORTED, w, s)
               else if take 7 url \<noteq> ''http://'' then Some (OTA_ERROR_PROTOCOL, w, s)
               else
                 (case parse_sha256 (Some text) of
                    Inl result \<Rightarrow> Some (result, w, s)
                  | Inr expected_sha \<Rightarrow>
                      let (buffer, w) = http_malloc W w;
                          (session, w) = http_session_create W w
                      in if \<not> buffer \<or> \<not> session
                         then http_exit W E False session buffer OTA_ERROR_NO_MEMORY w s
                         else
                           let (response_status, w) = http_get W url w
                           in if response_status \<noteq> 200
                              then http_exit W E False session buffer OTA_ERROR_NETWORK w s
                              else
                                let (content_length, w) = http_content_length W w
                                in if content_length < 0 \<or>
                                      content_length \<noteq> int (unat (req_package_size r))
                                   then http_exit W E False session buffer OTA_ERROR_SIZE w s
                                   else http_transfer W E (req_package_size r)
                                          (req_package_crc32 r) expected_sha w s)
           | _ \<Rightarrow> Some (OTA_ERROR_ARGUMENT, w, s)))"

section \<open>The receive loop as a transfer\<close>

text \<open>What \<open>webclient_read\<close> documents: a positive count is the number of bytes stored.\<close>

definition http_read_ok :: "'w http_env \<Rightarrow> bool" where
  "http_read_ok W \<longleftrightarrow> (\<forall>chunk w n buf w'. http_read W chunk w = (n, buf, w') \<longrightarrow> n \<le> int (length buf))"

lemma http_receive_loop_step:
  assumes "received < pkg"
  shows "http_receive_loop W E pkg received lastp sha w s =
    (let remaining = pkg - received;
         chunk = if remaining < OTA_HTTP_BUFFER_SIZE then remaining else OTA_HTTP_BUFFER_SIZE;
         (n, buffer, w) = http_read W chunk w
     in if n \<le> 0 then Some (OTA_ERROR_NETWORK, received, sha, w, s)
        else if n > int (unat remaining) then Some (OTA_ERROR_SIZE, received, sha, w, s)
        else
          let bs = take (nat n) buffer; sha = ota_sha256_update sha bs;
              received' = received + word_of_int n;
              percent = (unat received' * 100 div unat pkg) mod 256
          in do {
            (r, s) \<leftarrow> ota_write E received (Some bs) s;
            if r \<noteq> OTA_OK then Some (r, received, sha, w, s)
            else if percent = 100 \<or> percent \<ge> (lastp + OTA_HTTP_PROGRESS_STEP) mod 256
            then case notify_progress W OTA_HTTP_STAGE_DOWNLOAD received' pkg percent w of
              (r, w) \<Rightarrow> if r \<noteq> OTA_OK then Some (r, received', sha, w, s)
                        else http_receive_loop W E pkg received' percent sha w s
            else http_receive_loop W E pkg received' lastp sha w s
          })"
  unfolding http_receive_loop.simps [of W E pkg received lastp sha w s] if_P [OF assms] Let_def ..

lemma ota_write_lock: "ota_write E offset data s = Some (r, s') \<Longrightarrow> ota_lock s' = ota_lock s"
  by (auto simp: ota_write_def Let_def split: if_splits Option.bind_splits option.splits cong: if_cong)

text \<open>
  Whatever the server, the callback and the flash do, the loop keeps the service's invariant;
  when it reports OK, all bytes are staged and digested.
\<close>

lemma http_receive_loop_staged:
  assumes "env_slots E mem d u" "http_read_ok W"
    "staged mem d pkg c data s" "ota_download s = Some d" "ota_upgrade s = Some u"
    "received = of_nat (length data)" "sha = ota_sha256_update (ota_sha256_init sha256_fresh) data"
    "http_receive_loop W E pkg received lastp sha w s = Some (r, received', sha', w', s')"
  shows "ota_inv E mem d u s' \<and> ota_lock s' \<and> part_frame mem d (ota_flash s) (ota_flash s') \<and>
    (r = OTA_OK \<longrightarrow> received' = pkg \<and> (\<exists>data'. staged mem d pkg c data' s' \<and> length data' = unat pkg \<and>
       ota_download s' = Some d \<and> ota_upgrade s' = Some u \<and>
       sha' = ota_sha256_update (ota_sha256_init sha256_fresh) data'))"
  using assms(3-8)
proof (induction "unat pkg - unat received" arbitrary: received lastp sha w s data rule: less_induct)
  case less
  have fresh: "sha256_wf (ota_sha256_init sha256_fresh)"
    by (simp add: sha256_wf_def ota_sha256_init_def sha256_fresh_def)
  have P: "nor_part (env_fal E) mem d" using assms(1) by (simp add: env_slots_def slot_pair_def)
  note S = stagedD [OF less.prems(1)]
  have sys: "sys_slots d u s" using less.prems(2,3) by (simp add: sys_slots_def)
  have inv: "ota_inv E mem d u s" by (rule ota_inv_staged [OF less.prems(1) sys])
  have unr: "unat received = length data" using S(4,5) less.prems(4) by simp
  show ?case
  proof (cases "received < pkg")
    case False
    then have full: "length data = unat pkg" using unr S(4) by (simp add: word_less_nat_alt)
    then have "received = pkg" using unr by (simp add: word_unat_eq_iff)
    then show ?thesis using less.prems(1-3,5,6) False inv S(1) full
      by (auto simp: http_receive_loop.simps frame_intros)
  next
    case lt: True
    define remaining where "remaining = pkg - received"
    define chunk where "chunk = (if remaining < OTA_HTTP_BUFFER_SIZE then remaining else OTA_HTTP_BUFFER_SIZE)"
    obtain n buf w1 where rd: "http_read W chunk w = (n, buf, w1)" by (metis prod.exhaust)
    show ?thesis
    proof (cases "n \<le> 0 \<or> n > int (unat remaining)")
      case True
      then have "s' = s" "r \<noteq> OTA_OK"
        using less.prems(6) rd
        unfolding http_receive_loop_step [OF lt] Let_def remaining_def [symmetric] chunk_def [symmetric]
        by (auto split: if_splits)
      then show ?thesis using inv S(1) by (simp add: frame_intros)
    next
      case False
      then have n: "\<not> n \<le> 0" "\<not> n > int (unat remaining)" by auto
      note step = read_step [OF lt n(1) n(2) [unfolded remaining_def]]
      define bs where "bs = take (nat n) buf"
      have len: "length bs = nat n"
        using assms(2) rd n(1) unfolding http_read_ok_def bs_def by fastforce
      define percent where "percent = unat (received + word_of_int n) * 100 div unat pkg mod 256"
      from less.prems(6) obtain r1 s1 where
        wr: "ota_write E received (Some bs) s = Some (r1, s1)"
        and rest: "(if r1 \<noteq> OTA_OK then Some (r1, received, ota_sha256_update sha bs, w1, s1)
            else if percent = 100 \<or> percent \<ge> (lastp + OTA_HTTP_PROGRESS_STEP) mod 256
            then case notify_progress W OTA_HTTP_STAGE_DOWNLOAD (received + word_of_int n) pkg percent w1 of
              (r, w) \<Rightarrow> if r \<noteq> OTA_OK then Some (r, received + word_of_int n, ota_sha256_update sha bs, w, s1)
                        else http_receive_loop W E pkg (received + word_of_int n) percent (ota_sha256_update sha bs) w s1
            else http_receive_loop W E pkg (received + word_of_int n) lastp (ota_sha256_update sha bs) w1 s1)
            = Some (r, received', sha', w', s')"
        unfolding http_receive_loop_step [OF lt] Let_def remaining_def [symmetric]
          chunk_def [symmetric] rd case_prod_conv bs_def [symmetric] percent_def [symmetric]
        using n by (auto split: Option.bind_splits)
      note frame1 = ota_write_frame [OF assms(1) inv wr] and inv1 = ota_inv_write [OF assms(1) inv wr]
      have lock1: "ota_lock s1" using ota_write_lock [OF wr] S(1) by simp
      show ?thesis
      proof (cases "r1 = OTA_OK")
        case False
        then show ?thesis using rest inv1 frame1 lock1 by auto
      next
        case True
        note w = staged_write [OF less.prems(1) P less.prems(2) wr [unfolded True]]
        have rec: "received + word_of_int n = of_nat (length (data @ bs))"
          using less.prems(4) len n(1) by simp
        have sha1: "ota_sha256_update sha bs = ota_sha256_update (ota_sha256_init sha256_fresh) (data @ bs)"
          using less.prems(5) by (simp add: sha.update_append [OF fresh])
        have IH: "ota_inv E mem d u s' \<and> ota_lock s' \<and> part_frame mem d (ota_flash s1) (ota_flash s') \<and>
            (r = OTA_OK \<longrightarrow> received' = pkg \<and> (\<exists>data'. staged mem d pkg c data' s' \<and> length data' = unat pkg \<and>
               ota_download s' = Some d \<and> ota_upgrade s' = Some u \<and>
               sha' = ota_sha256_update (ota_sha256_init sha256_fresh) data'))"
          if "http_receive_loop W E pkg (received + word_of_int n) l (ota_sha256_update sha bs) v s1
                = Some (r, received', sha', w', s')" for l v
          by (rule less.hyps [OF step(4) w(1,2) _ rec sha1 that]) (use w(3) less.prems(3) in simp)
        obtain r2 w2 where np: "notify_progress W OTA_HTTP_STAGE_DOWNLOAD (received + word_of_int n) pkg percent w1 = (r2, w2)"
          by fastforce
        consider "r \<noteq> OTA_OK" "s' = s1" |
          l v where "http_receive_loop W E pkg (received + word_of_int n) l (ota_sha256_update sha bs) v s1
                = Some (r, received', sha', w', s')"
          using rest True np by (auto split: if_splits)
        then show ?thesis
        proof cases
          case 1
          then show ?thesis using inv1 frame1 lock1 by simp
        next
          case 2
          then show ?thesis using IH frame1 by (blast intro: part_frame_trans)
        qed
      qed
    qed
  qed
qed

section \<open>Outcomes of a download\<close>

lemma ota_abort_idle:
  "ota_lock s \<Longrightarrow> ota_abort E s = Some s' \<Longrightarrow> st_state (ota_status s') = OTA_STATE_IDLE"
  by (auto simp: ota_abort_def split: Option.bind_splits)

lemma http_exit_cases:
  assumes "http_exit W E begun session buffer r w s = Some (r', w', s')"
  shows "r' = r" "\<not> begun \<Longrightarrow> s' = s" "begun \<Longrightarrow> ota_abort E s = Some s'"
  using assms by (auto simp: http_exit_def Let_def split: if_splits Option.bind_splits)

lemma ota_inv_lock: "ota_inv E mem d u s \<Longrightarrow> st_state (ota_status s) \<noteq> OTA_STATE_UNINITIALIZED \<Longrightarrow> ota_lock s"
  by (auto simp: ota_inv_def ota_status_zero_def)

lemma ota_finish_lock: "ota_finish E s = Some (r, s') \<Longrightarrow> ota_lock s' = ota_lock s"
proof (cases "finish_enabled s")
  case True
  then show "ota_finish E s = Some (r, s') \<Longrightarrow> ota_lock s' = ota_lock s"
    by (auto simp: ota_finish_split split: if_splits Option.bind_splits)
qed (simp add: ota_finish_disabled)

text \<open>The two ways \<open>http_transfer\<close> ends: an abort, or a call of \<open>ota_finish\<close> that succeeded.\<close>

lemma http_transfer_cases:
  assumes env: "env_slots E mem d u" and rd: "http_read_ok W" and inv: "ota_inv E mem d u s"
    and sha: "length expected = 32"
    and call: "http_transfer W E pkg c expected w s = Some (r, w', s')"
  obtains (refused) r1 where "ota_begin E (Some ''http'') pkg c s = Some (r1, s')" "r1 \<noteq> OTA_OK" "r = r1"
  | (aborted) t where "ota_inv E mem d u t" "ota_lock t" "ota_abort E t = Some s'" "r \<noteq> OTA_OK"
  | (finished) data t w1 w2 where "staged mem d pkg c data t" "ota_download t = Some d" "ota_upgrade t = Some u"
      "length data = unat pkg" "sha256_spec data = expected" "ota_finish E t = Some (OTA_OK, s')"
      "notify_progress W OTA_HTTP_STAGE_COMMIT pkg pkg 100 w1 = (r, w2)"
proof -
  obtain r1 s1 where b: "ota_begin E (Some ''http'') pkg c s = Some (r1, s1)"
    using call by (auto simp: http_transfer_def split: Option.bind_splits)
  have sys: "sys_slots d u s" using inv by (simp add: ota_inv_def)
  show thesis
  proof (cases "r1 = OTA_OK")
    case False
    then have "http_exit W E False True True r1 w s1 = Some (r, w', s')"
      using call b by (simp add: http_transfer_def)
    note ex = http_exit_cases [OF this]
    show thesis using refused [of r1] b False ex(1) ex(2) by simp
  next
    case True
    note st1 = ota_begin_staged [OF env sys b [unfolded True]]
    have sl: "ota_download s1 = Some d" "ota_upgrade s1 = Some u"
      using st1(2) stagedD(1) [OF st1(1)] by (simp_all add: sys_slots_def)
    have inv1: "ota_inv E mem d u s1" by (rule ota_inv_begin [OF env inv b])
    have lock1: "ota_lock s1" by (rule stagedD(1) [OF st1(1)])
    define sha0 where "sha0 = ota_sha256_init sha256_fresh"
    have wf0: "sha256_wf sha0" by (simp add: sha0_def sha256_wf_def ota_sha256_init_def sha256_fresh_def)
    obtain r2 w2 where np: "notify_progress W OTA_HTTP_STAGE_DOWNLOAD 0 pkg 0 w = (r2, w2)" by fastforce
    show thesis
    proof (cases "r2 = OTA_OK")
      case False
      then have "http_exit W E True True True r2 w2 s1 = Some (r, w', s')"
        using call b True np by (simp add: http_transfer_def)
      note ex = http_exit_cases [OF this]
      show thesis using aborted [OF inv1 lock1 ex(3)] False ex(1) by simp
    next
      case r2: True
      from call b True np r2 obtain r3 received sha3 w3 s3 where
        loop: "http_receive_loop W E pkg 0 0 sha0 w2 s1 = Some (r3, received, sha3, w3, s3)"
        by (auto simp: http_transfer_def sha0_def split: Option.bind_splits)
      have lo: "ota_inv E mem d u s3 \<and> ota_lock s3 \<and> part_frame mem d (ota_flash s1) (ota_flash s3) \<and>
        (r3 = OTA_OK \<longrightarrow> received = pkg \<and> (\<exists>data. staged mem d pkg c data s3 \<and> length data = unat pkg \<and>
           ota_download s3 = Some d \<and> ota_upgrade s3 = Some u \<and>
           sha3 = ota_sha256_update (ota_sha256_init sha256_fresh) data))"
        by (rule http_receive_loop_staged [OF env rd st1(1) sl _ _ loop])
           (simp_all add: sha0_def sha.update_Nil [OF wf0 [unfolded sha0_def]])
      then have inv3: "ota_inv E mem d u s3" and lock3: "ota_lock s3" by auto
      have exit3: thesis if "http_exit W E True True True r0 w0 s3 = Some (r, w', s')" "r0 \<noteq> OTA_OK" for r0 w0
        using aborted [OF inv3 lock3 http_exit_cases(3) [OF that(1)]] that(2)
          http_exit_cases(1) [OF that(1)] by simp
      show thesis
      proof (cases "r3 = OTA_OK")
        case False
        then have "http_exit W E True True True r3 w3 s3 = Some (r, w', s')"
          using call b True np r2 loop by (simp add: http_transfer_def sha0_def)
        then show thesis using False by (rule exit3)
      next
        case r3: True
        then obtain data where st3: "staged mem d pkg c data s3" "length data = unat pkg"
          "ota_download s3 = Some d" "ota_upgrade s3 = Some u" "received = pkg"
          and sha3: "sha3 = ota_sha256_update (ota_sha256_init sha256_fresh) data"
          using lo by auto
        have dg: "ota_sha256_finish sha3 = sha256_spec data" by (simp add: sha3 sha256_calculate)
        obtain r4 w4 where np4: "notify_progress W OTA_HTTP_STAGE_VERIFY pkg pkg 100 w3 = (r4, w4)" by fastforce
        have rest: "(if r4 \<noteq> OTA_OK then http_exit W E True True True r4 w4 s3
            else if sha256_spec data \<noteq> expected
            then http_exit W E True True True OTA_ERROR_PACKAGE_SHA256 w4 s3
            else do {
               (result, s) \<leftarrow> ota_finish E s3;
               if result \<noteq> OTA_OK then http_exit W E True True True result w4 s
               else case notify_progress W OTA_HTTP_STAGE_COMMIT pkg pkg 100 w4 of
                   (result, w) \<Rightarrow> http_exit W E False True True result w s }) = Some (r, w', s')"
          using call b True np r2 loop r3 np4 st3(5) dg sha digest_equal_iff [OF length_sha256_spec sha]
          by (simp add: http_transfer_def sha0_def Let_def cong: if_cong)
        show thesis
        proof (cases "r4 = OTA_OK \<and> sha256_spec data = expected")
          case False
          then show thesis using rest exit3 by (auto split: if_splits)
        next
          case ok: True
          with rest obtain r5 s5 where fin: "ota_finish E s3 = Some (r5, s5)"
            and rest5: "(if r5 \<noteq> OTA_OK then http_exit W E True True True r5 w4 s5
               else case notify_progress W OTA_HTTP_STAGE_COMMIT pkg pkg 100 w4 of
                   (result, w) \<Rightarrow> http_exit W E False True True result w s5) = Some (r, w', s')"
            by (auto split: Option.bind_splits)
          show thesis
          proof (cases "r5 = OTA_OK")
            case False
            have "ota_inv E mem d u s5" by (rule ota_inv_finish [OF env inv3 fin])
            moreover have "ota_lock s5" using ota_finish_lock [OF fin] lock3 by simp
            moreover have "http_exit W E True True True r5 w4 s5 = Some (r, w', s')"
              using rest5 False by simp
            ultimately show thesis
              using aborted [of s5] False http_exit_cases [of W E True True True r5 w4 s5 r w' s'] by simp
          next
            case r5: True
            obtain r6 w6 where np6: "notify_progress W OTA_HTTP_STAGE_COMMIT pkg pkg 100 w4 = (r6, w6)"
              by fastforce
            have ex: "http_exit W E False True True r6 w6 s5 = Some (r, w', s')" using rest5 r5 np6 by simp
            then show thesis
              using finished [OF st3(1,3,4,2) _ _ np6 [folded http_exit_cases(1) [OF ex]]] ok fin r5
                http_exit_cases(2) [OF ex] by auto
          qed
        qed
      qed
    qed
  qed
qed

lemma hex_nibble_range: "hex_nibble c \<ge> 0 \<Longrightarrow> hex_nibble c < 16"
  by (auto simp: hex_nibble_def Let_def tolower_def)

lemma parse_hex_pairs_length:
  "parse_hex_pairs text = Some digest \<Longrightarrow> length digest = length text div 2"
  by (induction "text" arbitrary: digest rule: parse_hex_pairs.induct)
     (auto simp: Let_def split: if_splits)

lemma parse_sha256_length: "parse_sha256 text = Inr digest \<Longrightarrow> length digest = 32"
  by (auto simp: parse_sha256_def dest!: parse_hex_pairs_length split: option.splits if_splits)

lemma http_exit_no_begin:
  "http_exit W E False session buffer r w s = Some (r', w', s') \<Longrightarrow> s' = s \<and> r' = r"
  using http_exit_cases [of W E False session buffer r w s r' w' s'] by simp

text \<open>Either the request is refused before the update service is called, or it is transferred.\<close>

lemma http_download_cases:
  assumes call: "ota_http_download W E request w s = Some (r, w', s')"
  obtains (refused) "s' = s" "r \<noteq> OTA_OK"
  | (transfer) q url sha_text expected w1 where "request = Some q" "req_url q = Some url"
      "req_package_sha256 q = Some sha_text" "parse_sha256 (Some sha_text) = Inr expected" "take 7 url = ''http://''"
      "http_transfer W E (req_package_size q) (req_package_crc32 q) expected w1 s = Some (r, w', s')"
proof -
  have neg: "parse_sha256 t = Inl x \<Longrightarrow> x \<noteq> OTA_OK" for t x
    by (auto simp: parse_sha256_def split: option.splits if_splits)
  consider "s' = s" "r \<noteq> OTA_OK" |
    q url sha_text expected w1 where "request = Some q" "req_url q = Some url"
      "req_package_sha256 q = Some sha_text" "parse_sha256 (Some sha_text) = Inr expected" "take 7 url = ''http://''"
      "http_transfer W E (req_package_size q) (req_package_crc32 q) expected w1 s = Some (r, w', s')"
    using call
    by (auto simp: ota_http_download_def Let_def dest!: neg http_exit_no_begin
        split: option.splits if_splits sum.splits prod.splits)
  then show thesis using that by cases auto
qed

lemma http_download_ok:
  assumes "env_slots E mem d u" "ota_inv E mem d u s" "http_read_ok W"
    and "ota_http_download W E request w s = Some (OTA_OK, w', s')"
  shows "\<exists>q data. request = Some q \<and>
    package_valid (env_ecdsa E) (req_package_size q) (req_package_crc32 q) data \<and>
    parse_sha256 (req_package_sha256 q) = Inr (sha256_spec data) \<and>
    slot_holds (env_ecdsa E) mem u (header_of_bytes (take 256 data)) (ota_flash s') \<and>
    slot_payload mem u (header_of_bytes (take 256 data)) (ota_flash s') =
      take (unat (hdr_image_size (header_of_bytes (take 256 data)))) (drop 4096 data) \<and>
    st_state (ota_get_status s') = OTA_STATE_READY"
  using assms(4)
proof (cases rule: http_download_cases)
  case (transfer q url sha_text expected w1)
  note inv = assms(2)
  have pair: "slot_pair E mem d u" using assms(1) by (simp add: env_slots_def)
  show ?thesis
    using assms(1,3) inv parse_sha256_length [OF transfer(4)] transfer(6)
  proof (cases rule: http_transfer_cases)
    case (finished data t w1 w2)
    note f = ota_finish_ok [OF pair finished(2,3) stagedD(7) [OF finished(1)] finished(6)]
    note ok = finish_checks_ok [OF f(2)]
    have req: "4096 + unat (hdr_image_size (ota_header t)) \<le> unat (req_package_size q)"
      using ok(3) stagedD(3) [OF finished(1)] by simp
    note c = staged_complete [OF finished(1,4) req header_validate_fields(3) [OF ok(2)]]
    have "ota_crc32_calculate data = req_package_crc32 q"
      using ok(1) finished(1) by (simp add: staged_def crc32_stream_calculate)
    moreover have "payload_valid (env_ecdsa E) (ota_header t) (slot_payload mem d (ota_header t) (ota_flash t))"
      using f(4,5) by (simp add: slot_holds_def)
    ultimately have "package_valid (env_ecdsa E) (req_package_size q) (req_package_crc32 q) data"
      using stagedD(5,8) [OF finished(1)] finished(4) ok(2) req c(2)
      unfolding package_valid_def c(1) [symmetric] by simp
    moreover have "st_state (ota_get_status s') = OTA_STATE_READY"
      using f(6,10) stagedD(1) [OF finished(1)] by (simp add: ota_get_status_def)
    moreover have "parse_sha256 (req_package_sha256 q) = Inr (sha256_spec data)"
      using transfer(3,4) finished(5) by simp
    ultimately show ?thesis
      using transfer(1) f(4,5) c(2) c(1) [symmetric]
      by (intro exI [of _ q] exI [of _ data]) simp
  qed simp_all
qed simp

text \<open>A download keeps the invariant of the service, and never hits an assertion.\<close>

lemma http_download_inv:
  assumes "env_slots E mem d u" "ota_inv E mem d u s" "http_read_ok W"
    and "ota_http_download W E request w s = Some (r, w', s')"
  shows "ota_inv E mem d u s'"
  using assms(4)
proof (cases rule: http_download_cases)
  case (transfer q url sha_text expected w1)
  show ?thesis
    using assms(1,3,2) parse_sha256_length [OF transfer(4)] transfer(6)
  proof (cases rule: http_transfer_cases)
    case (refused r1)
    show ?thesis by (rule ota_inv_begin [OF assms(1,2) refused(1)])
  next
    case (aborted t)
    show ?thesis by (rule ota_inv_abort [OF aborted(1,3)])
  next
    case (finished data t w1 w2)
    have "sys_slots d u t" using finished(2,3) by (simp add: sys_slots_def)
    from ota_inv_finish [OF assms(1) ota_inv_staged [OF finished(1) this] finished(6)] show ?thesis .
  qed
qed (use assms(2) in simp)

lemma http_receive_loop_returns:
  assumes "env_slots E mem d u" "ota_inv E mem d u s"
  shows "\<exists>r received' sha' w' s'. http_receive_loop W E pkg received lastp sha w s =
    Some (r, received', sha', w', s') \<and> ota_inv E mem d u s'"
  using assms
proof (induction "unat pkg - unat received" arbitrary: received lastp sha w s rule: less_induct)
  case less
  show ?case
  proof (cases "received < pkg")
    case False
    then show ?thesis using less.prems by (auto simp: http_receive_loop.simps)
  next
    case lt: True
    define remaining where "remaining = pkg - received"
    define chunk where "chunk = (if remaining < OTA_HTTP_BUFFER_SIZE then remaining else OTA_HTTP_BUFFER_SIZE)"
    obtain n buf w1 where rd: "http_read W chunk w = (n, buf, w1)" by (metis prod.exhaust)
    note step = http_receive_loop_step [OF lt, of W E lastp sha w s, unfolded Let_def,
        folded remaining_def, folded chunk_def, unfolded rd prod.case]
    show ?thesis
    proof (cases "n \<le> 0 \<or> n > int (unat remaining)")
      case True
      then show ?thesis unfolding step using less.prems(2) by auto
    next
      case False
      then have n: "\<not> n \<le> 0" "\<not> n > int (unat remaining)" by simp_all
      have prog: "unat pkg - unat (received + word_of_int n) < unat pkg - unat received"
        using read_step(4) [OF lt n(1)] n(2) by (simp add: remaining_def)
      have "returns (ota_write E received (Some (take (nat n) buf)) s)"
        using less.prems(2) by (intro ota_write_returns [of d u]) (simp add: ota_inv_def)
      then obtain r1 s1 where w: "ota_write E received (Some (take (nat n) buf)) s = Some (r1, s1)"
        by (auto simp: returns_def)
      have inv1: "ota_inv E mem d u s1" by (rule ota_inv_write [OF less.prems w])
      note IH = less.hyps [OF prog less.prems(1) inv1]
      show ?thesis unfolding step using n w inv1 IH
        by (auto split: prod.splits)
    qed
  qed
qed

lemma http_exit_returns: "returns (http_exit W E begun session buffer result w s)"
  using ota_abort_returns [of E s]
  by (cases begun) (auto simp: http_exit_def Let_def returns_def)

lemma http_transfer_returns:
  assumes env: "env_slots E mem d u" and inv: "ota_inv E mem d u s"
  shows "returns (http_transfer W E pkg c expected w s)"
proof -
  have sys: "sys_slots d u s" using inv by (simp add: ota_inv_def)
  obtain r1 s1 where b: "ota_begin E (Some ''http'') pkg c s = Some (r1, s1)"
    using ota_begin_returns [OF env sys, of "Some ''http''" pkg c] by (auto simp: returns_def)
  note inv1 = ota_inv_begin [OF env inv b]
  have loop: "\<exists>r received' sha' w' s'. http_receive_loop W E pkg 0 0 sha w s1 =
      Some (r, received', sha', w', s') \<and> ota_inv E mem d u s'" for sha w
    by (rule http_receive_loop_returns [OF env inv1])
  have rest: "returns (http_receive_loop W E pkg 0 0 sha w s1 \<bind> k)"
    if "\<And>r n h w' t. ota_inv E mem d u t \<Longrightarrow> returns (k (r, n, h, w', t))" for sha w k
    using loop [of sha w] that by (auto simp: returns_def)
  show ?thesis
    unfolding http_transfer_def b Let_def
    by (simp only: Option.bind.bind_lunit prod.case)
       ((simp only: prod.case | rule http_exit_returns | rule returns_if | rule returns_split |
         rule rest | (rule returns_bind, erule ota_finish_inv_returns))+)
qed

lemma http_download_returns:
  assumes "env_slots E mem d u" "ota_inv E mem d u s"
  shows "returns (ota_http_download W E request w s)"
  unfolding ota_http_download_def Let_def
  by (auto intro!: defined_intros http_exit_returns http_transfer_returns [OF assms]
      split: option.splits sum.splits prod.splits)

text \<open>C25: A download that reports OK installed exactly one package: its length, CRC-32 and SHA-256
  are the requested ones, and the upgrade slot holds its verified header and payload.\<close>

theorem http_download_installs:
  assumes "env_slots E mem d u" "ota_reach E f0 s" "http_read_ok W"
    and "ota_http_download W E request w s = Some (OTA_OK, w', s')"
  shows "\<exists>q data. request = Some q \<and>
    package_valid (env_ecdsa E) (req_package_size q) (req_package_crc32 q) data \<and>
    parse_sha256 (req_package_sha256 q) = Inr (sha256_spec data) \<and>
    slot_holds (env_ecdsa E) mem u (header_of_bytes (take 256 data)) (ota_flash s') \<and>
    slot_payload mem u (header_of_bytes (take 256 data)) (ota_flash s') =
      take (unat (hdr_image_size (header_of_bytes (take 256 data)))) (drop 4096 data) \<and>
    st_state (ota_get_status s') = OTA_STATE_READY"
  by (rule http_download_ok [OF assms(1) ota_reach_inv [OF assms(1,2)] assms(3,4)])


section \<open>A server that delivers the package\<close>

text \<open>
  \<open>rest w\<close> is what the server still has to send in world \<open>w\<close>: a read of a connection with
  bytes left returns some of them, in order.
\<close>

definition http_serves :: "'w http_env \<Rightarrow> ('w \<Rightarrow> bytes) \<Rightarrow> bool" where
  "http_serves W rest \<longleftrightarrow>
     (\<forall>chunk w n buf w'. http_read W chunk w = (n, buf, w') \<longrightarrow> rest w \<noteq> [] \<longrightarrow> chunk \<noteq> 0 \<longrightarrow>
        0 < n \<and> n \<le> int (unat chunk) \<and> n \<le> int (length (rest w)) \<and>
        take (nat n) buf = take (nat n) (rest w) \<and> rest w' = drop (nat n) (rest w))"

text \<open>The callback accepts all progress reports of a stage, and leaves the connection alone.\<close>

definition http_quiet :: "'w http_env \<Rightarrow> ('w \<Rightarrow> bytes) \<Rightarrow> ota_http_stage_t \<Rightarrow> bool" where
  "http_quiet W rest stage \<longleftrightarrow>
     (\<forall>a b p w. \<exists>w'. notify_progress W stage a b p w = (OTA_OK, w') \<and> rest w' = rest w)"

text \<open>The connection of a request is set up and the server announces and holds \<open>data\<close>.\<close>

definition http_connects ::
  "'w http_env \<Rightarrow> ('w \<Rightarrow> bytes) \<Rightarrow> string \<Rightarrow> bytes \<Rightarrow> 'w \<Rightarrow> bool" where
  "http_connects W rest url data w \<longleftrightarrow>
     (\<exists>w1 w2 w3 w4. http_malloc W w = (True, w1) \<and> http_session_create W w1 = (True, w2) \<and>
        http_get W url w2 = (200, w3) \<and> http_content_length W w3 = (int (length data), w4) \<and>
        rest w4 = data)"

lemma http_receive_loop_ok:
  assumes env: "env_slots E mem d u" and rel: "part_reliable (env_fal E) d"
    and srv: "http_serves W rest" and quiet: "http_quiet W rest OTA_HTTP_STAGE_DOWNLOAD"
    and "staged mem d pkg c data s" "ota_download s = Some d" "ota_upgrade s = Some u"
    "received = of_nat (length data)" "sha = ota_sha256_update (ota_sha256_init sha256_fresh) data"
    "length data + length (rest w) = unat pkg"
  shows "\<exists>w' s'. http_receive_loop W E pkg received lastp sha w s =
      Some (OTA_OK, pkg, ota_sha256_update (ota_sha256_init sha256_fresh) (data @ rest w), w', s') \<and>
    staged mem d pkg c (data @ rest w) s' \<and> ota_download s' = Some d \<and> ota_upgrade s' = Some u"
  using assms(5-10)
proof (induction "length (rest w)" arbitrary: received lastp sha w s data rule: less_induct)
  case less
  have fresh: "sha256_wf (ota_sha256_init sha256_fresh)"
    by (simp add: sha256_wf_def ota_sha256_init_def sha256_fresh_def)
  note P = slot_pairD [OF env [unfolded env_slots_def, THEN conjunct2, THEN conjunct2]]
  note S = stagedD [OF less.prems(1)]
  have unr: "unat received = length data" using S(4,5) less.prems(4) by simp
  show ?case
  proof (cases "rest w = []")
    case True
    then have "\<not> received < pkg" "received = pkg"
      using unr less.prems(6) by (simp_all add: word_less_nat_alt word_unat_eq_iff)
    then show ?thesis using less.prems True by (simp add: http_receive_loop.simps)
  next
    case False
    then have "0 < length (rest w)" by simp
    then have lt: "received < pkg"
      using unr less.prems(6) by (simp only: word_less_nat_alt)
    define remaining where "remaining = pkg - received"
    define chunk where "chunk = (if remaining < OTA_HTTP_BUFFER_SIZE then remaining else OTA_HTTP_BUFFER_SIZE)"
    have chunk: "0 < unat chunk"
      using chunk_step(1) [OF lt, of OTA_HTTP_BUFFER_SIZE, folded remaining_def, folded chunk_def] by simp
    then have "chunk \<noteq> 0" by (cases "chunk = 0") simp_all
    obtain n buf w1 where rd: "http_read W chunk w = (n, buf, w1)" by (metis prod.exhaust)
    have R: "0 < n" "n \<le> int (length (rest w))" "take (nat n) buf = take (nat n) (rest w)"
      "rest w1 = drop (nat n) (rest w)"
      using srv [unfolded http_serves_def, rule_format, OF rd False \<open>chunk \<noteq> 0\<close>] by auto
    have rem: "unat remaining = unat pkg - unat received"
      unfolding remaining_def using lt by (intro unat_sub_u32) simp
    have n: "\<not> n \<le> 0" "\<not> n > int (unat remaining)" using R(1,2) rem unr less.prems(6) by linarith+
    define bs where "bs = take (nat n) (rest w)"
    have len: "length bs = nat n" "bs \<noteq> []" using R(1,2) by (auto simp: bs_def)
    have room: "length data + length bs \<le> unat pkg" using len R(2) less.prems(6) by linarith
    obtain s1 where wr: "ota_write E received (Some bs) s = Some (OTA_OK, s1)"
      using staged_write_ok [OF less.prems(1) rel P(5) less.prems(2) len(2) room] less.prems(4) by auto
    note st1 = staged_write [OF less.prems(1) P(1) less.prems(2) wr]
    define percent where "percent = unat (received + word_of_int n) * 100 div unat pkg mod 256"
    obtain w2 where np: "notify_progress W OTA_HTTP_STAGE_DOWNLOAD (received + word_of_int n) pkg percent w1
        = (OTA_OK, w2)" "rest w2 = rest w1"
      using quiet unfolding http_quiet_def by blast
    have rec: "received + word_of_int n = of_nat (length (data @ bs))"
      using less.prems(4) len n(1) by simp
    have sha1: "ota_sha256_update sha bs = ota_sha256_update (ota_sha256_init sha256_fresh) (data @ bs)"
      using less.prems(5) by (simp add: sha.update_append [OF fresh])
    have join: "(data @ bs) @ rest w1 = data @ rest w" by (simp add: bs_def R(4))
    have IH: "\<exists>w' s'. http_receive_loop W E pkg (received + word_of_int n) l (ota_sha256_update sha bs) v s1 =
        Some (OTA_OK, pkg, ota_sha256_update (ota_sha256_init sha256_fresh) (data @ rest w), w', s') \<and>
        staged mem d pkg c (data @ rest w) s' \<and> ota_download s' = Some d \<and> ota_upgrade s' = Some u"
      if v: "rest v = rest w1" for l v
      using less.hyps [OF _ st1(1,2) _ rec sha1, of v l] less.prems(3,6) st1(3) R(1,2,4) len join v False
      by (simp add: bs_def)
    show ?thesis
      unfolding http_receive_loop_step [OF lt] Let_def remaining_def [symmetric]
        chunk_def [symmetric] rd case_prod_conv percent_def [symmetric] R(3) bs_def [symmetric]
      using n wr np IH [of w1 lastp] IH [of w2 percent] by auto
  qed
qed

text \<open>The download of a valid package runs to its commit, and returns what the last callback says.\<close>

lemma http_download_runs:
  assumes env: "env_slots E mem d u" and sys: "sys_slots d u s"
    and rel: "part_reliable (env_fal E) d" "part_reliable (env_fal E) u"
    and lock: "ota_lock s \<or> env_mutex_create E"
    and idle: "ota_lock s \<Longrightarrow> st_state (ota_status s) \<notin>
        {OTA_STATE_RECEIVING, OTA_STATE_VALIDATING, OTA_STATE_COMMITTING}"
    and srv: "http_serves W rest"
    and quiet: "http_quiet W rest OTA_HTTP_STAGE_DOWNLOAD" "http_quiet W rest OTA_HTTP_STAGE_VERIFY"
    and req: "take 7 url = ''http://''" "parse_sha256 (Some sha_text) = Inr (sha256_spec data)"
    and conn: "http_connects W rest url data w"
    and valid: "package_valid (env_ecdsa E) pkg c data"
  shows "\<exists>r w5 w6 w' s'. notify_progress W OTA_HTTP_STAGE_COMMIT pkg pkg 100 w5 = (r, w6) \<and>
    ota_http_download W E (Some \<lparr>req_url = Some url, req_package_size = pkg, req_package_crc32 = c,
      req_package_sha256 = Some sha_text\<rparr>) w s = Some (r, w', s') \<and>
    st_state (ota_get_status s') = OTA_STATE_READY"
proof -
  have V: "256 \<le> unat pkg" "unat pkg \<le> 1048576" "length data = unat pkg"
    using valid unfolding package_valid_def Let_def by blast+
  have pair: "slot_pair E mem d u" using env by (simp add: env_slots_def)
  note P = slot_pairD [OF pair]
  obtain w1 w2 w3 w4 where C: "http_malloc W w = (True, w1)" "http_session_create W w1 = (True, w2)"
    "http_get W url w2 = (200, w3)" "http_content_length W w3 = (int (length data), w4)" "rest w4 = data"
    using conn by (auto simp: http_connects_def)
  have "take 8 url \<noteq> ''https://''"
  proof
    assume "take 8 url = ''https://''"
    then have "take 7 (take 8 url) = ''https:/''" by simp
    then show False using req(1) by simp
  qed
  then have dl: "ota_http_download W E (Some \<lparr>req_url = Some url, req_package_size = pkg,
      req_package_crc32 = c, req_package_sha256 = Some sha_text\<rparr>) w s =
      http_transfer W E pkg c (sha256_spec data) w4 s"
    using C V req by (simp add: ota_http_download_def word_less_nat_alt)
  obtain s1 where b: "ota_begin E (Some ''http'') pkg c s = Some (OTA_OK, s1)"
    by (rule ota_begin_ok [OF env rel(1) sys lock idle V(1,2)])
  note st1 = ota_begin_staged [OF env sys b]
  have sl: "ota_download s1 = Some d" "ota_upgrade s1 = Some u"
    using st1(2) stagedD(1) [OF st1(1)] by (simp_all add: sys_slots_def)
  obtain w5 where np: "notify_progress W OTA_HTTP_STAGE_DOWNLOAD 0 pkg 0 w4 = (OTA_OK, w5)" "rest w5 = data"
    using quiet(1) C(5) unfolding http_quiet_def by metis
  define sha0 where "sha0 = ota_sha256_init sha256_fresh"
  have wf0: "sha256_wf sha0" by (simp add: sha0_def sha256_wf_def ota_sha256_init_def sha256_fresh_def)
  have "\<exists>w' s'. http_receive_loop W E pkg 0 0 sha0 w5 s1 =
      Some (OTA_OK, pkg, ota_sha256_update (ota_sha256_init sha256_fresh) ([] @ rest w5), w', s') \<and>
    staged mem d pkg c ([] @ rest w5) s' \<and> ota_download s' = Some d \<and> ota_upgrade s' = Some u"
    by (rule http_receive_loop_ok [OF env rel(1) srv quiet(1) st1(1) sl])
       (simp_all add: sha0_def sha.update_Nil [OF wf0 [unfolded sha0_def]] np(2) V(3))
  then obtain w6 s2 where loop: "http_receive_loop W E pkg 0 0 sha0 w5 s1 =
      Some (OTA_OK, pkg, ota_sha256_update (ota_sha256_init sha256_fresh) data, w6, s2)"
    and st2: "staged mem d pkg c data s2" "ota_download s2 = Some d" "ota_upgrade s2 = Some u"
    using np(2) by auto
  obtain w7 where np7: "notify_progress W OTA_HTTP_STAGE_VERIFY pkg pkg 100 w6 = (OTA_OK, w7)"
    using quiet(2) unfolding http_quiet_def by metis
  obtain s3 where fin: "ota_finish E s2 = Some (OTA_OK, s3)"
    by (rule staged_finish_ok [OF st2(1) pair rel st2(2,3) valid])
  note f = ota_finish_ok [OF pair st2(2,3) stagedD(7) [OF st2(1)] fin]
  obtain r w8 where np8: "notify_progress W OTA_HTTP_STAGE_COMMIT pkg pkg 100 w7 = (r, w8)" by fastforce
  have "ota_sha256_finish (ota_sha256_update (ota_sha256_init sha256_fresh) data) = sha256_spec data"
    by (simp add: sha256_calculate)
  then obtain w' where "http_transfer W E pkg c (sha256_spec data) w4 s = Some (r, w', s3)"
    using b np loop np7 fin np8 digest_equal_iff [OF length_sha256_spec length_sha256_spec]
    by (simp add: http_transfer_def sha0_def Let_def http_exit_def)
  moreover have "st_state (ota_get_status s3) = OTA_STATE_READY"
    using f(6,10) stagedD(1) [OF st2(1)] by (simp add: ota_get_status_def)
  ultimately show ?thesis using dl np8 by (metis (no_types, lifting))
qed

text \<open>C27: Against a server that delivers the announced package, with devices that do not fail and
  a callback that does not cancel, the download reports OK.\<close>

theorem http_download_succeeds:
  assumes "env_slots E mem d u" "sys_slots d u s"
    and "part_reliable (env_fal E) d" "part_reliable (env_fal E) u"
    and "ota_lock s \<or> env_mutex_create E"
    and "ota_lock s \<Longrightarrow> st_state (ota_status s) \<notin>
        {OTA_STATE_RECEIVING, OTA_STATE_VALIDATING, OTA_STATE_COMMITTING}"
    and "http_serves W rest" "\<And>stage. http_quiet W rest stage"
    and "take 7 url = ''http://''" "parse_sha256 (Some sha_text) = Inr (sha256_spec data)"
    and "http_connects W rest url data w" "package_valid (env_ecdsa E) pkg c data"
  shows "\<exists>w' s'. ota_http_download W E (Some \<lparr>req_url = Some url, req_package_size = pkg,
      req_package_crc32 = c, req_package_sha256 = Some sha_text\<rparr>) w s = Some (OTA_OK, w', s') \<and>
    st_state (ota_get_status s') = OTA_STATE_READY"
proof -
  obtain r w5 w6 w' s' where out: "notify_progress W OTA_HTTP_STAGE_COMMIT pkg pkg 100 w5 = (r, w6)"
    "ota_http_download W E (Some \<lparr>req_url = Some url, req_package_size = pkg,
      req_package_crc32 = c, req_package_sha256 = Some sha_text\<rparr>) w s = Some (r, w', s')"
    "st_state (ota_get_status s') = OTA_STATE_READY"
    using http_download_runs [OF assms(1-7) assms(8) assms(8) assms(9-12)] by blast
  have "r = OTA_OK" using out(1) assms(8) [of OTA_HTTP_STAGE_COMMIT] unfolding http_quiet_def
    by (metis Pair_inject)
  then show ?thesis using out(2,3) by blast
qed

text \<open>C28: The last progress report comes after the commit: a callback that asks to cancel there
  makes the download return an error although the image is committed and the service READY.\<close>

theorem http_commit_cancel_too_late:
  assumes "env_slots E mem d u" "sys_slots d u s"
    and "part_reliable (env_fal E) d" "part_reliable (env_fal E) u"
    and "ota_lock s \<or> env_mutex_create E"
    and "ota_lock s \<Longrightarrow> st_state (ota_status s) \<notin>
        {OTA_STATE_RECEIVING, OTA_STATE_VALIDATING, OTA_STATE_COMMITTING}"
    and "http_serves W rest"
    and "http_quiet W rest OTA_HTTP_STAGE_DOWNLOAD" "http_quiet W rest OTA_HTTP_STAGE_VERIFY"
    and "take 7 url = ''http://''" "parse_sha256 (Some sha_text) = Inr (sha256_spec data)"
    and "http_connects W rest url data w" "package_valid (env_ecdsa E) pkg c data"
    and "http_progress W = Some cb" "\<And>a b p w. 0 < fst (cb OTA_HTTP_STAGE_COMMIT a b p w)"
  shows "\<exists>w' s'. ota_http_download W E (Some \<lparr>req_url = Some url, req_package_size = pkg,
      req_package_crc32 = c, req_package_sha256 = Some sha_text\<rparr>) w s = Some (OTA_ERROR_CANCELLED, w', s') \<and>
    st_state (ota_get_status s') = OTA_STATE_READY"
proof -
  obtain r w5 w6 w' s' where out: "notify_progress W OTA_HTTP_STAGE_COMMIT pkg pkg 100 w5 = (r, w6)"
    "ota_http_download W E (Some \<lparr>req_url = Some url, req_package_size = pkg,
      req_package_crc32 = c, req_package_sha256 = Some sha_text\<rparr>) w s = Some (r, w', s')"
    "st_state (ota_get_status s') = OTA_STATE_READY"
    using http_download_runs [OF assms(1-13)] by blast
  have "r = OTA_ERROR_CANCELLED"
    using out(1) assms(15) [of pkg pkg 100 w5] assms(14)
    by (auto simp: notify_progress_def split: prod.splits if_splits)
  then show ?thesis using out(2,3) by blast
qed

section \<open>The hexadecimal digest as a codec\<close>

text \<open>The specification: the lower-case text of a digest.\<close>

definition hex_digit :: "nat \<Rightarrow> char" where
  "hex_digit n = char_of (if n < 10 then n + 48 else n + 87)"
definition lower :: "char \<Rightarrow> char" where "lower c = char_of (nat (tolower (of_char c)))"

lemma of_char_int: "(of_char c :: int) = int (of_char c)"
  by (rule of_nat_of_char [symmetric])

lemma hex_digit_lower:
  assumes "0 \<le> hex_nibble c"
  shows "lower c = hex_digit (nat (hex_nibble c))"
proof -
  define k :: nat where "k = of_char c"
  have c: "c = char_of k" by (simp add: k_def)
  have oc: "(of_char c :: int) = int k" unfolding k_def by (rule of_char_int)
  have "k \<ge> 48 \<and> k \<le> 57 \<or> k \<ge> 65 \<and> k \<le> 70 \<or> k \<ge> 97 \<and> k \<le> 102"
    using assms unfolding hex_nibble_def Let_def tolower_def oc by (auto split: if_splits)
  then show ?thesis
    unfolding lower_def hex_nibble_def Let_def tolower_def oc hex_digit_def
    by (elim disjE) (auto simp: nat_diff_distrib nat_add_distrib)
qed

lemma hex_nibble_lower: "hex_nibble (lower c) = hex_nibble c"
proof -
  define k :: nat where "k = of_char c"
  have c: "c = char_of k" by (simp add: k_def)
  have lt: "k < 256" by (simp add: k_def)
  have oc: "(of_char c :: int) = int k" unfolding k_def by (rule of_char_int)
  have "(of_char (lower c) :: int) = (if 65 \<le> k \<and> k \<le> 90 then int k + 32 else int k)"
    using lt unfolding lower_def oc tolower_def by (auto simp: of_char_int nat_add_distrib)
  then show ?thesis
    unfolding hex_nibble_def Let_def tolower_def oc by auto
qed

lemma hex_nibble_digit: "n < 16 \<Longrightarrow> hex_nibble (hex_digit n) = int n"
  by (simp add: hex_digit_def hex_nibble_def Let_def tolower_def of_char_int)

definition hex_text :: "bytes \<Rightarrow> string" where
  "hex_text digest = concat (map (\<lambda>b. [hex_digit (unat b div 16), hex_digit (unat b mod 16)]) digest)"

lemma join_nibbles:
  assumes "h < 16" "l < 16"
  shows "(push_bit 4 (word_of_int (int h)) OR word_of_int (int l) :: u8) = of_nat (16 * h + l)"
proof -
  define b :: u8 where "b = of_nat l"
  have "unat b = l" using assms by (simp add: b_def unat_of_nat)
  then have "take_bit 4 b = b"
    using assms
    by (intro word_unat_eq_iff [THEN iffD2], unfold unsigned_take_bit_eq) (simp add: take_bit_eq_mod)
  moreover have "push_bit 4 (of_nat h) AND take_bit 4 b = (0 :: u8)"
    by (rule bit_word_eqI) (auto simp: bit_simps)
  ultimately have "push_bit 4 (of_nat h) AND b = (0 :: u8)" by simp
  then have "push_bit 4 (of_nat h) OR b = push_bit 4 (of_nat h) + (b :: u8)"
    by (rule disjunctive_add_eq_or [symmetric])
  then show ?thesis by (simp add: b_def push_bit_eq_mult mult.commute)
qed

lemma parse_hex_pairs_iff:
  "parse_hex_pairs t = Some ds \<and> even (length t) \<longleftrightarrow> map lower t = hex_text ds"
proof (induction t arbitrary: ds rule: parse_hex_pairs.induct)
  case (1 h l t)
  have nib: "lower c = hex_digit n \<longleftrightarrow> hex_nibble c = int n" if "n < 16" for c n
    using hex_nibble_lower [of c] hex_nibble_digit [OF that] hex_digit_lower [of c] by fastforce
  show ?case
  proof (cases ds)
    case Nil
    then show ?thesis by (auto simp: Let_def hex_text_def)
  next
    case (Cons b bs)
    have "unat b < 2 ^ 8" using unsigned_less [of b] by simp
    then have u: "unat b div 16 < 16" "unat b mod 16 < 16" by simp_all
    have "(push_bit 4 (word_of_int (hex_nibble h)) OR word_of_int (hex_nibble l) = b \<and>
        0 \<le> hex_nibble h \<and> 0 \<le> hex_nibble l) \<longleftrightarrow>
        hex_nibble h = int (unat b div 16) \<and> hex_nibble l = int (unat b mod 16)" (is "?L \<longleftrightarrow> ?R")
    proof
      assume ?L
      define x y where "x = nat (hex_nibble h)" and "y = nat (hex_nibble l)"
      have xy: "hex_nibble h = int x" "hex_nibble l = int y" "x < 16" "y < 16"
        using \<open>?L\<close> hex_nibble_range [of h] hex_nibble_range [of l] by (auto simp: x_def y_def)
      then have "b = of_nat (16 * x + y)" using \<open>?L\<close> join_nibbles [of x y] by simp
      then have "unat b = (16 * x + y) mod 2 ^ LENGTH(8)" by (simp only: unat_of_nat)
      then have "unat b = 16 * x + y" using xy by simp
      then show ?R using xy by simp
    next
      assume ?R
      then show ?L using join_nibbles [OF u] by simp
    qed
    then show ?thesis
      using 1 [OF refl refl, of bs] nib [OF u(1), of h] nib [OF u(2), of l] Cons
      by (auto simp: Let_def hex_text_def not_less)
  qed
next
  case "2_2"
  then show ?case by (cases ds) (auto simp: hex_text_def)
qed (auto simp: hex_text_def)

lemma length_hex_text: "length (hex_text ds) = 2 * length ds"
  by (induction ds) (auto simp: hex_text_def)

text \<open>\<open>parse_sha256\<close> accepts exactly the 64-character hexadecimal texts, in either case, and
  returns the bytes they denote; everything else is a protocol error.\<close>

theorem parse_sha256_exact:
  "(parse_sha256 sha_text = Inr digest \<longleftrightarrow>
     length digest = 32 \<and> (\<exists>s. sha_text = Some s \<and> map lower s = hex_text digest)) \<and>
   ((\<exists>d. parse_sha256 sha_text = Inr d) \<or> parse_sha256 sha_text = Inl OTA_ERROR_PROTOCOL)"
proof (cases sha_text)
  case (Some s)
  have "length s = 64 \<and> parse_hex_pairs s = Some digest \<longleftrightarrow>
      length digest = 32 \<and> map lower s = hex_text digest"
  proof
    assume "length s = 64 \<and> parse_hex_pairs s = Some digest"
    then show "length digest = 32 \<and> map lower s = hex_text digest"
      using parse_hex_pairs_iff [of s digest] parse_hex_pairs_length [of s digest] by simp
  next
    assume *: "length digest = 32 \<and> map lower s = hex_text digest"
    have "length s = length (map lower s)" by simp
    also have "\<dots> = 64" using * length_hex_text [of digest] by (simp only:)
    finally have "length s = 64" .
    with * show "length s = 64 \<and> parse_hex_pairs s = Some digest"
      using parse_hex_pairs_iff [of s digest] by simp
  qed
  then show ?thesis using Some by (auto simp: parse_sha256_def split: option.splits)
qed (auto simp: parse_sha256_def)


section \<open>A concrete server\<close>

text \<open>The world is the list of bytes the server still has to send.\<close>

definition list_server ::
  "(ota_http_stage_t \<Rightarrow> u32 \<Rightarrow> u32 \<Rightarrow> nat \<Rightarrow> bytes \<Rightarrow> int \<times> bytes) option \<Rightarrow> bytes http_env" where
  "list_server cb =
    \<lparr>http_malloc = \<lambda>w. (True, w), http_session_create = \<lambda>w. (True, w),
     http_get = \<lambda>url w. (200, w), http_content_length = \<lambda>w. (int (length w), w),
     http_read = \<lambda>chunk w. (int (length (take (unat chunk) w)), take (unat chunk) w, drop (unat chunk) w),
     http_close = \<lambda>w. w, http_free = \<lambda>w. w, http_progress = cb\<rparr>"

definition cancel_at_commit ::
  "ota_http_stage_t \<Rightarrow> u32 \<Rightarrow> u32 \<Rightarrow> nat \<Rightarrow> bytes \<Rightarrow> int \<times> bytes" where
  "cancel_at_commit stage a b p w = (if stage = OTA_HTTP_STAGE_COMMIT then 1 else 0, w)"

lemma list_server_facts:
  "http_read_ok (list_server cb)" "http_serves (list_server cb) (\<lambda>w. w)"
  "http_connects (list_server cb) (\<lambda>w. w) url data data"
  "http_quiet (list_server None) (\<lambda>w. w) stage"
  "stage \<noteq> OTA_HTTP_STAGE_COMMIT \<Longrightarrow> http_quiet (list_server (Some cancel_at_commit)) (\<lambda>w. w) stage"
proof -
  show "http_serves (list_server cb) (\<lambda>w. w)"
    by (auto simp: http_serves_def list_server_def unat_gt_0 min_def simp del: of_nat_unat
        simp flip: of_nat_le_iff)
qed (auto simp: http_read_ok_def http_connects_def http_quiet_def notify_progress_def list_server_def
      cancel_at_commit_def)

definition example_request :: ota_http_request_t where
  "example_request = \<lparr>req_url = Some ''http://10.0.0.2/fw'', req_package_size = 4104,
     req_package_crc32 = ota_crc32_calculate example_package,
     req_package_sha256 = Some (hex_text (sha256_spec example_package))\<rparr>"

lemma hex_text_parse:
  assumes "length digest = 32"
  shows "parse_sha256 (Some (hex_text digest)) = Inr digest"
proof -
  have low: "lower (hex_digit n) = hex_digit n" if "n < 16" for n
    using hex_digit_lower [of "hex_digit n"] hex_nibble_digit [OF that] by simp
  have "unat b div 16 < 16" for b :: u8
  proof -
    have "unat b < 2 ^ 8" using unsigned_less [of b] by simp
    then show ?thesis by simp
  qed
  then have "map lower (hex_text digest) = hex_text digest"
    by (induction digest) (auto simp: hex_text_def intro!: low)
  then have "parse_hex_pairs (hex_text digest) = Some digest"
    using parse_hex_pairs_iff [of "hex_text digest" digest] by simp
  then show ?thesis using assms by (simp add: parse_sha256_def length_hex_text)
qed

lemma http_download_example:
  obtains w' s' where "ota_http_download (list_server None) example_env (Some example_request)
      example_package (ota_boot (\<lambda>_. 0xFF)) = Some (OTA_OK, w', s')"
proof -
  have "\<exists>r w5 w6 w' s'. notify_progress (list_server None) OTA_HTTP_STAGE_COMMIT 4104 4104 100 w5 = (r, w6) \<and>
    ota_http_download (list_server None) example_env (Some example_request) example_package
      (ota_boot (\<lambda>_. 0xFF)) = Some (r, w', s') \<and>
    st_state (ota_get_status s') = OTA_STATE_READY"
    unfolding example_request_def
    by (rule http_download_runs [OF example_env_slots example_boot_slots example_reliable _ _
          list_server_facts(2,4,4) _ hex_text_parse [OF length_sha256_spec] list_server_facts(3)
          example_package_valid]) (simp_all add: ota_boot_def example_env_def)
  then show thesis using that by (auto simp: notify_progress_def list_server_def)
qed

lemma http_download_installs_witness:
  "\<exists>w' s'. ota_http_download (list_server None) example_env (Some example_request)
      example_package (ota_boot (\<lambda>_. 0xFF)) = Some (OTA_OK, w', s') \<and>
    st_state (ota_get_status s') = OTA_STATE_READY"
proof -
  obtain w' s' where call: "ota_http_download (list_server None) example_env (Some example_request)
      example_package (ota_boot (\<lambda>_. 0xFF)) = Some (OTA_OK, w', s')"
    by (rule http_download_example)
  show ?thesis
    using http_download_installs [OF example_env_slots ota_reach.boot list_server_facts(1) call] call
    by blast
qed


lemma http_download_succeeds_witness:
  "\<exists>w' s'. ota_http_download (list_server None) example_env (Some example_request)
      example_package (ota_boot (\<lambda>_. 0xFF)) = Some (OTA_OK, w', s') \<and>
    st_state (ota_get_status s') = OTA_STATE_READY"
  unfolding example_request_def
  by (rule http_download_succeeds [OF example_env_slots example_boot_slots example_reliable _ _
        list_server_facts(2,4) _ hex_text_parse [OF length_sha256_spec] list_server_facts(3)
        example_package_valid]) (simp_all add: ota_boot_def example_env_def)

lemma http_commit_cancel_too_late_witness:
  "\<exists>w' s'. ota_http_download (list_server (Some cancel_at_commit)) example_env
      (Some example_request) example_package (ota_boot (\<lambda>_. 0xFF)) = Some (OTA_ERROR_CANCELLED, w', s') \<and>
    st_state (ota_get_status s') = OTA_STATE_READY"
  unfolding example_request_def
  by (rule http_commit_cancel_too_late [OF example_env_slots example_boot_slots example_reliable _ _
        list_server_facts(2) list_server_facts(5) list_server_facts(5) _ hex_text_parse [OF length_sha256_spec]
        list_server_facts(3) example_package_valid])
     (simp_all add: ota_boot_def example_env_def list_server_def, simp add: cancel_at_commit_def)

end
