(* ===== verification/Ota_Wifi.thy ===== *)
theory Ota_Wifi
  imports Ota_Http
begin

text \<open>
  \<open>applications/ota/ota_wifi.c\<close>: the TCP server that receives a package from a tool on the
  local network.  A connection is a record of what the peer sends, in the segments TCP
  delivers, how it ends, how many bytes each send call accepts, and what was sent; the socket
  layer is the environment, the frame handling is the code's.  The file's own copies of the
  little-endian loads and stores share the definitions of the prelude.
\<close>

section \<open>Connections\<close>

text \<open>
  \<open>sk_end\<close> is what a receive returns after the last segment: 0 for a closed connection, a
  negative value for a time-out or an error.  \<open>sk_sends\<close> scripts the send calls; when it is
  used up, a send accepts everything.
\<close>

record sock =
  sk_input :: "bytes list"
  sk_end :: int
  sk_sends :: "int list"
  sk_output :: bytes

definition sal_recvfrom :: "nat \<Rightarrow> sock \<Rightarrow> int \<times> bytes \<times> sock" where
  "sal_recvfrom n sk =
     (case sk_input sk of
        [] \<Rightarrow> (min 0 (sk_end sk), [], sk)
      | seg # segs \<Rightarrow>
          let k = min n (length seg)
          in (int k, take k seg,
              sk\<lparr>sk_input := (if k = length seg then segs else drop k seg # segs)\<rparr>))"

definition sal_sendto :: "bytes \<Rightarrow> sock \<Rightarrow> int \<times> sock" where
  "sal_sendto bs sk =
     (case sk_sends sk of
        [] \<Rightarrow> (int (length bs), sk\<lparr>sk_output := sk_output sk @ bs\<rparr>)
      | r # rs \<Rightarrow>
          let k = min r (int (length bs))
          in (k, sk\<lparr>sk_sends := rs, sk_output := sk_output sk @ take (nat k) bs\<rparr>))"

text \<open>The receive and send loops; the first argument of the receive loop is what is missing.\<close>

function socket_receive_exact :: "nat \<Rightarrow> sock \<Rightarrow> int \<times> bytes \<times> sock" where
  "socket_receive_exact len sk =
     (if len = 0 then (OTA_OK, [], sk)
      else
        let (result, bytes, sk) = sal_recvfrom len sk
        in if result = 0 then (OTA_ERROR_NETWORK, [], sk)
           else if result < 0 then (OTA_ERROR_TIMEOUT, [], sk)
           else
             let (status, more, sk) = socket_receive_exact (len - nat result) sk
             in (status, bytes @ more, sk))"
  by pat_completeness auto
termination by (relation "measure fst") auto

declare socket_receive_exact.simps [simp del]

function socket_send_all :: "bytes \<Rightarrow> sock \<Rightarrow> int \<times> sock" where
  "socket_send_all bytes sk =
     (if bytes = [] then (OTA_OK, sk)
      else
        let (result, sk) = sal_sendto bytes sk
        in if result \<le> 0 then (OTA_ERROR_NETWORK, sk)
           else socket_send_all (drop (nat result) bytes) sk)"
  by pat_completeness auto
termination by (relation "measure (\<lambda>(bytes, sk). length bytes)") auto

declare socket_send_all.simps [simp del]

section \<open>Frames\<close>

abbreviation (input) OTA_WIFI_PROTOCOL_MAGIC :: u32 where "OTA_WIFI_PROTOCOL_MAGIC \<equiv> 0x3141544F"
abbreviation (input) OTA_WIFI_PROTOCOL_VERSION :: u16 where "OTA_WIFI_PROTOCOL_VERSION \<equiv> 1"
abbreviation (input) OTA_WIFI_MSG_QUERY :: u16 where "OTA_WIFI_MSG_QUERY \<equiv> 1"
abbreviation (input) OTA_WIFI_MSG_BEGIN :: u16 where "OTA_WIFI_MSG_BEGIN \<equiv> 2"
abbreviation (input) OTA_WIFI_MSG_DATA :: u16 where "OTA_WIFI_MSG_DATA \<equiv> 3"
abbreviation (input) OTA_WIFI_MSG_END :: u16 where "OTA_WIFI_MSG_END \<equiv> 4"
abbreviation (input) OTA_WIFI_MSG_ABORT :: u16 where "OTA_WIFI_MSG_ABORT \<equiv> 5"
abbreviation (input) OTA_WIFI_MSG_REBOOT :: u16 where "OTA_WIFI_MSG_REBOOT \<equiv> 6"
abbreviation (input) OTA_WIFI_MSG_RESPONSE_BIT :: u16 where "OTA_WIFI_MSG_RESPONSE_BIT \<equiv> 0x8000"
abbreviation (input) OTA_WIFI_BEGIN_FLAG_REBOOT :: u32 where "OTA_WIFI_BEGIN_FLAG_REBOOT \<equiv> 1"
abbreviation (input) OTA_WIFI_MAX_FRAME_PAYLOAD :: nat where "OTA_WIFI_MAX_FRAME_PAYLOAD \<equiv> 4096"

text \<open>The 24 bytes of a response header; an empty payload is the NULL pointer with length 0.\<close>

definition response_header :: "u16 \<Rightarrow> u32 \<Rightarrow> int \<Rightarrow> bytes \<Rightarrow> bytes" where
  "response_header request_type sequence result payload =
     store_le32 OTA_WIFI_PROTOCOL_MAGIC @
     store_le16 OTA_WIFI_PROTOCOL_VERSION @
     store_le16 (request_type OR OTA_WIFI_MSG_RESPONSE_BIT) @
     store_le32 sequence @
     store_le32 (word_of_int result) @
     store_le32 (of_nat (length payload)) @
     store_le32 (if payload \<noteq> [] then ota_crc32_calculate payload else 0)"

definition send_response :: "u16 \<Rightarrow> u32 \<Rightarrow> int \<Rightarrow> bytes \<Rightarrow> sock \<Rightarrow> int \<times> sock" where
  "send_response request_type sequence result payload sk =
     (let header = response_header request_type sequence result payload;
          (status, sk) = socket_send_all header sk
      in if status \<noteq> OTA_OK then (OTA_ERROR_NETWORK, sk)
         else if payload \<noteq> [] then
           let (status, sk) = socket_send_all payload sk
           in if status \<noteq> OTA_OK then (OTA_ERROR_NETWORK, sk) else (OTA_OK, sk)
         else (OTA_OK, sk))"

definition status_payload :: "ota_status_t \<Rightarrow> bytes" where
  "status_payload status =
     store_le32 (ota_state_code (st_state status)) @
     store_le32 (word_of_int (st_last_error status)) @
     store_le32 (st_package_size status) @
     store_le32 (st_received_size status) @
     store_le32 (st_firmware_version status)"

definition send_status_response :: "'f ota_sys \<Rightarrow> u16 \<Rightarrow> u32 \<Rightarrow> sock \<Rightarrow> int \<times> sock" where
  "send_status_response s request_type sequence sk =
     send_response request_type sequence OTA_OK (status_payload (ota_get_status s)) sk"

section \<open>One client\<close>

text \<open>
  How an iteration of the frame loop ends: with the loop's variables \<open>begin_flags\<close> and
  \<open>receiving\<close> for the next frame, with the \<open>break\<close> that leads to the clean-up, with a
  \<open>return\<close>, or with the reset of the CPU.
\<close>

datatype client_next = Client_Loop u32 bool | Client_Break bool | Client_Return | Client_Reset

text \<open>The code after the \<open>switch\<close>.\<close>

definition client_reply ::
  "'f ota_sys \<Rightarrow> u16 \<Rightarrow> u32 \<Rightarrow> int \<Rightarrow> bool \<Rightarrow> u32 \<Rightarrow> bool \<Rightarrow> sock \<Rightarrow> client_next \<times> sock" where
  "client_reply s type sequence result reboot_after_response begin_flags receiving sk =
     (let (status, sk) = send_response type sequence result [] sk
      in if status \<noteq> OTA_OK then (Client_Break receiving, sk)
         else if reboot_after_response
         then (case ota_reboot_to_install 500 s of
                 CpuReset \<Rightarrow> Client_Reset | Returned _ \<Rightarrow> Client_Return, sk)
         else (Client_Loop begin_flags receiving, sk))"

text \<open>The \<open>switch\<close> on the frame type, with the payload received and checked.\<close>

definition client_dispatch ::
  "'f ota_env \<Rightarrow> u16 \<Rightarrow> u32 \<Rightarrow> u32 \<Rightarrow> bytes \<Rightarrow> u32 \<Rightarrow> bool \<Rightarrow> sock \<Rightarrow> 'f ota_sys \<Rightarrow>
     (client_next \<times> sock \<times> 'f ota_sys) option" where
  "client_dispatch E type sequence offset payload begin_flags receiving sk s =
     (let reply = (\<lambda>result reboot begin_flags receiving s.
            case client_reply s type sequence result reboot begin_flags receiving sk of
              (nxt, sk) \<Rightarrow> Some (nxt, sk, s))
      in if type = OTA_WIFI_MSG_QUERY then
           if payload \<noteq> [] then reply OTA_ERROR_PROTOCOL False begin_flags receiving s
           else case send_status_response s type sequence sk of
             (status, sk) \<Rightarrow>
               if status \<noteq> OTA_OK then Some (Client_Return, sk, s)
               else Some (Client_Loop begin_flags receiving, sk, s)
         else if type = OTA_WIFI_MSG_BEGIN then
           if length payload \<noteq> 12 then reply OTA_ERROR_PROTOCOL False begin_flags receiving s
           else
             let begin_flags = load_le32 payload 8
             in do {
               (result, s) \<leftarrow> ota_begin E (Some ''wifi'') (load_le32 payload 0) (load_le32 payload 4) s;
               reply result False begin_flags (result = OTA_OK) s
             }
         else if type = OTA_WIFI_MSG_DATA then
           if \<not> receiving \<or> payload = [] then reply OTA_ERROR_STATE False begin_flags receiving s
           else do {
             (result, s) \<leftarrow> ota_write E offset (Some payload) s;
             reply result False begin_flags receiving s
           }
         else if type = OTA_WIFI_MSG_END then
           if \<not> receiving \<or> payload \<noteq> [] then reply OTA_ERROR_STATE False begin_flags receiving s
           else do {
             (result, s) \<leftarrow> ota_finish E s;
             reply result (result = OTA_OK \<and> begin_flags AND OTA_WIFI_BEGIN_FLAG_REBOOT \<noteq> 0)
               begin_flags False s
           }
         else if type = OTA_WIFI_MSG_ABORT then
           if payload \<noteq> [] then reply OTA_ERROR_PROTOCOL False begin_flags receiving s
           else do {
             s \<leftarrow> ota_abort E s;
             reply OTA_OK False begin_flags False s
           }
         else if type = OTA_WIFI_MSG_REBOOT then
           if payload \<noteq> [] then reply OTA_ERROR_PROTOCOL False begin_flags receiving s
           else
             let result = if st_state (ota_get_status s) = OTA_STATE_READY then OTA_OK
                          else OTA_ERROR_STATE
             in reply result (result = OTA_OK) begin_flags receiving s
         else reply OTA_ERROR_PROTOCOL False begin_flags receiving s)"

text \<open>One iteration of the frame loop.\<close>

definition client_frame ::
  "'f ota_env \<Rightarrow> u32 \<Rightarrow> bool \<Rightarrow> sock \<Rightarrow> 'f ota_sys \<Rightarrow> (client_next \<times> sock \<times> 'f ota_sys) option" where
  "client_frame E begin_flags receiving sk s =
     (let (result, header, sk) = socket_receive_exact 24 sk
      in if result \<noteq> OTA_OK then Some (Client_Break receiving, sk, s)
         else
           let version = load_le16 header 4;
               type = load_le16 header 6;
               sequence = load_le32 header 8;
               offset = load_le32 header 12;
               payload_length = load_le32 header 16;
               payload_crc = load_le32 header 20
           in if load_le32 header 0 \<noteq> OTA_WIFI_PROTOCOL_MAGIC \<or>
                 version \<noteq> OTA_WIFI_PROTOCOL_VERSION \<or>
                 type AND OTA_WIFI_MSG_RESPONSE_BIT \<noteq> 0 \<or>
                 unat payload_length > OTA_WIFI_MAX_FRAME_PAYLOAD
              then let (_, sk) = send_response type sequence OTA_ERROR_PROTOCOL [] sk
                   in Some (Client_Break receiving, sk, s)
              else if payload_length \<noteq> 0 then
                let (result, payload, sk) = socket_receive_exact (unat payload_length) sk
                in if result \<noteq> OTA_OK then Some (Client_Break receiving, sk, s)
                   else if ota_crc32_calculate payload \<noteq> payload_crc
                   then let (_, sk) = send_response type sequence OTA_ERROR_TRANSFER_CRC [] sk
                        in Some (Client_Loop begin_flags receiving, sk, s)
                   else client_dispatch E type sequence offset payload begin_flags receiving sk s
              else if payload_crc \<noteq> 0
              then let (_, sk) = send_response type sequence OTA_ERROR_PROTOCOL [] sk
                   in Some (Client_Loop begin_flags receiving, sk, s)
              else client_dispatch E type sequence offset [] begin_flags receiving sk s)"

section \<open>The sockets\<close>

definition sk_left :: "sock \<Rightarrow> nat" where
  "sk_left sk = length (concat (sk_input sk))"

text \<open>A receive takes the next bytes of the stream.\<close>

lemma sal_recvfrom_stream:
  assumes "sal_recvfrom n sk = (r, d, sk')"
  shows "concat (sk_input sk) = d @ concat (sk_input sk')" "length d = nat r" "nat r \<le> n"
    "sk_end sk' = sk_end sk" "sk_sends sk' = sk_sends sk" "sk_output sk' = sk_output sk"
  using assms by (auto simp: sal_recvfrom_def Let_def split: list.splits if_splits)

lemma socket_receive_exact_stream:
  "socket_receive_exact n sk = (r, d, sk') \<Longrightarrow>
   (r = OTA_OK \<longrightarrow> length d = n \<and> concat (sk_input sk) = d @ concat (sk_input sk')) \<and>
   sk_left sk' \<le> sk_left sk \<and>
   sk_end sk' = sk_end sk \<and> sk_sends sk' = sk_sends sk \<and> sk_output sk' = sk_output sk"
proof (induction n sk arbitrary: r d sk' rule: socket_receive_exact.induct)
  case (1 n sk)
  show ?case
  proof (cases "n = 0")
    case True
    then show ?thesis using "1.prems" by (simp add: socket_receive_exact.simps)
  next
    case False
    obtain r1 d1 sk1 where rc: "sal_recvfrom n sk = (r1, d1, sk1)" by (metis prod.exhaust)
    note st = sal_recvfrom_stream [OF rc]
    have left: "sk_left sk1 \<le> sk_left sk" using st(1) by (simp add: sk_left_def)
    show ?thesis
    proof (cases "r1 \<le> 0")
      case True
      then show ?thesis using "1.prems" False rc st left
        by (auto simp: socket_receive_exact.simps split: if_splits)
    next
      case pos: False
      obtain r2 d2 sk2 where rec: "socket_receive_exact (n - nat r1) sk1 = (r2, d2, sk2)"
        by (metis prod.exhaust)
      have out: "r = r2" "d = d1 @ d2" "sk' = sk2"
        using "1.prems" False rc pos rec
        by (auto simp: socket_receive_exact.simps [of n] split: if_splits)
      have IH: "(r2 = OTA_OK \<longrightarrow> length d2 = n - nat r1 \<and> concat (sk_input sk1) = d2 @ concat (sk_input sk2)) \<and>
        sk_left sk2 \<le> sk_left sk1 \<and>
        sk_end sk2 = sk_end sk1 \<and> sk_sends sk2 = sk_sends sk1 \<and> sk_output sk2 = sk_output sk1"
        using "1.IH" [OF False refl rc [symmetric] refl _ _ rec] pos by simp
      then show ?thesis using out st left by auto
    qed
  qed
qed

lemma sal_sendto_input:
  "sal_sendto bs sk = (r, sk') \<Longrightarrow> sk_input sk' = sk_input sk \<and> sk_end sk' = sk_end sk"
  by (auto simp: sal_sendto_def Let_def split: list.splits)

lemma socket_send_all_input:
  "socket_send_all bs sk = (r, sk') \<Longrightarrow> sk_input sk' = sk_input sk \<and> sk_end sk' = sk_end sk"
proof (induction bs sk arbitrary: r sk' rule: socket_send_all.induct)
  case (1 bs sk)
  then show ?case
    by (subst (asm) (2) socket_send_all.simps)
       (auto simp: Let_def dest!: sal_sendto_input split: if_splits prod.splits)
qed

lemma send_response_input:
  "send_response type sequence result payload sk = (r, sk') \<Longrightarrow>
   sk_input sk' = sk_input sk \<and> sk_end sk' = sk_end sk"
  by (auto simp: send_response_def Let_def dest!: socket_send_all_input split: if_splits prod.splits)

lemma client_reply_input:
  "client_reply s type sequence result reboot flags receiving sk = (nxt, sk') \<Longrightarrow>
   sk_input sk' = sk_input sk"
  by (auto simp: client_reply_def Let_def dest!: send_response_input split: if_splits prod.splits)

lemma client_dispatch_input:
  "client_dispatch E type sequence offset payload flags receiving sk s = Some (nxt, sk', s') \<Longrightarrow>
   sk_input sk' = sk_input sk"
  by (auto simp: client_dispatch_def send_status_response_def Let_def
      dest!: client_reply_input send_response_input
      split: if_splits prod.splits Option.bind_splits)

text \<open>Every iteration that continues has consumed at least a frame header.\<close>

lemma client_frame_consumes:
  assumes "client_frame E flags receiving sk s = Some (Client_Loop flags' receiving', sk', s')"
  shows "sk_left sk' < sk_left sk"
proof -
  obtain r header sk1 where rh: "socket_receive_exact 24 sk = (r, header, sk1)" by (metis prod.exhaust)
  note sh = socket_receive_exact_stream [OF rh]
  have r: "r = OTA_OK"
    by (rule ccontr) (use assms in \<open>simp add: client_frame_def rh\<close>)
  then have left1: "sk_left sk1 < sk_left sk" using sh by (auto simp: sk_left_def)
  obtain r2 payload sk2 where rp: "socket_receive_exact (unat (load_le32 header 16)) sk1 = (r2, payload, sk2)"
    by (metis prod.exhaust)
  note sp = socket_receive_exact_stream [OF rp]
  have "sk_input sk' = sk_input sk1 \<or> sk_input sk' = sk_input sk2"
    using assms rh r rp
    by (auto simp: client_frame_def Let_def dest!: send_response_input client_dispatch_input
        split: if_splits prod.splits)
  then show ?thesis using left1 sp by (auto simp: sk_left_def)
qed

section \<open>The frame loop\<close>

text \<open>
  The loop and the clean-up after it; the result tells whether the CPU was reset.  The loop
  ends for every connection that sends finitely many bytes, because each iteration consumes
  a frame header.
\<close>

function client_loop ::
  "'f ota_env \<Rightarrow> u32 \<Rightarrow> bool \<Rightarrow> sock \<Rightarrow> 'f ota_sys \<Rightarrow> (bool \<times> sock \<times> 'f ota_sys) option" where
  "client_loop E begin_flags receiving sk s =
     (case client_frame E begin_flags receiving sk s of
        None \<Rightarrow> None
      | Some (Client_Loop begin_flags receiving, sk, s) \<Rightarrow> client_loop E begin_flags receiving sk s
      | Some (Client_Break receiving, sk, s) \<Rightarrow>
          if receiving then do { s \<leftarrow> ota_abort E s; Some (False, sk, s) } else Some (False, sk, s)
      | Some (Client_Return, sk, s) \<Rightarrow> Some (False, sk, s)
      | Some (Client_Reset, sk, s) \<Rightarrow> Some (True, sk, s))"
  by pat_completeness auto
termination
  by (relation "measure (\<lambda>(E, flags, receiving, sk, s). sk_left sk)")
     (auto dest: client_frame_consumes)

declare client_loop.simps [simp del]

definition handle_client ::
  "'f ota_env \<Rightarrow> sock \<Rightarrow> 'f ota_sys \<Rightarrow> (bool \<times> sock \<times> 'f ota_sys) option" where
  "handle_client E sk s = client_loop E 0 False sk s"


section \<open>Starting the server\<close>

text \<open>
  The thread handle is a flag; \<open>thread_create\<close> tells whether the kernel finds memory for the
  thread.
\<close>

definition ota_wifi_server_start ::
  "'f ota_env \<Rightarrow> bool \<Rightarrow> bool \<Rightarrow> 'f ota_sys \<Rightarrow> int \<times> bool \<times> 'f ota_sys" where
  "ota_wifi_server_start E thread_create thread s =
     (let (result, s) = ota_service_init E s
      in if result \<noteq> OTA_OK then (result, thread, s)
         else if thread then (OTA_OK, thread, s)
         else if \<not> thread_create then (OTA_ERROR_NO_MEMORY, False, s)
         else (OTA_OK, True, s))"

section \<open>The byte stream\<close>

text \<open>
  TCP keeps the order of the bytes and nothing else: two connections with the same stream
  differ only in their segments.
\<close>

definition sock_wf :: "sock \<Rightarrow> bool" where
  "sock_wf sk \<longleftrightarrow> [] \<notin> set (sk_input sk)"

definition sk_stream :: "sock \<Rightarrow> bytes" where
  "sk_stream sk = concat (sk_input sk)"

definition same_stream :: "sock \<Rightarrow> sock \<Rightarrow> bool" where
  "same_stream a b \<longleftrightarrow> sock_wf a \<and> sock_wf b \<and> sk_stream a = sk_stream b \<and>
     b = a\<lparr>sk_input := sk_input b\<rparr>"

lemma sal_recvfrom_wf:
  assumes "sal_recvfrom n sk = (r, d, sk')" "sock_wf sk" "0 < n"
  shows "sock_wf sk'" "sk' = sk\<lparr>sk_input := sk_input sk'\<rparr>" "0 < r \<longleftrightarrow> sk_input sk \<noteq> []"
    "sk_input sk = [] \<Longrightarrow> r = min 0 (sk_end sk) \<and> d = [] \<and> sk' = sk"
  using assms
  by (auto simp: sal_recvfrom_def sock_wf_def Let_def min_def split: list.splits if_splits
      dest: arg_cong [where f = length])

lemma socket_receive_exact_flat:
  "sock_wf sk \<Longrightarrow> \<exists>inp. [] \<notin> set inp \<and> concat inp = drop n (sk_stream sk) \<and>
     socket_receive_exact n sk =
       (if n \<le> length (sk_stream sk) then OTA_OK
        else if sk_end sk < 0 then OTA_ERROR_TIMEOUT else OTA_ERROR_NETWORK,
        take n (sk_stream sk), sk\<lparr>sk_input := inp\<rparr>)"
proof (induction n arbitrary: sk rule: less_induct)
  case (less n)
  show ?case
  proof (cases "n = 0")
    case True
    then show ?thesis using less.prems
      by (auto simp: socket_receive_exact.simps sock_wf_def sk_stream_def intro!: exI [of _ "sk_input sk"])
  next
    case False
    obtain r1 d1 sk1 where rc: "sal_recvfrom n sk = (r1, d1, sk1)" by (metis prod.exhaust)
    note st = sal_recvfrom_stream [OF rc]
    note wf = sal_recvfrom_wf [OF rc less.prems]
    show ?thesis
    proof (cases "sk_input sk = []")
      case True
      then show ?thesis using False rc wf(4)
        by (auto simp: socket_receive_exact.simps [of n] sk_stream_def min_def
            intro!: exI [of _ "[]"])
    next
      case some: False
      then have pos: "0 < r1" using wf(3) False by simp
      have str: "sk_stream sk = d1 @ sk_stream sk1" using st(1) by (simp add: sk_stream_def)
      obtain inp where inp: "[] \<notin> set inp" "concat inp = drop (n - nat r1) (sk_stream sk1)"
        and rec: "socket_receive_exact (n - nat r1) sk1 =
          (if n - nat r1 \<le> length (sk_stream sk1) then OTA_OK
           else if sk_end sk1 < 0 then OTA_ERROR_TIMEOUT else OTA_ERROR_NETWORK,
           take (n - nat r1) (sk_stream sk1), sk1\<lparr>sk_input := inp\<rparr>)"
        using less.IH [of "n - nat r1" sk1] wf(1) pos False by auto
      have upd: "sk1\<lparr>sk_input := inp\<rparr> = sk\<lparr>sk_input := inp\<rparr>"
        using arg_cong [OF wf(2), of "\<lambda>x. x\<lparr>sk_input := inp\<rparr>"] False by simp
      show ?thesis
        using False pos inp st(2,3,4)
        by (intro exI [of _ inp]) (simp add: socket_receive_exact.simps [of n] str rc rec upd, arith)
    qed
  qed
qed

end
