(* ===== verification/Ota_Wifi_Session.thy ===== *)
theory Ota_Wifi_Session
  imports Ota_Wifi
begin

text \<open>
  What a connection of \<open>ota_wifi.c\<close> does to the update service: frames do not depend on the
  segments of the stream, a complete session is an \<open>ota_transfer\<close>, every connection keeps the
  invariant of the service, and the exits of the frame loop that leave a transfer open.
\<close>

section \<open>Sending and receiving are independent\<close>

definition with_input :: "bytes list \<Rightarrow> sock \<Rightarrow> sock" where
  "with_input i sk = sk\<lparr>sk_input := i\<rparr>"

lemma with_input_simps [simp]:
  "sk_input (with_input i sk) = i" "sk_end (with_input i sk) = sk_end sk"
  "sk_sends (with_input i sk) = sk_sends sk" "sk_output (with_input i sk) = sk_output sk"
  "with_input j (with_input i sk) = with_input j sk" "with_input (sk_input sk) sk = sk"
  by (simp_all add: with_input_def)

lemma sal_sendto_with_input:
  "sal_sendto bs (with_input i sk) = apsnd (with_input i) (sal_sendto bs sk)"
  by (auto simp: sal_sendto_def with_input_def Let_def split: list.splits)

lemma socket_send_all_with_input:
  "socket_send_all bs (with_input i sk) = apsnd (with_input i) (socket_send_all bs sk)"
proof (induction bs arbitrary: sk rule: length_induct)
  case (1 bs)
  obtain r sk1 where r: "sal_sendto bs sk = (r, sk1)" by (metis prod.exhaust)
  then have ri: "sal_sendto bs (with_input i sk) = (r, with_input i sk1)"
    by (simp add: sal_sendto_with_input)
  show ?case
  proof (cases "bs = [] \<or> r \<le> 0")
    case True
    then show ?thesis using r ri by (auto simp: socket_send_all.simps [of bs])
  next
    case False
    then have "length (drop (nat r) bs) < length bs" by auto
    then show ?thesis using "1.IH" r ri False by (simp add: socket_send_all.simps [of bs])
  qed
qed

lemma send_response_with_input:
  "send_response type sequence result payload (with_input i sk) =
     apsnd (with_input i) (send_response type sequence result payload sk)"
  by (simp add: send_response_def Let_def socket_send_all_with_input split: prod.splits)

lemma send_status_response_with_input:
  "send_status_response s type sequence (with_input i sk) =
     apsnd (with_input i) (send_status_response s type sequence sk)"
  by (simp add: send_status_response_def send_response_with_input)

lemma client_reply_with_input:
  "client_reply s type sequence result reboot flags receiving (with_input i sk) =
     apsnd (with_input i) (client_reply s type sequence result reboot flags receiving sk)"
  by (simp add: client_reply_def Let_def send_response_with_input split: prod.splits)

definition client_result_input ::
  "bytes list \<Rightarrow> (client_next \<times> sock \<times> 'f ota_sys) option \<Rightarrow> (client_next \<times> sock \<times> 'f ota_sys) option" where
  "client_result_input i = map_option (apsnd (apfst (with_input i)))"

lemma client_result_input_simps [simp]:
  "client_result_input i None = None"
  "client_result_input i (Some (n, sk, s)) = Some (n, with_input i sk, s)"
  by (simp_all add: client_result_input_def)

lemma client_dispatch_with_input:
  "client_dispatch E type sequence offset payload flags receiving (with_input i sk) s =
     client_result_input i (client_dispatch E type sequence offset payload flags receiving sk s)"
  by (simp add: client_dispatch_def Let_def client_reply_with_input send_status_response_with_input
      split: prod.splits Option.bind_splits)

text \<open>Receiving from the stream.\<close>

lemma same_stream_with_input: "same_stream a b \<Longrightarrow> b = with_input (sk_input b) a"
  by (simp add: same_stream_def with_input_def)

lemma receive_flatE:
  assumes "sock_wf sk"
  obtains inp where "[] \<notin> set inp" "concat inp = drop n (sk_stream sk)"
    "socket_receive_exact n sk =
       (if n \<le> length (sk_stream sk) then OTA_OK
        else if sk_end sk < 0 then OTA_ERROR_TIMEOUT else OTA_ERROR_NETWORK,
        take n (sk_stream sk), with_input inp sk)"
  using socket_receive_exact_flat [OF assms, of n] by (auto simp: with_input_def)

lemma receive_same_stream:
  assumes "same_stream a b"
  obtains r d a' b' where "socket_receive_exact n a = (r, d, a')" "socket_receive_exact n b = (r, d, b')"
    "same_stream a' b'"
proof -
  have wf: "sock_wf a" "sock_wf b" and str: "sk_stream a = sk_stream b"
    using assms by (auto simp: same_stream_def)
  have b: "b = with_input (sk_input b) a" using assms by (rule same_stream_with_input)
  have e: "sk_end b = sk_end a" by (subst b) simp
  obtain i where i: "[] \<notin> set i" "concat i = drop n (sk_stream a)"
    "socket_receive_exact n a = (if n \<le> length (sk_stream a) then OTA_OK
        else if sk_end a < 0 then OTA_ERROR_TIMEOUT else OTA_ERROR_NETWORK,
        take n (sk_stream a), with_input i a)" using receive_flatE [OF wf(1)] .
  obtain j where j: "[] \<notin> set j" "concat j = drop n (sk_stream b)"
    "socket_receive_exact n b = (if n \<le> length (sk_stream b) then OTA_OK
        else if sk_end b < 0 then OTA_ERROR_TIMEOUT else OTA_ERROR_NETWORK,
        take n (sk_stream b), with_input j b)" using receive_flatE [OF wf(2)] .
  have "with_input j b = with_input j a" by (subst b) simp
  then have "same_stream (with_input i a) (with_input j b)"
    using i(1,2) j(1,2) str by (simp add: same_stream_def sock_wf_def sk_stream_def with_input_def)
  then show thesis using that i(3) j(3) str e by simp
qed

definition same_result ::
  "(client_next \<times> sock \<times> 'f ota_sys) option \<Rightarrow> (client_next \<times> sock \<times> 'f ota_sys) option \<Rightarrow> bool" where
  "same_result x y = rel_option (rel_prod (=) (rel_prod same_stream (=))) x y"

lemma client_result_same:
  assumes "same_stream a b" "\<And>n sk' s'. x = Some (n, sk', s') \<Longrightarrow> sk_input sk' = sk_input a"
  shows "same_result x (client_result_input (sk_input b) x)"
  using assms
  by (cases x) (auto simp: same_result_def same_stream_def sock_wf_def sk_stream_def with_input_def)

lemma dispatch_same_stream:
  assumes "same_stream a b"
  shows "same_result (client_dispatch E type sequence offset payload flags receiving a s)
    (client_dispatch E type sequence offset payload flags receiving b s)"
proof -
  have "client_dispatch E type sequence offset payload flags receiving b s =
      client_result_input (sk_input b) (client_dispatch E type sequence offset payload flags receiving a s)"
    by (subst same_stream_with_input [OF assms]) (rule client_dispatch_with_input)
  then show ?thesis by (auto intro: client_result_same [OF assms] dest: client_dispatch_input)
qed

lemma respond_same_stream:
  assumes "same_stream a b"
  shows "same_stream (snd (send_response type sequence result payload a))
      (snd (send_response type sequence result payload b))"
proof -
  obtain r a' where a: "send_response type sequence result payload a = (r, a')" by (metis prod.exhaust)
  have "send_response type sequence result payload b = (r, with_input (sk_input b) a')"
    by (subst same_stream_with_input [OF assms]) (simp add: send_response_with_input a)
  moreover have "sk_input a' = sk_input a" using send_response_input [OF a] by simp
  ultimately show ?thesis using a assms
    by (simp add: same_stream_def sock_wf_def sk_stream_def with_input_def)
qed

lemma respond_same_result:
  "same_stream a b \<Longrightarrow>
   same_result (case send_response type sequence result payload a of (_, sk) \<Rightarrow> Some (n, sk, s))
     (case send_response type sequence result payload b of (_, sk) \<Rightarrow> Some (n, sk, s))"
  using respond_same_stream [of a b type sequence result payload]
  by (auto simp: same_result_def split: prod.splits)

lemma same_result_Some: "same_stream a b \<Longrightarrow> same_result (Some (n, a, s)) (Some (n, b, s))"
  by (simp add: same_result_def)

lemma client_frame_same_stream:
  assumes "same_stream a b"
  shows "same_result (client_frame E flags receiving a s) (client_frame E flags receiving b s)"
proof -
  obtain r h a1 b1 where h: "socket_receive_exact 24 a = (r, h, a1)" "socket_receive_exact 24 b = (r, h, b1)"
    and s1: "same_stream a1 b1" using receive_same_stream [OF assms] .
  obtain r2 p a2 b2 where p: "socket_receive_exact (unat (load_le32 h 16)) a1 = (r2, p, a2)"
    "socket_receive_exact (unat (load_le32 h 16)) b1 = (r2, p, b2)" and s2: "same_stream a2 b2"
    using receive_same_stream [OF s1] .
  show ?thesis
    unfolding client_frame_def Let_def h p prod.case
    using s1 s2 by (simp add: respond_same_result dispatch_same_stream same_result_Some)
qed

lemma client_loop_same_stream:
  assumes "same_stream a b"
  shows "rel_option (rel_prod (=) (rel_prod same_stream (=)))
    (client_loop E flags receiving a s) (client_loop E flags receiving b s)"
  using assms
proof (induction "sk_left a" arbitrary: flags receiving a b s rule: less_induct)
  case less
  note fr = client_frame_same_stream [OF less.prems, of E flags receiving s, unfolded same_result_def]
  show ?case
  proof (cases "client_frame E flags receiving a s")
    case None
    then show ?thesis using fr by (simp add: client_loop.simps [of E flags receiving])
  next
    case (Some res)
    obtain n a' s' where a: "client_frame E flags receiving a s = Some (n, a', s')"
      using Some by (metis prod.exhaust)
    then obtain b' where b: "client_frame E flags receiving b s = Some (n, b', s')" and ab: "same_stream a' b'"
      using fr by (auto simp: option_rel_Some1)
    show ?thesis
    proof (cases n)
      case (Client_Loop flags' receiving')
      have "sk_left a' < sk_left a" using a Client_Loop by (auto dest: client_frame_consumes)
      then show ?thesis using less.hyps ab a b Client_Loop
        by (simp add: client_loop.simps [of E flags receiving])
    qed (use a b ab in \<open>auto simp: client_loop.simps [of E flags receiving] option_rel_Some1
        split: Option.bind_splits\<close>)
  qed
qed


section \<open>Every connection\<close>

text \<open>A frame is at most one call of the service, and the reset comes from its READY check.\<close>

lemma client_dispatch_step:
  assumes "client_dispatch E type sequence offset payload flags receiving sk s = Some (nxt, sk', s')"
  shows "s' = s \<or> ota_step E s s'"
    "nxt = Client_Reset \<Longrightarrow> ota_reboot_to_install 500 s' = CpuReset"
  using assms
  by (auto simp: client_dispatch_def client_reply_def Let_def intro: ota_step.intros
      split: if_splits prod.splits Option.bind_splits reboot_outcome.splits)

lemma client_frame_step:
  assumes "client_frame E flags receiving sk s = Some (nxt, sk', s')"
  shows "s' = s \<or> ota_step E s s'"
    "nxt = Client_Reset \<Longrightarrow> ota_reboot_to_install 500 s' = CpuReset"
  using assms unfolding client_frame_def Let_def
  by (auto dest: client_dispatch_step split: if_splits prod.splits)

lemma client_dispatch_returns:
  assumes "env_slots E mem d u" "ota_inv E mem d u s"
  shows "returns (client_dispatch E type sequence offset payload flags receiving sk s)"
proof -
  have sys: "sys_slots d u s" using assms(2) by (simp add: ota_inv_def)
  show ?thesis
    unfolding client_dispatch_def Let_def
    by (intro defined_intros ota_begin_returns [OF assms(1) sys] ota_write_returns [OF sys]
        ota_finish_inv_returns [OF assms(2)] ota_abort_returns)
qed

lemma client_frame_returns:
  assumes "env_slots E mem d u" "ota_inv E mem d u s"
  shows "returns (client_frame E flags receiving sk s)"
  unfolding client_frame_def Let_def
  by (intro defined_intros client_dispatch_returns [OF assms])

lemma client_loop_safe:
  assumes "env_slots E mem d u" "ota_reach E f s"
  shows "\<exists>reset sk' s'. client_loop E flags receiving sk s = Some (reset, sk', s') \<and>
    ota_reach E f s' \<and> (reset \<longrightarrow> ota_reboot_to_install 500 s' = CpuReset)"
  using assms
proof (induction "sk_left sk" arbitrary: flags receiving sk s rule: less_induct)
  case less
  note inv = ota_inv_reach [OF less.prems(2,1)]
  obtain nxt sk1 s1 where fr: "client_frame E flags receiving sk s = Some (nxt, sk1, s1)"
    using client_frame_returns [OF less.prems(1) inv, of flags receiving sk]
    by (auto simp: returns_def)
  note step = client_frame_step [OF fr]
  have reach: "ota_reach E f s1" using step(1) less.prems(2) by (auto intro: ota_reach.step)
  obtain s2 where ab: "ota_abort E s1 = Some s2"
    using ota_abort_returns [of E s1] by (auto simp: returns_def)
  have reach2: "ota_reach E f s2" by (rule ota_reach.step [OF reach aborts [OF ab]])
  show ?case
  proof (cases nxt)
    case (Client_Loop flags' receiving')
    have "sk_left sk1 < sk_left sk" using fr Client_Loop by (auto dest: client_frame_consumes)
    then show ?thesis using less.hyps [OF _ less.prems(1) reach] fr Client_Loop
      by (simp add: client_loop.simps [of E flags receiving])
  qed (use fr reach reach2 ab step(2) in \<open>auto simp: client_loop.simps [of E flags receiving]\<close>)
qed

section \<open>Requests and replies\<close>

text \<open>The frame a client sends, and what it is answered when every send call accepts everything.\<close>

definition wifi_request :: "u16 \<Rightarrow> u32 \<Rightarrow> u32 \<Rightarrow> bytes \<Rightarrow> bytes" where
  "wifi_request type sequence offset payload =
     store_le32 OTA_WIFI_PROTOCOL_MAGIC @ store_le16 OTA_WIFI_PROTOCOL_VERSION @ store_le16 type @
     store_le32 sequence @ store_le32 offset @ store_le32 (of_nat (length payload)) @
     store_le32 (if payload = [] then 0 else ota_crc32_calculate payload) @ payload"

definition sk_reply :: "sock \<Rightarrow> bytes \<Rightarrow> sock" where
  "sk_reply sk bs = sk\<lparr>sk_output := sk_output sk @ bs\<rparr>"

lemma sk_reply_simps [simp]:
  "sk_input (sk_reply sk bs) = sk_input sk" "sk_end (sk_reply sk bs) = sk_end sk"
  "sk_sends (sk_reply sk bs) = sk_sends sk" "sk_output (sk_reply sk bs) = sk_output sk @ bs"
  "sock_wf (sk_reply sk bs) = sock_wf sk" "sk_stream (sk_reply sk bs) = sk_stream sk"
  by (simp_all add: sk_reply_def sock_wf_def sk_stream_def)

lemma socket_send_all_ok: "sk_sends sk = [] \<Longrightarrow> socket_send_all bs sk = (OTA_OK, sk_reply sk bs)"
  by (subst socket_send_all.simps)
     (simp add: sal_sendto_def sk_reply_def socket_send_all.simps [of "[]"])

lemma send_response_ok:
  "sk_sends sk = [] \<Longrightarrow> send_response type sequence result payload sk =
     (OTA_OK, sk_reply sk (response_header type sequence result payload @ payload))"
  by (simp add: send_response_def Let_def socket_send_all_ok sk_reply_def)

lemma wifi_request_fields:
  fixes type sequence offset payload rest
  defines "h \<equiv> take 24 (wifi_request type sequence offset payload @ rest)"
  shows "load_le32 h 0 = OTA_WIFI_PROTOCOL_MAGIC" "load_le16 h 4 = OTA_WIFI_PROTOCOL_VERSION"
    "load_le16 h 6 = type" "load_le32 h 8 = sequence" "load_le32 h 12 = offset"
    "load_le32 h 16 = of_nat (length payload)"
    "load_le32 h 20 = (if payload = [] then 0 else ota_crc32_calculate payload)"
    "drop 24 (wifi_request type sequence offset payload @ rest) = payload @ rest"
    "length h = 24"
proof -
  have h: "h = store_le32 OTA_WIFI_PROTOCOL_MAGIC @ store_le16 OTA_WIFI_PROTOCOL_VERSION @
     store_le16 type @ store_le32 sequence @ store_le32 offset @ store_le32 (of_nat (length payload)) @
     store_le32 (if payload = [] then 0 else ota_crc32_calculate payload)"
    by (simp add: h_def wifi_request_def)
  show "load_le32 h 0 = OTA_WIFI_PROTOCOL_MAGIC" unfolding h by (rule le32.load_front)
  show "load_le16 h 4 = OTA_WIFI_PROTOCOL_VERSION" unfolding h by (rule le16.load_at) simp
  show "load_le16 h 6 = type"
    using le16.load_at [of "take 6 h" 6 type "drop 8 h"] by (simp add: h)
  show "load_le32 h 8 = sequence"
    using le32.load_at [of "take 8 h" 8 sequence "drop 12 h"] by (simp add: h)
  show "load_le32 h 12 = offset"
    using le32.load_at [of "take 12 h" 12 offset "drop 16 h"] by (simp add: h)
  show "load_le32 h 16 = of_nat (length payload)"
    using le32.load_at [of "take 16 h" 16 "of_nat (length payload)" "drop 20 h"] by (simp add: h)
  show "load_le32 h 20 = (if payload = [] then 0 else ota_crc32_calculate payload)"
    using le32.load_at [of "take 20 h" 20 _ "[]"] by (simp add: h)
  show "drop 24 (wifi_request type sequence offset payload @ rest) = payload @ rest"
    by (simp add: wifi_request_def)
  show "length h = 24" by (simp add: h)
qed

lemma client_frame_request:
  assumes "sock_wf sk" "sk_stream sk = wifi_request type sequence offset payload @ rest"
    and "type AND OTA_WIFI_MSG_RESPONSE_BIT = 0" "length payload \<le> 4096"
  obtains inp where "[] \<notin> set inp" "concat inp = rest"
    "client_frame E flags receiving sk s =
       client_dispatch E type sequence offset payload flags receiving (with_input inp sk) s"
proof -
  note F = wifi_request_fields [of type sequence offset payload rest, folded assms(2)]
  obtain i where i: "[] \<notin> set i" "concat i = payload @ rest"
    and r1: "socket_receive_exact 24 sk = (OTA_OK, take 24 (sk_stream sk), with_input i sk)"
    using receive_flatE [OF assms(1), of 24] F(8,9) by (auto simp: min_def split: if_splits)
  have wf: "sock_wf (with_input i sk)" using i(1) by (simp add: sock_wf_def)
  have str: "sk_stream (with_input i sk) = payload @ rest" using i(2) by (simp add: sk_stream_def)
  have n: "unat (of_nat (length payload) :: u32) = length payload" using assms(4) by simp
  obtain j where j: "[] \<notin> set j" "concat j = rest"
    and r2: "socket_receive_exact (length payload) (with_input i sk) = (OTA_OK, payload, with_input j sk)"
    using receive_flatE [OF wf, of "length payload"] str by auto
  show thesis
  proof (cases "payload = []")
    case True
    then show ?thesis using that [OF i(1)] i(2) F(1-7) r1 assms(3)
      by (simp add: client_frame_def Let_def)
  next
    case False
    then have "(of_nat (length payload) :: u32) \<noteq> 0" using n by (metis length_0_conv unat_0)
    then show ?thesis using that [OF j] F(1-7) r1 r2 n assms(3,4) False
      by (simp add: client_frame_def Let_def)
  qed
qed


section \<open>A complete session\<close>

fun wifi_data :: "u32 \<Rightarrow> nat \<Rightarrow> bytes list \<Rightarrow> bytes" where
  "wifi_data sequence offset [] = []"
| "wifi_data sequence offset (c # cs) =
     wifi_request OTA_WIFI_MSG_DATA sequence (of_nat offset) c @
     wifi_data (sequence + 1) (offset + length c) cs"

definition wifi_begin :: "u32 \<Rightarrow> u32 \<Rightarrow> u32 \<Rightarrow> u32 \<Rightarrow> bytes" where
  "wifi_begin sequence n c flags =
     wifi_request OTA_WIFI_MSG_BEGIN sequence 0 (store_le32 n @ store_le32 c @ store_le32 flags)"

definition wifi_session :: "u32 \<Rightarrow> u32 \<Rightarrow> u32 \<Rightarrow> bytes list \<Rightarrow> bytes" where
  "wifi_session n c flags chunks =
     wifi_begin 0 n c flags @ wifi_data 1 0 chunks @
     wifi_request OTA_WIFI_MSG_END (1 + of_nat (length chunks)) 0 []"

text \<open>The answer of a frame without payload.\<close>

abbreviation (input) ok_reply :: "u16 \<Rightarrow> u32 \<Rightarrow> bytes" where
  "ok_reply type sequence \<equiv> response_header type sequence OTA_OK []"

fun wifi_data_replies :: "u32 \<Rightarrow> bytes list \<Rightarrow> bytes" where
  "wifi_data_replies sequence [] = []"
| "wifi_data_replies sequence (c # cs) =
     ok_reply OTA_WIFI_MSG_DATA sequence @ wifi_data_replies (sequence + 1) cs"

definition wifi_replies :: "bytes list \<Rightarrow> bytes" where
  "wifi_replies chunks =
     ok_reply OTA_WIFI_MSG_BEGIN 0 @ wifi_data_replies 1 chunks @
     ok_reply OTA_WIFI_MSG_END (1 + of_nat (length chunks))"

text \<open>One iteration of the loop over a well-formed request.\<close>

lemma client_loop_request:
  assumes "sock_wf sk" "sk_stream sk = wifi_request type sequence offset payload @ rest"
    and "type AND OTA_WIFI_MSG_RESPONSE_BIT = 0" "length payload \<le> 4096"
  obtains sk1 where "sock_wf sk1" "sk_stream sk1 = rest" "sk_sends sk1 = sk_sends sk"
    "sk_output sk1 = sk_output sk" "sk_end sk1 = sk_end sk"
    "\<And>flags' receiving' sk' s'.
       client_dispatch E type sequence offset payload flags receiving sk1 s =
         Some (Client_Loop flags' receiving', sk', s') \<Longrightarrow>
       client_loop E flags receiving sk s = client_loop E flags' receiving' sk' s'"
    "\<And>sk' s'.
       client_dispatch E type sequence offset payload flags receiving sk1 s =
         Some (Client_Reset, sk', s') \<Longrightarrow>
       client_loop E flags receiving sk s = Some (True, sk', s')"
proof -
  obtain inp where inp: "[] \<notin> set inp" "concat inp = rest"
    and fr: "client_frame E flags receiving sk s =
       client_dispatch E type sequence offset payload flags receiving (with_input inp sk) s"
    using client_frame_request [OF assms] .
  show thesis
    by (rule that [of "with_input inp sk"])
       (use inp in \<open>simp_all add: sock_wf_def sk_stream_def client_loop.simps [of E flags receiving] fr\<close>)
qed

lemma client_loop_end:
  assumes "sock_wf sk" "sk_stream sk = []"
  shows "\<exists>sk'. sk_output sk' = sk_output sk \<and>
    client_loop E flags receiving sk s =
      (if receiving then do { s \<leftarrow> ota_abort E s; Some (False, sk', s) } else Some (False, sk', s))"
proof -
  obtain inp where "socket_receive_exact 24 sk =
      (if sk_end sk < 0 then OTA_ERROR_TIMEOUT else OTA_ERROR_NETWORK, [], with_input inp sk)"
    using receive_flatE [OF assms(1), of 24] assms(2) by auto
  then have "client_frame E flags receiving sk s = Some (Client_Break receiving, with_input inp sk, s)"
    by (simp add: client_frame_def)
  then show ?thesis
    by (intro exI [of _ "with_input inp sk"]) (simp add: client_loop.simps [of E flags receiving])
qed

lemma client_loop_begin:
  assumes "sock_wf sk" "sk_stream sk = wifi_begin sequence n c flags @ rest" "sk_sends sk = []"
    and "ota_begin E (Some ''wifi'') n c s = Some (result, s')"
  obtains sk1 where "sock_wf sk1" "sk_stream sk1 = rest" "sk_sends sk1 = []"
    "sk_output sk1 = sk_output sk @ response_header OTA_WIFI_MSG_BEGIN sequence result []"
    "client_loop E flags0 receiving sk s = client_loop E flags (result = OTA_OK) sk1 s'"
proof -
  let ?p = "store_le32 n @ store_le32 c @ store_le32 flags"
  have p: "load_le32 ?p 0 = n" "load_le32 ?p 4 = c" "load_le32 ?p 8 = flags"
    using le32.load_front [of n] le32.load_at [of "store_le32 n" 4 c "store_le32 flags"]
      le32.load_at [of "store_le32 n @ store_le32 c" 8 flags "[]"] by simp_all
  obtain sk1 where sk1: "sock_wf sk1" "sk_stream sk1 = rest" "sk_sends sk1 = sk_sends sk"
    "sk_output sk1 = sk_output sk"
    and go: "\<And>flags' receiving' sk' s'. client_dispatch E OTA_WIFI_MSG_BEGIN sequence 0 ?p flags0 receiving sk1 s =
         Some (Client_Loop flags' receiving', sk', s') \<Longrightarrow>
       client_loop E flags0 receiving sk s = client_loop E flags' receiving' sk' s'"
    by (rule client_loop_request [OF assms(1) assms(2) [unfolded wifi_begin_def], of E flags0 receiving s]) auto
  have "client_dispatch E OTA_WIFI_MSG_BEGIN sequence 0 ?p flags0 receiving sk1 s =
     Some (Client_Loop flags (result = OTA_OK),
       sk_reply sk1 (response_header OTA_WIFI_MSG_BEGIN sequence result []), s')"
    using assms(3,4) sk1(3)
    by (simp add: client_dispatch_def Let_def p client_reply_def send_response_ok del: append_assoc)
  from go [OF this] show thesis
    by (intro that [of "sk_reply sk1 (response_header OTA_WIFI_MSG_BEGIN sequence result [])"])
       (use sk1 assms(3) in simp_all)
qed

lemma client_loop_data:
  assumes "sock_wf sk" "sk_stream sk = wifi_data sequence offset chunks @ rest" "sk_sends sk = []"
    and "\<And>bs. bs \<in> set chunks \<Longrightarrow> bs \<noteq> [] \<and> length bs \<le> 4096"
    and "ota_write_all E offset chunks s = Some (OTA_OK, s')"
  shows "\<exists>sk1. sock_wf sk1 \<and> sk_stream sk1 = rest \<and> sk_sends sk1 = [] \<and>
    sk_output sk1 = sk_output sk @ wifi_data_replies sequence chunks \<and>
    client_loop E flags True sk s = client_loop E flags True sk1 s'"
  using assms
proof (induction chunks arbitrary: sk sequence offset s)
  case Nil
  then show ?case by (auto intro!: exI [of _ sk])
next
  case (Cons bs chunks)
  have bs: "bs \<noteq> []" "length bs \<le> 4096" using Cons.prems(4) by auto
  obtain s1 where w: "ota_write E (of_nat offset) (Some bs) s = Some (OTA_OK, s1)"
    and ws: "ota_write_all E (offset + length bs) chunks s1 = Some (OTA_OK, s')"
    using Cons.prems(5) by (auto split: Option.bind_splits if_splits)
  have str: "sk_stream sk = wifi_request OTA_WIFI_MSG_DATA sequence (of_nat offset) bs @
      (wifi_data (sequence + 1) (offset + length bs) chunks @ rest)"
    using Cons.prems(2) by simp
  obtain sk1 where sk1: "sock_wf sk1" "sk_sends sk1 = sk_sends sk" "sk_output sk1 = sk_output sk"
    "sk_stream sk1 = wifi_data (sequence + 1) (offset + length bs) chunks @ rest"
    and go: "\<And>flags' receiving' sk' s'.
       client_dispatch E OTA_WIFI_MSG_DATA sequence (of_nat offset) bs flags True sk1 s =
         Some (Client_Loop flags' receiving', sk', s') \<Longrightarrow>
       client_loop E flags True sk s = client_loop E flags' receiving' sk' s'"
    by (rule client_loop_request [OF Cons.prems(1) str, of E flags True s]) (use bs in auto)
  let ?sk2 = "sk_reply sk1 (ok_reply OTA_WIFI_MSG_DATA sequence)"
  have "client_dispatch E OTA_WIFI_MSG_DATA sequence (of_nat offset) bs flags True sk1 s =
     Some (Client_Loop flags True, ?sk2, s1)"
    using bs(1) w Cons.prems(3) sk1(2)
    by (simp add: client_dispatch_def Let_def client_reply_def send_response_ok)
  from go [OF this] show ?case
    using Cons.IH [of ?sk2 "sequence + 1" "offset + length bs" s1] Cons.prems(3,4) sk1 ws
    by simp
qed

lemma client_loop_finish:
  assumes "sock_wf sk" "sk_stream sk = wifi_request OTA_WIFI_MSG_END sequence 0 []" "sk_sends sk = []"
    and "ota_finish E s = Some (OTA_OK, s')" "ota_reboot_to_install 500 s' = CpuReset"
  shows "\<exists>sk'. client_loop E flags True sk s = Some (flags AND OTA_WIFI_BEGIN_FLAG_REBOOT \<noteq> 0, sk', s') \<and>
    sk_output sk' = sk_output sk @ ok_reply OTA_WIFI_MSG_END sequence"
proof -
  obtain sk1 where sk1: "sock_wf sk1" "sk_stream sk1 = []" "sk_sends sk1 = sk_sends sk"
    "sk_output sk1 = sk_output sk"
    and go: "\<And>flags' receiving' sk' s'. client_dispatch E OTA_WIFI_MSG_END sequence 0 [] flags True sk1 s =
         Some (Client_Loop flags' receiving', sk', s') \<Longrightarrow>
       client_loop E flags True sk s = client_loop E flags' receiving' sk' s'"
      "\<And>sk' s'. client_dispatch E OTA_WIFI_MSG_END sequence 0 [] flags True sk1 s =
         Some (Client_Reset, sk', s') \<Longrightarrow> client_loop E flags True sk s = Some (True, sk', s')"
    by (rule client_loop_request [of sk OTA_WIFI_MSG_END sequence 0 "[]" "[]" E flags True s])
       (use assms(1,2) in auto)
  let ?sk2 = "sk_reply sk1 (ok_reply OTA_WIFI_MSG_END sequence)"
  have dis: "client_dispatch E OTA_WIFI_MSG_END sequence 0 [] flags True sk1 s =
     Some (if flags AND OTA_WIFI_BEGIN_FLAG_REBOOT \<noteq> 0 then Client_Reset else Client_Loop flags False,
       ?sk2, s')"
    using assms(3-5) sk1(3) by (simp add: client_dispatch_def Let_def client_reply_def send_response_ok)
  have "sock_wf ?sk2" "sk_stream ?sk2 = []" using sk1 by simp_all
  from client_loop_end [OF this, of E flags False s'] obtain sk3 where
    "sk_output sk3 = sk_output ?sk2" "client_loop E flags False ?sk2 s' = Some (False, sk3, s')" by auto
  then show ?thesis using go dis sk1(4) by (cases "flags AND OTA_WIFI_BEGIN_FLAG_REBOOT = 0") auto
qed


section \<open>Results\<close>

lemma ota_finish_ok_resets:
  assumes "ota_finish E s = Some (OTA_OK, s')"
  shows "ota_reboot_to_install delay s' = CpuReset"
proof -
  have en: "finish_enabled s" using assms ota_finish_disabled [of s E] by fastforce
  then show ?thesis using assms
    by (auto simp: ota_finish_split finish_enabled_def ota_reboot_to_install_def ota_get_status_def
        split: if_splits Option.bind_splits)
qed

lemma example_wifi:
  obtains s' where "ota_transfer example_env (Some ''wifi'') 4104 (ota_crc32_calculate example_package)
     [header_bytes example_header, example_body] (ota_boot (\<lambda>_. 0xFF)) = Some (OTA_OK, s')"
  using transfer_ok [OF example_env_slots example_boot_slots example_reliable _ _ _ example_chunks(2)]
    example_package_valid example_chunks(1)
  by (fastforce simp add: ota_boot_def example_env_def simp del: concat.simps)

definition example_sock :: "bytes \<Rightarrow> sock" where
  "example_sock bs = \<lparr>sk_input = map (\<lambda>b. [b]) bs, sk_end = 0, sk_sends = [], sk_output = []\<rparr>"

lemma example_sock_facts [simp]:
  "sock_wf (example_sock bs)" "sk_stream (example_sock bs) = bs" "sk_sends (example_sock bs) = []"
  by (auto simp: example_sock_def sock_wf_def sk_stream_def)

lemma example_chunk_sizes:
  "bs \<in> set [header_bytes example_header, example_body] \<Longrightarrow> bs \<noteq> [] \<and> length bs \<le> 4096"
  using length_header_bytes [OF example_header_wf]
  by (auto simp: example_body_def example_payload_def)

text \<open>C22: A client that sends a BEGIN frame, the package in DATA frames of at most 4096 bytes and
  an END frame gets exactly the effect of the abstract transfer on the service: the state is the
  one \<open>ota_transfer\<close> leaves, every frame is answered OK with its own sequence number, and the CPU
  is reset at the end exactly when the BEGIN frame asked for it.  How TCP cuts the stream into
  segments does not matter.\<close>

theorem wifi_session_refines:
  assumes "sock_wf sk" "sk_stream sk = wifi_session n c flags chunks" "sk_sends sk = []"
    and "\<And>bs. bs \<in> set chunks \<Longrightarrow> bs \<noteq> [] \<and> length bs \<le> 4096"
    and "ota_transfer E (Some ''wifi'') n c chunks s = Some (OTA_OK, s')"
  shows "\<exists>sk'. handle_client E sk s = Some (flags AND OTA_WIFI_BEGIN_FLAG_REBOOT \<noteq> 0, sk', s') \<and>
    sk_output sk' = sk_output sk @ wifi_replies chunks"
proof -
  obtain s1 s2 where b: "ota_begin E (Some ''wifi'') n c s = Some (OTA_OK, s1)"
    and w: "ota_write_all E 0 chunks s1 = Some (OTA_OK, s2)" and f: "ota_finish E s2 = Some (OTA_OK, s')"
    using assms(5) by (auto simp: ota_transfer_def split: Option.bind_splits if_splits)
  obtain sk1 where sk1: "sock_wf sk1" "sk_sends sk1 = []"
    "sk_output sk1 = sk_output sk @ ok_reply OTA_WIFI_MSG_BEGIN 0"
    "sk_stream sk1 = wifi_data 1 0 chunks @ wifi_request OTA_WIFI_MSG_END (1 + of_nat (length chunks)) 0 []"
    and loop1: "client_loop E 0 False sk s = client_loop E flags True sk1 s1"
    by (rule client_loop_begin [OF assms(1) assms(2) [unfolded wifi_session_def] assms(3) b, of 0 False]) auto
  obtain sk2 where sk2: "sock_wf sk2" "sk_sends sk2 = []"
    "sk_output sk2 = sk_output sk1 @ wifi_data_replies 1 chunks"
    "sk_stream sk2 = wifi_request OTA_WIFI_MSG_END (1 + of_nat (length chunks)) 0 []"
    and loop2: "client_loop E flags True sk1 s1 = client_loop E flags True sk2 s2"
    using client_loop_data [OF sk1(1,4,2) assms(4) w] by blast
  obtain sk3 where "client_loop E flags True sk2 s2 =
      Some (flags AND OTA_WIFI_BEGIN_FLAG_REBOOT \<noteq> 0, sk3, s')"
    "sk_output sk3 = sk_output sk2 @ ok_reply OTA_WIFI_MSG_END (1 + of_nat (length chunks))"
    using client_loop_finish [OF sk2(1,4,2) f ota_finish_ok_resets [OF f]] by blast
  then show ?thesis using loop1 loop2 sk1(3) sk2(3)
    by (auto simp: handle_client_def wifi_replies_def)
qed

lemma wifi_session_refines_witness:
  "\<exists>sk' s'. handle_client example_env
      (example_sock (wifi_session 4104 (ota_crc32_calculate example_package) 1
         [header_bytes example_header, example_body])) (ota_boot (\<lambda>_. 0xFF)) = Some (True, sk', s')"
proof -
  obtain s' where t: "ota_transfer example_env (Some ''wifi'') 4104 (ota_crc32_calculate example_package)
     [header_bytes example_header, example_body] (ota_boot (\<lambda>_. 0xFF)) = Some (OTA_OK, s')"
    by (rule example_wifi)
  show ?thesis
    using wifi_session_refines [OF example_sock_facts(1,2,3) example_chunk_sizes t, of 1] by auto
qed

text \<open>C23: Whatever bytes a peer sends and however its connection ends, the frame loop ends, no
  assertion is hit, the service stays in a reachable state, and the CPU is reset only over a
  verified upgrade slot.\<close>

theorem wifi_client_safe:
  assumes "env_slots E mem d u" "ota_reach E f s"
  shows "\<exists>reset sk' s'. handle_client E sk s = Some (reset, sk', s') \<and> ota_reach E f s' \<and>
    (reset \<longrightarrow> st_state (ota_get_status s') = OTA_STATE_READY \<and>
       (\<exists>h. slot_holds (env_ecdsa E) mem u h (ota_flash s')))"
proof -
  obtain reset sk' s' where run: "client_loop E 0 False sk s = Some (reset, sk', s')"
    and reach: "ota_reach E f s'" and boot: "reset \<longrightarrow> ota_reboot_to_install 500 s' = CpuReset"
    using client_loop_safe [OF assms, of 0 False sk] by blast
  have "st_state (ota_get_status s') = OTA_STATE_READY \<and>
      (\<exists>h. slot_holds (env_ecdsa E) mem u h (ota_flash s'))" if reset
    using that boot ota_inv_reach [OF reach assms(1)]
    by (auto simp: ota_reboot_to_install_def ota_get_status_def ota_inv_def ota_status_zero_def Let_def
        split: if_splits)
  then show ?thesis using run reach by (auto simp: handle_client_def)
qed

lemma wifi_client_safe_witness:
  "\<exists>reset sk' s'. handle_client example_env (example_sock [1, 2, 3]) (ota_boot (\<lambda>_. 0xFF)) =
     Some (reset, sk', s')"
  using wifi_client_safe [OF example_env_slots ota_reach.boot, of "example_sock [1, 2, 3]"] by blast

text \<open>Two connections that deliver the same bytes in different segments have the same effect:
  the same state of the service, the same decision to reset, the same bytes sent back.\<close>

theorem wifi_segments_irrelevant:
  assumes "sock_wf a" "sock_wf b" "sk_stream a = sk_stream b" "sk_end a = sk_end b"
    and "sk_sends a = sk_sends b" "sk_output a = sk_output b"
    and "handle_client E a s = Some (reset, a', s')"
  shows "\<exists>b'. handle_client E b s = Some (reset, b', s') \<and> sk_output b' = sk_output a' \<and>
    sk_stream b' = sk_stream a'"
proof -
  have "same_stream a b" using assms(1-6) by (cases a; cases b) (simp add: same_stream_def)
  from client_loop_same_stream [OF this, of E 0 False s] assms(7) obtain b' where
    "handle_client E b s = Some (reset, b', s')" and ab: "same_stream a' b'"
    by (auto simp: handle_client_def option_rel_Some1)
  moreover have "sk_output b' = sk_output a'"
    using arg_cong [OF same_stream_with_input [OF ab], of sk_output] by simp
  ultimately show ?thesis using ab by (auto simp: same_stream_def)
qed

lemma wifi_segments_irrelevant_witness:
  "\<exists>reset a' b' s'. handle_client example_env (example_sock [1, 2, 3]) (ota_boot (\<lambda>_. 0xFF)) =
     Some (reset, a', s') \<and>
   handle_client example_env ((example_sock [])\<lparr>sk_input := [[1, 2], [3]]\<rparr>) (ota_boot (\<lambda>_. 0xFF)) =
     Some (reset, b', s')"
proof -
  obtain reset a' s' where a: "handle_client example_env (example_sock [1, 2, 3]) (ota_boot (\<lambda>_. 0xFF)) =
     Some (reset, a', s')"
    using client_loop_safe [OF example_env_slots ota_reach.boot, of 0 False "example_sock [1, 2, 3]"]
    unfolding handle_client_def by blast
  then show ?thesis
    using wifi_segments_irrelevant [OF _ _ _ _ _ _ a, of "(example_sock [])\<lparr>sk_input := [[1, 2], [3]]\<rparr>"]
    by (auto simp: example_sock_def sock_wf_def sk_stream_def)
qed

lemma ota_begin_open:
  assumes "ota_begin E source n c s = Some (OTA_OK, s')"
  shows "ota_lock s'" "st_state (ota_status s') = OTA_STATE_RECEIVING"
  using assms by (auto simp: ota_begin_def ota_service_init_def Let_def set_error_def
      split: if_splits Option.bind_splits prod.splits option.splits)

lemma ota_begin_busy:
  assumes "ota_lock s" "st_state (ota_status s) = OTA_STATE_RECEIVING"
  shows "ota_begin E source n c s =
    Some (if n < 256 \<or> n > OTA_SLOT_SIZE then OTA_ERROR_SIZE else OTA_ERROR_STATE, s)"
  using assms by (simp add: ota_begin_def ota_service_init_def)

text \<open>C24: A client that sends a second BEGIN frame during its transfer and then disconnects leaves
  the transfer open: the refused BEGIN clears the loop's \<open>receiving\<close> flag, so the clean-up does
  not abort, and an \<open>ota_begin\<close> of any transport is refused from then on.  Without the second BEGIN
  the disconnection aborts the transfer.\<close>

theorem wifi_second_begin_leaks:
  assumes "ota_begin E (Some ''wifi'') n c s = Some (OTA_OK, s1)"
    and "sock_wf sk" "sk_sends sk = []"
  shows "(sk_stream sk = wifi_begin 0 n c flags @ wifi_begin 1 n c flags \<longrightarrow>
      (\<exists>sk'. handle_client E sk s = Some (False, sk', s1)) \<and>
      st_state (ota_get_status s1) = OTA_STATE_RECEIVING \<and>
      (\<forall>source n' c'. \<exists>r. ota_begin E source n' c' s1 = Some (r, s1) \<and> r \<noteq> OTA_OK)) \<and>
    (sk_stream sk = wifi_begin 0 n c flags \<longrightarrow>
      (\<exists>sk' s'. handle_client E sk s = Some (False, sk', s') \<and>
         st_state (ota_get_status s') = OTA_STATE_IDLE))"
proof (intro conjI impI)
  note s1 = ota_begin_open [OF assms(1)]
  show "st_state (ota_get_status s1) = OTA_STATE_RECEIVING" using s1 by (simp add: ota_get_status_def)
  show "\<forall>source n' c'. \<exists>r. ota_begin E source n' c' s1 = Some (r, s1) \<and> r \<noteq> OTA_OK"
    by (simp add: ota_begin_busy [OF s1])
  {
    assume str: "sk_stream sk = wifi_begin 0 n c flags @ wifi_begin 1 n c flags"
    obtain sk1 where sk1: "sock_wf sk1" "sk_stream sk1 = wifi_begin 1 n c flags @ []" "sk_sends sk1 = []"
      and l1: "client_loop E 0 False sk s = client_loop E flags True sk1 s1"
      by (rule client_loop_begin [OF assms(2) str assms(3,1), of 0 False]) auto
    obtain sk2 where sk2: "sock_wf sk2" "sk_stream sk2 = []"
      and l2: "client_loop E flags True sk1 s1 = client_loop E flags False sk2 s1"
      by (rule client_loop_begin [OF sk1 ota_begin_busy [OF s1], of E flags True]) auto
    show "\<exists>sk'. handle_client E sk s = Some (False, sk', s1)"
      using client_loop_end [OF sk2, of E flags False s1] l1 l2 by (auto simp: handle_client_def)
  }
  {
    assume "sk_stream sk = wifi_begin 0 n c flags"
    then have str: "sk_stream sk = wifi_begin 0 n c flags @ []" by simp
    obtain sk1 where sk1: "sock_wf sk1" "sk_stream sk1 = []"
      and l1: "client_loop E 0 False sk s = client_loop E flags True sk1 s1"
      by (rule client_loop_begin [OF assms(2) str assms(3,1), of 0 False]) auto
    obtain s2 where ab: "ota_abort E s1 = Some s2" using ota_abort_returns [of E s1] by (auto simp: returns_def)
    have "ota_lock s2" using ab s1(1) by (auto simp: ota_abort_def split: Option.bind_splits option.splits)
    then have "st_state (ota_get_status s2) = OTA_STATE_IDLE"
      using ota_abort_idle [OF s1(1) ab] by (simp add: ota_get_status_def)
    then show "\<exists>sk' s'. handle_client E sk s = Some (False, sk', s') \<and>
        st_state (ota_get_status s') = OTA_STATE_IDLE"
      using client_loop_end [OF sk1, of E flags True s1] l1 ab by (auto simp: handle_client_def)
  }
qed

lemma wifi_second_begin_leaks_witness:
  "\<exists>sk' s1. handle_client example_env (example_sock (wifi_begin 0 4104 0 0 @ wifi_begin 1 4104 0 0))
      (ota_boot (\<lambda>_. 0xFF)) = Some (False, sk', s1) \<and> st_state (ota_get_status s1) = OTA_STATE_RECEIVING"
proof -
  obtain s1 where b: "ota_begin example_env (Some ''wifi'') 4104 0 (ota_boot (\<lambda>_. 0xFF)) = Some (OTA_OK, s1)"
    by (rule ota_begin_ok [OF example_env_slots example_reliable(1) example_boot_slots,
          where n = 4104 and c = 0 and source = "Some ''wifi''" and f1 = "\<lambda>_. 0xFF"])
       (auto simp: ota_boot_def example_env_def)
  show ?thesis using wifi_second_begin_leaks [OF b example_sock_facts(1,3)] by fastforce
qed

end
