(* ===== verification/Ota_Mqtt.thy ===== *)
theory Ota_Mqtt
  imports Ota_Http
begin

text \<open>
  \<open>applications/ota/ota_mqtt_protocol.c\<close>: the JSON messages of the batch update.  JSON trees
  are a datatype in the shape of cJSON's nodes; cJSON's parser and printer are parameters, and
  its member lookup is the search for the first child of that name.  Character arrays are
  strings, and \<open>version_response_wf\<close> says that they fit the arrays.
\<close>

section \<open>JSON trees\<close>

text \<open>
  \<open>valuedouble\<close> is a finite double or the infinity the parser makes of an overflowing
  literal; a string node may have a NULL \<open>valuestring\<close>.
\<close>

datatype c_double = Finite rat | Infinite bool

datatype cjson =
    CJson_Null
  | CJson_Bool bool
  | CJson_Number c_double
  | CJson_String "string option"
  | CJson_Array "cjson list"
  | CJson_Object "(string \<times> cjson) list"

fun cJSON_GetObjectItemCaseSensitive :: "cjson \<Rightarrow> string \<Rightarrow> cjson option" where
  "cJSON_GetObjectItemCaseSensitive (CJson_Object members) name = map_of members name"
| "cJSON_GetObjectItemCaseSensitive _ name = None"

section \<open>Reading members\<close>

text \<open>The output parameters keep their value where the code does not write them.\<close>

definition copy_json_string ::
  "cjson \<Rightarrow> string \<Rightarrow> string \<Rightarrow> nat \<Rightarrow> bool \<Rightarrow> int \<times> string" where
  "copy_json_string obj name output output_size required =
     (case cJSON_GetObjectItemCaseSensitive obj name of
        None \<Rightarrow> if required then (OTA_ERROR_PROTOCOL, output) else (OTA_OK, [])
      | Some (CJson_String (Some valuestring)) \<Rightarrow>
          if length valuestring \<ge> output_size then (OTA_ERROR_SIZE, output)
          else (OTA_OK, valuestring)
      | Some _ \<Rightarrow> (OTA_ERROR_PROTOCOL, output))"

definition get_uint32 :: "cjson \<Rightarrow> string \<Rightarrow> u32 \<Rightarrow> bool \<Rightarrow> int \<times> u32" where
  "get_uint32 obj name v required =
     (case cJSON_GetObjectItemCaseSensitive obj name of
        None \<Rightarrow> (if required then OTA_ERROR_PROTOCOL else OTA_OK, v)
      | Some (CJson_Number (Finite number)) \<Rightarrow>
          if number < 0 \<or> number > 4294967295 \<or> number \<noteq> of_int \<lfloor>number\<rfloor>
          then (OTA_ERROR_PROTOCOL, v)
          else (OTA_OK, word_of_int \<lfloor>number\<rfloor>)
      | Some _ \<Rightarrow> (OTA_ERROR_PROTOCOL, v))"

definition get_bool :: "cjson \<Rightarrow> string \<Rightarrow> bool \<Rightarrow> bool \<Rightarrow> int \<times> bool" where
  "get_bool obj name v required =
     (case cJSON_GetObjectItemCaseSensitive obj name of
        None \<Rightarrow> (if required then OTA_ERROR_PROTOCOL else OTA_OK, v)
      | Some (CJson_Bool b) \<Rightarrow> (OTA_OK, b)
      | Some _ \<Rightarrow> (OTA_ERROR_PROTOCOL, v))"

definition c_isxdigit :: "char \<Rightarrow> bool" where
  "c_isxdigit c \<longleftrightarrow> (let n = (of_char c :: nat)
     in 48 \<le> n \<and> n \<le> 57 \<or> 65 \<le> n \<and> n \<le> 70 \<or> 97 \<le> n \<and> n \<le> 102)"

definition is_hex_string :: "string option \<Rightarrow> nat \<Rightarrow> bool" where
  "is_hex_string str len =
     (case str of None \<Rightarrow> False | Some s \<Rightarrow> length s = len \<and> list_all c_isxdigit s)"

text \<open>
  \<open>strtoul(text, &end, 16)\<close> on a text that starts with a hexadecimal digit: the value of the
  longest prefix of digits, and the rest.  Blanks, a sign or the prefix \<open>0x\<close> cannot occur,
  because the text has passed \<open>is_hex_string\<close>; neither can an overflow.
\<close>

definition strtoul16 :: "string \<Rightarrow> u32 \<times> string" where
  "strtoul16 str =
     (foldl (\<lambda>v c. 16 * v + word_of_int (hex_nibble c)) 0 (takeWhile c_isxdigit str),
      dropWhile c_isxdigit str)"

definition parse_crc32 :: "cjson \<Rightarrow> u32 \<Rightarrow> int \<times> u32" where
  "parse_crc32 firmware crc =
     (case cJSON_GetObjectItemCaseSensitive firmware ''package_crc32'' of
        Some (CJson_String valuestring) \<Rightarrow>
          if \<not> is_hex_string valuestring 8 then (OTA_ERROR_PROTOCOL, crc)
          else (case strtoul16 (the valuestring) of (v, rest) \<Rightarrow>
            if rest \<noteq> [] then (OTA_ERROR_PROTOCOL, crc) else (OTA_OK, v))
      | _ \<Rightarrow> (OTA_ERROR_PROTOCOL, crc))"

section \<open>Messages\<close>

abbreviation (input) OTA_MQTT_DEVICE_ID_MAX_LEN :: nat where "OTA_MQTT_DEVICE_ID_MAX_LEN \<equiv> 47"
abbreviation (input) OTA_MQTT_MESSAGE_ID_MAX_LEN :: nat where "OTA_MQTT_MESSAGE_ID_MAX_LEN \<equiv> 47"
abbreviation (input) OTA_MQTT_VERSION_TEXT_MAX_LEN :: nat where "OTA_MQTT_VERSION_TEXT_MAX_LEN \<equiv> 23"
abbreviation (input) OTA_MQTT_URL_MAX_LEN :: nat where "OTA_MQTT_URL_MAX_LEN \<equiv> 191"
abbreviation (input) OTA_MQTT_SHA256_TEXT_LEN :: nat where "OTA_MQTT_SHA256_TEXT_LEN \<equiv> 64"
abbreviation (input) OTA_MQTT_RELEASE_NOTES_MAX_LEN :: nat where "OTA_MQTT_RELEASE_NOTES_MAX_LEN \<equiv> 191"
abbreviation (input) OTA_MQTT_STAGE_MAX_LEN :: nat where "OTA_MQTT_STAGE_MAX_LEN \<equiv> 23"
abbreviation (input) OTA_MQTT_ERROR_TEXT_MAX_LEN :: nat where "OTA_MQTT_ERROR_TEXT_MAX_LEN \<equiv> 95"

abbreviation (input) OTA_MQTT_ROLLOUT_DELAY_LIMIT :: u32 where "OTA_MQTT_ROLLOUT_DELAY_LIMIT \<equiv> 86400"

definition OTA_MQTT_PROTOCOL_NAME :: string where
  "OTA_MQTT_PROTOCOL_NAME = ''ota-v1''"

datatype ota_mqtt_event_type_t =
    OTA_MQTT_EVENT_UPDATE_ACCEPTED
  | OTA_MQTT_EVENT_UPDATE_DECLINED
  | OTA_MQTT_EVENT_DOWNLOAD_STARTED
  | OTA_MQTT_EVENT_DOWNLOAD_PROGRESS
  | OTA_MQTT_EVENT_VERIFYING
  | OTA_MQTT_EVENT_COMMITTED
  | OTA_MQTT_EVENT_REBOOTING
  | OTA_MQTT_EVENT_COMPLETED
  | OTA_MQTT_EVENT_FAILED

primrec ota_mqtt_event_code :: "ota_mqtt_event_type_t \<Rightarrow> nat" where
  "ota_mqtt_event_code OTA_MQTT_EVENT_UPDATE_ACCEPTED = 0"
| "ota_mqtt_event_code OTA_MQTT_EVENT_UPDATE_DECLINED = 1"
| "ota_mqtt_event_code OTA_MQTT_EVENT_DOWNLOAD_STARTED = 2"
| "ota_mqtt_event_code OTA_MQTT_EVENT_DOWNLOAD_PROGRESS = 3"
| "ota_mqtt_event_code OTA_MQTT_EVENT_VERIFYING = 4"
| "ota_mqtt_event_code OTA_MQTT_EVENT_COMMITTED = 5"
| "ota_mqtt_event_code OTA_MQTT_EVENT_REBOOTING = 6"
| "ota_mqtt_event_code OTA_MQTT_EVENT_COMPLETED = 7"
| "ota_mqtt_event_code OTA_MQTT_EVENT_FAILED = 8"

definition ota_mqtt_event_names :: "string list" where
  "ota_mqtt_event_names =
     [''accepted'', ''declined'', ''download_started'', ''download_progress'', ''verifying'',
      ''committed'', ''rebooting'', ''completed'', ''failed'']"

definition ota_mqtt_event_name :: "nat \<Rightarrow> string" where
  "ota_mqtt_event_name event =
     (if event \<ge> length ota_mqtt_event_names then ''failed'' else ota_mqtt_event_names ! event)"

record ota_mqtt_version_request_t =
  vrq_message_id :: string
  vrq_device_id :: string
  vrq_hardware_id :: u32
  vrq_current_version_code :: u32
  vrq_current_version :: string
  vrq_bootloader_version :: string

record ota_mqtt_version_response_t =
  vrs_message_id :: string
  vrs_request_message_id :: string
  vrs_device_id :: string
  vrs_hardware_id :: u32
  vrs_update_available :: bool
  vrs_mandatory :: bool
  vrs_rollout_delay_max_seconds :: u32
  vrs_version_code :: u32
  vrs_package_size :: u32
  vrs_package_crc32 :: u32
  vrs_version :: string
  vrs_package_sha256 :: string
  vrs_download_url :: string
  vrs_release_notes :: string

record ota_mqtt_update_event_t =
  evt_message_id :: string
  evt_device_id :: string
  evt_firmware_message_id :: string
  evt_event :: nat
  evt_version_code :: u32
  evt_received_size :: u32
  evt_package_size :: u32
  evt_error_code :: int
  evt_progress_percent :: u8
  evt_stage :: string
  evt_error_message :: string

record ota_mqtt_device_status_t =
  dst_device_id :: string
  dst_current_version_code :: u32
  dst_online :: bool
  dst_current_version :: string

definition version_response_zero :: ota_mqtt_version_response_t where
  "version_response_zero = \<lparr>vrs_message_id = [], vrs_request_message_id = [], vrs_device_id = [],
     vrs_hardware_id = 0, vrs_update_available = False, vrs_mandatory = False,
     vrs_rollout_delay_max_seconds = 0, vrs_version_code = 0, vrs_package_size = 0,
     vrs_package_crc32 = 0, vrs_version = [], vrs_package_sha256 = [], vrs_download_url = [],
     vrs_release_notes = []\<rparr>"

section \<open>Parsing a version response\<close>

text \<open>
  The conditions of the code are chains of calls that fill the response and stop at the first
  one that fails; a chain is a list of steps.
\<close>

type_synonym parse_step = "ota_mqtt_version_response_t \<Rightarrow> bool \<times> ota_mqtt_version_response_t"

fun run_steps :: "parse_step list \<Rightarrow> parse_step" where
  "run_steps [] r = (True, r)"
| "run_steps (step # steps) r =
     (case step r of (ok, r) \<Rightarrow> if ok then run_steps steps r else (False, r))"

text \<open>A step that stores what a reader returns, and a step that only tests.\<close>

definition fill ::
  "('a \<Rightarrow> int \<times> 'a) \<Rightarrow> (ota_mqtt_version_response_t \<Rightarrow> 'a) \<Rightarrow>
   (('a \<Rightarrow> 'a) \<Rightarrow> ota_mqtt_version_response_t \<Rightarrow> ota_mqtt_version_response_t) \<Rightarrow> parse_step" where
  "fill reader get upd r = (case reader (get r) of (result, v) \<Rightarrow> (result = OTA_OK, upd (\<lambda>_. v) r))"

definition test :: "(ota_mqtt_version_response_t \<Rightarrow> bool) \<Rightarrow> parse_step" where
  "test P r = (P r, r)"

text \<open>The local \<open>protocol\<close> and \<open>type\<close> arrays of 16 and 24 characters.\<close>

definition copied :: "cjson \<Rightarrow> string \<Rightarrow> nat \<Rightarrow> string option" where
  "copied tree name array_size =
     (case copy_json_string tree name [] array_size True of (result, s) \<Rightarrow>
        if result = OTA_OK then Some s else None)"

definition parse_response_steps :: "cjson \<Rightarrow> parse_step list" where
  "parse_response_steps tree =
     [test (\<lambda>_. copied tree ''protocol'' 16 \<noteq> None),
      test (\<lambda>_. copied tree ''type'' 24 \<noteq> None),
      test (\<lambda>_. copied tree ''protocol'' 16 = Some OTA_MQTT_PROTOCOL_NAME),
      test (\<lambda>_. copied tree ''type'' 24 = Some ''version_response''),
      fill (\<lambda>s. copy_json_string tree ''message_id'' s 48 True) vrs_message_id vrs_message_id_update,
      fill (\<lambda>s. copy_json_string tree ''request_message_id'' s 48 True)
        vrs_request_message_id vrs_request_message_id_update,
      fill (\<lambda>s. copy_json_string tree ''device_id'' s 48 True) vrs_device_id vrs_device_id_update,
      fill (\<lambda>v. get_uint32 tree ''hardware_id'' v True) vrs_hardware_id vrs_hardware_id_update,
      fill (\<lambda>v. get_bool tree ''update_available'' v True)
        vrs_update_available vrs_update_available_update,
      fill (\<lambda>v. get_bool tree ''mandatory'' v False) vrs_mandatory vrs_mandatory_update,
      fill (\<lambda>v. get_uint32 tree ''rollout_delay_max_seconds'' v False)
        vrs_rollout_delay_max_seconds vrs_rollout_delay_max_seconds_update,
      test (\<lambda>r. \<not> vrs_rollout_delay_max_seconds r > OTA_MQTT_ROLLOUT_DELAY_LIMIT)]"


definition parse_version_steps :: "cjson \<Rightarrow> parse_step list" where
  "parse_version_steps firmware =
     [test (\<lambda>_. case firmware of CJson_Object _ \<Rightarrow> True | _ \<Rightarrow> False),
      fill (\<lambda>s. copy_json_string firmware ''version'' s 24 True) vrs_version vrs_version_update,
      fill (\<lambda>v. get_uint32 firmware ''version_code'' v True) vrs_version_code vrs_version_code_update]"

definition parse_package_steps :: "cjson \<Rightarrow> parse_step list" where
  "parse_package_steps firmware =
     [fill (\<lambda>v. get_uint32 firmware ''package_size'' v True) vrs_package_size vrs_package_size_update,
      fill (\<lambda>v. parse_crc32 firmware v) vrs_package_crc32 vrs_package_crc32_update,
      fill (\<lambda>s. copy_json_string firmware ''package_sha256'' s 65 True)
        vrs_package_sha256 vrs_package_sha256_update,
      test (\<lambda>r. is_hex_string (Some (vrs_package_sha256 r)) OTA_MQTT_SHA256_TEXT_LEN),
      fill (\<lambda>s. copy_json_string firmware ''download_url'' s 192 True)
        vrs_download_url vrs_download_url_update,
      fill (\<lambda>s. copy_json_string firmware ''release_notes'' s 192 False)
        vrs_release_notes vrs_release_notes_update,
      test (\<lambda>r. \<not> vrs_package_size r < 256),
      test (\<lambda>r. \<not> vrs_package_size r > OTA_SLOT_SIZE),
      test (\<lambda>r. take 7 (vrs_download_url r) = ''http://'')]"

text \<open>
  \<open>parse\<close> is \<open>cJSON_ParseWithLength\<close> on the bytes of the message; \<open>None\<close> for the message or the
  response is a NULL pointer.  The whole buffer is \<open>json\<close>, so its length is the argument.
\<close>

definition ota_mqtt_parse_tree ::
  "cjson \<Rightarrow> ota_mqtt_version_response_t \<Rightarrow> int \<times> ota_mqtt_version_response_t" where
  "ota_mqtt_parse_tree tree response =
     (case run_steps (parse_response_steps tree) response of
        (False, response) \<Rightarrow> (OTA_ERROR_PROTOCOL, response)
      | (True, response) \<Rightarrow>
          (case cJSON_GetObjectItemCaseSensitive tree ''firmware'' of
             None \<Rightarrow> (OTA_ERROR_PROTOCOL, response)
           | Some firmware \<Rightarrow>
               (case run_steps (parse_version_steps firmware) response of
                  (False, response) \<Rightarrow> (OTA_ERROR_PROTOCOL, response)
                | (True, response) \<Rightarrow>
                    if \<not> vrs_update_available response then (OTA_OK, response)
                    else (case run_steps (parse_package_steps firmware) response of
                      (ok, response) \<Rightarrow> (if ok then OTA_OK else OTA_ERROR_PROTOCOL, response)))))"

definition ota_mqtt_parse_version_response ::
  "(string \<Rightarrow> cjson option) \<Rightarrow> string option \<Rightarrow> ota_mqtt_version_response_t option \<Rightarrow>
     int \<times> ota_mqtt_version_response_t option" where
  "ota_mqtt_parse_version_response parse json response =
     (case (json, response) of
        (Some bytes, Some r) \<Rightarrow>
          if bytes = [] then (OTA_ERROR_ARGUMENT, response)
          else (case parse bytes of
                  Some (CJson_Object members) \<Rightarrow>
                    apsnd Some (ota_mqtt_parse_tree (CJson_Object members) version_response_zero)
                | _ \<Rightarrow> (OTA_ERROR_PROTOCOL, Some version_response_zero))
      | _ \<Rightarrow> (OTA_ERROR_ARGUMENT, response))"

section \<open>Building messages\<close>

text \<open>
  The builders create an object and add members to it, each of which may find no memory:
  \<open>alloc k\<close> says whether the \<open>k\<close>-th of these calls succeeds.  \<open>print\<close> is
  \<open>cJSON_PrintPreallocated\<close>, which fails when the text and its NUL do not fit the size.
\<close>

definition build_object :: "(nat \<Rightarrow> bool) \<Rightarrow> (string \<times> cjson) list \<Rightarrow> cjson option" where
  "build_object alloc members =
     (if list_all alloc [0..<Suc (length members)] then Some (CJson_Object members) else None)"

definition print_json ::
  "(cjson \<Rightarrow> nat \<Rightarrow> string option) \<Rightarrow> cjson \<Rightarrow> bool \<Rightarrow> nat \<Rightarrow> int \<times> string option" where
  "print_json print tree json_null json_size =
     (if json_null \<or> json_size < 8 then (OTA_ERROR_ARGUMENT, None)
      else case print tree json_size of
             None \<Rightarrow> (OTA_ERROR_SIZE, None)
           | Some json \<Rightarrow> (OTA_OK, Some json))"

abbreviation (input) json_string :: "string \<Rightarrow> cjson" where
  "json_string s \<equiv> CJson_String (Some s)"

abbreviation (input) json_u32 :: "u32 \<Rightarrow> cjson" where
  "json_u32 w \<equiv> CJson_Number (Finite (of_nat (unat w)))"

abbreviation (input) json_int :: "int \<Rightarrow> cjson" where
  "json_int i \<equiv> CJson_Number (Finite (of_int i))"

definition version_request_members :: "ota_mqtt_version_request_t \<Rightarrow> (string \<times> cjson) list" where
  "version_request_members request =
     [(''protocol'', json_string OTA_MQTT_PROTOCOL_NAME),
      (''type'', json_string ''version_request''),
      (''message_id'', json_string (vrq_message_id request)),
      (''device_id'', json_string (vrq_device_id request)),
      (''hardware_id'', json_u32 (vrq_hardware_id request)),
      (''current_version'', json_string (vrq_current_version request)),
      (''current_version_code'', json_u32 (vrq_current_version_code request)),
      (''bootloader_version'', json_string (vrq_bootloader_version request))]"

definition ota_mqtt_build_version_request ::
  "(nat \<Rightarrow> bool) \<Rightarrow> (cjson \<Rightarrow> nat \<Rightarrow> string option) \<Rightarrow> ota_mqtt_version_request_t option \<Rightarrow>
     bool \<Rightarrow> nat \<Rightarrow> int \<times> string option" where
  "ota_mqtt_build_version_request alloc print request json_null json_size =
     (case request of
        None \<Rightarrow> (OTA_ERROR_ARGUMENT, None)
      | Some r \<Rightarrow>
          if vrq_message_id r = [] \<or> vrq_device_id r = [] then (OTA_ERROR_ARGUMENT, None)
          else case build_object alloc (version_request_members r) of
                 None \<Rightarrow> (OTA_ERROR_NO_MEMORY, None)
               | Some tree \<Rightarrow> print_json print tree json_null json_size)"

definition update_event_members :: "ota_mqtt_update_event_t \<Rightarrow> (string \<times> cjson) list" where
  "update_event_members event =
     [(''protocol'', json_string OTA_MQTT_PROTOCOL_NAME),
      (''type'', json_string ''update_event''),
      (''message_id'', json_string (evt_message_id event)),
      (''device_id'', json_string (evt_device_id event)),
      (''firmware_message_id'', json_string (evt_firmware_message_id event)),
      (''event'', json_string (ota_mqtt_event_name (evt_event event))),
      (''version_code'', json_u32 (evt_version_code event)),
      (''progress_percent'', json_int (uint (evt_progress_percent event))),
      (''received_size'', json_u32 (evt_received_size event)),
      (''package_size'', json_u32 (evt_package_size event)),
      (''error_code'', json_int (evt_error_code event)),
      (''stage'', json_string (evt_stage event)),
      (''error_message'', json_string (evt_error_message event))]"

definition ota_mqtt_build_update_event ::
  "(nat \<Rightarrow> bool) \<Rightarrow> (cjson \<Rightarrow> nat \<Rightarrow> string option) \<Rightarrow> ota_mqtt_update_event_t option \<Rightarrow>
     bool \<Rightarrow> nat \<Rightarrow> int \<times> string option" where
  "ota_mqtt_build_update_event alloc print event json_null json_size =
     (case event of
        None \<Rightarrow> (OTA_ERROR_ARGUMENT, None)
      | Some e \<Rightarrow>
          if evt_message_id e = [] \<or> evt_device_id e = [] then (OTA_ERROR_ARGUMENT, None)
          else case build_object alloc (update_event_members e) of
                 None \<Rightarrow> (OTA_ERROR_NO_MEMORY, None)
               | Some tree \<Rightarrow> print_json print tree json_null json_size)"

definition device_status_members :: "ota_mqtt_device_status_t \<Rightarrow> (string \<times> cjson) list" where
  "device_status_members status =
     [(''protocol'', json_string OTA_MQTT_PROTOCOL_NAME),
      (''type'', json_string ''device_status''),
      (''device_id'', json_string (dst_device_id status)),
      (''online'', CJson_Bool (dst_online status)),
      (''current_version'', json_string (dst_current_version status)),
      (''current_version_code'', json_u32 (dst_current_version_code status))]"

definition ota_mqtt_build_device_status ::
  "(nat \<Rightarrow> bool) \<Rightarrow> (cjson \<Rightarrow> nat \<Rightarrow> string option) \<Rightarrow> ota_mqtt_device_status_t option \<Rightarrow>
     bool \<Rightarrow> nat \<Rightarrow> int \<times> string option" where
  "ota_mqtt_build_device_status alloc print status json_null json_size =
     (case status of
        None \<Rightarrow> (OTA_ERROR_ARGUMENT, None)
      | Some d \<Rightarrow>
          if dst_device_id d = [] then (OTA_ERROR_ARGUMENT, None)
          else case build_object alloc (device_status_members d) of
                 None \<Rightarrow> (OTA_ERROR_NO_MEMORY, None)
               | Some tree \<Rightarrow> print_json print tree json_null json_size)"


section \<open>What the parser accepts\<close>

text \<open>The character arrays of a response hold their strings and the terminating NUL.\<close>

definition version_response_wf :: "ota_mqtt_version_response_t \<Rightarrow> bool" where
  "version_response_wf r \<longleftrightarrow>
     length (vrs_message_id r) < 48 \<and> length (vrs_request_message_id r) < 48 \<and>
     length (vrs_device_id r) < 48 \<and> length (vrs_version r) < 24 \<and>
     length (vrs_package_sha256 r) < 65 \<and> length (vrs_download_url r) < 192 \<and>
     length (vrs_release_notes r) < 192"

definition keeps_wf :: "parse_step \<Rightarrow> bool" where
  "keeps_wf step \<longleftrightarrow> (\<forall>r. version_response_wf r \<longrightarrow> version_response_wf (snd (step r)))"

lemma run_steps_wf:
  "list_all keeps_wf steps \<Longrightarrow> version_response_wf r \<Longrightarrow> version_response_wf (snd (run_steps steps r))"
  by (induction steps arbitrary: r) (auto simp: keeps_wf_def split: prod.splits)

lemma copy_json_string_fits:
  "0 < n \<Longrightarrow> length s < n \<Longrightarrow> length (snd (copy_json_string obj name s n required)) < n"
  by (auto simp: copy_json_string_def split: option.splits cjson.splits)

lemma keeps_wf_test: "keeps_wf (test P)"
  by (simp add: keeps_wf_def test_def)

lemma keeps_wf_fill:
  assumes "\<And>r. version_response_wf r \<Longrightarrow> version_response_wf (upd (\<lambda>_. snd (reader (get r))) r)"
  shows "keeps_wf (fill reader get upd)"
  using assms by (auto simp: keeps_wf_def fill_def split: prod.splits) force

lemma parse_steps_wf:
  "list_all keeps_wf (parse_response_steps tree)" "list_all keeps_wf (parse_version_steps tree)"
  "list_all keeps_wf (parse_package_steps tree)"
  unfolding parse_response_steps_def parse_version_steps_def parse_package_steps_def
  by (simp_all, (intro conjI keeps_wf_test keeps_wf_fill;
        simp add: version_response_wf_def copy_json_string_fits)+)

lemma run_steps_ConsD:
  "run_steps (step # steps) r = (True, r') \<Longrightarrow>
   \<exists>r1. step r = (True, r1) \<and> run_steps steps r1 = (True, r')"
  by (auto split: prod.splits if_splits)

lemma fillD:
  "fill reader get upd r = (True, r') \<Longrightarrow> \<exists>v. reader (get r) = (OTA_OK, v) \<and> r' = upd (\<lambda>_. v) r"
  by (auto simp: fill_def split: prod.splits)

lemma testD: "test P r = (True, r') \<Longrightarrow> P r \<and> r' = r"
  by (auto simp: test_def)

lemma package_stepsD:
  assumes "run_steps (parse_package_steps firmware) r = (True, r')"
  shows "256 \<le> unat (vrs_package_size r')" "unat (vrs_package_size r') \<le> 1048576"
    "is_hex_string (Some (vrs_package_sha256 r')) 64" "take 7 (vrs_download_url r') = ''http://''"
    "vrs_update_available r' = vrs_update_available r"
  using assms unfolding parse_package_steps_def
  by (auto dest!: run_steps_ConsD fillD testD simp: word_le_nat_alt word_less_nat_alt not_less
      simp del: run_steps.simps(2))

lemma isxdigit_nibble: "c_isxdigit c \<longleftrightarrow> 0 \<le> hex_nibble c"
  by (auto simp: c_isxdigit_def hex_nibble_def tolower_def Let_def of_char_int)

lemma hex_string_pairs:
  "list_all c_isxdigit s \<Longrightarrow> \<exists>digest. parse_hex_pairs s = Some digest"
  by (induction s rule: parse_hex_pairs.induct) (auto simp: isxdigit_nibble Let_def not_less)

lemma hex_string_sha256:
  "is_hex_string (Some s) 64 \<Longrightarrow> \<exists>digest. parse_sha256 (Some s) = Inr digest"
  using hex_string_pairs [of s] by (auto simp: is_hex_string_def parse_sha256_def)


section \<open>The server's response\<close>

text \<open>The tree a server sends for a response, with the CRC as eight hexadecimal digits.\<close>

definition crc_text :: "u32 \<Rightarrow> string" where
  "crc_text crc = hex_text (store_be32 crc)"

definition version_response_tree :: "ota_mqtt_version_response_t \<Rightarrow> cjson" where
  "version_response_tree r = CJson_Object
     [(''protocol'', json_string OTA_MQTT_PROTOCOL_NAME),
      (''type'', json_string ''version_response''),
      (''message_id'', json_string (vrs_message_id r)),
      (''request_message_id'', json_string (vrs_request_message_id r)),
      (''device_id'', json_string (vrs_device_id r)),
      (''hardware_id'', json_u32 (vrs_hardware_id r)),
      (''update_available'', CJson_Bool (vrs_update_available r)),
      (''mandatory'', CJson_Bool (vrs_mandatory r)),
      (''rollout_delay_max_seconds'', json_u32 (vrs_rollout_delay_max_seconds r)),
      (''firmware'', CJson_Object
        ([(''version'', json_string (vrs_version r)), (''version_code'', json_u32 (vrs_version_code r))] @
         (if vrs_update_available r then
           [(''package_size'', json_u32 (vrs_package_size r)),
            (''package_crc32'', json_string (crc_text (vrs_package_crc32 r))),
            (''package_sha256'', json_string (vrs_package_sha256 r)),
            (''download_url'', json_string (vrs_download_url r)),
            (''release_notes'', json_string (vrs_release_notes r))]
          else [])))]"

text \<open>The responses a server may send.\<close>

definition version_response_valid :: "ota_mqtt_version_response_t \<Rightarrow> bool" where
  "version_response_valid r \<longleftrightarrow> version_response_wf r \<and>
     vrs_rollout_delay_max_seconds r \<le> OTA_MQTT_ROLLOUT_DELAY_LIMIT \<and>
     (if vrs_update_available r then
        256 \<le> vrs_package_size r \<and> vrs_package_size r \<le> OTA_SLOT_SIZE \<and>
        is_hex_string (Some (vrs_package_sha256 r)) 64 \<and> take 7 (vrs_download_url r) = ''http://''
      else vrs_package_size r = 0 \<and> vrs_package_crc32 r = 0 \<and> vrs_package_sha256 r = [] \<and>
           vrs_download_url r = [] \<and> vrs_release_notes r = [])"

lemma get_uint32_json:
  "cJSON_GetObjectItemCaseSensitive obj name = Some (json_u32 w) \<Longrightarrow>
   get_uint32 obj name v required = (OTA_OK, w)"
proof -
  assume item: "cJSON_GetObjectItemCaseSensitive obj name = Some (json_u32 w)"
  have "unat w < 4294967296" using unat_less_u32 [of w] by simp
  then have "unat w \<le> 4294967295" by linarith
  then have "(of_nat (unat w) :: rat) \<le> of_nat 4294967295" by (simp only: of_nat_le_iff)
  then have "\<not> (of_nat (unat w) :: rat) > 4294967295" by simp
  moreover have fl: "\<lfloor>of_nat (unat w) :: rat\<rfloor> = int (unat w)" by (rule floor_of_nat)
  ultimately show ?thesis
    by (simp add: get_uint32_def item del: of_nat_unat) simp
qed

lemma get_bool_json:
  "cJSON_GetObjectItemCaseSensitive obj name = Some (CJson_Bool b) \<Longrightarrow>
   get_bool obj name v required = (OTA_OK, b)"
  by (simp add: get_bool_def)

lemma copy_json_string_json:
  "cJSON_GetObjectItemCaseSensitive obj name = Some (json_string s) \<Longrightarrow> length s < n \<Longrightarrow>
   copy_json_string obj name v n required = (OTA_OK, s)"
  by (simp add: copy_json_string_def)

lemma hex_digit_xdigit: "n < 16 \<Longrightarrow> c_isxdigit (hex_digit n)"
  by (simp add: isxdigit_nibble hex_nibble_digit)

lemma hex_text_xdigits: "list_all c_isxdigit (hex_text bs)"
proof (induction bs)
  case (Cons b bs)
  have "unat b < 2 ^ 8" using unsigned_less [of b] by simp
  then have "unat b div 16 < 16" "unat b mod 16 < 16" by auto
  then show ?case using Cons by (simp add: hex_text_def hex_digit_xdigit)
qed (simp add: hex_text_def)

lemma hex_text_value:
  "foldl (\<lambda>v c. 16 * v + word_of_int (hex_nibble c)) (v :: u32) (hex_text bs) =
   foldl (\<lambda>v b. 256 * v + of_nat (unat b)) v bs"
proof (induction bs arbitrary: v)
  case (Cons b bs)
  have lt: "unat b < 2 ^ 8" using unsigned_less [of b] by simp
  then have nib: "hex_nibble (hex_digit (unat b div 16)) = int (unat b div 16)"
    "hex_nibble (hex_digit (unat b mod 16)) = int (unat b mod 16)"
    by (simp_all add: hex_nibble_digit del: of_nat_unat)
  have "(of_nat (16 * (unat b div 16) + unat b mod 16) :: u32) = of_nat (unat b)"
    by (simp only: mult_div_mod_eq)
  then have "(16 * of_nat (unat b div 16) + of_nat (unat b mod 16) :: u32) = of_nat (unat b)"
    by (simp only: of_nat_add of_nat_mult of_nat_numeral)
  then show ?case using Cons nib
    by (simp add: hex_text_def add.assoc del: of_nat_unat)
qed (simp add: hex_text_def)


lemma four_bytes_value:
  fixes n :: nat
  assumes "n < 2 ^ 32"
  shows "((n div 2 ^ 24 mod 2 ^ 8 * 256 + n div 2 ^ 16 mod 2 ^ 8) * 256 + n div 2 ^ 8 mod 2 ^ 8) * 256 +
    n mod 2 ^ 8 = n"
proof -
  define x y z where "x = n div 256" and "y = x div 256" and "z = y div 256"
  have e: "n div 2 ^ 8 = x" "n div 2 ^ 16 = y" "n div 2 ^ 24 = z"
    by (simp_all add: x_def y_def z_def div_mult2_eq [symmetric])
  have "z < 256" using assms unfolding e(3) [symmetric] by (simp add: less_mult_imp_div_less)
  then have z: "z mod 256 = z" by simp
  have p: "(2 :: nat) ^ 8 = 256" by simp
  have q: "z * 256 + y mod 256 = y" "y * 256 + x mod 256 = x" "x * 256 + n mod 256 = n"
    unfolding x_def y_def z_def by simp_all
  show ?thesis unfolding e unfolding p unfolding z unfolding q ..
qed

lemma crc_text_value:
  "is_hex_string (Some (crc_text crc)) 8" "strtoul16 (crc_text crc) = (crc, [])"
proof -
  have digits: "list_all c_isxdigit (crc_text crc)" by (simp add: crc_text_def hex_text_xdigits)
  then show "is_hex_string (Some (crc_text crc)) 8"
    by (simp add: is_hex_string_def crc_text_def length_hex_text)
  have all: "takeWhile c_isxdigit (crc_text crc) = crc_text crc" "dropWhile c_isxdigit (crc_text crc) = []"
    using digits by (simp_all add: list_all_iff takeWhile_eq_all_conv)
  define a b c d where bytes: "a = unat (ucast (drop_bit 24 crc) :: u8)"
    "b = unat (ucast (drop_bit 16 crc) :: u8)" "c = unat (ucast (drop_bit 8 crc) :: u8)"
    "d = unat (ucast crc :: u8)"
  have n: "a = unat crc div 2 ^ 24 mod 2 ^ 8" "b = unat crc div 2 ^ 16 mod 2 ^ 8"
    "c = unat crc div 2 ^ 8 mod 2 ^ 8" "d = unat crc mod 2 ^ 8"
    by (simp_all add: bytes unsigned_ucast_eq unsigned_drop_bit_eq take_bit_eq_mod drop_bit_eq_div unat_div)
  have lt: "unat crc < 2 ^ 32" by (rule unat_less_u32)
  have "((a * 256 + b) * 256 + c) * 256 + d = unat crc"
    unfolding n by (rule four_bytes_value [OF lt])
  then have "(of_nat (((a * 256 + b) * 256 + c) * 256 + d) :: u32) = crc" by simp
  then have "256 * (256 * (256 * of_nat a + of_nat b) + of_nat c) + of_nat d = crc"
    by (simp add: algebra_simps)
  then show "strtoul16 (crc_text crc) = (crc, [])"
    by (simp add: strtoul16_def all) (simp add: crc_text_def hex_text_value store_be32_def bytes)
qed

lemma parse_crc32_json:
  "cJSON_GetObjectItemCaseSensitive obj ''package_crc32'' = Some (json_string (crc_text crc)) \<Longrightarrow>
   parse_crc32 obj v = (OTA_OK, crc)"
  by (simp add: parse_crc32_def crc_text_value)

lemmas json_readers = get_uint32_json get_bool_json copy_json_string_json parse_crc32_json

lemma version_response_tree_parse:
  assumes "version_response_valid r"
  shows "ota_mqtt_parse_tree (version_response_tree r) version_response_zero = (OTA_OK, r)"
proof (cases "vrs_update_available r")
  case True
  then show ?thesis using assms
    by (simp add: version_response_tree_def version_response_valid_def version_response_wf_def
        ota_mqtt_parse_tree_def parse_response_steps_def parse_version_steps_def
        parse_package_steps_def fill_def test_def copied_def json_readers OTA_MQTT_PROTOCOL_NAME_def
        version_response_zero_def not_less word_le_nat_alt)
next
  case False
  then show ?thesis using assms
    by (simp add: version_response_tree_def version_response_valid_def version_response_wf_def
        ota_mqtt_parse_tree_def parse_response_steps_def parse_version_steps_def
        fill_def test_def copied_def json_readers OTA_MQTT_PROTOCOL_NAME_def
        version_response_zero_def not_less word_le_nat_alt)
qed


section \<open>Results\<close>

lemma run_steps_wf':
  assumes "run_steps steps r = (ok, r')" "list_all keeps_wf steps" "version_response_wf r"
  shows "version_response_wf r'"
  using run_steps_wf [OF assms(2,3)] assms(1) by simp

lemma parse_tree_wf:
  assumes "ota_mqtt_parse_tree tree r0 = (result, r)" "version_response_wf r0"
  shows "version_response_wf r"
  using assms
  by (auto simp: ota_mqtt_parse_tree_def split: prod.splits bool.splits option.splits if_splits
      dest!: run_steps_wf' simp: parse_steps_wf)

lemma response_stepsD:
  assumes "run_steps (parse_response_steps tree) r = (True, r')"
  shows "vrs_rollout_delay_max_seconds r' \<le> OTA_MQTT_ROLLOUT_DELAY_LIMIT"
  using assms unfolding parse_response_steps_def
  by (auto dest!: run_steps_ConsD fillD testD simp del: run_steps.simps(2))

lemma version_stepsD:
  assumes "run_steps (parse_version_steps tree) r = (True, r')"
  shows "vrs_rollout_delay_max_seconds r' = vrs_rollout_delay_max_seconds r"
  using assms unfolding parse_version_steps_def
  by (auto dest!: run_steps_ConsD fillD testD simp del: run_steps.simps(2))

lemma package_steps_rollout:
  assumes "run_steps (parse_package_steps tree) r = (True, r')"
  shows "vrs_rollout_delay_max_seconds r' = vrs_rollout_delay_max_seconds r"
  using assms unfolding parse_package_steps_def
  by (auto dest!: run_steps_ConsD fillD testD simp del: run_steps.simps(2))

lemma parse_tree_ok:
  assumes "ota_mqtt_parse_tree tree r0 = (OTA_OK, r)"
  shows "vrs_rollout_delay_max_seconds r \<le> OTA_MQTT_ROLLOUT_DELAY_LIMIT"
    "vrs_update_available r \<Longrightarrow> 256 \<le> unat (vrs_package_size r) \<and> unat (vrs_package_size r) \<le> 1048576 \<and>
       is_hex_string (Some (vrs_package_sha256 r)) 64 \<and> take 7 (vrs_download_url r) = ''http://''"
proof -
  obtain r1 r2 firmware where steps: "run_steps (parse_response_steps tree) r0 = (True, r1)"
    "run_steps (parse_version_steps firmware) r1 = (True, r2)"
    and last: "(\<not> vrs_update_available r2 \<and> r = r2) \<or>
      (vrs_update_available r2 \<and> run_steps (parse_package_steps firmware) r2 = (True, r))"
    using assms
    by (auto simp: ota_mqtt_parse_tree_def split: prod.splits bool.splits option.splits if_splits)
  show "vrs_rollout_delay_max_seconds r \<le> OTA_MQTT_ROLLOUT_DELAY_LIMIT"
    using last response_stepsD [OF steps(1)] version_stepsD [OF steps(2)] package_steps_rollout
    by metis
  show "vrs_update_available r \<Longrightarrow> 256 \<le> unat (vrs_package_size r) \<and> unat (vrs_package_size r) \<le> 1048576 \<and>
       is_hex_string (Some (vrs_package_sha256 r)) 64 \<and> take 7 (vrs_download_url r) = ''http://''"
    using last package_stepsD by blast
qed

lemma parse_response_tree:
  assumes "ota_mqtt_parse_version_response parse json (Some r0) = (result, Some r)"
  shows "r = r0 \<and> result = OTA_ERROR_ARGUMENT \<or> r = version_response_zero \<and> result = OTA_ERROR_PROTOCOL \<or>
    (\<exists>tree. ota_mqtt_parse_tree tree version_response_zero = (result, r))"
  using assms
  by (auto simp: ota_mqtt_parse_version_response_def apsnd_def map_prod_def
      split: option.splits if_splits cjson.splits prod.splits)

text \<open>C32: Whatever tree the JSON parser returns, no field of a parsed response overflows its
  character array, and a response that is accepted has a bounded roll-out delay; when it offers
  an update, its package size, its SHA-256 text and its URL pass every argument check of the HTTP
  download.\<close>

theorem mqtt_parse_response_type:
  assumes "ota_mqtt_parse_version_response parse json (Some r0) = (result, Some r)"
    and "version_response_wf r0"
  shows "version_response_wf r \<and>
    (result = OTA_OK \<longrightarrow> vrs_rollout_delay_max_seconds r \<le> OTA_MQTT_ROLLOUT_DELAY_LIMIT \<and>
      (vrs_update_available r \<longrightarrow>
         256 \<le> unat (vrs_package_size r) \<and> unat (vrs_package_size r) \<le> 1048576 \<and>
         (\<exists>digest. parse_sha256 (Some (vrs_package_sha256 r)) = Inr digest) \<and>
         take 7 (vrs_download_url r) = ''http://'' \<and> take 8 (vrs_download_url r) \<noteq> ''https://''))"
proof -
  have zero: "version_response_wf version_response_zero"
    by (simp add: version_response_wf_def version_response_zero_def)
  have no_s: "take 8 url \<noteq> ''https://''" if "take 7 url = ''http://''" for url :: string
  proof
    assume "take 8 url = ''https://''"
    then have "take 7 (take 8 url) = take 7 ''https://''" by (simp only:)
    then show False using that by simp
  qed
  from parse_response_tree [OF assms(1)] show ?thesis
  proof (elim disjE exE conjE)
    fix tree assume t: "ota_mqtt_parse_tree tree version_response_zero = (result, r)"
    show ?thesis
      using parse_tree_wf [OF t zero] t parse_tree_ok [of tree version_response_zero r]
        hex_string_sha256 no_s by auto
  qed (use assms(2) zero in simp_all)
qed

definition example_response :: ota_mqtt_version_response_t where
  "example_response = \<lparr>vrs_message_id = ''server-1'', vrs_request_message_id = ''H743-1-1'',
     vrs_device_id = ''H743-1'', vrs_hardware_id = OTA_HARDWARE_ID, vrs_update_available = True,
     vrs_mandatory = False, vrs_rollout_delay_max_seconds = 300, vrs_version_code = 0x00010100,
     vrs_package_size = 4104, vrs_package_crc32 = 0x7A4E21C9, vrs_version = ''V1.1.0'',
     vrs_package_sha256 = replicate 64 (CHR ''0''), vrs_download_url = ''http://10.0.0.2/fw'',
     vrs_release_notes = []\<rparr>"

lemma example_response_valid: "version_response_valid example_response"
  by (simp add: example_response_def version_response_valid_def version_response_wf_def
      is_hex_string_def list_all_iff c_isxdigit_def)

lemma example_response_parse:
  "ota_mqtt_parse_version_response (\<lambda>_. Some (version_response_tree example_response)) (Some ''{}'')
     (Some version_response_zero) = (OTA_OK, Some example_response)"
  using version_response_tree_parse [OF example_response_valid]
  by (simp add: ota_mqtt_parse_version_response_def version_response_tree_def)

lemma mqtt_parse_response_type_witness:
  "version_response_wf example_response \<and> take 8 (vrs_download_url example_response) \<noteq> ''https://''"
  using mqtt_parse_response_type [OF example_response_parse]
  by (simp add: version_response_wf_def version_response_zero_def example_response_def)

text \<open>C33: The response a server encodes is the response the device reads: parsing the tree of any
  valid response gives exactly its fields back, the CRC-32 from its eight hexadecimal digits.\<close>

theorem mqtt_response_roundtrip:
  assumes "version_response_valid r" "json \<noteq> []" "parse json = Some (version_response_tree r)"
  shows "ota_mqtt_parse_version_response parse (Some json) (Some r0) = (OTA_OK, Some r)"
  using version_response_tree_parse [OF assms(1)] assms(2,3)
  by (simp add: ota_mqtt_parse_version_response_def version_response_tree_def)

lemma mqtt_response_roundtrip_witness:
  "ota_mqtt_parse_version_response (\<lambda>_. Some (version_response_tree example_response)) (Some ''{}'')
     (Some version_response_zero) = (OTA_OK, Some example_response)"
  by (rule mqtt_response_roundtrip [OF example_response_valid]) simp_all

text \<open>A built update event carries every field of the event record under its own name: a
  reader of the tree gets the identifiers, the version, the sizes and the error code back, and
  the event's name determines the event.\<close>

theorem mqtt_update_event_fields:
  assumes "ota_mqtt_build_update_event alloc print (Some e) json_null json_size = (OTA_OK, Some json)"
    and "length (evt_message_id e) < 48" "length (evt_device_id e) < 48"
    and "length (evt_firmware_message_id e) < 48" "evt_event e < 9"
  shows "\<exists>tree. print tree json_size = Some json \<and>
    copy_json_string tree ''message_id'' [] 48 True = (OTA_OK, evt_message_id e) \<and>
    copy_json_string tree ''device_id'' [] 48 True = (OTA_OK, evt_device_id e) \<and>
    copy_json_string tree ''firmware_message_id'' [] 48 True = (OTA_OK, evt_firmware_message_id e) \<and>
    get_uint32 tree ''version_code'' 0 True = (OTA_OK, evt_version_code e) \<and>
    get_uint32 tree ''received_size'' 0 True = (OTA_OK, evt_received_size e) \<and>
    get_uint32 tree ''package_size'' 0 True = (OTA_OK, evt_package_size e) \<and>
    (\<forall>k < 9. copy_json_string tree ''event'' [] 24 True = (OTA_OK, ota_mqtt_event_name k) \<longleftrightarrow>
       k = evt_event e)"
proof -
  let ?tree = "CJson_Object (update_event_members e)"
  have "print ?tree json_size = Some json"
    using assms(1)
    by (auto simp: ota_mqtt_build_update_event_def build_object_def print_json_def
        split: if_splits option.splits)
  moreover have "length (ota_mqtt_event_name (evt_event e)) < 24"
    by (simp add: ota_mqtt_event_name_def ota_mqtt_event_names_def nth_Cons split: nat.splits)
  moreover have "ota_mqtt_event_name (evt_event e) = ota_mqtt_event_name k \<longleftrightarrow> k = evt_event e"
    if "k < 9" for k
    using that assms(5) nth_eq_iff_index_eq [of ota_mqtt_event_names "evt_event e" k]
    by (auto simp add: ota_mqtt_event_name_def ota_mqtt_event_names_def)
  ultimately show ?thesis using assms(2-4)
    by (intro exI [of _ ?tree]) (auto simp: json_readers update_event_members_def)
qed

definition example_event :: ota_mqtt_update_event_t where
  "example_event = \<lparr>evt_message_id = ''H743-1-2'', evt_device_id = ''H743-1'',
     evt_firmware_message_id = ''server-1'', evt_event = 5, evt_version_code = 0x00010100,
     evt_received_size = 4104, evt_package_size = 4104, evt_error_code = 0,
     evt_progress_percent = 100, evt_stage = ''commit'', evt_error_message = []\<rparr>"

lemma mqtt_update_event_fields_witness:
  "\<exists>tree. copy_json_string tree ''event'' [] 24 True = (OTA_OK, ota_mqtt_event_name 5)"
proof -
  have "ota_mqtt_build_update_event (\<lambda>_. True) (\<lambda>tree n. Some ''{}'') (Some example_event) False 1536 =
      (OTA_OK, Some ''{}'')"
    by (simp add: ota_mqtt_build_update_event_def build_object_def print_json_def example_event_def
        list_all_iff)
  from mqtt_update_event_fields [OF this] obtain tree where
    "\<forall>k < 9. copy_json_string tree ''event'' [] 24 True = (OTA_OK, ota_mqtt_event_name k) \<longleftrightarrow>
       k = evt_event example_event" by (auto simp: example_event_def)
  then have "copy_json_string tree ''event'' [] 24 True = (OTA_OK, ota_mqtt_event_name 5)"
    by (simp add: example_event_def)
  then show ?thesis by blast
qed

end
