(* ===== verification/Rt_Mq.thy ===== *)
theory Rt_Mq
  imports Prelude
begin

text \<open>
  The message queue of \<open>rt-thread/src/ipc.c\<close> that carries the commands of the remote update:
  a pool of slots, each with a next pointer, linked into a list of queued messages and a list of
  free slots.  The kernel runs each operation as a few regions with interrupts disabled; the
  regions are definitions of their own, so that their interleavings can be stated, and an
  operation is their composition.  What happens while an operation waits is a script of
  wake-ups; the resumption of waiting threads does not touch the lists.
\<close>

section \<open>The pool\<close>

text \<open>A pointer to a message is the index of its slot; \<open>None\<close> is NULL.\<close>

record rt_mq =
  mq_next :: "nat \<Rightarrow> nat option"
  mq_slot :: "nat \<Rightarrow> bytes"
  mq_head :: "nat option"
  mq_tail :: "nat option"
  mq_free :: "nat option"
  mq_entry :: nat
  mq_msg_size :: nat
  mq_max_msgs :: nat

abbreviation (input) RT_EOK :: int where "RT_EOK \<equiv> 0"
abbreviation (input) RT_ERROR :: int where "RT_ERROR \<equiv> 1"
abbreviation (input) RT_ETIMEOUT :: int where "RT_ETIMEOUT \<equiv> 2"
abbreviation (input) RT_EFULL :: int where "RT_EFULL \<equiv> 3"
abbreviation (input) RT_MQ_ENTRY_MAX :: nat where "RT_MQ_ENTRY_MAX \<equiv> 65535"

definition rt_align :: "nat \<Rightarrow> nat" where
  "rt_align n = (n + 3) div 4 * 4"

text \<open>The loop of the initialisation over \<open>temp\<close> pushes every slot on the free list.\<close>

definition mq_push_free :: "rt_mq \<Rightarrow> nat \<Rightarrow> rt_mq" where
  "mq_push_free mq m = mq\<lparr>mq_next := (mq_next mq)(m := mq_free mq), mq_free := Some m\<rparr>"

text \<open>
  \<open>pool\<close> is what the pool holds; the message size and the number of messages are
  16-bit fields.
\<close>

definition rt_mq_init :: "(nat \<Rightarrow> bytes) \<Rightarrow> nat \<Rightarrow> nat \<Rightarrow> rt_mq" where
  "rt_mq_init pool msg_size pool_size =
     (let size16 = rt_align msg_size mod 2 ^ 16;
          max16 = pool_size div (size16 + 4) mod 2 ^ 16
      in foldl mq_push_free
           \<lparr>mq_next = \<lambda>_. None, mq_slot = pool, mq_head = None, mq_tail = None, mq_free = None,
            mq_entry = 0, mq_msg_size = size16, mq_max_msgs = max16\<rparr> [0..<max16])"

section \<open>The regions\<close>

text \<open>Taking a slot off the free list, filling it, linking it to either end of the queue.\<close>

definition mq_alloc :: "rt_mq \<Rightarrow> (nat \<times> rt_mq) option" where
  "mq_alloc mq =
     (case mq_free mq of
        None \<Rightarrow> None
      | Some msg \<Rightarrow> Some (msg, mq\<lparr>mq_free := mq_next mq msg\<rparr>))"

definition mq_fill :: "nat \<Rightarrow> bytes \<Rightarrow> rt_mq \<Rightarrow> rt_mq" where
  "mq_fill msg buffer mq =
     mq\<lparr>mq_next := (mq_next mq)(msg := None),
        mq_slot := (mq_slot mq)(msg := memcpy_at (mq_slot mq msg) 0 buffer)\<rparr>"

definition mq_count :: "rt_mq \<Rightarrow> int \<times> rt_mq" where
  "mq_count mq =
     (if mq_entry mq < RT_MQ_ENTRY_MAX then (RT_EOK, mq\<lparr>mq_entry := mq_entry mq + 1\<rparr>)
      else (- RT_EFULL, mq))"

definition mq_link :: "nat \<Rightarrow> rt_mq \<Rightarrow> int \<times> rt_mq" where
  "mq_link msg mq =
     (let next' = (case mq_tail mq of
                     None \<Rightarrow> mq_next mq | Some t \<Rightarrow> (mq_next mq)(t := Some msg));
          head' = (if mq_head mq = None then Some msg else mq_head mq)
      in mq_count (mq\<lparr>mq_next := next', mq_tail := Some msg, mq_head := head'\<rparr>))"

text \<open>The urgent send does not clear the next pointer while it fills the slot.\<close>

definition mq_fill_urgent :: "nat \<Rightarrow> bytes \<Rightarrow> rt_mq \<Rightarrow> rt_mq" where
  "mq_fill_urgent msg buffer mq =
     mq\<lparr>mq_slot := (mq_slot mq)(msg := memcpy_at (mq_slot mq msg) 0 buffer)\<rparr>"

definition mq_link_front :: "nat \<Rightarrow> rt_mq \<Rightarrow> int \<times> rt_mq" where
  "mq_link_front msg mq =
     mq_count (mq\<lparr>mq_next := (mq_next mq)(msg := mq_head mq), mq_head := Some msg,
        mq_tail := (if mq_tail mq = None then Some msg else mq_tail mq)\<rparr>)"

text \<open>Taking the head off the queue, and giving its slot back.\<close>

definition mq_unlink :: "rt_mq \<Rightarrow> (nat \<times> rt_mq) option" where
  "mq_unlink mq =
     (case mq_head mq of
        None \<Rightarrow> None
      | Some msg \<Rightarrow> Some (msg, mq\<lparr>mq_head := mq_next mq msg,
            mq_tail := (if mq_tail mq = Some msg then None else mq_tail mq),
            mq_entry := (if mq_entry mq > 0 then mq_entry mq - 1 else mq_entry mq)\<rparr>))"

section \<open>The operations\<close>

text \<open>\<open>rt_mq_send_wait\<close> with a zero time-out, and its caller.\<close>

definition rt_mq_send :: "bytes \<Rightarrow> rt_mq \<Rightarrow> int \<times> rt_mq" where
  "rt_mq_send buffer mq =
     (if length buffer > mq_msg_size mq then (- RT_ERROR, mq)
      else case mq_alloc mq of
             None \<Rightarrow> (- RT_EFULL, mq)
           | Some (msg, mq) \<Rightarrow> mq_link msg (mq_fill msg buffer mq))"

definition rt_mq_urgent :: "bytes \<Rightarrow> rt_mq \<Rightarrow> int \<times> rt_mq" where
  "rt_mq_urgent buffer mq =
     (if length buffer > mq_msg_size mq then (- RT_ERROR, mq)
      else case mq_alloc mq of
             None \<Rightarrow> (- RT_EFULL, mq)
           | Some (msg, mq) \<Rightarrow> mq_link_front msg (mq_fill_urgent msg buffer mq))"

text \<open>
  \<open>rt_mq_recv\<close> with a zero time-out.  A non-zero entry count with an empty list would be a NULL
  dereference; it is the outcome \<open>None\<close>.
\<close>

definition rt_mq_recv :: "nat \<Rightarrow> rt_mq \<Rightarrow> (int \<times> bytes \<times> rt_mq) option" where
  "rt_mq_recv buffer_size mq =
     (if mq_entry mq = 0 then Some (- RT_ETIMEOUT, [], mq)
      else case mq_unlink mq of
             None \<Rightarrow> None
           | Some (msg, mq) \<Rightarrow>
               let n = (if buffer_size > mq_msg_size mq then mq_msg_size mq else buffer_size)
               in Some (RT_EOK, take n (mq_slot mq msg), mq_push_free mq msg))"

text \<open>
  A blocked thread resumes with what the other threads made of the queue, its error code and the
  ticks it waited.  A negative time-out waits for ever; \<open>None\<close> is a thread that is still blocked
  when the script ends.  The result is 0 when the condition of the loop holds.
\<close>

record mq_wakeup =
  wake_mq :: "rt_mq \<Rightarrow> rt_mq"
  wake_error :: int
  wake_ticks :: int

fun mq_wait ::
  "(rt_mq \<Rightarrow> bool) \<Rightarrow> int \<Rightarrow> mq_wakeup list \<Rightarrow> int \<Rightarrow> rt_mq \<Rightarrow> (int \<times> rt_mq) option" where
  "mq_wait ready expired ws timeout mq =
     (if ready mq then Some (RT_EOK, mq)
      else if timeout = 0 then Some (expired, mq)
      else case ws of
             [] \<Rightarrow> None
           | w # ws \<Rightarrow>
               let mq = wake_mq w mq
               in if wake_error w \<noteq> RT_EOK then Some (wake_error w, mq)
                  else mq_wait ready expired ws
                         (if timeout > 0 then max 0 (timeout - wake_ticks w) else timeout) mq)"

declare mq_wait.simps [simp del]

definition rt_mq_send_wait ::
  "mq_wakeup list \<Rightarrow> bytes \<Rightarrow> int \<Rightarrow> rt_mq \<Rightarrow> (int \<times> rt_mq) option" where
  "rt_mq_send_wait ws buffer timeout mq =
     (if length buffer > mq_msg_size mq then Some (- RT_ERROR, mq)
      else case mq_wait (\<lambda>mq. mq_free mq \<noteq> None) (- RT_EFULL) ws timeout mq of
             None \<Rightarrow> None
           | Some (r, mq) \<Rightarrow>
               if r \<noteq> RT_EOK then Some (r, mq)
               else case mq_alloc mq of
                      None \<Rightarrow> None
                    | Some (msg, mq) \<Rightarrow> Some (mq_link msg (mq_fill msg buffer mq)))"

definition rt_mq_recv_wait ::
  "mq_wakeup list \<Rightarrow> nat \<Rightarrow> int \<Rightarrow> rt_mq \<Rightarrow> (int \<times> bytes \<times> rt_mq) option" where
  "rt_mq_recv_wait ws buffer_size timeout mq =
     (case mq_wait (\<lambda>mq. mq_entry mq \<noteq> 0) (- RT_ETIMEOUT) ws timeout mq of
        None \<Rightarrow> None
      | Some (r, mq) \<Rightarrow>
          if r \<noteq> RT_EOK then Some (r, [], mq)
          else case mq_unlink mq of
                 None \<Rightarrow> None
               | Some (msg, mq) \<Rightarrow>
                   let n = (if buffer_size > mq_msg_size mq then mq_msg_size mq else buffer_size)
                   in Some (RT_EOK, take n (mq_slot mq msg), mq_push_free mq msg))"

lemma rt_mq_send_wait_0: "rt_mq_send_wait ws buffer 0 mq = Some (rt_mq_send buffer mq)"
  by (simp add: rt_mq_send_wait_def rt_mq_send_def mq_wait.simps mq_alloc_def split: option.split)

lemma rt_mq_recv_wait_0: "rt_mq_recv_wait ws n 0 mq = rt_mq_recv n mq"
  by (simp add: rt_mq_recv_wait_def rt_mq_recv_def mq_wait.simps)

text \<open>The loop of the reset command runs as long as the pointers say.\<close>

partial_function (option) mq_reset_loop :: "rt_mq \<Rightarrow> rt_mq option" where
  "mq_reset_loop mq =
     (case mq_head mq of
        None \<Rightarrow> Some mq
      | Some msg \<Rightarrow>
          mq_reset_loop (mq_push_free (mq\<lparr>mq_head := mq_next mq msg,
            mq_tail := (if mq_tail mq = Some msg then None else mq_tail mq)\<rparr>) msg))"

definition rt_mq_control_reset :: "rt_mq \<Rightarrow> (int \<times> rt_mq) option" where
  "rt_mq_control_reset mq =
     map_option (\<lambda>mq. (RT_EOK, mq\<lparr>mq_entry := 0\<rparr>)) (mq_reset_loop mq)"

section \<open>Linked lists of slots\<close>

fun chain :: "(nat \<Rightarrow> nat option) \<Rightarrow> nat option \<Rightarrow> nat list \<Rightarrow> bool" where
  "chain nxt p [] \<longleftrightarrow> p = None"
| "chain nxt p (x # xs) \<longleftrightarrow> p = Some x \<and> chain nxt (nxt x) xs"

fun walk :: "nat \<Rightarrow> (nat \<Rightarrow> nat option) \<Rightarrow> nat option \<Rightarrow> nat list" where
  "walk (Suc k) nxt (Some x) = x # walk k nxt (nxt x)"
| "walk _ nxt _ = []"

lemma chain_walk: "chain nxt p xs \<Longrightarrow> length xs \<le> k \<Longrightarrow> walk k nxt p = xs"
proof (induction xs arbitrary: p k)
  case Nil
  then show ?case by (cases k) auto
next
  case (Cons x xs)
  then show ?case by (cases k) auto
qed

lemma chain_upd: "x \<notin> set xs \<Longrightarrow> chain (nxt(x := v)) p xs = chain nxt p xs"
  by (induction xs arbitrary: p) auto

lemma chain_Some_iff: "chain nxt (Some x) xs \<longleftrightarrow> (\<exists>ys. xs = x # ys \<and> chain nxt (nxt x) ys)"
  by (cases xs) auto

lemma chain_None_iff [simp]: "chain nxt None xs \<longleftrightarrow> xs = []"
  by (cases xs) auto

lemma chain_snoc:
  "chain nxt p xs \<Longrightarrow> xs \<noteq> [] \<Longrightarrow> distinct xs \<Longrightarrow> y \<notin> set xs \<Longrightarrow> nxt y = None \<Longrightarrow>
   chain (nxt(last xs := Some y)) p (xs @ [y])"
proof (induction xs arbitrary: p)
  case (Cons x xs)
  then show ?case
    by (cases xs) (auto simp: chain_upd)
qed simp

section \<open>The invariant\<close>

text \<open>
  \<open>mq_inv mq qs fs busy\<close>: \<open>qs\<close> are the queued slots in order, \<open>fs\<close> the free ones, and \<open>busy\<close>
  those that a sender or a receiver holds between two regions; together they are the pool.
\<close>

definition mq_inv :: "rt_mq \<Rightarrow> nat list \<Rightarrow> nat list \<Rightarrow> nat set \<Rightarrow> bool" where
  "mq_inv mq qs fs busy \<longleftrightarrow>
     chain (mq_next mq) (mq_head mq) qs \<and> chain (mq_next mq) (mq_free mq) fs \<and>
     mq_tail mq = (if qs = [] then None else Some (last qs)) \<and>
     distinct (qs @ fs) \<and> busy \<inter> set (qs @ fs) = {} \<and> set (qs @ fs) \<union> busy = {..<mq_max_msgs mq} \<and>
     mq_entry mq = length qs \<and> mq_max_msgs mq < 2 ^ 16 \<and>
     (\<forall>m < mq_max_msgs mq. length (mq_slot mq m) = mq_msg_size mq)"

lemma mq_inv_length:
  assumes "mq_inv mq qs fs busy"
  shows "length qs + length fs + card busy = mq_max_msgs mq" "finite busy"
proof -
  have "set (qs @ fs) \<union> busy = {..<mq_max_msgs mq}" using assms by (simp only: mq_inv_def)
  then have fin: "finite (set (qs @ fs) \<union> busy)" by (simp only: finite_lessThan)
  then show fb: "finite busy" by (simp only: finite_Un)
  have "card (set (qs @ fs) \<union> busy) = card (set (qs @ fs)) + card busy"
    using assms by (intro card_Un_disjoint fb) (auto simp: mq_inv_def)
  moreover have "card (set (qs @ fs)) = length (qs @ fs)"
    using assms distinct_card [of "qs @ fs"] by (simp only: mq_inv_def)
  ultimately show "length qs + length fs + card busy = mq_max_msgs mq"
    using assms by (simp add: mq_inv_def)
qed

lemma mq_push_free_inv:
  assumes "mq_inv mq qs fs busy" "m \<in> busy"
  shows "mq_inv (mq_push_free mq m) qs (m # fs) (busy - {m})"
proof -
  have m: "m \<notin> set qs" "m \<notin> set fs" "m < mq_max_msgs mq" using assms by (auto simp: mq_inv_def)
  show ?thesis
    using assms m by (auto simp: mq_inv_def mq_push_free_def chain_upd)
qed

lemma mq_alloc_inv:
  assumes "mq_inv mq qs fs busy" "mq_alloc mq = Some (m, mq')"
  shows "\<exists>fs'. fs = m # fs' \<and> mq_inv mq' qs fs' (insert m busy)"
proof -
  obtain fs' where fs: "fs = m # fs'" and mq': "mq' = mq\<lparr>mq_free := mq_next mq m\<rparr>"
    using assms by (auto simp: mq_alloc_def mq_inv_def chain_Some_iff split: option.splits)
  show ?thesis
    using assms(1) unfolding fs mq' mq_inv_def by auto
qed

lemma mq_fill_inv:
  assumes "mq_inv mq qs fs busy" "m \<in> busy" "length buffer \<le> mq_msg_size mq"
  shows "mq_inv (mq_fill m buffer mq) qs fs busy" "mq_inv (mq_fill_urgent m buffer mq) qs fs busy"
proof -
  have m: "m \<notin> set qs" "m \<notin> set fs" "m < mq_max_msgs mq" using assms by (auto simp: mq_inv_def)
  show "mq_inv (mq_fill m buffer mq) qs fs busy"
    using assms m by (auto simp: mq_inv_def mq_fill_def chain_upd)
  show "mq_inv (mq_fill_urgent m buffer mq) qs fs busy"
    using assms m by (auto simp: mq_inv_def mq_fill_urgent_def)
qed

lemma mq_count_room:
  assumes "mq_inv mq qs fs busy" "m \<in> busy"
  shows "mq_entry mq < RT_MQ_ENTRY_MAX"
proof -
  have "0 < card busy" using assms(2) mq_inv_length(2) [OF assms(1)] by (auto simp: card_gt_0_iff)
  then show ?thesis using mq_inv_length(1) [OF assms(1)] assms(1) by (simp add: mq_inv_def)
qed

lemma mq_link_inv:
  assumes inv: "mq_inv mq qs fs busy" and m: "m \<in> busy" "mq_next mq m = None"
    and call: "mq_link m mq = (r, mq')"
  shows "r = RT_EOK" "mq_inv mq' (qs @ [m]) fs (busy - {m})" "mq_slot mq' = mq_slot mq"
proof -
  note room = mq_count_room [OF inv m(1)]
  have nm: "m \<notin> set qs" "m \<notin> set fs" "m < mq_max_msgs mq" using inv m by (auto simp: mq_inv_def)
  show "r = RT_EOK" "mq_slot mq' = mq_slot mq"
    using call room by (auto simp: mq_link_def mq_count_def Let_def)
  show "mq_inv mq' (qs @ [m]) fs (busy - {m})"
  proof (cases "qs = []")
    case True
    then show ?thesis using inv m nm call room
      by (auto simp: mq_link_def mq_count_def Let_def mq_inv_def)
  next
    case False
    have dist: "distinct qs" "last qs \<notin> set fs" using inv last_in_set [OF False] by (auto simp: mq_inv_def)
    have ch: "chain ((mq_next mq)(last qs := Some m)) (mq_head mq) (qs @ [m])"
      using inv m nm False dist by (intro chain_snoc) (auto simp: mq_inv_def)
    have hd: "mq_head mq \<noteq> None" using inv False by (cases qs) (auto simp: mq_inv_def)
    show ?thesis using inv m nm call room ch hd False dist
      by (auto simp: mq_link_def mq_count_def Let_def mq_inv_def chain_upd)
  qed
qed

lemma mq_link_front_inv:
  assumes inv: "mq_inv mq qs fs busy" and m: "m \<in> busy"
    and call: "mq_link_front m mq = (r, mq')"
  shows "r = RT_EOK" "mq_inv mq' (m # qs) fs (busy - {m})" "mq_slot mq' = mq_slot mq"
proof -
  note room = mq_count_room [OF inv m]
  have nm: "m \<notin> set qs" "m \<notin> set fs" "m < mq_max_msgs mq" using inv m by (auto simp: mq_inv_def)
  show "r = RT_EOK" "mq_slot mq' = mq_slot mq"
    using call room by (auto simp: mq_link_front_def mq_count_def)
  show "mq_inv mq' (m # qs) fs (busy - {m})"
    using inv m nm call room
    by (auto simp: mq_link_front_def mq_count_def mq_inv_def chain_upd)
qed

lemma mq_unlink_inv:
  assumes inv: "mq_inv mq qs fs busy" and call: "mq_unlink mq = Some (m, mq')"
  shows "\<exists>qs'. qs = m # qs' \<and> mq_inv mq' qs' fs (insert m busy)" "mq_slot mq' = mq_slot mq"
    "mq_msg_size mq' = mq_msg_size mq"
proof -
  obtain qs' where qs: "qs = m # qs'" using inv call
    by (auto simp: mq_unlink_def mq_inv_def chain_Some_iff split: option.splits)
  have "m \<noteq> last qs'" if "qs' \<noteq> []" using inv that by (auto simp: mq_inv_def qs)
  then show "\<exists>qs'. qs = m # qs' \<and> mq_inv mq' qs' fs (insert m busy)"
    using inv call unfolding qs by (auto simp: mq_unlink_def mq_inv_def)
  show "mq_slot mq' = mq_slot mq" "mq_msg_size mq' = mq_msg_size mq"
    using call by (auto simp: mq_unlink_def split: option.splits)
qed


section \<open>The operations keep the invariant\<close>

definition mq_queue :: "rt_mq \<Rightarrow> nat list" where
  "mq_queue mq = walk (mq_max_msgs mq) (mq_next mq) (mq_head mq)"

text \<open>The messages in the queue, oldest first.\<close>

definition mq_contents :: "rt_mq \<Rightarrow> bytes list" where
  "mq_contents mq = map (mq_slot mq) (mq_queue mq)"

definition mq_wf :: "rt_mq \<Rightarrow> bool" where
  "mq_wf mq \<longleftrightarrow> (\<exists>qs fs. mq_inv mq qs fs {})"

lemma mq_inv_queue: "mq_inv mq qs fs busy \<Longrightarrow> mq_queue mq = qs"
  using mq_inv_length [of mq qs fs busy] chain_walk [of "mq_next mq" "mq_head mq" qs "mq_max_msgs mq"]
  by (simp add: mq_inv_def mq_queue_def)

lemma mq_wfE:
  assumes "mq_wf mq"
  obtains fs where "mq_inv mq (mq_queue mq) fs {}"
  using assms mq_inv_queue by (auto simp: mq_wf_def)

lemma rt_mq_init_foldl:
  assumes "mq_max_msgs mq < 2 ^ 16" "mq_inv mq [] fs {k..<mq_max_msgs mq}" "k + n = mq_max_msgs mq"
  shows "\<exists>fs'. mq_inv (foldl mq_push_free mq [k..<k + n]) [] fs' {}"
  using assms
proof (induction n arbitrary: mq k fs)
  case 0
  then show ?case by auto
next
  case (Suc n)
  have "{k..<mq_max_msgs mq} - {k} = {Suc k..<mq_max_msgs mq}" by auto
  then have inv: "mq_inv (mq_push_free mq k) [] (k # fs) {Suc k..<mq_max_msgs mq}"
    using mq_push_free_inv [OF Suc.prems(2), of k] Suc.prems(3) by simp
  have keep: "mq_max_msgs (mq_push_free mq k) = mq_max_msgs mq" by (simp add: mq_push_free_def)
  have "[k..<k + Suc n] = k # [Suc k..<Suc k + n]"
    by (simp add: upt_conv_Cons del: upt_Suc)
  then show ?case using Suc.IH [of "mq_push_free mq k" "k # fs" "Suc k"] inv keep Suc.prems
    by (simp del: upt_Suc add_Suc add_Suc_right)
qed

lemma foldl_push_free_fields:
  "mq_max_msgs (foldl mq_push_free mq ms) = mq_max_msgs mq"
  "mq_msg_size (foldl mq_push_free mq ms) = mq_msg_size mq"
  by (induction ms arbitrary: mq) (simp_all add: mq_push_free_def)

lemma rt_mq_init_wf:
  fixes pool msg_size pool_size
  defines "size16 \<equiv> rt_align msg_size mod 2 ^ 16"
  defines "max16 \<equiv> pool_size div (size16 + 4) mod 2 ^ 16"
  assumes "\<And>m. m < max16 \<Longrightarrow> length (pool m) = size16"
  shows "mq_wf (rt_mq_init pool msg_size pool_size)" "mq_contents (rt_mq_init pool msg_size pool_size) = []"
    "mq_max_msgs (rt_mq_init pool msg_size pool_size) = max16"
    "mq_msg_size (rt_mq_init pool msg_size pool_size) = size16"
proof -
  let ?mq = "\<lparr>mq_next = \<lambda>_. None, mq_slot = pool, mq_head = None, mq_tail = None, mq_free = None,
            mq_entry = 0, mq_msg_size = size16, mq_max_msgs = max16\<rparr>"
  have init: "rt_mq_init pool msg_size pool_size = foldl mq_push_free ?mq [0..<max16]"
    by (simp only: rt_mq_init_def Let_def size16_def max16_def)
  have max: "max16 < 2 ^ 16" by (simp add: max16_def)
  have "mq_inv ?mq [] [] {0..<mq_max_msgs ?mq}" using assms(3) max by (auto simp: mq_inv_def)
  then obtain fs where inv: "mq_inv (foldl mq_push_free ?mq [0..<0 + max16]) [] fs {}"
    using rt_mq_init_foldl [of ?mq "[]" 0 max16] max by auto
  then show "mq_wf (rt_mq_init pool msg_size pool_size)" "mq_contents (rt_mq_init pool msg_size pool_size) = []"
    using mq_inv_queue [OF inv] by (auto simp: init mq_wf_def mq_contents_def)
  show "mq_max_msgs (rt_mq_init pool msg_size pool_size) = max16"
    "mq_msg_size (rt_mq_init pool msg_size pool_size) = size16"
    by (simp_all add: init foldl_push_free_fields)
qed

lemma mq_fill_fields:
  "mq_msg_size (mq_fill m b mq) = mq_msg_size mq" "mq_max_msgs (mq_fill m b mq) = mq_max_msgs mq"
  "mq_next (mq_fill m b mq) m = None" "mq_slot (mq_fill m b mq) = (mq_slot mq)(m := memcpy_at (mq_slot mq m) 0 b)"
  by (simp_all add: mq_fill_def)

lemma mq_link_fields:
  "mq_link m mq = (r, mq') \<Longrightarrow> mq_msg_size mq' = mq_msg_size mq \<and> mq_max_msgs mq' = mq_max_msgs mq"
  "mq_link_front m mq = (r, mq') \<Longrightarrow> mq_msg_size mq' = mq_msg_size mq \<and> mq_max_msgs mq' = mq_max_msgs mq"
  by (auto simp: mq_link_def mq_link_front_def mq_count_def Let_def split: if_splits)

lemma mq_alloc_fields:
  "mq_alloc mq = Some (m, mq') \<Longrightarrow> mq_msg_size mq' = mq_msg_size mq \<and>
     mq_max_msgs mq' = mq_max_msgs mq \<and> mq_slot mq' = mq_slot mq"
  by (auto simp: mq_alloc_def split: option.splits)

lemma mq_alloc_full:
  assumes "mq_inv mq qs fs {}"
  shows "mq_alloc mq = None \<longleftrightarrow> length qs = mq_max_msgs mq"
  using assms mq_inv_length(1) [OF assms] by (cases fs) (auto simp: mq_alloc_def mq_inv_def split: option.splits)

lemma rt_mq_send_room:
  assumes inv: "mq_inv mq qs fs {}" and len: "length buffer = mq_msg_size mq"
    and room: "length qs < mq_max_msgs mq"
  obtains mq' m fs' where "rt_mq_send buffer mq = (RT_EOK, mq')" "mq_inv mq' (qs @ [m]) fs' {}"
    "mq_contents mq' = mq_contents mq @ [buffer]" "mq_msg_size mq' = mq_msg_size mq"
    "mq_max_msgs mq' = mq_max_msgs mq"
proof -
  obtain m mq1 where al: "mq_alloc mq = Some (m, mq1)"
    using mq_alloc_full [OF inv] room by (cases "mq_alloc mq") auto
  obtain fs' where fs: "fs = m # fs'" and inv1: "mq_inv mq1 qs fs' {m}" using mq_alloc_inv [OF inv al] by auto
  note f1 = mq_alloc_fields [OF al]
  have inv2: "mq_inv (mq_fill m buffer mq1) qs fs' {m}"
    by (rule mq_fill_inv(1) [OF inv1]) (use len f1 in auto)
  obtain r mq2 where li: "mq_link m (mq_fill m buffer mq1) = (r, mq2)" by fastforce
  have nxt: "mq_next (mq_fill m buffer mq1) m = None" by (rule mq_fill_fields(3))
  have m: "m \<in> {m}" by simp
  note l = mq_link_inv [OF inv2 m nxt li]
  have send: "rt_mq_send buffer mq = (RT_EOK, mq2)"
    using len al li l(1) by (simp add: rt_mq_send_def)
  have inv3: "mq_inv mq2 (qs @ [m]) fs' {}" using l(2) by simp
  have notin: "m \<notin> set qs" "m < mq_max_msgs mq" using inv by (auto simp: fs mq_inv_def)
  have slot: "mq_slot mq2 = (mq_slot mq)(m := buffer)"
    using l(3) f1 len notin(2) inv by (simp add: mq_fill_fields memcpy_at_def mq_inv_def)
  have "mq_contents mq2 = mq_contents mq @ [buffer]"
    using notin by (simp add: mq_contents_def mq_inv_queue [OF inv] mq_inv_queue [OF inv3] slot)
  then show thesis using that send inv3 mq_link_fields(1) [OF li] f1 by (simp add: mq_fill_fields)
qed

lemma rt_mq_send_full:
  assumes "mq_inv mq qs fs {}" "length buffer = mq_msg_size mq" "length qs = mq_max_msgs mq"
  shows "rt_mq_send buffer mq = (- RT_EFULL, mq)"
  using assms mq_alloc_full [OF assms(1)] by (simp add: rt_mq_send_def)

lemma rt_mq_recv_some:
  assumes inv: "mq_inv mq (m # qs) fs {}"
  obtains mq' where "rt_mq_recv (mq_msg_size mq) mq = Some (RT_EOK, mq_slot mq m, mq')"
    "mq_inv mq' qs (m # fs) {}" "mq_contents mq' = map (mq_slot mq) qs"
    "mq_msg_size mq' = mq_msg_size mq" "mq_max_msgs mq' = mq_max_msgs mq"
proof -
  have e: "mq_entry mq \<noteq> 0" using inv by (simp add: mq_inv_def)
  obtain mq1 where un: "mq_unlink mq = Some (m, mq1)" using inv by (auto simp: mq_unlink_def mq_inv_def)
  note u = mq_unlink_inv [OF inv un]
  have inv1: "mq_inv mq1 qs fs {m}" using u(1) by auto
  have inv2: "mq_inv (mq_push_free mq1 m) qs (m # fs) {}" using mq_push_free_inv [OF inv1, of m] by simp
  have len: "length (mq_slot mq m) = mq_msg_size mq" using inv by (auto simp: mq_inv_def)
  have recv: "rt_mq_recv (mq_msg_size mq) mq = Some (RT_EOK, mq_slot mq m, mq_push_free mq1 m)"
    using e un u len by (simp add: rt_mq_recv_def Let_def)
  have max: "mq_max_msgs mq1 = mq_max_msgs mq" using un by (auto simp: mq_unlink_def split: option.splits)
  have "mq_contents (mq_push_free mq1 m) = map (mq_slot mq) qs"
    by (simp add: mq_contents_def mq_inv_queue [OF inv2]) (simp add: mq_push_free_def u)
  then show thesis using that [OF recv inv2] u max by (simp add: mq_push_free_def)
qed


section \<open>The interface of a bounded queue\<close>

text \<open>
  What the users of a message queue rely on: a send appends or reports that the queue is full, a
  receive takes the oldest message or reports that there is none.
\<close>

datatype 'm fifo_op = Fifo_Send 'm | Fifo_Recv
datatype 'm fifo_out = Sent bool | Received "'m option"

fun fifo_run ::
  "('m \<Rightarrow> 'q \<Rightarrow> bool \<times> 'q) \<Rightarrow> ('q \<Rightarrow> 'm option \<times> 'q) \<Rightarrow> 'm fifo_op list \<Rightarrow> 'q \<Rightarrow>
     'm fifo_out list \<times> 'q" where
  "fifo_run send recv [] q = ([], q)"
| "fifo_run send recv (Fifo_Send m # ops) q =
     (case send m q of (ok, q) \<Rightarrow> apfst ((#) (Sent ok)) (fifo_run send recv ops q))"
| "fifo_run send recv (Fifo_Recv # ops) q =
     (case recv q of (m, q) \<Rightarrow> apfst ((#) (Received m)) (fifo_run send recv ops q))"

text \<open>The specification: a list of at most \<open>n\<close> messages.\<close>

definition fifo_send :: "nat \<Rightarrow> 'm \<Rightarrow> 'm list \<Rightarrow> bool \<times> 'm list" where
  "fifo_send n m q = (if length q < n then (True, q @ [m]) else (False, q))"

definition fifo_recv :: "'m list \<Rightarrow> 'm option \<times> 'm list" where
  "fifo_recv q = (case q of [] \<Rightarrow> (None, []) | m # ms \<Rightarrow> (Some m, ms))"

locale bounded_fifo =
  fixes send :: "'m \<Rightarrow> 'q \<Rightarrow> bool \<times> 'q"
    and recv :: "'q \<Rightarrow> 'm option \<times> 'q"
    and contents :: "'q \<Rightarrow> 'm list"
    and capacity :: "'q \<Rightarrow> nat"
    and fits :: "'q \<Rightarrow> 'm \<Rightarrow> bool"
    and wf :: "'q \<Rightarrow> bool"
  assumes bounded: "wf q \<Longrightarrow> length (contents q) \<le> capacity q"
    and send_room: "wf q \<Longrightarrow> fits q m \<Longrightarrow> length (contents q) < capacity q \<Longrightarrow>
      \<exists>q'. send m q = (True, q') \<and> contents q' = contents q @ [m] \<and> wf q' \<and>
        capacity q' = capacity q \<and> fits q' = fits q"
    and send_full: "wf q \<Longrightarrow> fits q m \<Longrightarrow> length (contents q) = capacity q \<Longrightarrow> send m q = (False, q)"
    and recv_none: "wf q \<Longrightarrow> contents q = [] \<Longrightarrow> recv q = (None, q)"
    and recv_oldest: "wf q \<Longrightarrow> contents q = m # ms \<Longrightarrow>
      \<exists>q'. recv q = (Some m, q') \<and> contents q' = ms \<and> wf q' \<and>
        capacity q' = capacity q \<and> fits q' = fits q"
begin

lemma send_cases:
  assumes "wf q" "fits q m"
  obtains (sent) q' where "send m q = (True, q')" "length (contents q) < capacity q"
      "contents q' = contents q @ [m]" "wf q'" "capacity q' = capacity q" "fits q' = fits q"
  | (full) "send m q = (False, q)" "length (contents q) = capacity q"
  using assms bounded send_room send_full by (metis le_neq_implies_less)

text \<open>Every sequence of operations behaves like the list.\<close>

lemma run_refines:
  assumes "wf q" "\<And>m. Fifo_Send m \<in> set ops \<Longrightarrow> fits q m"
  shows "fst (fifo_run send recv ops q) =
      fst (fifo_run (fifo_send (capacity q)) fifo_recv ops (contents q)) \<and>
    contents (snd (fifo_run send recv ops q)) =
      snd (fifo_run (fifo_send (capacity q)) fifo_recv ops (contents q)) \<and>
    wf (snd (fifo_run send recv ops q))"
  using assms
proof (induction ops arbitrary: q)
  case (Cons op ops)
  show ?case
  proof (cases op)
    case (Fifo_Send m)
    have "fits q m" using Cons.prems(2) Fifo_Send by simp
    with Cons.prems(1) show ?thesis
    proof (cases rule: send_cases)
      case (sent q')
      then show ?thesis using Cons.IH [of q'] Cons.prems(2) Fifo_Send
        by (simp add: fifo_send_def split: prod.splits)
    next
      case full
      then show ?thesis using Cons.IH [OF Cons.prems(1)] Cons.prems(2) Fifo_Send
        by (simp add: fifo_send_def split: prod.splits)
    qed
  next
    case Fifo_Recv
    show ?thesis
    proof (cases "contents q")
      case Nil
      then show ?thesis using Cons.IH [OF Cons.prems(1)] Cons.prems Fifo_Recv recv_none
        by (simp add: fifo_recv_def split: prod.splits)
    next
      case (Cons m ms)
      from recv_oldest [OF Cons.prems(1) Cons] obtain q' where q': "recv q = (Some m, q')"
        "contents q' = ms" "wf q'" "capacity q' = capacity q" "fits q' = fits q" by blast
      then show ?thesis using Cons.IH [of q'] Cons.prems(2) Fifo_Recv Cons
        by (simp add: fifo_recv_def split: prod.splits)
    qed
  qed
qed simp

end

text \<open>The list itself, and the linked slots with messages of the queue's size.\<close>

interpretation list_fifo: bounded_fifo "fifo_send n" fifo_recv "\<lambda>q. q" "\<lambda>_. n" "\<lambda>_ _. True"
  "\<lambda>q. length q \<le> n" for n :: nat
  by unfold_locales (auto simp: fifo_send_def fifo_recv_def)

definition mq_send :: "bytes \<Rightarrow> rt_mq \<Rightarrow> bool \<times> rt_mq" where
  "mq_send buffer mq = (case rt_mq_send buffer mq of (r, mq) \<Rightarrow> (r = RT_EOK, mq))"

definition mq_recv :: "rt_mq \<Rightarrow> bytes option \<times> rt_mq" where
  "mq_recv mq =
     (case rt_mq_recv (mq_msg_size mq) mq of
        None \<Rightarrow> (None, mq)
      | Some (r, buffer, mq) \<Rightarrow> (if r = RT_EOK then Some buffer else None, mq))"

definition mq_fits :: "rt_mq \<Rightarrow> bytes \<Rightarrow> bool" where
  "mq_fits mq buffer \<longleftrightarrow> length buffer = mq_msg_size mq"

interpretation mq_fifo: bounded_fifo mq_send mq_recv mq_contents mq_max_msgs mq_fits mq_wf
proof unfold_locales
  fix mq assume "mq_wf mq"
  then obtain fs where inv: "mq_inv mq (mq_queue mq) fs {}" by (rule mq_wfE)
  show "length (mq_contents mq) \<le> mq_max_msgs mq"
    using mq_inv_length(1) [OF inv] by (simp add: mq_contents_def)
next
  fix mq m assume "mq_wf mq" and m: "mq_fits mq m" and room: "length (mq_contents mq) < mq_max_msgs mq"
  then obtain fs where inv: "mq_inv mq (mq_queue mq) fs {}" by (blast elim: mq_wfE)
  have "length m = mq_msg_size mq" "length (mq_queue mq) < mq_max_msgs mq"
    using m room by (simp_all add: mq_fits_def mq_contents_def)
  with inv obtain mq' i fs' where "rt_mq_send m mq = (RT_EOK, mq')" "mq_inv mq' (mq_queue mq @ [i]) fs' {}"
    "mq_contents mq' = mq_contents mq @ [m]" "mq_msg_size mq' = mq_msg_size mq"
    "mq_max_msgs mq' = mq_max_msgs mq" by (rule rt_mq_send_room)
  then show "\<exists>mq'. mq_send m mq = (True, mq') \<and> mq_contents mq' = mq_contents mq @ [m] \<and> mq_wf mq' \<and>
      mq_max_msgs mq' = mq_max_msgs mq \<and> mq_fits mq' = mq_fits mq"
    by (auto simp: mq_send_def mq_wf_def mq_fits_def fun_eq_iff)
next
  fix mq m assume "mq_wf mq" and m: "mq_fits mq m" and full: "length (mq_contents mq) = mq_max_msgs mq"
  then obtain fs where inv: "mq_inv mq (mq_queue mq) fs {}" by (blast elim: mq_wfE)
  show "mq_send m mq = (False, mq)"
    using rt_mq_send_full [OF inv] m full by (simp add: mq_send_def mq_fits_def mq_contents_def)
next
  fix mq assume "mq_wf mq" and empty: "mq_contents mq = []"
  then obtain fs where "mq_inv mq (mq_queue mq) fs {}" by (blast elim: mq_wfE)
  then show "mq_recv mq = (None, mq)"
    using empty by (simp add: mq_recv_def rt_mq_recv_def mq_inv_def mq_contents_def)
next
  fix mq m ms assume "mq_wf mq" and some: "mq_contents mq = m # ms"
  then obtain fs where inv: "mq_inv mq (mq_queue mq) fs {}" by (blast elim: mq_wfE)
  obtain i qs where q: "mq_queue mq = i # qs" "m = mq_slot mq i" "ms = map (mq_slot mq) qs"
    using some by (cases "mq_queue mq") (auto simp: mq_contents_def)
  from inv [unfolded q(1)] obtain mq' where "rt_mq_recv (mq_msg_size mq) mq = Some (RT_EOK, mq_slot mq i, mq')"
    "mq_inv mq' qs (i # fs) {}" "mq_contents mq' = map (mq_slot mq) qs"
    "mq_msg_size mq' = mq_msg_size mq" "mq_max_msgs mq' = mq_max_msgs mq" by (rule rt_mq_recv_some)
  then show "\<exists>mq'. mq_recv mq = (Some m, mq') \<and> mq_contents mq' = ms \<and> mq_wf mq' \<and>
      mq_max_msgs mq' = mq_max_msgs mq \<and> mq_fits mq' = mq_fits mq"
    by (auto simp: mq_recv_def mq_wf_def mq_fits_def fun_eq_iff q)
qed


section \<open>Interleaved regions\<close>

text \<open>
  Between the regions of one sender or receiver other threads and interrupts run theirs.  A
  configuration is the queue with the slots that are held: taken and not yet filled, filled for
  the tail, and taken by a receiver.
\<close>

record mq_conf =
  conf_mq :: rt_mq
  conf_taken :: "nat set"
  conf_filled :: "nat set"
  conf_received :: "nat set"

inductive mq_step :: "mq_conf \<Rightarrow> mq_conf \<Rightarrow> bool" where
  step_alloc: "mq_alloc (conf_mq c) = Some (m, mq) \<Longrightarrow>
    mq_step c (c\<lparr>conf_mq := mq, conf_taken := insert m (conf_taken c)\<rparr>)"
| step_fill: "m \<in> conf_taken c \<Longrightarrow> length buffer \<le> mq_msg_size (conf_mq c) \<Longrightarrow>
    mq_step c (c\<lparr>conf_mq := mq_fill m buffer (conf_mq c), conf_taken := conf_taken c - {m},
                conf_filled := insert m (conf_filled c)\<rparr>)"
| step_link: "m \<in> conf_filled c \<Longrightarrow> mq_link m (conf_mq c) = (r, mq) \<Longrightarrow>
    mq_step c (c\<lparr>conf_mq := mq, conf_filled := conf_filled c - {m}\<rparr>)"
| step_fill_urgent: "m \<in> conf_taken c \<Longrightarrow> length buffer \<le> mq_msg_size (conf_mq c) \<Longrightarrow>
    mq_step c (c\<lparr>conf_mq := mq_fill_urgent m buffer (conf_mq c)\<rparr>)"
| step_link_front: "m \<in> conf_taken c \<Longrightarrow> mq_link_front m (conf_mq c) = (r, mq) \<Longrightarrow>
    mq_step c (c\<lparr>conf_mq := mq, conf_taken := conf_taken c - {m}\<rparr>)"
| step_unlink: "mq_unlink (conf_mq c) = Some (m, mq) \<Longrightarrow>
    mq_step c (c\<lparr>conf_mq := mq, conf_received := insert m (conf_received c)\<rparr>)"
| step_release: "m \<in> conf_received c \<Longrightarrow>
    mq_step c (c\<lparr>conf_mq := mq_push_free (conf_mq c) m, conf_received := conf_received c - {m}\<rparr>)"

inductive_cases mq_stepE [consumes 1, case_names step_alloc step_fill step_link step_fill_urgent
  step_link_front step_unlink step_release]: "mq_step c c'"

definition conf_busy :: "mq_conf \<Rightarrow> nat set" where
  "conf_busy c = conf_taken c \<union> conf_filled c \<union> conf_received c"

definition conf_inv :: "mq_conf \<Rightarrow> bool" where
  "conf_inv c \<longleftrightarrow>
     (\<exists>qs fs. mq_inv (conf_mq c) qs fs (conf_busy c)) \<and>
     conf_taken c \<inter> conf_filled c = {} \<and> conf_taken c \<inter> conf_received c = {} \<and>
     conf_filled c \<inter> conf_received c = {} \<and>
     (\<forall>m \<in> conf_filled c. mq_next (conf_mq c) m = None)"

lemma conf_invI:
  assumes "mq_inv (conf_mq c) qs fs (conf_busy c)"
    and "conf_taken c \<inter> conf_filled c = {}" "conf_taken c \<inter> conf_received c = {}"
    "conf_filled c \<inter> conf_received c = {}" "\<And>m. m \<in> conf_filled c \<Longrightarrow> mq_next (conf_mq c) m = None"
  shows "conf_inv c"
  using assms by (auto simp: conf_inv_def)

lemma mq_next_frame:
  "mq_alloc mq = Some (m, mq') \<Longrightarrow> mq_next mq' = mq_next mq"
  "mq_unlink mq = Some (m, mq') \<Longrightarrow> mq_next mq' = mq_next mq"
  "mq_link m mq = (r, mq') \<Longrightarrow> mq_tail mq \<noteq> Some k \<Longrightarrow> mq_next mq' k = mq_next mq k"
  "mq_link_front m mq = (r, mq') \<Longrightarrow> k \<noteq> m \<Longrightarrow> mq_next mq' k = mq_next mq k"
  by (auto simp: mq_alloc_def mq_unlink_def mq_link_def mq_link_front_def mq_count_def Let_def
      split: option.splits if_splits)

lemma mq_inv_tail:
  "mq_inv mq qs fs busy \<Longrightarrow> k \<in> busy \<Longrightarrow> mq_tail mq \<noteq> Some k"
  by (auto simp: mq_inv_def dest!: last_in_set split: if_splits)

lemma conf_inv_step:
  assumes "mq_step c c'" "conf_inv c"
  shows "conf_inv c'"
proof -
  obtain qs fs where inv: "mq_inv (conf_mq c) qs fs (conf_busy c)"
    and dis: "conf_taken c \<inter> conf_filled c = {}" "conf_taken c \<inter> conf_received c = {}"
    "conf_filled c \<inter> conf_received c = {}"
    and nxt: "\<And>m. m \<in> conf_filled c \<Longrightarrow> mq_next (conf_mq c) m = None"
    using assms(2) by (auto simp: conf_inv_def)
  have out: "conf_busy c \<inter> set (qs @ fs) = {}" using inv by (simp add: mq_inv_def)
  from assms(1) show ?thesis
  proof (cases rule: mq_stepE)
    case (step_alloc m mq)
    from mq_alloc_inv [OF inv step_alloc(2)] obtain fs' where
      "fs = m # fs'" "mq_inv mq qs fs' (insert m (conf_busy c))" by blast
    then show ?thesis using dis nxt out mq_next_frame(1) [OF step_alloc(2)] unfolding step_alloc(1)
      by (intro conf_invI [where qs = qs and fs = fs']) (auto simp: conf_busy_def)
  next
    case (step_fill m buffer)
    have "conf_busy c' = conf_busy c" using step_fill by (auto simp: conf_busy_def)
    moreover have "mq_inv (mq_fill m buffer (conf_mq c)) qs fs (conf_busy c)"
      using step_fill by (intro mq_fill_inv(1) [OF inv]) (auto simp: conf_busy_def)
    ultimately show ?thesis using dis nxt step_fill
      by (intro conf_invI [where qs = qs and fs = fs]) (auto simp: mq_fill_def)
  next
    case (step_link m r mq)
    have "m \<in> conf_busy c" using step_link by (simp add: conf_busy_def)
    from mq_link_inv(2) [OF inv this nxt [OF step_link(2)] step_link(3)]
    have "mq_inv mq (qs @ [m]) fs (conf_busy c - {m})" .
    moreover have "conf_busy c' = conf_busy c - {m}" using step_link dis by (auto simp: conf_busy_def)
    moreover have "mq_next mq k = None" if "k \<in> conf_filled c" for k
      using mq_next_frame(3) [OF step_link(3) mq_inv_tail [OF inv]] nxt that by (auto simp: conf_busy_def)
    ultimately show ?thesis using dis step_link
      by (intro conf_invI [where qs = "qs @ [m]" and fs = fs]) auto
  next
    case (step_fill_urgent m buffer)
    have "mq_inv (mq_fill_urgent m buffer (conf_mq c)) qs fs (conf_busy c)"
      using step_fill_urgent by (intro mq_fill_inv(2) [OF inv]) (auto simp: conf_busy_def)
    then show ?thesis using dis nxt step_fill_urgent
      by (intro conf_invI [where qs = qs and fs = fs]) (auto simp: mq_fill_urgent_def conf_busy_def)
  next
    case (step_link_front m r mq)
    have "m \<in> conf_busy c" using step_link_front by (simp add: conf_busy_def)
    from mq_link_front_inv(2) [OF inv this step_link_front(3)]
    have "mq_inv mq (m # qs) fs (conf_busy c - {m})" .
    moreover have "conf_busy c' = conf_busy c - {m}"
      using step_link_front dis by (auto simp: conf_busy_def)
    moreover have "mq_next mq k = None" if "k \<in> conf_filled c" for k
      using mq_next_frame(4) [OF step_link_front(3), of k] nxt that dis step_link_front(2) by auto
    ultimately show ?thesis using dis step_link_front
      by (intro conf_invI [where qs = "m # qs" and fs = fs]) auto
  next
    case (step_unlink m mq)
    from mq_unlink_inv(1) [OF inv step_unlink(2)] obtain qs' where
      "qs = m # qs'" "mq_inv mq qs' fs (insert m (conf_busy c))" by blast
    then show ?thesis using dis nxt out mq_next_frame(2) [OF step_unlink(2)] unfolding step_unlink(1)
      by (intro conf_invI [where qs = qs' and fs = fs]) (auto simp: conf_busy_def)
  next
    case (step_release m)
    have "m \<in> conf_busy c" using step_release by (simp add: conf_busy_def)
    from mq_push_free_inv [OF inv this]
    have "mq_inv (mq_push_free (conf_mq c) m) qs (m # fs) (conf_busy c - {m})" .
    moreover have "conf_busy c' = conf_busy c - {m}" using step_release dis by (auto simp: conf_busy_def)
    ultimately show ?thesis using dis nxt step_release
      by (intro conf_invI [where qs = qs and fs = "m # fs"]) (auto simp: mq_push_free_def)
  qed
qed

lemma conf_inv_reach: "mq_step\<^sup>*\<^sup>* c c' \<Longrightarrow> conf_inv c \<Longrightarrow> conf_inv c'"
  by (induction rule: rtranclp_induct) (auto intro: conf_inv_step)

section \<open>The reset\<close>

lemma mq_reset_loop_returns:
  assumes "mq_inv (mq\<lparr>mq_entry := length qs\<rparr>) qs fs {}"
  shows "\<exists>mq' fs'. mq_reset_loop mq = Some mq' \<and> mq_inv (mq'\<lparr>mq_entry := 0\<rparr>) [] fs' {}"
  using assms
proof (induction qs arbitrary: mq fs)
  case Nil
  then show ?case by (subst mq_reset_loop.simps) (auto simp: mq_inv_def)
next
  case (Cons m qs)
  let ?mq = "mq\<lparr>mq_entry := length (m # qs)\<rparr>"
  have un: "mq_unlink ?mq = Some (m, mq\<lparr>mq_head := mq_next mq m,
      mq_tail := (if mq_tail mq = Some m then None else mq_tail mq), mq_entry := length qs\<rparr>)"
    using Cons.prems by (simp add: mq_unlink_def mq_inv_def)
  define mq1 where "mq1 = mq_push_free (mq\<lparr>mq_head := mq_next mq m,
      mq_tail := (if mq_tail mq = Some m then None else mq_tail mq)\<rparr>) m"
  have loop: "mq_reset_loop mq = mq_reset_loop mq1"
    using Cons.prems by (subst mq_reset_loop.simps) (simp add: mq_inv_def mq1_def)
  from mq_unlink_inv(1) [OF Cons.prems un]
  have "mq_inv (mq\<lparr>mq_head := mq_next mq m,
      mq_tail := (if mq_tail mq = Some m then None else mq_tail mq), mq_entry := length qs\<rparr>) qs fs {m}"
    by simp
  from mq_push_free_inv [OF this, of m]
  have "mq_inv (mq1\<lparr>mq_entry := length qs\<rparr>) qs (m # fs) {}"
    by (cases mq) (auto simp: mq1_def mq_push_free_def)
  from Cons.IH [OF this] show ?case by (simp add: loop)
qed

section \<open>Waiting\<close>

text \<open>
  A waiting operation that succeeds is the non-blocking one on the queue the last wake-up left,
  provided the other threads keep the queue well-formed.
\<close>

definition wakes_wf :: "mq_wakeup list \<Rightarrow> bool" where
  "wakes_wf ws \<longleftrightarrow> (\<forall>w \<in> set ws. \<forall>mq. mq_wf mq \<longrightarrow>
     mq_wf (wake_mq w mq) \<and> mq_msg_size (wake_mq w mq) = mq_msg_size mq)"

lemma mq_wait_ready:
  "mq_wait ready expired ws timeout mq = Some (RT_EOK, mq') \<Longrightarrow> expired \<noteq> RT_EOK \<Longrightarrow> mq_wf mq \<Longrightarrow> wakes_wf ws \<Longrightarrow>
   ready mq' \<and> mq_wf mq' \<and> mq_msg_size mq' = mq_msg_size mq"
proof (induction ws arbitrary: timeout mq)
  case Nil
  then show ?case by (subst (asm) mq_wait.simps) (auto split: if_splits)
next
  case (Cons w ws)
  have ws: "wakes_wf ws" and w: "mq_wf (wake_mq w mq)" "mq_msg_size (wake_mq w mq) = mq_msg_size mq"
    using Cons.prems by (auto simp: wakes_wf_def)
  show ?case
    using Cons.prems(1) Cons.IH [OF _ Cons.prems(2) w(1) ws] w(2) Cons.prems(2,3)
    by (subst (asm) mq_wait.simps) (auto simp: Let_def split: if_splits)
qed

lemma rt_mq_send_wait_appends:
  assumes "mq_wf mq" "wakes_wf ws" "length buffer = mq_msg_size mq"
    and "rt_mq_send_wait ws buffer timeout mq = Some (RT_EOK, mq')"
  obtains mq1 where "mq_wf mq1" "mq_send buffer mq1 = (True, mq')"
    "mq_contents mq' = mq_contents mq1 @ [buffer]"
proof -
  obtain mq1 where w: "mq_wait (\<lambda>mq. mq_free mq \<noteq> None) (- RT_EFULL) ws timeout mq = Some (RT_EOK, mq1)"
    and send: "rt_mq_send buffer mq1 = (RT_EOK, mq')"
    using assms(3,4) mq_wait_ready [OF _ _ assms(1,2)]
    by (auto simp: rt_mq_send_wait_def rt_mq_send_def split: option.splits if_splits)
  note r = mq_wait_ready [OF w _ assms(1,2)]
  have ok: "mq_send buffer mq1 = (True, mq')" using send by (simp add: mq_send_def)
  have wf: "mq_wf mq1" "mq_fits mq1 buffer" using r assms(3) by (simp_all add: mq_fits_def)
  then have "mq_contents mq' = mq_contents mq1 @ [buffer]"
    by (rule mq_fifo.send_cases) (use ok in simp_all)
  then show thesis using that wf(1) ok by blast
qed

section \<open>Results\<close>

definition example_pool :: rt_mq where
  "example_pool = rt_mq_init (\<lambda>_. replicate 4 0) 4 32"

lemma example_pool_wf: "mq_wf example_pool" "mq_contents example_pool = []" "mq_max_msgs example_pool = 4"
    "mq_msg_size example_pool = 4"
  using rt_mq_init_wf [of 32 4 "\<lambda>_. replicate 4 0"] by (simp_all add: example_pool_def rt_align_def)

text \<open>C29: The linked slots implement the bounded queue: for every sequence of sends of messages of
  the queue's size and of receives, the results are those of a list of at most \<open>max_msgs\<close>
  messages, oldest first, and the slots in the queue hold that list at the end.\<close>

theorem mq_refines_fifo:
  assumes "mq_wf mq" "\<And>m. Fifo_Send m \<in> set ops \<Longrightarrow> length m = mq_msg_size mq"
  shows "fst (fifo_run mq_send mq_recv ops mq) =
      fst (fifo_run (fifo_send (mq_max_msgs mq)) fifo_recv ops (mq_contents mq)) \<and>
    mq_contents (snd (fifo_run mq_send mq_recv ops mq)) =
      snd (fifo_run (fifo_send (mq_max_msgs mq)) fifo_recv ops (mq_contents mq))"
  using mq_fifo.run_refines [OF assms(1)] assms(2) by (simp add: mq_fits_def)

lemma mq_refines_fifo_witness:
  "fst (fifo_run mq_send mq_recv [Fifo_Send [1, 2, 3, 4], Fifo_Recv, Fifo_Recv] example_pool) =
     [Sent True, Received (Some [1, 2, 3, 4]), Received None]"
  using mq_refines_fifo [OF example_pool_wf(1), of "[Fifo_Send [1, 2, 3, 4], Fifo_Recv, Fifo_Recv]"]
  by (simp add: example_pool_wf fifo_send_def fifo_recv_def)

text \<open>C30: However the interrupt-protected regions of any number of senders and receivers
  interleave, no slot is lost or handed out twice: the queued, the free and the held slots
  partition the pool, the entry count is the number of queued slots, and every link of a
  filled slot succeeds.\<close>

theorem mq_interleaving_safe:
  assumes "mq_wf mq" and "mq_step\<^sup>*\<^sup>*
      \<lparr>conf_mq = mq, conf_taken = {}, conf_filled = {}, conf_received = {}\<rparr> c"
  shows "\<exists>qs fs. chain (mq_next (conf_mq c)) (mq_head (conf_mq c)) qs \<and>
      chain (mq_next (conf_mq c)) (mq_free (conf_mq c)) fs \<and> distinct (qs @ fs) \<and>
      conf_busy c \<inter> set (qs @ fs) = {} \<and>
      set (qs @ fs) \<union> conf_busy c = {..<mq_max_msgs (conf_mq c)} \<and>
      mq_entry (conf_mq c) = length qs \<and>
      (\<forall>m \<in> conf_filled c. fst (mq_link m (conf_mq c)) = RT_EOK)"
proof -
  have "conf_inv \<lparr>conf_mq = mq, conf_taken = {}, conf_filled = {}, conf_received = {}\<rparr>"
    using assms(1) by (auto simp: conf_inv_def mq_wf_def conf_busy_def)
  from conf_inv_reach [OF assms(2) this] obtain qs fs where
    inv: "mq_inv (conf_mq c) qs fs (conf_busy c)"
    and nxt: "\<And>m. m \<in> conf_filled c \<Longrightarrow> mq_next (conf_mq c) m = None"
    by (auto simp: conf_inv_def)
  have "fst (mq_link m (conf_mq c)) = RT_EOK" if "m \<in> conf_filled c" for m
  proof -
    have busy: "m \<in> conf_busy c" using that by (simp add: conf_busy_def)
    obtain r mq' where "mq_link m (conf_mq c) = (r, mq')" by fastforce
    with mq_link_inv(1) [OF inv busy nxt [OF that] this] show ?thesis by simp
  qed
  then show ?thesis using inv unfolding mq_inv_def by blast
qed

lemma mq_interleaving_safe_witness:
  "\<exists>c m. conf_taken c = {m} \<and> (\<exists>qs fs. set (qs @ fs) \<union> conf_busy c = {..<4})"
proof -
  let ?c = "\<lparr>conf_mq = example_pool, conf_taken = {}, conf_filled = {}, conf_received = {}\<rparr>"
  obtain fs where inv: "mq_inv example_pool [] fs {}"
    using mq_wfE [OF example_pool_wf(1)] example_pool_wf(2) by (metis map_is_Nil_conv mq_contents_def)
  obtain m mq where al: "mq_alloc example_pool = Some (m, mq)"
    using mq_alloc_full [OF inv] example_pool_wf(3) by (cases "mq_alloc example_pool") auto
  have step: "mq_step\<^sup>*\<^sup>* ?c (?c\<lparr>conf_mq := mq, conf_taken := {m}\<rparr>)"
    using step_alloc [of ?c m mq] al by (intro r_into_rtranclp) simp
  have "mq_max_msgs mq = 4" using mq_alloc_fields [OF al] example_pool_wf(3) by simp
  then show ?thesis
    using mq_interleaving_safe [OF example_pool_wf(1) step]
    by (intro exI [of _ "?c\<lparr>conf_mq := mq, conf_taken := {m}\<rparr>"] exI [of _ m]) auto
qed

text \<open>C31: The reset command terminates and empties the queue: its loop follows the pointers of the
  pool until the head is NULL, and on every well-formed queue it gets there, giving every slot
  back to the free list.\<close>

theorem mq_reset_terminates:
  assumes "mq_wf mq"
  shows "\<exists>mq'. rt_mq_control_reset mq = Some (RT_EOK, mq') \<and> mq_wf mq' \<and> mq_contents mq' = []"
proof -
  obtain fs where inv: "mq_inv mq (mq_queue mq) fs {}" using mq_wfE [OF assms] .
  then have "mq\<lparr>mq_entry := length (mq_queue mq)\<rparr> = mq" by (cases mq) (simp add: mq_inv_def)
  with inv obtain mq' fs' where "mq_reset_loop mq = Some mq'" "mq_inv (mq'\<lparr>mq_entry := 0\<rparr>) [] fs' {}"
    using mq_reset_loop_returns [where mq = mq and qs = "mq_queue mq" and fs = fs] by auto
  moreover from this have "mq_contents (mq'\<lparr>mq_entry := 0\<rparr>) = []"
    using mq_inv_queue by (simp add: mq_contents_def)
  ultimately show ?thesis by (auto simp: rt_mq_control_reset_def mq_wf_def)
qed

lemma mq_reset_terminates_witness:
  "\<exists>mq'. rt_mq_control_reset example_pool = Some (RT_EOK, mq') \<and> mq_contents mq' = []"
  using mq_reset_terminates [OF example_pool_wf(1)] by blast

end
