(* ===== verification/Ota_Remote.thy ===== *)
theory Ota_Remote
  imports Ota_Mqtt Rt_Mq
begin

text \<open>
  \<open>applications/ota/ota_remote.c\<close>: the controller of the batch update.  It asks a server over
  MQTT for the newest firmware, offers it to the user, downloads it over HTTP when the user
  accepts, and reports every stage.  The static \<open>remote\<close> context is a record; the world \<open>'w\<close> of
  the environment stands for the network, the clock and the storage.  The two message queues
  are bounded lists, which is what \<open>Rt_Mq\<close> proves of the kernel's.
\<close>

section \<open>Text\<close>

text \<open>\<open>copy_text\<close> into an array of \<open>n\<close> characters; the source may be NULL.\<close>

definition copy_text :: "nat \<Rightarrow> string option \<Rightarrow> string" where
  "copy_text n source = (case source of None \<Rightarrow> [] | Some s \<Rightarrow> take (n - 1) s)"

text \<open>The conversions \<open>%u\<close> and \<open>%08X\<close> of \<open>rt_snprintf\<close>, which stores \<open>take (n - 1)\<close> of its text.\<close>

fun decimal_text :: "nat \<Rightarrow> string" where
  "decimal_text n =
     (if n < 10 then [char_of (48 + n)] else decimal_text (n div 10) @ [char_of (48 + n mod 10)])"

declare decimal_text.simps [simp del]

definition upper_digit :: "nat \<Rightarrow> char" where
  "upper_digit n = char_of (if n < 10 then 48 + n else 55 + n)"

definition hex8_text :: "u32 \<Rightarrow> string" where
  "hex8_text w = map (\<lambda>i. upper_digit (unat w div 16 ^ i mod 16)) [7, 6, 5, 4, 3, 2, 1, 0]"

text \<open>The loop of \<open>ipv4_address_valid\<close>; the end of the list is the NUL.\<close>

fun ipv4_loop :: "nat \<Rightarrow> nat \<Rightarrow> nat \<Rightarrow> string \<Rightarrow> bool" where
  "ipv4_loop v digits octets [] = (if digits = 0 then False else octets + 1 = 4)"
| "ipv4_loop v digits octets (c # cs) =
     (let ch = (of_char c :: nat)
      in if 48 \<le> ch \<and> ch \<le> 57 then
           let v = v * 10 + (ch - 48); digits = digits + 1
           in if digits > 3 \<or> v > 255 then False else ipv4_loop v digits octets cs
         else if c \<noteq> CHR ''.'' then False
         else if digits = 0 then False
         else let octets = octets + 1
              in if octets \<ge> 4 then False else ipv4_loop 0 0 octets cs)"

definition ipv4_address_valid :: "string option \<Rightarrow> bool" where
  "ipv4_address_valid address =
     (case address of None \<Rightarrow> False | Some s \<Rightarrow> if s = [] then False else ipv4_loop 0 0 0 s)"

text \<open>The address between the prefix and the first colon, or the error.\<close>

definition broker_uri_server_ip :: "string option \<Rightarrow> nat \<Rightarrow> int \<times> string" where
  "broker_uri_server_ip uri address_size =
     (case uri of
        None \<Rightarrow> (OTA_ERROR_ARGUMENT, [])
      | Some u \<Rightarrow>
          if address_size = 0 \<or> take 6 u \<noteq> ''tcp://'' then (OTA_ERROR_ARGUMENT, [])
          else
            let address = takeWhile (\<lambda>c. c \<noteq> CHR '':'') (drop 6 u)
            in if length address = 0 \<or> length address \<ge> address_size then (OTA_ERROR_SIZE, [])
               else (if ipv4_address_valid (Some address) then OTA_OK else OTA_ERROR_ARGUMENT, address))"

section \<open>State\<close>

abbreviation (input) OTA_REMOTE_MQTT_PORT :: nat where "OTA_REMOTE_MQTT_PORT \<equiv> 1883"
abbreviation (input) OTA_MQTT_JSON_MAX_SIZE :: nat where "OTA_MQTT_JSON_MAX_SIZE \<equiv> 1536"
abbreviation (input) OTA_MQTT_TOPIC_MAX_SIZE :: nat where "OTA_MQTT_TOPIC_MAX_SIZE \<equiv> 128"
abbreviation (input) OTA_MQTT_QUEUE_DEPTH :: nat where "OTA_MQTT_QUEUE_DEPTH \<equiv> 4"
abbreviation (input) OTA_MQTT_TX_QUEUE_DEPTH :: nat where "OTA_MQTT_TX_QUEUE_DEPTH \<equiv> 8"
abbreviation (input) OTA_REMOTE_BROKER_URI_MAX_LEN :: nat where "OTA_REMOTE_BROKER_URI_MAX_LEN \<equiv> 127"
abbreviation (input) OTA_REMOTE_CREDENTIAL_MAX_LEN :: nat where "OTA_REMOTE_CREDENTIAL_MAX_LEN \<equiv> 63"
abbreviation (input) OTA_UI_PROGRESS_INTERVAL_MS :: u32 where "OTA_UI_PROGRESS_INTERVAL_MS \<equiv> 200"
abbreviation (input) OTA_MQTT_PROGRESS_INTERVAL_MS :: u32 where "OTA_MQTT_PROGRESS_INTERVAL_MS \<equiv> 2000"

definition OTA_CURRENT_FIRMWARE_VERSION_TEXT :: string where
  "OTA_CURRENT_FIRMWARE_VERSION_TEXT = ''V1.0.4''"

definition OTA_BOOTLOADER_VERSION_TEXT :: string where
  "OTA_BOOTLOADER_VERSION_TEXT = ''V1.0.0''"

datatype ota_remote_command_t =
    OTA_REMOTE_CMD_MQTT_MESSAGE string
  | OTA_REMOTE_CMD_CHECK
  | OTA_REMOTE_CMD_ACCEPT
  | OTA_REMOTE_CMD_DECLINE

record ota_mqtt_tx_message_t =
  tx_qos :: nat
  tx_retained :: bool
  tx_topic :: string
  tx_payload :: string

datatype lvww_firmware_state_t =
    LVWW_FIRMWARE_CHECKING
  | LVWW_FIRMWARE_UP_TO_DATE
  | LVWW_FIRMWARE_AVAILABLE
  | LVWW_FIRMWARE_DOWNLOADING
  | LVWW_FIRMWARE_VERIFYING
  | LVWW_FIRMWARE_READY
  | LVWW_FIRMWARE_ERROR

record lvww_firmware_info_t =
  fwi_state :: lvww_firmware_state_t
  fwi_current_version_code :: u32
  fwi_available_version_code :: u32
  fwi_package_size :: u32
  fwi_progress_percent :: u8
  fwi_mandatory :: bool
  fwi_current_version :: string
  fwi_available_version :: string
  fwi_release_notes :: string

record ota_remote_pending_update_t =
  pend_firmware_message_id :: string
  pend_target_version_code :: u32

record 'w ota_remote_storage_ops_t =
  sto_load :: "('w \<Rightarrow> (int \<times> ota_remote_pending_update_t) \<times> 'w) option"
  sto_save :: "(ota_remote_pending_update_t \<Rightarrow> 'w \<Rightarrow> int \<times> 'w) option"
  sto_clear :: "('w \<Rightarrow> 'w) option"

record 'w ota_remote_config_t =
  cfg_broker_uri :: "string option"
  cfg_username :: "string option"
  cfg_password :: "string option"
  cfg_auto_reboot :: bool
  cfg_enable_rollout_delay :: bool
  cfg_storage :: "'w ota_remote_storage_ops_t"

text \<open>
  A handle is a boolean: whether the mutex, the thread or the client exists.  The queues are
  \<open>None\<close> before they are created.  \<open>rem_ui_posts\<close> collects what was handed to the bound UI.
\<close>

record 'w ota_remote =
  rem_broker_uri :: string
  rem_pending_broker_uri :: string
  rem_username :: string
  rem_password :: string
  rem_device_id :: string
  rem_response_topic :: string
  rem_request_topic :: string
  rem_event_topic :: string
  rem_status_topic :: string
  rem_last_request_id :: string
  rem_will_json :: string
  rem_storage :: "'w ota_remote_storage_ops_t"
  rem_message_counter :: u32
  rem_auto_reboot :: bool
  rem_enable_rollout_delay :: bool
  rem_update_valid :: bool
  rem_update_in_progress :: bool
  rem_download_stage :: ota_http_stage_t
  rem_update :: ota_mqtt_version_response_t
  rem_ui_info :: lvww_firmware_info_t
  rem_ui :: bool
  rem_ui_posts :: "lvww_firmware_info_t list"
  rem_ui_server :: string
  rem_mqtt :: bool
  rem_queue :: "ota_remote_command_t list option"
  rem_tx_queue :: "ota_mqtt_tx_message_t list option"
  rem_lock :: bool
  rem_mqtt_lock :: bool
  rem_thread :: bool
  rem_tx_thread :: bool
  rem_mqtt_ready :: bool
  rem_mqtt_connect_stage :: nat
  rem_broker_update_pending :: bool
  rem_last_ui_progress_tick :: u32
  rem_last_mqtt_progress_tick :: u32
  rem_mqtt_last_result :: int

record umqtt_info =
  umq_uri :: string
  umq_client_id :: string
  umq_user_name :: "string option"
  umq_password :: "string option"
  umq_lwt_topic :: string
  umq_lwt_message :: string

text \<open>
  The environment: the WLAN state, the tick, sleeping, the unique identifier of the chip, the
  MQTT client, the JSON library and the HTTP client (whose progress callback is the controller's
  own), and the allocations of \<open>ota_remote_start\<close>.
\<close>

record 'w remote_env =
  env_wlan :: "'w \<Rightarrow> bool \<times> 'w"
  env_tick :: "'w \<Rightarrow> u32 \<times> 'w"
  env_mdelay :: "nat \<Rightarrow> 'w \<Rightarrow> 'w"
  env_uid :: "u32 \<times> u32 \<times> u32"
  env_umqtt_create :: "umqtt_info \<Rightarrow> 'w \<Rightarrow> bool \<times> 'w"
  env_umqtt_start :: "'w \<Rightarrow> int \<times> 'w"
  env_umqtt_subscribe :: "string \<Rightarrow> 'w \<Rightarrow> int \<times> 'w"
  env_umqtt_linked :: "'w \<Rightarrow> bool \<times> 'w"
  env_umqtt_publish :: "ota_mqtt_tx_message_t \<Rightarrow> 'w \<Rightarrow> int \<times> 'w"
  env_umqtt_delete :: "'w \<Rightarrow> 'w"
  env_json_alloc :: "nat \<Rightarrow> bool"
  env_json_print :: "cjson \<Rightarrow> nat \<Rightarrow> string option"
  env_json_parse :: "string \<Rightarrow> cjson option"
  env_http :: "'w http_env"
  env_mutexes :: "bool \<times> bool"
  env_queues :: "bool \<times> bool"
  env_threads :: "bool \<times> bool"

section \<open>Helpers\<close>

definition apply_pending_broker_uri :: "'w ota_remote \<Rightarrow> bool \<times> 'w ota_remote" where
  "apply_pending_broker_uri r =
     (if rem_broker_update_pending r
      then (True, r\<lparr>rem_broker_uri := copy_text 128 (Some (rem_pending_broker_uri r)),
                    rem_pending_broker_uri := [], rem_broker_update_pending := False\<rparr>)
      else (False, r))"

definition make_message_id :: "nat \<Rightarrow> 'w ota_remote \<Rightarrow> string \<times> 'w ota_remote" where
  "make_message_id output_size r =
     (let counter = rem_message_counter r + 1
      in (take (output_size - 1) (rem_device_id r @ ''-'' @ decimal_text (unat counter)),
          r\<lparr>rem_message_counter := counter\<rparr>))"

definition ui_publish :: "'w ota_remote \<Rightarrow> 'w ota_remote" where
  "ui_publish r = (if rem_ui r then r\<lparr>rem_ui_posts := rem_ui_posts r @ [rem_ui_info r]\<rparr> else r)"

definition ui_set_state :: "lvww_firmware_state_t \<Rightarrow> u8 \<Rightarrow> 'w ota_remote \<Rightarrow> 'w ota_remote" where
  "ui_set_state state progress r =
     ui_publish (r\<lparr>rem_ui_info := (rem_ui_info r)\<lparr>fwi_state := state, fwi_progress_percent := progress\<rparr>\<rparr>)"

definition enqueue_command :: "ota_remote_command_t \<Rightarrow> 'w ota_remote \<Rightarrow> int \<times> 'w ota_remote" where
  "enqueue_command command r =
     (case rem_queue r of
        None \<Rightarrow> (OTA_ERROR_STATE, r)
      | Some q \<Rightarrow>
          (case fifo_send OTA_MQTT_QUEUE_DEPTH command q of
             (ok, q) \<Rightarrow> (if ok then OTA_OK else OTA_ERROR_STATE, r\<lparr>rem_queue := Some q\<rparr>)))"

text \<open>
  The subscription's callback: \<open>None\<close> is a NULL message or payload; \<open>strlen\<close> does not apply, so
  the payload keeps every byte.
\<close>

definition mqtt_receive_callback :: "string option \<Rightarrow> 'w ota_remote \<Rightarrow> 'w ota_remote" where
  "mqtt_receive_callback message r =
     (case message of
        None \<Rightarrow> r
      | Some payload \<Rightarrow>
          if payload = [] \<or> length payload > OTA_MQTT_JSON_MAX_SIZE \<or> rem_queue r = None then r
          else snd (enqueue_command (OTA_REMOTE_CMD_MQTT_MESSAGE payload) r))"

definition mqtt_is_linked :: "'w remote_env \<Rightarrow> 'w ota_remote \<Rightarrow> 'w \<Rightarrow> bool \<times> 'w" where
  "mqtt_is_linked E r w =
     (if \<not> rem_mqtt_lock r then (False, w)
      else if rem_mqtt_ready r \<and> rem_mqtt r then env_umqtt_linked E w
      else (False, w))"

definition mqtt_enqueue ::
  "string \<Rightarrow> string \<Rightarrow> nat \<Rightarrow> bool \<Rightarrow> 'w ota_remote \<Rightarrow> int \<times> 'w ota_remote" where
  "mqtt_enqueue topic json qos retained r =
     (case rem_tx_queue r of
        None \<Rightarrow> (OTA_ERROR_STATE, r)
      | Some q \<Rightarrow>
          if length json = 0 \<or> length json > OTA_MQTT_JSON_MAX_SIZE \<or>
             length topic \<ge> OTA_MQTT_TOPIC_MAX_SIZE
          then (OTA_ERROR_SIZE, r)
          else
            let message = \<lparr>tx_qos = qos, tx_retained = retained,
                           tx_topic = copy_text 128 (Some topic), tx_payload = json\<rparr>
            in case fifo_send OTA_MQTT_TX_QUEUE_DEPTH message q of
                 (ok, q) \<Rightarrow> (if ok then OTA_OK else OTA_ERROR_STATE, r\<lparr>rem_tx_queue := Some q\<rparr>))"

definition mqtt_publish_json :: "string \<Rightarrow> string \<Rightarrow> bool \<Rightarrow> 'w ota_remote \<Rightarrow> int \<times> 'w ota_remote" where
  "mqtt_publish_json topic json retained r = mqtt_enqueue topic json 1 retained r"

definition mqtt_publish_progress :: "string \<Rightarrow> string \<Rightarrow> 'w ota_remote \<Rightarrow> int \<times> 'w ota_remote" where
  "mqtt_publish_progress topic json r = mqtt_enqueue topic json 0 False r"

text \<open>One iteration of the transmit thread; an empty queue leaves it waiting.\<close>

definition mqtt_tx_entry :: "'w remote_env \<Rightarrow> 'w ota_remote \<Rightarrow> 'w \<Rightarrow> 'w ota_remote \<times> 'w" where
  "mqtt_tx_entry E r w =
     (case rem_tx_queue r of
        None \<Rightarrow> (r, w)
      | Some q \<Rightarrow>
          (case fifo_recv q of
             (None, q) \<Rightarrow> (r, w)
           | (Some message, q) \<Rightarrow>
               let r = r\<lparr>rem_tx_queue := Some q\<rparr>
               in if rem_mqtt_ready r \<and> rem_mqtt r then
                    (case env_umqtt_linked E w of
                       (linked, w) \<Rightarrow>
                         (r, if linked then snd (env_umqtt_publish E message w) else w))
                  else (r, w)))"


section \<open>Publishing\<close>

definition publish_status :: "'w remote_env \<Rightarrow> bool \<Rightarrow> 'w ota_remote \<Rightarrow> int \<times> 'w ota_remote" where
  "publish_status E online r =
     (let status = \<lparr>dst_device_id = copy_text 48 (Some (rem_device_id r)),
                     dst_current_version_code = OTA_CURRENT_FIRMWARE_VERSION_CODE,
                     dst_online = online,
                     dst_current_version = copy_text 24 (Some OTA_CURRENT_FIRMWARE_VERSION_TEXT)\<rparr>
      in case ota_mqtt_build_device_status (env_json_alloc E) (env_json_print E) (Some status) False 1537 of
           (result, json) \<Rightarrow>
             if result = OTA_OK then mqtt_publish_json (rem_status_topic r) (the json) True r
             else (result, r))"

definition publish_version_request :: "'w remote_env \<Rightarrow> 'w ota_remote \<Rightarrow> int \<times> 'w ota_remote" where
  "publish_version_request E r =
     (let (message_id, r) = make_message_id 48 r;
          r = r\<lparr>rem_last_request_id := copy_text 48 (Some message_id)\<rparr>;
          request = \<lparr>vrq_message_id = message_id,
                     vrq_device_id = copy_text 48 (Some (rem_device_id r)),
                     vrq_hardware_id = OTA_HARDWARE_ID,
                     vrq_current_version_code = OTA_CURRENT_FIRMWARE_VERSION_CODE,
                     vrq_current_version = copy_text 24 (Some OTA_CURRENT_FIRMWARE_VERSION_TEXT),
                     vrq_bootloader_version = copy_text 24 (Some OTA_BOOTLOADER_VERSION_TEXT)\<rparr>
      in case ota_mqtt_build_version_request (env_json_alloc E) (env_json_print E) (Some request) False 1537 of
           (result, json) \<Rightarrow>
             if result = OTA_OK then mqtt_publish_json (rem_request_topic r) (the json) False r
             else (result, r))"

definition publish_update_event_internal ::
  "'w remote_env \<Rightarrow> ota_mqtt_event_type_t \<Rightarrow> string \<Rightarrow> u32 \<Rightarrow> u8 \<Rightarrow> int \<Rightarrow> bool \<Rightarrow> 'w ota_remote \<Rightarrow>
     int \<times> 'w ota_remote" where
  "publish_update_event_internal E event_type stage received percent error progress_qos0 r =
     (let (message_id, r) = make_message_id 48 r;
          event = \<lparr>evt_message_id = message_id,
                   evt_device_id = copy_text 48 (Some (rem_device_id r)),
                   evt_firmware_message_id = copy_text 48 (Some (vrs_message_id (rem_update r))),
                   evt_event = ota_mqtt_event_code event_type,
                   evt_version_code = vrs_version_code (rem_update r),
                   evt_received_size = received,
                   evt_package_size = vrs_package_size (rem_update r),
                   evt_error_code = error,
                   evt_progress_percent = percent,
                   evt_stage = copy_text 24 (Some stage),
                   evt_error_message =
                     (if error \<noteq> OTA_OK then copy_text 96 (Some (ota_result_string error)) else [])\<rparr>
      in case ota_mqtt_build_update_event (env_json_alloc E) (env_json_print E) (Some event) False 1537 of
           (result, json) \<Rightarrow>
             if result \<noteq> OTA_OK then (result, r)
             else if progress_qos0 then mqtt_publish_progress (rem_event_topic r) (the json) r
             else mqtt_publish_json (rem_event_topic r) (the json) False r)"

definition publish_update_event ::
  "'w remote_env \<Rightarrow> ota_mqtt_event_type_t \<Rightarrow> string \<Rightarrow> u32 \<Rightarrow> u8 \<Rightarrow> int \<Rightarrow> 'w ota_remote \<Rightarrow>
     int \<times> 'w ota_remote" where
  "publish_update_event E event_type stage received percent error r =
     publish_update_event_internal E event_type stage received percent error False r"

text \<open>The event after the reboot into an installed version.\<close>

definition publish_completed_if_pending ::
  "'w remote_env \<Rightarrow> 'w ota_remote \<Rightarrow> 'w \<Rightarrow> 'w ota_remote \<times> 'w" where
  "publish_completed_if_pending E r w =
     (case sto_load (rem_storage r) of
        None \<Rightarrow> (r, w)
      | Some load \<Rightarrow>
          (case load w of
             ((result, pending), w) \<Rightarrow>
               if result = OTA_OK \<and>
                  pend_target_version_code pending = OTA_CURRENT_FIRMWARE_VERSION_CODE \<and>
                  pend_firmware_message_id pending \<noteq> []
               then
                 let r = r\<lparr>rem_update := version_response_zero
                       \<lparr>vrs_message_id := copy_text 48 (Some (pend_firmware_message_id pending)),
                        vrs_version_code := pend_target_version_code pending\<rparr>\<rparr>
                 in (case publish_update_event E OTA_MQTT_EVENT_COMPLETED ''boot'' 0 100 OTA_OK r of
                       (result, r) \<Rightarrow>
                         if result = OTA_OK then
                           (case sto_clear (rem_storage r) of
                              None \<Rightarrow> (r, w) | Some clear \<Rightarrow> (r, clear w))
                         else (r, w))
               else (r, w)))"

section \<open>The download\<close>

text \<open>The progress callback of the HTTP client; its world is the world and the controller.\<close>

definition remote_http_progress ::
  "'w remote_env \<Rightarrow> ota_http_stage_t \<Rightarrow> u32 \<Rightarrow> u32 \<Rightarrow> nat \<Rightarrow> 'w \<times> 'w ota_remote \<Rightarrow>
     int \<times> 'w \<times> 'w ota_remote" where
  "remote_http_progress E stage received total_size percent wr =
     (let (w, r) = wr;
          r = r\<lparr>rem_download_stage := stage\<rparr>;
          (ready, w) = env_wlan E w
      in if \<not> ready then (OTA_ERROR_NETWORK, w, r)
         else case stage of
           OTA_HTTP_STAGE_DOWNLOAD \<Rightarrow>
             let (now, w) = env_tick E w
             in if percent = 0 then
                  let r = r\<lparr>rem_last_ui_progress_tick := now, rem_last_mqtt_progress_tick := now\<rparr>;
                      r = ui_set_state LVWW_FIRMWARE_DOWNLOADING (of_nat percent) r;
                      (_, r) = publish_update_event E OTA_MQTT_EVENT_DOWNLOAD_STARTED ''download''
                                 received (of_nat percent) OTA_OK r
                  in (OTA_OK, w, r)
                else
                  let r = (if percent = 100 \<or>
                              now - rem_last_ui_progress_tick r \<ge> OTA_UI_PROGRESS_INTERVAL_MS
                           then ui_set_state LVWW_FIRMWARE_DOWNLOADING (of_nat percent)
                                  (r\<lparr>rem_last_ui_progress_tick := now\<rparr>)
                           else r);
                      r = (if percent < 100 \<and>
                              now - rem_last_mqtt_progress_tick r \<ge> OTA_MQTT_PROGRESS_INTERVAL_MS
                           then snd (publish_update_event_internal E OTA_MQTT_EVENT_DOWNLOAD_PROGRESS
                                  ''download'' received (of_nat percent) OTA_OK True
                                  (r\<lparr>rem_last_mqtt_progress_tick := now\<rparr>))
                           else r)
                  in (OTA_OK, w, r)
         | OTA_HTTP_STAGE_VERIFY \<Rightarrow>
             let r = ui_set_state LVWW_FIRMWARE_VERIFYING 100 r;
                 (_, r) = publish_update_event E OTA_MQTT_EVENT_VERIFYING ''verify'' received 100 OTA_OK r
             in (OTA_OK, w, r)
         | OTA_HTTP_STAGE_COMMIT \<Rightarrow>
             let r = ui_set_state LVWW_FIRMWARE_READY 100 r;
                 (_, r) = publish_update_event E OTA_MQTT_EVENT_COMMITTED ''commit'' received 100 OTA_OK r
             in (OTA_OK, w, r))"

text \<open>The HTTP client over the pair of the world and the controller.\<close>

definition remote_http :: "'w remote_env \<Rightarrow> ('w \<times> 'w ota_remote) http_env" where
  "remote_http E =
     (let H = env_http E
      in \<lparr>http_malloc = (\<lambda>(w, r). case http_malloc H w of (ok, w) \<Rightarrow> (ok, w, r)),
          http_session_create = (\<lambda>(w, r). case http_session_create H w of (ok, w) \<Rightarrow> (ok, w, r)),
          http_get = (\<lambda>url (w, r). case http_get H url w of (status, w) \<Rightarrow> (status, w, r)),
          http_content_length = (\<lambda>(w, r). case http_content_length H w of (n, w) \<Rightarrow> (n, w, r)),
          http_read = (\<lambda>n (w, r). case http_read H n w of (k, buf, w) \<Rightarrow> (k, buf, w, r)),
          http_close = (\<lambda>(w, r). (http_close H w, r)),
          http_free = (\<lambda>(w, r). (http_free H w, r)),
          http_progress = Some (remote_http_progress E)\<rparr>)"

definition save_pending_update :: "'w ota_remote \<Rightarrow> 'w \<Rightarrow> int \<times> 'w" where
  "save_pending_update r w =
     (case sto_save (rem_storage r) of
        None \<Rightarrow> (OTA_OK, w)
      | Some save \<Rightarrow>
          save \<lparr>pend_firmware_message_id = copy_text 48 (Some (vrs_message_id (rem_update r))),
                pend_target_version_code = vrs_version_code (rem_update r)\<rparr> w)"

text \<open>The roll-out delay, one second at a time while the WLAN is up.\<close>

fun rollout_wait :: "'w remote_env \<Rightarrow> nat \<Rightarrow> 'w \<Rightarrow> 'w" where
  "rollout_wait E 0 w = w"
| "rollout_wait E (Suc delay) w =
     (case env_wlan E w of
        (ready, w) \<Rightarrow> if ready then rollout_wait E delay (env_mdelay E 1000 w) else w)"

definition rollout_delay :: "'w remote_env \<Rightarrow> 'w ota_remote \<Rightarrow> 'w \<Rightarrow> 'w" where
  "rollout_delay E r w =
     (if rem_enable_rollout_delay r \<and> vrs_rollout_delay_max_seconds (rem_update r) \<noteq> 0 then
        case env_tick E w of
          (tick, w) \<Rightarrow>
            rollout_wait E (unat ((fst (env_uid E) XOR tick) mod
              (vrs_rollout_delay_max_seconds (rem_update r) + 1))) w
      else w)"

text \<open>The code after the label \<open>failed\<close>.\<close>

definition run_update_failed ::
  "'w remote_env \<Rightarrow> string \<Rightarrow> int \<Rightarrow> 'w ota_remote \<Rightarrow> 'w ota_remote" where
  "run_update_failed E failure_stage result r =
     (let stage = (if failure_stage = ''download'' \<and> rem_download_stage r = OTA_HTTP_STAGE_VERIFY
                   then ''verify''
                   else if failure_stage = ''download'' \<and> rem_download_stage r = OTA_HTTP_STAGE_COMMIT
                   then ''commit'' else failure_stage);
          r = ui_set_state LVWW_FIRMWARE_ERROR 0 (r\<lparr>rem_update_in_progress := False\<rparr>)
      in snd (publish_update_event E OTA_MQTT_EVENT_FAILED stage 0 0 result r))"

definition update_request :: "'w ota_remote \<Rightarrow> ota_http_request_t" where
  "update_request r =
     \<lparr>req_url = Some (vrs_download_url (rem_update r)),
      req_package_size = vrs_package_size (rem_update r),
      req_package_crc32 = vrs_package_crc32 (rem_update r),
      req_package_sha256 = Some (vrs_package_sha256 (rem_update r))\<rparr>"

text \<open>
  The result: whether the CPU was reset, the world, the controller and the update service;
  \<open>None\<close> is a failed assertion of the partition layer.  First the code after the download.
\<close>

definition run_update_end ::
  "'w remote_env \<Rightarrow> int \<Rightarrow> 'w \<Rightarrow> 'w ota_remote \<Rightarrow> 'f ota_sys \<Rightarrow>
     (bool \<times> 'w \<times> 'w ota_remote \<times> 'f ota_sys) option" where
  "run_update_end E result w r s =
     (if result \<noteq> OTA_OK then Some (False, w, run_update_failed E ''download'' result r, s)
      else case save_pending_update r w of
        (result, w) \<Rightarrow>
          if result \<noteq> OTA_OK then Some (False, w, run_update_failed E ''persistence'' result r, s)
          else
            let r = r\<lparr>rem_update_valid := False\<rparr>
            in if rem_auto_reboot r then
                 let (_, r) = publish_update_event E OTA_MQTT_EVENT_REBOOTING ''reboot''
                                (vrs_package_size (rem_update r)) 100 OTA_OK r
                 in case ota_reboot_to_install 1000 s of
                      CpuReset \<Rightarrow> Some (True, w, r, s)
                    | Returned _ \<Rightarrow> Some (False, w, r\<lparr>rem_update_in_progress := False\<rparr>, s)
               else Some (False, w, r\<lparr>rem_update_in_progress := False\<rparr>, s))"

definition run_update ::
  "'w remote_env \<Rightarrow> 'f ota_env \<Rightarrow> 'w ota_remote \<Rightarrow> 'w \<Rightarrow> 'f ota_sys \<Rightarrow>
     (bool \<times> 'w \<times> 'w ota_remote \<times> 'f ota_sys) option" where
  "run_update E OE r w s =
     (if \<not> rem_update_valid r then Some (False, w, r, s)
      else
        let r = r\<lparr>rem_download_stage := OTA_HTTP_STAGE_DOWNLOAD, rem_last_ui_progress_tick := 0,
                  rem_last_mqtt_progress_tick := 0\<rparr>;
            (_, r) = publish_update_event E OTA_MQTT_EVENT_UPDATE_ACCEPTED ''decision'' 0 0 OTA_OK r;
            w = rollout_delay E r w;
            (ready, w) = env_wlan E w
        in if \<not> ready then Some (False, w, run_update_failed E ''download'' OTA_ERROR_NETWORK r, s)
           else do {
             (result, (w, r), s) \<leftarrow> ota_http_download (remote_http E) OE (Some (update_request r)) (w, r) s;
             run_update_end E result w r s
           })"

section \<open>Commands and calls\<close>

definition handle_version_response ::
  "'w remote_env \<Rightarrow> string \<Rightarrow> 'w ota_remote \<Rightarrow> 'w ota_remote" where
  "handle_version_response E payload r =
     (case ota_mqtt_parse_version_response (env_json_parse E) (Some payload) (Some version_response_zero) of
        (result, response) \<Rightarrow>
          if result \<noteq> OTA_OK then r
          else
            let response = the response
            in if vrs_request_message_id response \<noteq> rem_last_request_id r \<or>
                  vrs_device_id response \<noteq> rem_device_id r \<or>
                  vrs_hardware_id response \<noteq> OTA_HARDWARE_ID then r
               else if \<not> vrs_update_available response \<or>
                       vrs_version_code response \<le> OTA_CURRENT_FIRMWARE_VERSION_CODE
               then ui_publish (r\<lparr>rem_update_valid := False,
                      rem_ui_info := (rem_ui_info r)\<lparr>fwi_state := LVWW_FIRMWARE_UP_TO_DATE,
                        fwi_available_version_code := 0, fwi_available_version := [],
                        fwi_release_notes := []\<rparr>\<rparr>)
               else if rem_update_valid r \<and> vrs_message_id (rem_update r) = vrs_message_id response then r
               else ui_publish (r\<lparr>rem_update := response, rem_update_valid := True,
                      rem_ui_info := (rem_ui_info r)\<lparr>fwi_state := LVWW_FIRMWARE_AVAILABLE,
                        fwi_available_version_code := vrs_version_code response,
                        fwi_package_size := vrs_package_size response,
                        fwi_mandatory := vrs_mandatory response,
                        fwi_available_version := copy_text 24 (Some (vrs_version response)),
                        fwi_release_notes := copy_text 192 (Some (vrs_release_notes response))\<rparr>\<rparr>))"

definition disconnect_mqtt :: "'w remote_env \<Rightarrow> 'w ota_remote \<Rightarrow> 'w \<Rightarrow> 'w ota_remote \<times> 'w" where
  "disconnect_mqtt E r w =
     (let r = r\<lparr>rem_mqtt_ready := False\<rparr>
      in if rem_mqtt r then (r\<lparr>rem_mqtt := False\<rparr>, env_umqtt_delete E w) else (r, w))"

definition connect_mqtt :: "'w remote_env \<Rightarrow> 'w ota_remote \<Rightarrow> 'w \<Rightarrow> int \<times> 'w ota_remote \<times> 'w" where
  "connect_mqtt E r w =
     (let info = \<lparr>umq_uri = rem_broker_uri r, umq_client_id = rem_device_id r,
                   umq_user_name = (if rem_username r \<noteq> [] then Some (rem_username r) else None),
                   umq_password = (if rem_password r \<noteq> [] then Some (rem_password r) else None),
                   umq_lwt_topic = rem_status_topic r, umq_lwt_message = rem_will_json r\<rparr>;
          r = r\<lparr>rem_mqtt_connect_stage := 1, rem_mqtt_last_result := OTA_OK\<rparr>;
          (created, w) = env_umqtt_create E info w
      in if \<not> created
         then (OTA_ERROR_NO_MEMORY, r\<lparr>rem_mqtt := False, rem_mqtt_last_result := OTA_ERROR_NO_MEMORY\<rparr>, w)
         else
           let r = r\<lparr>rem_mqtt := True, rem_mqtt_connect_stage := 2\<rparr>;
               (mqtt_result, w) = env_umqtt_start E w;
               (mqtt_result, r, w) =
                 (if mqtt_result \<ge> 0 then
                    let r = r\<lparr>rem_mqtt_connect_stage := 3\<rparr>;
                        (mqtt_result, w) = env_umqtt_subscribe E (rem_response_topic r) w
                    in (mqtt_result, r, w)
                  else (mqtt_result, r, w))
           in if mqtt_result < 0
              then (OTA_ERROR_NETWORK, r\<lparr>rem_mqtt_last_result := mqtt_result, rem_mqtt := False\<rparr>,
                    env_umqtt_delete E w)
              else
                let r = r\<lparr>rem_mqtt_ready := True, rem_mqtt_connect_stage := 4,
                          rem_mqtt_last_result := mqtt_result\<rparr>;
                    (_, r) = publish_status E True r;
                    (r, w) = publish_completed_if_pending E r w;
                    (result, r) = publish_version_request E r
                in (result, r, w))"


text \<open>One command of the controller's thread.\<close>

definition remote_dispatch ::
  "'w remote_env \<Rightarrow> 'f ota_env \<Rightarrow> ota_remote_command_t \<Rightarrow> 'w ota_remote \<Rightarrow> 'w \<Rightarrow> 'f ota_sys \<Rightarrow>
     (bool \<times> 'w \<times> 'w ota_remote \<times> 'f ota_sys) option" where
  "remote_dispatch E OE command r w s =
     (case command of
        OTA_REMOTE_CMD_MQTT_MESSAGE payload \<Rightarrow> Some (False, w, handle_version_response E payload r, s)
      | OTA_REMOTE_CMD_CHECK \<Rightarrow>
          Some (False, w, snd (publish_version_request E (ui_set_state LVWW_FIRMWARE_CHECKING 0 r)), s)
      | OTA_REMOTE_CMD_ACCEPT \<Rightarrow> run_update E OE r w s
      | OTA_REMOTE_CMD_DECLINE \<Rightarrow>
          Some (False, w,
            if rem_update_valid r
            then snd (publish_update_event E OTA_MQTT_EVENT_UPDATE_DECLINED ''decision'' 0 0 OTA_OK r)
            else r, s))"

text \<open>
  One iteration of the inner loop of \<open>ota_remote_entry\<close>: it leaves the loop when the WLAN or the
  broker is gone or a new broker address is pending, and otherwise handles one command.
\<close>

datatype poll_next = Poll_Again | Poll_Offline | Poll_Reconnect | Poll_Reset

definition remote_poll ::
  "'w remote_env \<Rightarrow> 'f ota_env \<Rightarrow> 'w ota_remote \<Rightarrow> 'w \<Rightarrow> 'f ota_sys \<Rightarrow>
     (poll_next \<times> 'w \<times> 'w ota_remote \<times> 'f ota_sys) option" where
  "remote_poll E OE r w s =
     (let (ready, w) = env_wlan E w
      in if \<not> ready then Some (Poll_Offline, w, r, s)
         else
           let (linked, w) = mqtt_is_linked E r w
           in if \<not> linked then Some (Poll_Offline, w, r, s)
              else
                let (changed, r) = apply_pending_broker_uri r
                in if changed then Some (Poll_Reconnect, w, r, s)
                   else case rem_queue r of
                          None \<Rightarrow> Some (Poll_Again, w, r, s)
                        | Some q \<Rightarrow>
                            (case fifo_recv q of
                               (None, q) \<Rightarrow> Some (Poll_Again, w, r, s)
                             | (Some command, q) \<Rightarrow> do {
                                 (reset, w, r, s) \<leftarrow>
                                   remote_dispatch E OE command (r\<lparr>rem_queue := Some q\<rparr>) w s;
                                 Some (if reset then Poll_Reset else Poll_Again, w, r, s)
                               }))"

text \<open>
  The start and the end of one iteration of the outer loop, around the inner one: waiting for the
  WLAN is one turn of its loop, \<open>False\<close> says that the loop starts over.
\<close>

definition remote_connect_round ::
  "'w remote_env \<Rightarrow> 'w ota_remote \<Rightarrow> 'w \<Rightarrow> bool \<times> 'w ota_remote \<times> 'w" where
  "remote_connect_round E r w =
     (let (ready, w) = env_wlan E w
      in if \<not> ready
         then (False, snd (apply_pending_broker_uri r), env_mdelay E 1000 w)
         else
           let r = snd (apply_pending_broker_uri r);
               (result, r, w) = connect_mqtt E r w
           in if result \<noteq> OTA_OK
              then case disconnect_mqtt E r w of
                     (r, w) \<Rightarrow> (False, r, env_mdelay E 5000 w)
              else (True, r, w))"

definition remote_close_round ::
  "'w remote_env \<Rightarrow> bool \<Rightarrow> 'w ota_remote \<Rightarrow> 'w \<Rightarrow> 'w ota_remote \<times> 'w" where
  "remote_close_round E reconnect_requested r w =
     (case disconnect_mqtt E r w of
        (r, w) \<Rightarrow> (r, if reconnect_requested then w else env_mdelay E 5000 w))"

section \<open>The interface of the module\<close>

definition ota_remote_default_config :: "'w ota_remote_config_t" where
  "ota_remote_default_config =
     \<lparr>cfg_broker_uri = Some ''tcp://127.0.0.1:1883'', cfg_username = Some ''test_user'',
      cfg_password = Some ''123456'', cfg_auto_reboot = True, cfg_enable_rollout_delay = True,
      cfg_storage = \<lparr>sto_load = None, sto_save = None, sto_clear = None\<rparr>\<rparr>"

definition ota_remote_get_device_id :: "'w remote_env \<Rightarrow> nat \<Rightarrow> int \<times> string" where
  "ota_remote_get_device_id E device_id_size =
     (if device_id_size = 0 then (OTA_ERROR_ARGUMENT, [])
      else
        let (w0, w1, w2) = env_uid E;
            uid_text = ''H743-'' @ hex8_text w0 @ hex8_text w1 @ hex8_text w2
        in (if 0 < length uid_text \<and> length uid_text < device_id_size then OTA_OK else OTA_ERROR_SIZE,
            take (device_id_size - 1) uid_text))"

definition ota_remote_set_server_ip :: "string option \<Rightarrow> 'w ota_remote \<Rightarrow> int \<times> 'w ota_remote" where
  "ota_remote_set_server_ip ipv4_address r =
     (if \<not> ipv4_address_valid ipv4_address \<or> \<not> rem_lock r then (OTA_ERROR_ARGUMENT, r)
      else
        let uri = ''tcp://'' @ the ipv4_address @ '':'' @ decimal_text OTA_REMOTE_MQTT_PORT
        in if length uri = 0 \<or> length uri \<ge> 128 then (OTA_ERROR_SIZE, r)
           else (OTA_OK, r\<lparr>rem_pending_broker_uri := copy_text 128 (Some uri),
                           rem_broker_update_pending := True\<rparr>))"

definition ota_remote_request_version :: "'w ota_remote \<Rightarrow> int \<times> 'w ota_remote" where
  "ota_remote_request_version r = enqueue_command OTA_REMOTE_CMD_CHECK r"

definition ota_remote_accept_update :: "'w ota_remote \<Rightarrow> int \<times> 'w ota_remote" where
  "ota_remote_accept_update r =
     (if \<not> rem_lock r then (OTA_ERROR_STATE, r)
      else if \<not> rem_update_valid r \<or> rem_update_in_progress r then (OTA_ERROR_STATE, r)
      else
        let r = r\<lparr>rem_update_in_progress := True\<rparr>;
            (result, r) = enqueue_command OTA_REMOTE_CMD_ACCEPT r
        in (result, if result \<noteq> OTA_OK then r\<lparr>rem_update_in_progress := False\<rparr> else r))"

definition ota_remote_decline_update :: "'w ota_remote \<Rightarrow> int \<times> 'w ota_remote" where
  "ota_remote_decline_update r = enqueue_command OTA_REMOTE_CMD_DECLINE r"

definition ota_remote_bind_ui :: "bool \<Rightarrow> 'w ota_remote \<Rightarrow> 'w ota_remote" where
  "ota_remote_bind_ui ui r =
     (if \<not> rem_lock r then r
      else
        let r = r\<lparr>rem_ui := ui\<rparr>
        in if ui then
             (case broker_uri_server_ip (Some (rem_broker_uri r)) 16 of
                (result, address) \<Rightarrow>
                  ui_publish (if result = OTA_OK then r\<lparr>rem_ui_server := copy_text 16 (Some address)\<rparr> else r))
           else r)"

text \<open>The callbacks the UI gets report success or failure only.\<close>

definition ui_update_callback :: "'w ota_remote \<Rightarrow> bool \<times> 'w ota_remote" where
  "ui_update_callback r = apfst (\<lambda>result. result = OTA_OK) (ota_remote_accept_update r)"

definition ui_server_address_callback :: "string option \<Rightarrow> 'w ota_remote \<Rightarrow> bool \<times> 'w ota_remote" where
  "ui_server_address_callback address r =
     apfst (\<lambda>result. result = OTA_OK) (ota_remote_set_server_ip address r)"

text \<open>
  \<open>lvww_firmware_info_init\<close> of the weather component; its texts are UTF-8, given by their bytes.
\<close>

definition utf8_text :: "nat list \<Rightarrow> string" where
  "utf8_text bs = map char_of bs"

definition firmware_info_zero :: lvww_firmware_info_t where
  "firmware_info_zero = \<lparr>fwi_state = LVWW_FIRMWARE_CHECKING, fwi_current_version_code = 0,
     fwi_available_version_code = 0, fwi_package_size = 0, fwi_progress_percent = 0,
     fwi_mandatory = False, fwi_current_version = [], fwi_available_version = [],
     fwi_release_notes = []\<rparr>"

definition lvww_firmware_info_init :: lvww_firmware_info_t where
  "lvww_firmware_info_init = firmware_info_zero
     \<lparr>fwi_state := LVWW_FIRMWARE_CHECKING,
      fwi_current_version := take 23 (utf8_text [230, 156, 170, 231, 159, 165]),
      fwi_available_version := take 23 (utf8_text
       [231, 173, 137, 229, 190, 133, 230, 156, 141, 229, 138, 161, 229, 153, 168]),
      fwi_release_notes := take 191 (utf8_text
       [232, 174, 190, 229, 164, 135, 232, 129, 148, 231, 189, 145, 229, 144, 142, 229, 176, 134,
       233, 128, 154, 232, 191, 135, 32, 77, 81, 84, 84, 32, 230, 159, 165, 232, 175, 162, 230,
       156, 128, 230, 150, 176, 229, 155, 186, 228, 187, 182, 227, 128, 130])\<rparr>"

definition remote_zero :: "'w ota_remote" where
  "remote_zero =
     \<lparr>rem_broker_uri = [], rem_pending_broker_uri = [], rem_username = [], rem_password = [],
      rem_device_id = [], rem_response_topic = [], rem_request_topic = [], rem_event_topic = [],
      rem_status_topic = [], rem_last_request_id = [], rem_will_json = [],
      rem_storage = \<lparr>sto_load = None, sto_save = None, sto_clear = None\<rparr>,
      rem_message_counter = 0, rem_auto_reboot = False, rem_enable_rollout_delay = False,
      rem_update_valid = False, rem_update_in_progress = False,
      rem_download_stage = OTA_HTTP_STAGE_DOWNLOAD, rem_update = version_response_zero,
      rem_ui_info = firmware_info_zero, rem_ui = False, rem_ui_posts = [], rem_ui_server = [],
      rem_mqtt = False, rem_queue = None, rem_tx_queue = None, rem_lock = False,
      rem_mqtt_lock = False, rem_thread = False, rem_tx_thread = False, rem_mqtt_ready = False,
      rem_mqtt_connect_stage = 0, rem_broker_update_pending = False,
      rem_last_ui_progress_tick = 0, rem_last_mqtt_progress_tick = 0, rem_mqtt_last_result = 0\<rparr>"

definition config_invalid :: "'w ota_remote_config_t \<Rightarrow> bool" where
  "config_invalid config \<longleftrightarrow>
     (case cfg_broker_uri config of
        None \<Rightarrow> True | Some uri \<Rightarrow> length uri > OTA_REMOTE_BROKER_URI_MAX_LEN) \<or>
     (case cfg_username config of
        None \<Rightarrow> False | Some t \<Rightarrow> length t > OTA_REMOTE_CREDENTIAL_MAX_LEN) \<or>
     (case cfg_password config of
        None \<Rightarrow> False | Some t \<Rightarrow> length t > OTA_REMOTE_CREDENTIAL_MAX_LEN)"

definition ota_remote_start ::
  "'w remote_env \<Rightarrow> 'f ota_env \<Rightarrow> 'w ota_remote_config_t option \<Rightarrow>
     'w ota_remote \<Rightarrow> 'f ota_sys \<Rightarrow> int \<times> 'w ota_remote \<times> 'f ota_sys" where
  "ota_remote_start E OE config r s =
     (if rem_thread r then (OTA_OK, r, s)
      else
        let config = (case config of None \<Rightarrow> ota_remote_default_config | Some c \<Rightarrow> c)
        in if config_invalid config then (OTA_ERROR_ARGUMENT, r, s)
           else
             let (result, s) = ota_service_init OE s
             in if result \<noteq> OTA_OK then (result, r, s)
                else
                  let r = remote_zero
                        \<lparr>rem_broker_uri := copy_text 128 (cfg_broker_uri config),
                         rem_username := copy_text 64 (cfg_username config),
                         rem_password := copy_text 64 (cfg_password config),
                         rem_auto_reboot := cfg_auto_reboot config,
                         rem_enable_rollout_delay := cfg_enable_rollout_delay config,
                         rem_storage := cfg_storage config\<rparr>;
                      (result, device_id) = ota_remote_get_device_id E 48;
                      r = r\<lparr>rem_device_id := device_id\<rparr>
                  in if result \<noteq> OTA_OK then (result, r, s)
                     else
                       let topic = (\<lambda>suffix. take 127 (''ota/v1/device/'' @ device_id @ suffix));
                           r = r\<lparr>rem_response_topic := topic ''/version/response'',
                                 rem_request_topic := topic ''/version/request'',
                                 rem_event_topic := topic ''/update/event'',
                                 rem_status_topic := topic ''/status''\<rparr>;
                           will = \<lparr>dst_device_id = copy_text 48 (Some device_id),
                                   dst_current_version_code = OTA_CURRENT_FIRMWARE_VERSION_CODE,
                                   dst_online = False,
                                   dst_current_version = copy_text 24 (Some OTA_CURRENT_FIRMWARE_VERSION_TEXT)\<rparr>;
                           (result, json) = ota_mqtt_build_device_status (env_json_alloc E)
                                              (env_json_print E) (Some will) False 1537
                       in if result \<noteq> OTA_OK then (result, r, s)
                          else
                            let r = r\<lparr>rem_will_json := the json,
                                      rem_ui_info := lvww_firmware_info_init\<lparr>fwi_state := LVWW_FIRMWARE_CHECKING,
                                        fwi_current_version_code := OTA_CURRENT_FIRMWARE_VERSION_CODE,
                                        fwi_current_version :=
                                          copy_text 24 (Some OTA_CURRENT_FIRMWARE_VERSION_TEXT)\<rparr>,
                                      rem_lock := fst (env_mutexes E),
                                      rem_mqtt_lock := snd (env_mutexes E),
                                      rem_queue := (if fst (env_queues E) then Some [] else None),
                                      rem_tx_queue := (if snd (env_queues E) then Some [] else None)\<rparr>
                            in if \<not> rem_lock r \<or> \<not> rem_mqtt_lock r \<or> rem_queue r = None \<or>
                                  rem_tx_queue r = None
                               then (OTA_ERROR_NO_MEMORY, r, s)
                               else
                                 let r = r\<lparr>rem_tx_thread := fst (env_threads E),
                                           rem_thread := snd (env_threads E)\<rparr>
                                 in if \<not> rem_tx_thread r \<or> \<not> rem_thread r
                                    then (OTA_ERROR_NO_MEMORY, r, s)
                                    else (OTA_OK, r, s))"

end
