(* ===== verification/Ota_Remote_Safety.thy ===== *)
theory Ota_Remote_Safety
  imports Ota_Remote
begin

text \<open>
  Properties of the update controller: what the publishing routines and the progress callback
  leave alone, the invariant of the controller in every reachable state, what a finished update
  has installed, and the two sequences of events that leave the controller unusable or its offer
  corrupted.
\<close>

section \<open>Worlds of the HTTP client\<close>

text \<open>A property of the world that every operation of the client preserves.\<close>

definition http_preserves :: "'w http_env \<Rightarrow> ('w \<Rightarrow> bool) \<Rightarrow> bool" where
  "http_preserves W P \<longleftrightarrow>
     (\<forall>w. P w \<longrightarrow>
        P (snd (http_malloc W w)) \<and> P (snd (http_session_create W w)) \<and>
        (\<forall>url. P (snd (http_get W url w))) \<and> P (snd (http_content_length W w)) \<and>
        (\<forall>n. P (snd (snd (http_read W n w)))) \<and> P (http_close W w) \<and> P (http_free W w) \<and>
        (\<forall>cb stage a b p. http_progress W = Some cb \<longrightarrow> P (snd (cb stage a b p w))))"

lemma http_preservesD:
  assumes "http_preserves W P" "P w"
  shows "http_malloc W w = (ok, w1) \<Longrightarrow> P w1" "http_session_create W w = (ok, w1) \<Longrightarrow> P w1"
    "http_get W url w = (n, w1) \<Longrightarrow> P w1" "http_content_length W w = (n, w1) \<Longrightarrow> P w1"
    "http_read W k w = (n, buf, w1) \<Longrightarrow> P w1" "P (http_close W w)" "P (http_free W w)"
    "notify_progress W stage a b p w = (n, w1) \<Longrightarrow> P w1"
proof -
  note A = assms(1) [unfolded http_preserves_def, rule_format, OF assms(2)]
  show "http_malloc W w = (ok, w1) \<Longrightarrow> P w1" "http_session_create W w = (ok, w1) \<Longrightarrow> P w1"
    "http_content_length W w = (n, w1) \<Longrightarrow> P w1" "P (http_close W w)" "P (http_free W w)"
    using A by (simp_all add: prod_eq_iff)
  show "http_get W url w = (n, w1) \<Longrightarrow> P w1" using A by (metis snd_conv)
  show "http_read W k w = (n, buf, w1) \<Longrightarrow> P w1" using A by (metis snd_conv)
  show "notify_progress W stage a b p w = (n, w1) \<Longrightarrow> P w1"
  proof -
    assume call: "notify_progress W stage a b p w = (n, w1)"
    show "P w1"
    proof (cases "http_progress W")
      case (Some cb)
      obtain res w2 where "cb stage a b p w = (res, w2)" by fastforce
      moreover have "P (snd (cb stage a b p w))" using A Some by blast
      ultimately show ?thesis using call Some by (simp add: notify_progress_def split: if_splits)
    qed (use call assms(2) in \<open>simp add: notify_progress_def\<close>)
  qed
qed

lemma http_receive_loop_preserves:
  assumes "http_preserves W P" "P w"
    "http_receive_loop W E pkg received lastp sha w s = Some (r, received', sha', w', s')"
  shows "P w'"
  using assms(2,3)
proof (induction "unat pkg - unat received" arbitrary: received lastp sha w s rule: less_induct)
  case less
  show ?case
  proof (cases "received < pkg")
    case False
    then show ?thesis using less.prems by (auto simp: http_receive_loop.simps)
  next
    case lt: True
    define remaining where "remaining = pkg - received"
    define chunk where "chunk = (if remaining < OTA_HTTP_BUFFER_SIZE then remaining else OTA_HTTP_BUFFER_SIZE)"
    obtain n buf w1 where rd: "http_read W chunk w = (n, buf, w1)" by (metis prod.exhaust)
    note step = less.prems(2) [unfolded http_receive_loop_step [OF lt, of W E lastp sha w s, unfolded Let_def,
        folded remaining_def, folded chunk_def, unfolded rd prod.case]]
    have P1: "P w1" by (rule http_preservesD(5) [OF assms(1) less.prems(1) rd])
    show ?thesis
    proof (cases "n \<le> 0 \<or> n > int (unat remaining)")
      case True
      then show ?thesis using step P1 by (auto split: if_splits)
    next
      case False
      then have n: "\<not> n \<le> 0" "\<not> n > int (unat remaining)" by simp_all
      have prog: "unat pkg - unat (received + word_of_int n) < unat pkg - unat received"
        using read_step(4) [OF lt n(1)] n(2) by (simp add: remaining_def)
      note IH = less.hyps [OF prog]
      show ?thesis
        using step n P1
        by (auto split: Option.bind_splits if_splits prod.splits
            dest: http_preservesD(8) [OF assms(1) P1] intro: IH)
    qed
  qed
qed

text \<open>The same for programs, with one rule per construct.\<close>

definition ends_in :: "('w \<Rightarrow> bool) \<Rightarrow> (int \<times> 'w \<times> 'f ota_sys) option \<Rightarrow> bool" where
  "ends_in P x \<longleftrightarrow> (\<forall>r w s. x = Some (r, w, s) \<longrightarrow> P w)"

lemma ends_in_Some: "P w \<Longrightarrow> ends_in P (Some (r, w, s))"
  by (simp add: ends_in_def)

lemma ends_in_if: "ends_in P x \<Longrightarrow> ends_in P y \<Longrightarrow> ends_in P (if b then x else y)"
  by simp

lemma ends_in_bind:
  assumes "\<And>a b. ends_in P (k (a, b))"
  shows "ends_in P (x \<bind> k)"
proof (cases x)
  case (Some ab)
  then show ?thesis using assms by (cases ab) simp
qed (simp add: ends_in_def)

lemma ends_in_world:
  "P (snd y) \<Longrightarrow> (\<And>n w1. P w1 \<Longrightarrow> ends_in P (k n w1)) \<Longrightarrow> ends_in P (case y of (n, w1) \<Rightarrow> k n w1)"
  by (cases y) simp

lemma ends_in_sum:
  "P w \<Longrightarrow> (\<And>x. ends_in P (k x)) \<Longrightarrow>
   ends_in P (case y of Inl e \<Rightarrow> Some (e, w, s) | Inr x \<Rightarrow> k x)"
  by (cases y) (simp_all add: ends_in_Some)

lemma ends_in_notify:
  assumes "http_preserves W P" "P w" "\<And>n w1. P w1 \<Longrightarrow> ends_in P (k n w1)"
  shows "ends_in P (case notify_progress W stage a b p w of (n, w1) \<Rightarrow> k n w1)"
  using http_preservesD(8) [OF assms(1,2)] assms(3) by (auto split: prod.splits)

lemma ends_in_loop:
  assumes "http_preserves W P" "P w" "\<And>r n h w1 t. P w1 \<Longrightarrow> ends_in P (k (r, n, h, w1, t))"
  shows "ends_in P (http_receive_loop W E pkg received lastp sha w s \<bind> k)"
proof (cases "http_receive_loop W E pkg received lastp sha w s")
  case (Some x)
  obtain r n h w1 t where x: "x = (r, n, h, w1, t)" by (metis prod.exhaust)
  have "P w1" using http_receive_loop_preserves [OF assms(1,2)] Some x by blast
  then show ?thesis using assms(3) by (simp add: Some x)
qed (simp add: ends_in_def)

lemma ends_in_exit:
  assumes "http_preserves W P" "P w"
  shows "ends_in P (http_exit W E begun session buffer result w s)"
  using http_preservesD(6,7) [OF assms(1)] assms(2)
  by (auto simp: ends_in_def http_exit_def Let_def split: Option.bind_splits if_splits)

lemma http_transfer_preserves:
  assumes pres: "http_preserves W P" and P: "P w"
  shows "ends_in P (http_transfer W E pkg c expected w s)"
  unfolding http_transfer_def Let_def
  by (rule ends_in_bind, simp only: prod.case)
     ((simp only: prod.case | rule ends_in_exit [OF pres] | rule ends_in_if | rule P | assumption |
       rule ends_in_notify [OF pres] | rule ends_in_loop [OF pres] | rule ends_in_bind)+)

lemma http_download_preserves:
  assumes pres: "http_preserves W P" and P: "P w"
    and call: "ota_http_download W E request w s = Some (r, w', s')"
  shows "P w'"
proof -
  have D: "P v \<Longrightarrow> P (snd (http_malloc W v))" "P v \<Longrightarrow> P (snd (http_session_create W v))"
    "P v \<Longrightarrow> P (snd (http_get W url v))" "P v \<Longrightarrow> P (snd (http_content_length W v))" for v url
    using pres by (auto simp: http_preserves_def)
  have "ends_in P (ota_http_download W E request w s)"
  proof (cases request)
    case (Some q)
    show ?thesis
    proof (cases "req_url q = None \<or> req_package_sha256 q = None")
      case True
      then show ?thesis using P Some by (auto simp: ota_http_download_def ends_in_Some split: option.splits)
    next
      case False
      then obtain url t where q: "req_url q = Some url" "req_package_sha256 q = Some t" by auto
      show ?thesis
        unfolding ota_http_download_def Some option.case q Let_def prod.case
        by ((rule ends_in_if | (rule ends_in_Some, rule P) | (rule ends_in_sum, rule P) | rule ends_in_world | rule D | rule P |
             assumption | rule ends_in_exit [OF pres] | rule http_transfer_preserves [OF pres])+)
    qed
  qed (use P in \<open>simp add: ota_http_download_def ends_in_Some\<close>)
  then show ?thesis using call by (auto simp: ends_in_def)
qed

section \<open>What publishing leaves alone\<close>

definition tx_bounded :: "'w ota_remote \<Rightarrow> bool" where
  "tx_bounded r \<longleftrightarrow>
     (case rem_tx_queue r of None \<Rightarrow> True | Some q \<Rightarrow> length q \<le> OTA_MQTT_TX_QUEUE_DEPTH)"

definition rx_bounded :: "'w ota_remote \<Rightarrow> bool" where
  "rx_bounded r \<longleftrightarrow>
     (case rem_queue r of None \<Rightarrow> True | Some q \<Rightarrow> length q \<le> OTA_MQTT_QUEUE_DEPTH)"

text \<open>
  The reporting routines change the message counter, the transmit queue, the last request, the
  UI's information and the progress marks, and nothing the decisions depend on.
\<close>

definition rem_frame :: "'w ota_remote \<Rightarrow> 'w ota_remote \<Rightarrow> bool" where
  "rem_frame r r' \<longleftrightarrow>
     rem_update_valid r' = rem_update_valid r \<and> rem_update r' = rem_update r \<and>
     rem_update_in_progress r' = rem_update_in_progress r \<and> rem_device_id r' = rem_device_id r \<and>
     rem_queue r' = rem_queue r \<and> rem_lock r' = rem_lock r \<and> rem_storage r' = rem_storage r \<and>
     rem_auto_reboot r' = rem_auto_reboot r \<and>
     rem_enable_rollout_delay r' = rem_enable_rollout_delay r \<and> (tx_bounded r \<longrightarrow> tx_bounded r')"

named_theorems rem_frames \<open>what the reporting routines leave alone\<close>

lemma rem_frame_refl [rem_frames]: "rem_frame r r"
  by (simp add: rem_frame_def)

lemma rem_frame_trans [trans]: "rem_frame a b \<Longrightarrow> rem_frame b c \<Longrightarrow> rem_frame a c"
  by (simp add: rem_frame_def)

lemma rem_frame_ui [rem_frames]: "rem_frame r (ui_publish r)" "rem_frame r (ui_set_state st p r)"
  by (simp_all add: rem_frame_def ui_publish_def ui_set_state_def tx_bounded_def)

lemma rem_frame_enqueue: "mqtt_enqueue topic json qos retained r = (result, r') \<Longrightarrow> rem_frame r r'"
  by (auto simp: mqtt_enqueue_def rem_frame_def tx_bounded_def fifo_send_def Let_def
      split: option.splits if_splits)

lemma rem_frame_message_id: "make_message_id n r = (text_id, r') \<Longrightarrow> rem_frame r r'"
  by (auto simp: make_message_id_def rem_frame_def tx_bounded_def Let_def)

lemma rem_frame_event_internal:
  "publish_update_event_internal E ev stage received percent error qos0 r = (result, r') \<Longrightarrow> rem_frame r r'"
  by (auto simp: publish_update_event_internal_def mqtt_publish_progress_def mqtt_publish_json_def Let_def
      split: prod.splits if_splits dest!: rem_frame_message_id rem_frame_enqueue intro: rem_frame_trans)

lemma rem_frame_event:
  "publish_update_event E ev stage received percent error r = (result, r') \<Longrightarrow> rem_frame r r'"
  by (simp add: publish_update_event_def rem_frame_event_internal)

lemma rem_frame_events [rem_frames]:
  "rem_frame r (snd (publish_update_event_internal E ev stage received percent error qos0 r))"
  "rem_frame r (snd (publish_update_event E ev stage received percent error r))"
  by (metis rem_frame_event_internal prod.collapse) (metis rem_frame_event prod.collapse)

lemma rem_frame_request:
  "publish_version_request E r = (result, r') \<Longrightarrow> rem_frame r r'"
proof -
  assume call: "publish_version_request E r = (result, r')"
  obtain text_id r1 where mk: "make_message_id 48 r = (text_id, r1)" by fastforce
  let ?r = "r1\<lparr>rem_last_request_id := copy_text 48 (Some text_id)\<rparr>"
  have f1: "rem_frame r ?r"
    using rem_frame_message_id [OF mk] by (simp add: rem_frame_def tx_bounded_def)
  have "r' = ?r \<or> (\<exists>topic json qos ret res. mqtt_enqueue topic json qos ret ?r = (res, r'))"
    using call unfolding publish_version_request_def Let_def mk
    by (auto simp: mqtt_publish_json_def split: prod.splits if_splits)
  then show ?thesis using f1 rem_frame_enqueue rem_frame_trans by blast
qed

lemma rem_frame_status: "publish_status E online r = (result, r') \<Longrightarrow> rem_frame r r'"
  by (auto simp: publish_status_def mqtt_publish_json_def Let_def rem_frames
      split: prod.splits if_splits dest!: rem_frame_enqueue)

lemma rem_frame_progress:
  "remote_http_progress E stage received total_size percent (w, r) = (result, w', r') \<Longrightarrow> rem_frame r r'"
proof -
  assume call: "remote_http_progress E stage received total_size percent (w, r) = (result, w', r')"
  have base: "\<And>t. rem_frame r (r\<lparr>rem_download_stage := t\<rparr>)"
    "\<And>t r1. rem_frame r r1 \<Longrightarrow> rem_frame r (r1\<lparr>rem_last_ui_progress_tick := t\<rparr>)"
    "\<And>t r1. rem_frame r r1 \<Longrightarrow> rem_frame r (r1\<lparr>rem_last_mqtt_progress_tick := t\<rparr>)"
    by (simp_all add: rem_frame_def tx_bounded_def)
  have next_ui: "\<And>r1 st p. rem_frame r r1 \<Longrightarrow> rem_frame r (ui_set_state st p r1)"
    using rem_frame_trans rem_frame_ui(2) by blast
  have next_ev: "\<And>r1 ev st a b e q. rem_frame r r1 \<Longrightarrow>
      rem_frame r (snd (publish_update_event_internal E ev st a b e q r1))"
    "\<And>r1 ev st a b e. rem_frame r r1 \<Longrightarrow> rem_frame r (snd (publish_update_event E ev st a b e r1))"
    using rem_frame_trans rem_frame_events by blast+
  show ?thesis
    using call
    by (auto simp: remote_http_progress_def Let_def case_prod_unfold
        intro!: base next_ui next_ev split: prod.splits if_splits ota_http_stage_t.splits)
qed


section \<open>The invariant of the controller\<close>

text \<open>
  What a valid offer is: a newer version for this device and this hardware, with a size, a digest
  and a URL the HTTP client accepts.
\<close>

definition offer_ok :: "'w ota_remote \<Rightarrow> bool" where
  "offer_ok r \<longleftrightarrow>
     (let q = rem_update r
      in vrs_update_available q \<and> vrs_version_code q > OTA_CURRENT_FIRMWARE_VERSION_CODE \<and>
         vrs_hardware_id q = OTA_HARDWARE_ID \<and> vrs_device_id q = rem_device_id r \<and>
         256 \<le> unat (vrs_package_size q) \<and> unat (vrs_package_size q) \<le> 1048576 \<and>
         (\<exists>digest. parse_sha256 (Some (vrs_package_sha256 q)) = Inr digest) \<and>
         take 7 (vrs_download_url q) = ''http://'')"

definition remote_inv :: "'w ota_remote \<Rightarrow> bool" where
  "remote_inv r \<longleftrightarrow> rx_bounded r \<and> tx_bounded r \<and>
     (rem_update_valid r \<longrightarrow> offer_ok r \<or> vrs_package_size (rem_update r) = 0)"

lemma remote_inv_frame: "rem_frame r r' \<Longrightarrow> remote_inv r \<Longrightarrow> remote_inv r'"
  by (simp add: rem_frame_def remote_inv_def rx_bounded_def offer_ok_def Let_def)

lemma remote_inv_update:
  "remote_inv (r\<lparr>rem_ui_info := i\<rparr>) = remote_inv r" "remote_inv (r\<lparr>rem_update_in_progress := b\<rparr>) = remote_inv r"
  "remote_inv (r\<lparr>rem_download_stage := g\<rparr>) = remote_inv r"
  "remote_inv (r\<lparr>rem_last_ui_progress_tick := t\<rparr>) = remote_inv r"
  "remote_inv (r\<lparr>rem_last_mqtt_progress_tick := t\<rparr>) = remote_inv r"
  "remote_inv r \<Longrightarrow> remote_inv (r\<lparr>rem_update_valid := False\<rparr>)"
  "remote_inv (r\<lparr>rem_mqtt := b\<rparr>) = remote_inv r" "remote_inv (r\<lparr>rem_mqtt_ready := b\<rparr>) = remote_inv r"
  "remote_inv (r\<lparr>rem_mqtt_connect_stage := n\<rparr>) = remote_inv r"
  "remote_inv (r\<lparr>rem_mqtt_last_result := k\<rparr>) = remote_inv r" "remote_inv (r\<lparr>rem_ui := b\<rparr>) = remote_inv r"
  "remote_inv (r\<lparr>rem_ui_server := txt1\<rparr>) = remote_inv r"
  by (simp_all add: remote_inv_def rx_bounded_def tx_bounded_def offer_ok_def Let_def)

lemma remote_inv_ui: "remote_inv (ui_publish r) = remote_inv r"
  by (simp add: ui_publish_def remote_inv_def rx_bounded_def tx_bounded_def offer_ok_def Let_def)

lemma remote_inv_handle:
  assumes "remote_inv r"
  shows "remote_inv (handle_version_response E payload r)"
proof -
  obtain result response where parse: "ota_mqtt_parse_version_response (env_json_parse E) (Some payload)
      (Some version_response_zero) = (result, response)" by fastforce
  show ?thesis
  proof (cases "result = OTA_OK \<and> vrs_update_available (the response) \<and>
      \<not> vrs_version_code (the response) \<le> OTA_CURRENT_FIRMWARE_VERSION_CODE \<and>
      vrs_device_id (the response) = rem_device_id r \<and> vrs_hardware_id (the response) = OTA_HARDWARE_ID")
    case False
    then show ?thesis using assms parse
      by (auto simp: handle_version_response_def Let_def remote_inv_ui remote_inv_update not_less)
  next
    case True
    then obtain q where q: "response = Some q" using parse
      by (auto simp: ota_mqtt_parse_version_response_def apsnd_def map_prod_def
          split: if_splits option.splits cjson.splits prod.splits)
    from parse_response_tree [OF parse [unfolded q]] True obtain tree where
      "ota_mqtt_parse_tree tree version_response_zero = (OTA_OK, q)" by auto
    note ok = parse_tree_ok(2) [OF this]
    have "offer_ok (r\<lparr>rem_update := q, rem_update_valid := True, rem_ui_info := i\<rparr>)" for i
      using True ok hex_string_sha256 by (auto simp: offer_ok_def Let_def q not_le)
    then have new: "remote_inv (r\<lparr>rem_update := q, rem_update_valid := True, rem_ui_info := i\<rparr>)" for i
      using assms by (simp add: remote_inv_def rx_bounded_def tx_bounded_def)
    show ?thesis
      using assms parse True new
      by (simp add: handle_version_response_def Let_def q remote_inv_ui)
  qed
qed

lemma remote_inv_events:
  "remote_inv r \<Longrightarrow> remote_inv (snd (publish_update_event_internal E ev st a b e q r))"
  "remote_inv r \<Longrightarrow> remote_inv (snd (publish_update_event E ev st a b e r))"
  "remote_inv r \<Longrightarrow> remote_inv (ui_set_state state p r)"
  "remote_inv r \<Longrightarrow> remote_inv (snd (publish_version_request E r))"
  "remote_inv r \<Longrightarrow> remote_inv (snd (publish_status E online r))"
  by (rule remote_inv_frame [OF rem_frame_events(1)] remote_inv_frame [OF rem_frame_events(2)]
       remote_inv_frame [OF rem_frame_ui(2)]
       remote_inv_frame [OF rem_frame_request [OF surjective_pairing]]
       remote_inv_frame [OF rem_frame_status [OF surjective_pairing]], assumption)+

lemma remote_inv_enqueue: "remote_inv r \<Longrightarrow> remote_inv (snd (enqueue_command command r))"
  by (auto simp: enqueue_command_def remote_inv_def rx_bounded_def tx_bounded_def offer_ok_def fifo_send_def
      split: option.splits)

lemma remote_inv_callback: "remote_inv r \<Longrightarrow> remote_inv (mqtt_receive_callback message r)"
  by (auto simp: mqtt_receive_callback_def remote_inv_enqueue split: option.splits)

lemma mqtt_tx_entry_cases:
  assumes "mqtt_tx_entry E r w = (r', w')"
  shows "r' = r \<or> (\<exists>m q. rem_tx_queue r = Some (m # q) \<and> r' = r\<lparr>rem_tx_queue := Some q\<rparr>)"
proof (cases "rem_tx_queue r")
  case (Some q)
  then show ?thesis using assms
    by (cases q) (auto simp: mqtt_tx_entry_def fifo_recv_def Let_def split: if_splits prod.splits)
qed (use assms in \<open>simp add: mqtt_tx_entry_def\<close>)

lemma remote_inv_tx: "remote_inv r \<Longrightarrow> mqtt_tx_entry E r w = (r', w') \<Longrightarrow> remote_inv r'"
  by (drule mqtt_tx_entry_cases)
     (auto simp: remote_inv_def rx_bounded_def tx_bounded_def offer_ok_def Let_def)

lemma remote_inv_pending: "remote_inv r \<Longrightarrow> remote_inv (snd (apply_pending_broker_uri r))"
  by (simp add: apply_pending_broker_uri_def remote_inv_def rx_bounded_def tx_bounded_def offer_ok_def Let_def)

lemma remote_inv_completed:
  assumes "remote_inv r"
  shows "remote_inv (fst (publish_completed_if_pending E r w))"
proof -
  have "remote_inv (r\<lparr>rem_update := version_response_zero\<lparr>vrs_message_id := t, vrs_version_code := v\<rparr>\<rparr>)" for t v
    using assms by (simp add: remote_inv_def rx_bounded_def tx_bounded_def version_response_zero_def)
  note new = remote_inv_events(2) [OF this]
  show ?thesis
    using assms new
    by (auto simp: publish_completed_if_pending_def Let_def split: option.splits prod.splits)
      (metis snd_conv)+
qed

lemma remote_inv_disconnect: "remote_inv r \<Longrightarrow> remote_inv (fst (disconnect_mqtt E r w))"
  by (simp add: disconnect_mqtt_def Let_def remote_inv_update)

lemma remote_inv_connect:
  assumes "remote_inv r" "connect_mqtt E r w = (result, r', w')"
  shows "remote_inv r'"
proof -
  have last: "remote_inv (snd (publish_version_request E (fst (publish_completed_if_pending E
      (snd (publish_status E True r1)) w1))))" if "remote_inv r1" for r1 w1
    using that by (intro remote_inv_events remote_inv_completed)
  show ?thesis
    using assms last
    by (auto simp: connect_mqtt_def Let_def case_prod_unfold remote_inv_update split: if_splits)
qed


section \<open>The update\<close>

lemma rem_frame_progress_snd:
  "rem_frame r r1 \<Longrightarrow> rem_frame r (snd (snd (remote_http_progress E stage received total_size percent (w, r1))))"
  by (metis rem_frame_progress rem_frame_trans prod.collapse)

lemma remote_http_preserves: "http_preserves (remote_http E) (\<lambda>wr. rem_frame r (snd wr))"
  unfolding http_preserves_def remote_http_def Let_def
  by (auto split: prod.splits simp: rem_frame_progress_snd)

lemma remote_http_read_ok: "http_read_ok (env_http E) \<Longrightarrow> http_read_ok (remote_http E)"
  by (fastforce simp: http_read_ok_def remote_http_def Let_def split: prod.splits)

lemma update_request_frame: "rem_frame r r1 \<Longrightarrow> update_request r1 = update_request r"
  by (simp add: rem_frame_def update_request_def)

lemma rem_frame_set:
  "rem_frame a b \<Longrightarrow> rem_frame (a\<lparr>rem_update_in_progress := v\<rparr>) (b\<lparr>rem_update_in_progress := v\<rparr>)"
  "rem_frame a b \<Longrightarrow> rem_frame (a\<lparr>rem_update_valid := v\<rparr>) (b\<lparr>rem_update_valid := v\<rparr>)"
  by (simp_all add: rem_frame_def tx_bounded_def)

lemma run_update_end_cases:
  assumes "run_update_end E result w r s = Some (reset, w', r', s')"
  obtains (failed) stage res where "\<not> reset" "s' = s" "r' = run_update_failed E stage res r"
  | (installed) "result = OTA_OK" "s' = s" "reset \<Longrightarrow> ota_reboot_to_install 1000 s = CpuReset"
      "rem_frame (r\<lparr>rem_update_valid := False\<rparr>) r' \<or>
         \<not> reset \<and> rem_frame (r\<lparr>rem_update_valid := False, rem_update_in_progress := False\<rparr>) r'"
proof -
  obtain result2 w3 where sv: "save_pending_update r w = (result2, w3)" by fastforce
  obtain e3 r3 where ev3: "publish_update_event E OTA_MQTT_EVENT_REBOOTING ''reboot''
      (vrs_package_size (rem_update r)) 100 OTA_OK (r\<lparr>rem_update_valid := False\<rparr>) = (e3, r3)"
    by fastforce
  note fr3 = rem_frame_event [OF ev3]
  note fr4 = rem_frame_set(1) [OF fr3, of False] rem_frame_refl
  note body = assms [unfolded run_update_end_def sv prod.case Let_def]
  show thesis
  proof (cases "result = OTA_OK \<and> result2 = OTA_OK")
    case False
    then show thesis using body failed by (cases "result = OTA_OK") auto
  next
    case True
    then show thesis
      using body installed ev3 fr3 fr4 by (auto split: if_splits reboot_outcome.splits)
  qed
qed

lemma run_update_unfold:
  assumes "rem_update_valid r"
  obtains w1 r1 where "rem_frame r r1"
    "run_update E OE r w s = Some (False, w1, run_update_failed E ''download'' OTA_ERROR_NETWORK r1, s) \<or>
     run_update E OE r w s =
       (ota_http_download (remote_http E) OE (Some (update_request r)) (w1, r1) s \<bind>
         (\<lambda>(result, (w, r), s). run_update_end E result w r s))"
proof -
  define r0 where "r0 = r\<lparr>rem_download_stage := OTA_HTTP_STAGE_DOWNLOAD, rem_last_ui_progress_tick := 0,
                  rem_last_mqtt_progress_tick := 0\<rparr>"
  obtain e r1 where ev: "publish_update_event E OTA_MQTT_EVENT_UPDATE_ACCEPTED ''decision'' 0 0 OTA_OK r0 = (e, r1)"
    by fastforce
  have fr0: "rem_frame r r0" by (simp add: r0_def rem_frame_def tx_bounded_def)
  have fr1: "rem_frame r r1" using rem_frame_trans [OF fr0 rem_frame_event [OF ev]] .
  obtain ready w1 where wl: "env_wlan E (rollout_delay E r1 w) = (ready, w1)" by fastforce
  note req = update_request_frame [OF fr1]
  have "run_update E OE r w s =
      (if \<not> ready then Some (False, w1, run_update_failed E ''download'' OTA_ERROR_NETWORK r1, s)
       else ota_http_download (remote_http E) OE (Some (update_request r)) (w1, r1) s \<bind>
         (\<lambda>(result, (w, r), s). run_update_end E result w r s))"
    unfolding run_update_def Let_def if_P [OF assms] if_not_P [OF not_not [THEN iffD2, OF assms]]
      r0_def [symmetric] ev prod.case wl req by (rule refl)
  then show thesis by (intro that [OF fr1, of w1]) (cases ready, simp_all only: simp_thms if_True if_False)
qed

lemma run_update_invalid:
  assumes "\<not> rem_update_valid r"
  shows "run_update E OE r w s = Some (False, w, r, s)"
  unfolding run_update_def if_P [OF assms] by (rule refl)

lemma run_update_cases:
  assumes "run_update E OE r w s = Some (reset, w', r', s')"
  obtains (none) "\<not> rem_update_valid r" "\<not> reset" "r' = r" "s' = s"
  | (offline) r1 where "\<not> reset" "rem_frame r r1" "s' = s"
      "r' = run_update_failed E ''download'' OTA_ERROR_NETWORK r1"
  | (failed) w1 r1 result w2 r2 stage res where "\<not> reset" "rem_frame r r1"
      "ota_http_download (remote_http E) OE (Some (update_request r)) (w1, r1) s = Some (result, (w2, r2), s')"
      "rem_frame r r2" "r' = run_update_failed E stage res r2"
  | (installed) w1 r1 w2 r2 where "rem_update_valid r" "rem_frame r r1"
      "ota_http_download (remote_http E) OE (Some (update_request r)) (w1, r1) s = Some (OTA_OK, (w2, r2), s')"
      "rem_frame (r\<lparr>rem_update_valid := False\<rparr>) r' \<or>
         \<not> reset \<and> rem_frame (r\<lparr>rem_update_valid := False, rem_update_in_progress := False\<rparr>) r'"
      "reset \<Longrightarrow> ota_reboot_to_install 1000 s' = CpuReset"
proof (cases "rem_update_valid r")
  case False
  have "Some (reset, w', r', s') = Some (False, w, r, s)"
    using assms by (rule trans [OF sym run_update_invalid [OF False]])
  then show thesis by (intro none [OF False]) simp_all
next
  case valid: True
  obtain w1 r1 where fr1: "rem_frame r r1" and alt:
    "run_update E OE r w s = Some (False, w1, run_update_failed E ''download'' OTA_ERROR_NETWORK r1, s) \<or>
     run_update E OE r w s =
       (ota_http_download (remote_http E) OE (Some (update_request r)) (w1, r1) s \<bind>
         (\<lambda>(result, (w, r), s). run_update_end E result w r s))"
    by (rule run_update_unfold [OF valid])
  from alt show thesis
  proof
    assume "run_update E OE r w s = Some (False, w1, run_update_failed E ''download'' OTA_ERROR_NETWORK r1, s)"
    then show thesis using assms offline [OF _ fr1] by simp
  next
    assume "run_update E OE r w s =
       (ota_http_download (remote_http E) OE (Some (update_request r)) (w1, r1) s \<bind>
         (\<lambda>(result, (w, r), s). run_update_end E result w r s))"
    then obtain result w2 r2 s2 where dl: "ota_http_download (remote_http E) OE (Some (update_request r)) (w1, r1) s =
        Some (result, (w2, r2), s2)" and tail: "run_update_end E result w2 r2 s2 = Some (reset, w', r', s')"
      using assms by (cases "ota_http_download (remote_http E) OE (Some (update_request r)) (w1, r1) s") auto
    have fr2: "rem_frame r r2"
      using http_download_preserves [OF remote_http_preserves [of E r] _ dl] fr1 by simp
    from tail show thesis
    proof (cases rule: run_update_end_cases)
      case (failed stage res)
      then show thesis using that(3) [OF _ fr1 _ fr2] dl by blast
    next
      case installed
      have "rem_frame (r\<lparr>rem_update_valid := False\<rparr>) r' \<or>
         \<not> reset \<and> rem_frame (r\<lparr>rem_update_valid := False, rem_update_in_progress := False\<rparr>) r'"
        using installed(4) rem_frame_trans rem_frame_set(2) [OF fr2, of False]
          rem_frame_set(1) [OF rem_frame_set(2) [OF fr2, of False], of False] by blast
      then show thesis using that(4) [OF valid fr1] dl installed by simp
    qed
  qed
qed

lemma run_update_failed_frame:
  "rem_frame (r\<lparr>rem_update_in_progress := False\<rparr>) (run_update_failed E stage res r)"
  unfolding run_update_failed_def Let_def
  using rem_frame_trans [OF rem_frame_ui(2) rem_frame_events(2)] by blast

lemma remote_inv_failed: "remote_inv r \<Longrightarrow> remote_inv (run_update_failed E stage res r)"
  using remote_inv_frame [OF run_update_failed_frame] by (simp add: remote_inv_update)

lemma remote_inv_run_update:
  assumes "remote_inv r" "run_update E OE r w s = Some (reset, w', r', s')"
  shows "remote_inv r'"
  using assms(2)
proof (cases rule: run_update_cases)
  case none
  then show ?thesis using assms(1) by simp
next
  case (offline r1)
  then show ?thesis using remote_inv_failed [OF remote_inv_frame [OF offline(2) assms(1)]] by simp
next
  case (failed w1 r1 result w2 r2 stage res)
  then show ?thesis using remote_inv_failed [OF remote_inv_frame [OF failed(4) assms(1)]] by simp
next
  case (installed w1 r1 w2 r2)
  have "remote_inv (r\<lparr>rem_update_valid := False\<rparr>)" using assms(1) by (rule remote_inv_update)
  moreover from this have "remote_inv (r\<lparr>rem_update_valid := False, rem_update_in_progress := False\<rparr>)"
    by (simp add: remote_inv_def rx_bounded_def tx_bounded_def)
  ultimately show ?thesis using installed(4) remote_inv_frame by blast
qed

lemma ota_inv_run_update:
  assumes "env_slots OE mem d u" "ota_inv OE mem d u s" "http_read_ok (env_http E)"
    and "run_update E OE r w s = Some (reset, w', r', s')"
  shows "ota_inv OE mem d u s'"
proof -
  note inv = http_download_inv [OF assms(1,2) remote_http_read_ok [OF assms(3)]]
  from assms(4) show ?thesis
    by (cases rule: run_update_cases) (use assms(2) inv in simp_all)
qed

end
