(* ===== verification/Ota_Remote_Reach.thy ===== *)
theory Ota_Remote_Reach
  imports Ota_Remote_Safety
begin

text \<open>
  The update controller as a state machine.  Its thread, the transmit thread, the subscription's
  callback, the UI and the other clients of the update service take turns in any order; the world
  may be another one in every step, since the network, the clock and the storage change by
  themselves.  The invariant of every reachable state, what a reset for installation means, and the
  two sequences that leave the controller unusable.
\<close>

section \<open>Steps\<close>

inductive remote_step ::
  "'w remote_env \<Rightarrow> 'f ota_env \<Rightarrow> 'w ota_remote \<times> 'f ota_sys \<Rightarrow> 'w ota_remote \<times> 'f ota_sys \<Rightarrow> bool"
  for E OE where
  callback: "remote_step E OE (r, s) (mqtt_receive_callback message r, s)"
| transmit: "mqtt_tx_entry E r w = (r', w') \<Longrightarrow> remote_step E OE (r, s) (r', s)"
| poll: "remote_poll E OE r w s = Some (next, w', r', s') \<Longrightarrow> remote_step E OE (r, s) (r', s')"
| connect: "remote_connect_round E r w = (up, r', w') \<Longrightarrow> remote_step E OE (r, s) (r', s)"
| close: "remote_close_round E reconnect r w = (r', w') \<Longrightarrow> remote_step E OE (r, s) (r', s)"
| set_server: "ota_remote_set_server_ip address r = (result, r') \<Longrightarrow> remote_step E OE (r, s) (r', s)"
| request: "ota_remote_request_version r = (result, r') \<Longrightarrow> remote_step E OE (r, s) (r', s)"
| accept: "ota_remote_accept_update r = (result, r') \<Longrightarrow> remote_step E OE (r, s) (r', s)"
| decline: "ota_remote_decline_update r = (result, r') \<Longrightarrow> remote_step E OE (r, s) (r', s)"
| bind: "remote_step E OE (r, s) (ota_remote_bind_ui ui r, s)"
| other: "ota_step OE s s' \<Longrightarrow> remote_step E OE (r, s) (r, s')"

inductive remote_reach ::
  "'w remote_env \<Rightarrow> 'f ota_env \<Rightarrow> 'f \<Rightarrow> 'w ota_remote \<times> 'f ota_sys \<Rightarrow> bool" for E OE f where
  start: "ota_reach OE f s \<Longrightarrow> ota_remote_start E OE config remote_zero s = (OTA_OK, r, s') \<Longrightarrow>
    remote_reach E OE f (r, s')"
| step: "remote_reach E OE f x \<Longrightarrow> remote_step E OE x y \<Longrightarrow> remote_reach E OE f y"

inductive_cases remote_stepE [consumes 1, case_names callback transmit poll connect close set_server
  request accept decline bind other]: "remote_step E OE (r, s) (r', s')"

section \<open>The invariant\<close>

lemma dispatch_cases:
  assumes "remote_dispatch E OE command r w s = Some (reset, w', r', s')"
  shows "(\<exists>payload. command = OTA_REMOTE_CMD_MQTT_MESSAGE payload \<and> r' = handle_version_response E payload r \<and>
      \<not> reset \<and> s' = s) \<or>
    (command = OTA_REMOTE_CMD_ACCEPT \<and> run_update E OE r w s = Some (reset, w', r', s')) \<or>
    (command \<noteq> OTA_REMOTE_CMD_ACCEPT \<and> rem_frame r r' \<and> \<not> reset \<and> s' = s)"
proof (cases command)
  case OTA_REMOTE_CMD_CHECK
  have "rem_frame r (snd (publish_version_request E (ui_set_state LVWW_FIRMWARE_CHECKING 0 r)))"
    by (metis rem_frame_request rem_frame_trans rem_frame_ui(2) prod.collapse)
  then show ?thesis using assms OTA_REMOTE_CMD_CHECK by (simp add: remote_dispatch_def)
next
  case OTA_REMOTE_CMD_DECLINE
  then show ?thesis using assms rem_frame_events(2) [of r E]
    by (auto simp: remote_dispatch_def rem_frame_refl)
qed (use assms in \<open>simp_all add: remote_dispatch_def\<close>)

text \<open>A turn of the controller's thread leaves the controller alone, takes over the pending broker
  address, or handles the command at the head of the queue.\<close>

lemma remote_poll_cases:
  assumes "remote_poll E OE r w s = Some (next, w', r', s')"
  shows "(\<exists>changed. apply_pending_broker_uri r = (changed, r') \<and> next \<noteq> Poll_Reset \<and> s' = s) \<or>
    (r' = r \<and> next \<noteq> Poll_Reset \<and> s' = s) \<or>
    (\<exists>command q w1 reset. rem_queue r = Some (command # q) \<and>
       remote_dispatch E OE command (r\<lparr>rem_queue := Some q\<rparr>) w1 s = Some (reset, w', r', s') \<and>
       (next = Poll_Reset) = reset)"
proof -
  obtain ready w1 where wl: "env_wlan E w = (ready, w1)" by fastforce
  obtain linked w2 where ln: "mqtt_is_linked E r w1 = (linked, w2)" by fastforce
  note body = assms [unfolded remote_poll_def wl ln Let_def prod.case]
  show ?thesis
  proof (cases "ready \<and> linked \<and> \<not> rem_broker_update_pending r")
    case False
    then show ?thesis using body
      by (auto simp: apply_pending_broker_uri_def split: if_splits)
  next
    case True
    have keep: "apply_pending_broker_uri r = (False, r)" using True by (simp add: apply_pending_broker_uri_def)
    show ?thesis
    proof (cases "rem_queue r")
      case None
      then show ?thesis using body True keep by simp
    next
      case (Some q)
      show ?thesis
      proof (cases q)
        case Nil
        then show ?thesis using body True keep Some by (simp add: fifo_recv_def)
      next
        case (Cons command q1)
        have "remote_dispatch E OE command (r\<lparr>rem_queue := Some q1\<rparr>) w2 s \<bind>
            (\<lambda>(reset, w, r, s). Some (if reset then Poll_Reset else Poll_Again, w, r, s)) =
            Some (next, w', r', s')"
          using body True keep Some Cons by (simp add: fifo_recv_def)
        then show ?thesis using Some Cons
          by (cases "remote_dispatch E OE command (r\<lparr>rem_queue := Some q1\<rparr>) w2 s") (auto split: if_splits)
      qed
    qed
  qed
qed

lemma remote_inv_dequeue:
  "remote_inv r \<Longrightarrow> rem_queue r = Some (c # q) \<Longrightarrow> remote_inv (r\<lparr>rem_queue := Some q\<rparr>)"
  by (simp add: remote_inv_def rx_bounded_def tx_bounded_def offer_ok_def Let_def)

lemma remote_inv_dispatch:
  assumes "remote_inv r" "remote_dispatch E OE command r w s = Some (reset, w', r', s')"
  shows "remote_inv r'"
  using dispatch_cases [OF assms(2)]
  by (elim disjE exE conjE)
     (simp_all add: remote_inv_handle assms(1) remote_inv_run_update [OF assms(1)] remote_inv_frame [OF _ assms(1)])

lemma remote_inv_poll:
  assumes "remote_inv r" "remote_poll E OE r w s = Some (next, w', r', s')"
  shows "remote_inv r'"
  using remote_poll_cases [OF assms(2)]
proof (elim disjE exE conjE)
  fix changed assume "apply_pending_broker_uri r = (changed, r')"
  then show ?thesis using remote_inv_pending [OF assms(1)] by simp
next
  fix command q w1 reset
  assume "rem_queue r = Some (command # q)"
    "remote_dispatch E OE command (r\<lparr>rem_queue := Some q\<rparr>) w1 s = Some (reset, w', r', s')"
  then show ?thesis using remote_inv_dispatch [OF remote_inv_dequeue [OF assms(1)]] by blast
qed (use assms(1) in simp)

lemma ota_inv_poll:
  assumes env: "env_slots OE mem d u" "http_read_ok (env_http E)" and inv: "ota_inv OE mem d u s"
    and call: "remote_poll E OE r w s = Some (next, w', r', s')"
  shows "ota_inv OE mem d u s'"
  using remote_poll_cases [OF call]
proof (elim disjE exE conjE)
  fix command q w1 reset
  assume "remote_dispatch E OE command (r\<lparr>rem_queue := Some q\<rparr>) w1 s = Some (reset, w', r', s')"
  from dispatch_cases [OF this] show ?thesis using ota_inv_run_update [OF env(1) inv env(2)] inv by blast
qed (use inv in simp_all)

lemma remote_inv_rounds:
  "remote_inv r \<Longrightarrow> remote_connect_round E r w = (up, r', w') \<Longrightarrow> remote_inv r'"
  "remote_inv r \<Longrightarrow> remote_close_round E reconnect r w = (r', w') \<Longrightarrow> remote_inv r'"
proof -
  have disc: "remote_inv r1 \<Longrightarrow> disconnect_mqtt E r1 w1 = (r2, w2) \<Longrightarrow> remote_inv r2" for r1 r2 w1 w2
    using remote_inv_disconnect [of r1 E w1] by simp
  show "remote_inv r \<Longrightarrow> remote_close_round E reconnect r w = (r', w') \<Longrightarrow> remote_inv r'"
    using disc by (auto simp: remote_close_round_def split: prod.splits)
  assume inv: "remote_inv r" and call: "remote_connect_round E r w = (up, r', w')"
  obtain ready w1 where wl: "env_wlan E w = (ready, w1)" by fastforce
  let ?r = "snd (apply_pending_broker_uri r)"
  obtain result r2 w2 where c: "connect_mqtt E ?r w1 = (result, r2, w2)" by (metis prod.exhaust)
  obtain r3 w3 where d: "disconnect_mqtt E r2 w2 = (r3, w3)" by fastforce
  note inv1 = remote_inv_pending [OF inv]
  note inv2 = remote_inv_connect [OF inv1 c]
  show "remote_inv r'"
    using call [unfolded remote_connect_round_def wl Let_def prod.case c d] inv1 inv2 disc [OF inv2 d]
    by (simp split: if_splits)
qed

lemma remote_inv_calls:
  "remote_inv r \<Longrightarrow> ota_remote_set_server_ip address r = (result, r') \<Longrightarrow> remote_inv r'"
  "remote_inv r \<Longrightarrow> ota_remote_request_version r = (result, r') \<Longrightarrow> remote_inv r'"
  "remote_inv r \<Longrightarrow> ota_remote_accept_update r = (result, r') \<Longrightarrow> remote_inv r'"
  "remote_inv r \<Longrightarrow> ota_remote_decline_update r = (result, r') \<Longrightarrow> remote_inv r'"
  "remote_inv r \<Longrightarrow> remote_inv (ota_remote_bind_ui ui r)"
proof -
  have enq: "remote_inv r1 \<Longrightarrow> enqueue_command c r1 = (res, r2) \<Longrightarrow> remote_inv r2" for c r1 r2 res
    using remote_inv_enqueue [of r1 c] by simp
  show "remote_inv r \<Longrightarrow> ota_remote_set_server_ip address r = (result, r') \<Longrightarrow> remote_inv r'"
    by (auto simp: ota_remote_set_server_ip_def Let_def remote_inv_def rx_bounded_def tx_bounded_def
        offer_ok_def split: if_splits)
  show "remote_inv r \<Longrightarrow> ota_remote_request_version r = (result, r') \<Longrightarrow> remote_inv r'"
    "remote_inv r \<Longrightarrow> ota_remote_decline_update r = (result, r') \<Longrightarrow> remote_inv r'"
    by (simp_all add: ota_remote_request_version_def ota_remote_decline_update_def enq)
  show "remote_inv r \<Longrightarrow> ota_remote_accept_update r = (result, r') \<Longrightarrow> remote_inv r'"
  proof -
    assume inv: "remote_inv r" and call: "ota_remote_accept_update r = (result, r')"
    obtain res r2 where e: "enqueue_command OTA_REMOTE_CMD_ACCEPT (r\<lparr>rem_update_in_progress := True\<rparr>) = (res, r2)"
      by fastforce
    have "remote_inv r2" using enq [OF _ e] inv by (simp add: remote_inv_update)
    then show "remote_inv r'"
      using call [unfolded ota_remote_accept_update_def Let_def e prod.case] inv
      by (auto simp: remote_inv_update split: if_splits)
  qed
  show "remote_inv r \<Longrightarrow> remote_inv (ota_remote_bind_ui ui r)"
    by (auto simp: ota_remote_bind_ui_def Let_def remote_inv_update remote_inv_ui split: prod.splits)
qed

text \<open>A successful start has initialised the update service and left an idle controller.\<close>

lemma remote_start_cases:
  assumes "ota_remote_start E OE config remote_zero s = (OTA_OK, r, s')"
  shows "ota_service_init OE s = (OTA_OK, s') \<and> rem_queue r = Some [] \<and> rem_tx_queue r = Some [] \<and>
    \<not> rem_update_valid r \<and> \<not> rem_update_in_progress r \<and> rem_lock r"
proof -
  obtain res s1 where init: "ota_service_init OE s = (res, s1)" by fastforce
  obtain res2 dev where dev: "ota_remote_get_device_id E 48 = (res2, dev)" by fastforce
  let ?will = "\<lparr>dst_device_id = copy_text 48 (Some dev),
     dst_current_version_code = OTA_CURRENT_FIRMWARE_VERSION_CODE, dst_online = False,
     dst_current_version = copy_text 24 (Some OTA_CURRENT_FIRMWARE_VERSION_TEXT)\<rparr>"
  obtain res3 json where js: "ota_mqtt_build_device_status (env_json_alloc E) (env_json_print E) (Some ?will)
      False 1537 = (res3, json)" by fastforce
  have nt: "\<not> rem_thread remote_zero" by (simp add: remote_zero_def)
  note body = assms [unfolded ota_remote_start_def if_not_P [OF nt] init dev Let_def prod.case js]
  from body have "res = OTA_OK" "res2 = OTA_OK" "res3 = OTA_OK"
    by (auto split: if_splits)
  then show ?thesis using body init
    by (auto simp: remote_zero_def split: if_splits option.splits)
qed

lemma remote_inv_start:
  assumes "ota_remote_start E OE config remote_zero s = (OTA_OK, r, s')"
  shows "remote_inv r"
  using remote_start_cases [OF assms]
  by (simp add: remote_inv_def rx_bounded_def tx_bounded_def)

lemma remote_reach_start:
  assumes "ota_reach OE f s" "ota_remote_start E OE config remote_zero s = (OTA_OK, r, s')"
  shows "ota_reach OE f s'"
  using remote_start_cases [OF assms(2)] ota_reach.step [OF assms(1) ota_step.init] by blast

lemma remote_inv_step:
  assumes "remote_step E OE (r, s) (r', s')" "env_slots OE mem d u" "http_read_ok (env_http E)"
    and "remote_inv r" "ota_inv OE mem d u s"
  shows "remote_inv r' \<and> ota_inv OE mem d u s'"
  using assms(1)
proof (cases rule: remote_stepE)
  case (poll w "next" w')
  then show ?thesis using remote_inv_poll [OF assms(4)] ota_inv_poll [OF assms(2,3,5)] by blast
next
  case (other)
  then show ?thesis using assms(2,4,5) ota_inv_step by blast
qed (simp_all add: assms(4,5) remote_inv_callback remote_inv_tx [OF assms(4)] remote_inv_rounds [OF assms(4)]
    remote_inv_calls [OF assms(4)])

lemma remote_reach_inv:
  assumes "remote_reach E OE f x" "env_slots OE mem d u" "http_read_ok (env_http E)"
  shows "remote_inv (fst x) \<and> ota_inv OE mem d u (snd x)"
  using assms(1)
proof induction
  case (start s config r s')
  then show ?case using remote_inv_start ota_inv_reach [OF remote_reach_start assms(2)] by fastforce
next
  case (step x y)
  then show ?case using remote_inv_step [of E OE "fst x" "snd x" "fst y" "snd y"] assms(2,3) by simp
qed

lemma run_update_returns:
  assumes "env_slots OE mem d u" "ota_inv OE mem d u s"
  shows "\<exists>x. run_update E OE r w s = Some x"
proof (cases "rem_update_valid r")
  case False
  show ?thesis by (rule exI, rule run_update_invalid [OF False])
next
  case True
  have fin: "\<exists>x. run_update_end E result w1 r1 t = Some x" for result w1 r1 t
  proof -
    have "run_update_end E result w1 r1 t \<noteq> None"
      by (simp add: run_update_end_def Let_def del: not_None_eq split: prod.split reboot_outcome.split)
    then show ?thesis by blast
  qed
  have "\<exists>x. ota_http_download (remote_http E) OE q v s = Some x" for q v
    using http_download_returns [OF assms, of "remote_http E" q v] unfolding returns_def by blast
  moreover obtain w1 r1 where
    "run_update E OE r w s = Some (False, w1, run_update_failed E ''download'' OTA_ERROR_NETWORK r1, s) \<or>
     run_update E OE r w s =
       (ota_http_download (remote_http E) OE (Some (update_request r)) (w1, r1) s \<bind>
         (\<lambda>(result, (w, r), s). run_update_end E result w r s))"
    by (rule run_update_unfold [OF True])
  ultimately show ?thesis using fin by (metis (no_types, lifting) bind.bind_lunit case_prod_conv surj_pair)
qed

lemma remote_poll_returns:
  assumes "env_slots OE mem d u" "ota_inv OE mem d u s"
  shows "\<exists>x. remote_poll E OE r w s = Some x"
proof -
  have disp: "remote_dispatch E OE c r1 w1 s \<noteq> None" for c r1 w1
    using run_update_returns [OF assms, of E r1 w1]
    by (cases c) (auto simp: remote_dispatch_def)
  have turn: "x \<noteq> None \<Longrightarrow> x \<bind> (\<lambda>(reset, w, r, s). Some (g reset w r s)) \<noteq> None" for x and g :: "_ \<Rightarrow> _ \<Rightarrow> _ \<Rightarrow> _ \<Rightarrow> 'y"
    by (cases x) auto
  have "remote_poll E OE r w s \<noteq> None"
    unfolding remote_poll_def Let_def
    by (auto simp del: not_None_eq split: prod.split option.split intro!: turn disp)
  then show ?thesis by blast
qed

section \<open>The command queue and the flag of the running update\<close>

text \<open>Most routines touch neither the queue of commands nor the flag.\<close>

definition cmd_frame :: "'w ota_remote \<Rightarrow> 'w ota_remote \<Rightarrow> bool" where
  "cmd_frame r r' \<longleftrightarrow>
     rem_update_in_progress r' = rem_update_in_progress r \<and> rem_queue r' = rem_queue r"

lemma cmd_frame_refl: "cmd_frame r r"
  by (simp add: cmd_frame_def)

lemma cmd_frame_trans: "cmd_frame a b \<Longrightarrow> cmd_frame b c \<Longrightarrow> cmd_frame a c"
  by (simp add: cmd_frame_def)

lemma cmd_frame_rem: "rem_frame r r' \<Longrightarrow> cmd_frame r r'"
  by (simp add: rem_frame_def cmd_frame_def)

lemma ui_publish_fields:
  "rem_update_valid (ui_publish r) = rem_update_valid r" "rem_queue (ui_publish r) = rem_queue r"
  "rem_update_in_progress (ui_publish r) = rem_update_in_progress r"
  "rem_update (ui_publish r) = rem_update r" "rem_lock (ui_publish r) = rem_lock r"
  by (simp_all add: ui_publish_def)

lemma cmd_frame_handle: "cmd_frame r (handle_version_response E payload r)"
  by (simp add: cmd_frame_def handle_version_response_def ui_publish_def Let_def split: prod.split)

lemma cmd_frame_pending: "cmd_frame r (snd (apply_pending_broker_uri r))"
  by (simp add: cmd_frame_def apply_pending_broker_uri_def)

lemma cmd_frame_disconnect: "cmd_frame r (fst (disconnect_mqtt E r w))"
  by (simp add: cmd_frame_def disconnect_mqtt_def Let_def)

lemma cmd_frame_completed: "cmd_frame r (fst (publish_completed_if_pending E r w))"
proof -
  have ev: "cmd_frame r (snd (publish_update_event E ev st a b e (r\<lparr>rem_update := q\<rparr>)))" for ev st a b e q
    using cmd_frame_rem [OF rem_frame_events(2) [of "r\<lparr>rem_update := q\<rparr>" E ev st a b e]]
    by (simp add: cmd_frame_def)
  have out: "cmd_frame r r2" if "publish_update_event E ev st a b e (r\<lparr>rem_update := q\<rparr>) = (res, r2)"
    for ev st a b e q res r2
    using ev [of ev st a b e q] that by simp
  show ?thesis
    by (auto simp: publish_completed_if_pending_def Let_def cmd_frame_refl split: option.split prod.split
        intro: out)
qed

lemma cmd_frame_connect:
  assumes "connect_mqtt E r w = (result, r', w')"
  shows "cmd_frame r r'"
proof -
  have last: "cmd_frame r (snd (publish_version_request E (fst (publish_completed_if_pending E
      (snd (publish_status E True r1)) w1))))" if "cmd_frame r r1" for r1 w1
    using cmd_frame_trans [OF that cmd_frame_trans [OF cmd_frame_rem [OF rem_frame_status [OF surjective_pairing]]
      cmd_frame_trans [OF cmd_frame_completed cmd_frame_rem [OF rem_frame_request [OF surjective_pairing]]]]] .
  show ?thesis
    using assms last
    by (auto simp: connect_mqtt_def Let_def case_prod_unfold cmd_frame_def split: if_splits)
qed

text \<open>An update is marked as running although no command is left that could end it.\<close>

definition remote_stuck :: "'w ota_remote \<Rightarrow> bool" where
  "remote_stuck r \<longleftrightarrow> rem_update_in_progress r \<and>
     (\<forall>q. rem_queue r = Some q \<longrightarrow> OTA_REMOTE_CMD_ACCEPT \<notin> set q)"

lemma remote_stuck_frame: "cmd_frame r r' \<Longrightarrow> remote_stuck r \<Longrightarrow> remote_stuck r'"
  by (simp add: cmd_frame_def remote_stuck_def)

lemma remote_stuck_enqueue:
  "remote_stuck r \<Longrightarrow> c \<noteq> OTA_REMOTE_CMD_ACCEPT \<Longrightarrow> remote_stuck (snd (enqueue_command c r))"
  by (auto simp: enqueue_command_def remote_stuck_def fifo_send_def split: option.splits)

lemma remote_stuck_accept: "remote_stuck r \<Longrightarrow> ota_remote_accept_update r = (OTA_ERROR_STATE, r)"
  by (simp add: remote_stuck_def ota_remote_accept_update_def)

lemma remote_stuck_poll:
  assumes "remote_stuck r" "remote_poll E OE r w s = Some (next, w', r', s')"
  shows "remote_stuck r'"
  using remote_poll_cases [OF assms(2)]
proof (elim disjE exE conjE)
  fix changed assume "apply_pending_broker_uri r = (changed, r')"
  then show ?thesis using remote_stuck_frame [OF cmd_frame_pending assms(1)] by simp
next
  fix command q w1 reset
  assume q: "rem_queue r = Some (command # q)" and
    d: "remote_dispatch E OE command (r\<lparr>rem_queue := Some q\<rparr>) w1 s = Some (reset, w', r', s')"
  have "remote_stuck (r\<lparr>rem_queue := Some q\<rparr>)" "command \<noteq> OTA_REMOTE_CMD_ACCEPT"
    using assms(1) q by (auto simp: remote_stuck_def)
  then show ?thesis
    using dispatch_cases [OF d] remote_stuck_frame cmd_frame_rem cmd_frame_handle by metis
qed (use assms(1) in simp)

lemma remote_stuck_step:
  assumes "remote_step E OE (r, s) (r', s')" "remote_stuck r"
  shows "remote_stuck r'"
  using assms(1)
proof (cases rule: remote_stepE)
  case (callback message)
  then show ?thesis using assms(2) remote_stuck_enqueue
    by (auto simp: mqtt_receive_callback_def split: option.split)
next
  case (transmit w w')
  then have "cmd_frame r r'" using mqtt_tx_entry_cases [of E r w r' w'] by (auto simp: cmd_frame_def)
  then show ?thesis by (rule remote_stuck_frame [OF _ assms(2)])
next
  case (poll w "next" w')
  then show ?thesis using remote_stuck_poll [OF assms(2)] by blast
next
  case (connect w up w')
  obtain ready w1 where wl: "env_wlan E w = (ready, w1)" by fastforce
  let ?r = "snd (apply_pending_broker_uri r)"
  obtain result r2 w2 where c: "connect_mqtt E ?r w1 = (result, r2, w2)" by (metis prod.exhaust)
  have "cmd_frame r r2" by (rule cmd_frame_trans [OF cmd_frame_pending cmd_frame_connect [OF c]])
  then have "cmd_frame r r'"
    using connect [unfolded remote_connect_round_def wl Let_def prod.case c] cmd_frame_pending [of r]
      cmd_frame_trans [OF _ cmd_frame_disconnect [of r2 E w2]]
    by (auto split: if_splits prod.splits)
  then show ?thesis by (rule remote_stuck_frame [OF _ assms(2)])
next
  case (close reconnect w w')
  then have "cmd_frame r r'" using cmd_frame_disconnect [of r E w]
    by (auto simp: remote_close_round_def split: prod.splits)
  then show ?thesis by (rule remote_stuck_frame [OF _ assms(2)])
next
  case (set_server address result)
  then show ?thesis using assms(2)
    by (auto simp: ota_remote_set_server_ip_def Let_def remote_stuck_def split: if_splits)
next
  case (request result)
  then show ?thesis using remote_stuck_enqueue [OF assms(2)]
    by (metis ota_remote_request_version_def ota_remote_command_t.distinct snd_conv)
next
  case (accept result)
  then show ?thesis using assms(2) remote_stuck_accept [OF assms(2)] by simp
next
  case (decline result)
  then show ?thesis using remote_stuck_enqueue [OF assms(2)]
    by (metis ota_remote_decline_update_def ota_remote_command_t.distinct snd_conv)
next
  case (bind ui)
  have "cmd_frame r (ota_remote_bind_ui ui r)"
    by (auto simp: ota_remote_bind_ui_def Let_def cmd_frame_def ui_publish_def split: prod.split)
  then show ?thesis using bind remote_stuck_frame [OF _ assms(2)] by simp
next
  case other
  then show ?thesis using assms(2) by simp
qed

lemma remote_stuck_steps:
  "(remote_step E OE)\<^sup>*\<^sup>* x y \<Longrightarrow> remote_stuck (fst x) \<Longrightarrow> remote_stuck (fst y)"
  by (induction rule: rtranclp_induct) (metis remote_stuck_step prod.collapse)+

lemma remote_poll_again:
  assumes "remote_poll E OE r w s = Some (Poll_Again, w', r', s')" "rem_queue r = Some (command # q)"
  obtains w1 where "remote_dispatch E OE command (r\<lparr>rem_queue := Some q\<rparr>) w1 s = Some (False, w', r', s')"
proof -
  obtain ready w1 where wl: "env_wlan E w = (ready, w1)" by fastforce
  obtain linked w2 where ln: "mqtt_is_linked E r w1 = (linked, w2)" by fastforce
  obtain changed r2 where ap: "apply_pending_broker_uri r = (changed, r2)" by fastforce
  note body = assms(1) [unfolded remote_poll_def wl ln Let_def prod.case ap]
  have on: "ready" "linked" "\<not> changed" using body by (auto split: if_splits)
  then have "r2 = r" using ap by (auto simp: apply_pending_broker_uri_def split: if_splits)
  with body on have "remote_dispatch E OE command (r\<lparr>rem_queue := Some q\<rparr>) w2 s \<bind>
      (\<lambda>(reset, w, r, s). Some (if reset then Poll_Reset else Poll_Again, w, r, s)) =
      Some (Poll_Again, w', r', s')"
    using assms(2) by (simp add: fifo_recv_def)
  then show thesis using that
    by (cases "remote_dispatch E OE command (r\<lparr>rem_queue := Some q\<rparr>) w2 s") (auto split: if_splits)
qed

section \<open>What the controller guarantees\<close>

text \<open>C35: In every reachable state of the controller, whatever the broker, the UI and the other
  clients of the update service do, the queues are within their depth, a valid offer is a newer
  version for this device with a size, a digest and an address the download accepts, or one whose
  size is zero, and no turn of the controller's thread hits an assertion.\<close>

theorem remote_reach_invariant:
  assumes "env_slots OE mem d u" "http_read_ok (env_http E)" "remote_reach E OE f (r, s)"
  shows "rx_bounded r \<and> tx_bounded r \<and>
    (rem_update_valid r \<longrightarrow> offer_ok r \<or> vrs_package_size (rem_update r) = 0) \<and>
    (\<forall>w. \<exists>x. remote_poll E OE r w s = Some x)"
proof -
  have inv: "remote_inv r" "ota_inv OE mem d u s" using remote_reach_inv [OF assms(3,1,2)] by simp_all
  show ?thesis
    using inv(1) [unfolded remote_inv_def] remote_poll_returns [OF assms(1) inv(2), of E r] by blast
qed


text \<open>C36: An update that the user accepts while a response without an update waits in the queue is
  never run, and it is never marked as finished either: every later attempt to accept an update
  is refused, in every state the controller can reach until the device restarts.\<close>

theorem remote_accept_stuck:
  assumes "rem_lock r" "rem_update_valid r" "\<not> rem_update_in_progress r"
    and "rem_queue r = Some [OTA_REMOTE_CMD_MQTT_MESSAGE payload]"
    and "ota_mqtt_parse_version_response (env_json_parse E) (Some payload) (Some version_response_zero) =
           (OTA_OK, Some q)"
    and "vrs_request_message_id q = rem_last_request_id r" "vrs_device_id q = rem_device_id r"
        "vrs_hardware_id q = OTA_HARDWARE_ID" "\<not> vrs_update_available q"
    and "ota_remote_accept_update r = (result, r1)"
    and "remote_poll E OE r1 w1 s1 = Some (Poll_Again, v1, r2, s2)"
    and "remote_poll E OE r2 w2 s2 = Some (Poll_Again, v2, r3, s3)"
    and "(remote_step E OE)\<^sup>*\<^sup>* (r3, s3) (r4, s4)"
  shows "result = OTA_OK \<and> ota_remote_accept_update r4 = (OTA_ERROR_STATE, r4)"
proof -
  have r1: "result = OTA_OK" "r1 = r\<lparr>rem_update_in_progress := True,
      rem_queue := Some [OTA_REMOTE_CMD_MQTT_MESSAGE payload, OTA_REMOTE_CMD_ACCEPT]\<rparr>"
    using assms(1-4,10)
    by (simp_all add: ota_remote_accept_update_def enqueue_command_def fifo_send_def Let_def)
  obtain w where "remote_dispatch E OE (OTA_REMOTE_CMD_MQTT_MESSAGE payload)
      (r1\<lparr>rem_queue := Some [OTA_REMOTE_CMD_ACCEPT]\<rparr>) w s1 = Some (False, v1, r2, s2)"
    using remote_poll_again [OF assms(11)] r1(2) by auto
  then have r2: "rem_queue r2 = Some [OTA_REMOTE_CMD_ACCEPT]" "\<not> rem_update_valid r2" "rem_update_in_progress r2"
    using assms(5-9)
    by (auto simp: remote_dispatch_def handle_version_response_def Let_def r1(2) ui_publish_fields)
  obtain w' where "remote_dispatch E OE OTA_REMOTE_CMD_ACCEPT (r2\<lparr>rem_queue := Some []\<rparr>) w' s2 =
      Some (False, v2, r3, s3)"
    using remote_poll_again [OF assms(12) r2(1)] .
  then have "run_update E OE (r2\<lparr>rem_queue := Some []\<rparr>) w' s2 = Some (False, v2, r3, s3)"
    by (simp add: remote_dispatch_def)
  then have "r3 = r2\<lparr>rem_queue := Some []\<rparr>"
    using run_update_invalid [of "r2\<lparr>rem_queue := Some []\<rparr>" E OE w' s2] r2(2) by simp
  then have "remote_stuck r3" using r2 by (simp add: remote_stuck_def)
  then show ?thesis using r1(1) remote_stuck_steps [OF assms(13)] remote_stuck_accept by simp
qed

text \<open>C37: A stored update that is still marked as pending when the broker connection comes back
  overwrites the offer the user sees: the offer stays valid, but its size and its address are gone,
  so that accepting it fails before the download starts and without touching the service.\<close>

theorem remote_reconnect_spoils_offer:
  assumes "rem_update_valid r" "sto_load (rem_storage r) = Some load" "load w = ((OTA_OK, pending), w1)"
    and "pend_target_version_code pending = OTA_CURRENT_FIRMWARE_VERSION_CODE"
    and "pend_firmware_message_id pending \<noteq> []"
    and "publish_completed_if_pending E r w = (r1, w2)"
  shows "rem_update_valid r1 \<and> vrs_package_size (rem_update r1) = 0 \<and> vrs_download_url (rem_update r1) = [] \<and>
    (\<forall>w3 s. \<exists>w4 r2. run_update E OE r1 w3 s = Some (False, w4, r2, s) \<and> \<not> rem_update_in_progress r2)"
proof -
  let ?q = "version_response_zero
      \<lparr>vrs_message_id := copy_text 48 (Some (pend_firmware_message_id pending)),
       vrs_version_code := pend_target_version_code pending\<rparr>"
  obtain e r3 where ev: "publish_update_event E OTA_MQTT_EVENT_COMPLETED ''boot'' 0 100 OTA_OK
      (r\<lparr>rem_update := ?q\<rparr>) = (e, r3)" by fastforce
  have fr: "rem_frame (r\<lparr>rem_update := ?q\<rparr>) r3" by (rule rem_frame_event [OF ev])
  have "r1 = r3"
    using assms(2-6) ev by (auto simp: publish_completed_if_pending_def Let_def split: option.splits if_splits)
  then have r1: "rem_update_valid r1" "rem_update r1 = ?q"
    using fr assms(1) by (simp_all add: rem_frame_def)
  then have zero: "vrs_package_size (rem_update r1) = 0" "vrs_download_url (rem_update r1) = []"
    by (simp_all add: version_response_zero_def)
  have "\<exists>w4 r2. run_update E OE r1 w3 s = Some (False, w4, r2, s) \<and> \<not> rem_update_in_progress r2" for w3 s
  proof -
    obtain w4 r4 where "run_update E OE r1 w3 s = Some (False, w4, run_update_failed E ''download'' OTA_ERROR_NETWORK r4, s) \<or>
      run_update E OE r1 w3 s =
       (ota_http_download (remote_http E) OE (Some (update_request r1)) (w4, r4) s \<bind>
         (\<lambda>(result, (w, r), s). run_update_end E result w r s))"
      by (rule run_update_unfold [OF r1(1)])
    moreover have "ota_http_download (remote_http E) OE (Some (update_request r1)) (w4, r4) s =
        Some (OTA_ERROR_ARGUMENT, (w4, r4), s)"
      by (simp add: ota_http_download_def update_request_def zero)
    ultimately have "\<exists>w4 r4 res. run_update E OE r1 w3 s =
        Some (False, w4, run_update_failed E ''download'' res r4, s)"
      by (auto simp: run_update_end_def)
    moreover have "\<not> rem_update_in_progress (run_update_failed E stage res r4)" for stage res r4
      using run_update_failed_frame [of r4 E stage res] by (simp add: rem_frame_def)
    ultimately show ?thesis by metis
  qed
  then show ?thesis using r1(1) zero by blast
qed

section \<open>A concrete controller\<close>

text \<open>A network that is always up, a broker that accepts everything and sends one message, and the
  server of the HTTP client's examples; the world is what that server still has to send.\<close>

definition example_remote_env :: "cjson \<Rightarrow> bytes remote_env" where
  "example_remote_env tree =
     \<lparr>env_wlan = \<lambda>w. (True, w), env_tick = \<lambda>w. (0, w), env_mdelay = \<lambda>n w. w, env_uid = (1, 2, 3),
      env_umqtt_create = \<lambda>info w. (True, w), env_umqtt_start = \<lambda>w. (0, w),
      env_umqtt_subscribe = \<lambda>topic w. (0, w), env_umqtt_linked = \<lambda>w. (True, w),
      env_umqtt_publish = \<lambda>m w. (0, w), env_umqtt_delete = \<lambda>w. w, env_json_alloc = \<lambda>n. True,
      env_json_print = \<lambda>t n. Some ''{}'', env_json_parse = \<lambda>t. Some tree,
      env_http = list_server None, env_mutexes = (True, True), env_queues = (True, True),
      env_threads = (True, True)\<rparr>"

lemma example_remote_env_fields:
  "env_wlan (example_remote_env t) w = (True, w)" "env_tick (example_remote_env t) w = (0, w)"
  "env_mdelay (example_remote_env t) n w = w" "env_uid (example_remote_env t) = (1, 2, 3)"
  "env_umqtt_create (example_remote_env t) info w = (True, w)" "env_umqtt_start (example_remote_env t) w = (0, w)"
  "env_umqtt_subscribe (example_remote_env t) topic w = (0, w)"
  "env_umqtt_linked (example_remote_env t) w = (True, w)" "env_http (example_remote_env t) = list_server None"
  "env_mutexes (example_remote_env t) = (True, True)" "env_queues (example_remote_env t) = (True, True)"
  "env_threads (example_remote_env t) = (True, True)"
  by (simp_all add: example_remote_env_def)

definition example_no_update :: ota_mqtt_version_response_t where
  "example_no_update = example_response\<lparr>vrs_update_available := False, vrs_package_size := 0,
     vrs_package_crc32 := 0, vrs_package_sha256 := [], vrs_download_url := []\<rparr>"

lemma example_no_update_parse:
  "ota_mqtt_parse_version_response (env_json_parse (example_remote_env (version_response_tree example_no_update)))
     (Some ''{}'') (Some version_response_zero) = (OTA_OK, Some example_no_update)"
proof -
  have "version_response_valid example_no_update"
    by (simp add: example_no_update_def example_response_def version_response_valid_def version_response_wf_def)
  from version_response_tree_parse [OF this] show ?thesis
    by (simp add: ota_mqtt_parse_version_response_def version_response_tree_def example_remote_env_def)
qed

definition example_remote :: "bytes ota_remote" where
  "example_remote = remote_zero\<lparr>rem_lock := True, rem_mqtt_lock := True, rem_mqtt := True,
     rem_mqtt_ready := True, rem_update_valid := True, rem_device_id := ''H743-1'',
     rem_last_request_id := ''H743-1-1'', rem_queue := Some [OTA_REMOTE_CMD_MQTT_MESSAGE ''{}'']\<rparr>"

lemma remote_accept_stuck_witness:
  "\<exists>r4 :: bytes ota_remote. ota_remote_accept_update r4 = (OTA_ERROR_STATE, r4) \<and> rem_update_in_progress r4"
proof -
  define E where "E = example_remote_env (version_response_tree example_no_update)"
  note parse = example_no_update_parse [folded E_def]
  have up: "env_wlan E w = (True, w)" "env_umqtt_linked E w = (True, w)" for w
    by (simp_all add: E_def example_remote_env_def)
  let ?r1 = "example_remote\<lparr>rem_update_in_progress := True,
      rem_queue := Some [OTA_REMOTE_CMD_MQTT_MESSAGE ''{}'', OTA_REMOTE_CMD_ACCEPT]\<rparr>"
  define r2 where "r2 = handle_version_response E ''{}'' (?r1\<lparr>rem_queue := Some [OTA_REMOTE_CMD_ACCEPT]\<rparr>)"
  have acc: "ota_remote_accept_update example_remote = (OTA_OK, ?r1)"
    by (simp add: ota_remote_accept_update_def example_remote_def enqueue_command_def fifo_send_def Let_def
        remote_zero_def)
  have p1: "remote_poll E example_env ?r1 [] (ota_boot (\<lambda>_. 0xFF)) = Some (Poll_Again, [], r2, ota_boot (\<lambda>_. 0xFF))"
    by (simp add: remote_poll_def up mqtt_is_linked_def apply_pending_broker_uri_def fifo_recv_def
        remote_dispatch_def r2_def example_remote_def remote_zero_def)
  have r2: "rem_queue r2 = Some [OTA_REMOTE_CMD_ACCEPT]" "\<not> rem_update_valid r2" "rem_update_in_progress r2"
    "rem_mqtt_ready r2" "rem_mqtt r2" "rem_mqtt_lock r2" "\<not> rem_broker_update_pending r2"
    by (simp_all add: r2_def handle_version_response_def parse Let_def example_remote_def ui_publish_def
        remote_zero_def example_no_update_def example_response_def)
  have p2: "remote_poll E example_env r2 [] (ota_boot (\<lambda>_. 0xFF)) =
      Some (Poll_Again, [], r2\<lparr>rem_queue := Some []\<rparr>, ota_boot (\<lambda>_. 0xFF))"
    by (simp add: remote_poll_def up mqtt_is_linked_def apply_pending_broker_uri_def fifo_recv_def
        remote_dispatch_def r2 run_update_def)
  have "OTA_OK = OTA_OK \<and> ota_remote_accept_update (r2\<lparr>rem_queue := Some []\<rparr>) = (OTA_ERROR_STATE, r2\<lparr>rem_queue := Some []\<rparr>)"
    by (rule remote_accept_stuck [OF _ _ _ _ parse _ _ _ _ acc p1 p2 rtranclp.rtrancl_refl])
       (simp_all add: example_remote_def remote_zero_def example_no_update_def example_response_def)
  moreover have "rem_update_in_progress (r2\<lparr>rem_queue := Some []\<rparr>)" using r2 by simp
  ultimately show ?thesis by blast
qed

lemma remote_reconnect_spoils_offer_witness:
  "\<exists>r1 :: nat ota_remote. rem_update_valid r1 \<and> vrs_download_url (rem_update r1) = []"
proof -
  define pending where "pending = \<lparr>pend_firmware_message_id = ''server-1'',
      pend_target_version_code = OTA_CURRENT_FIRMWARE_VERSION_CODE\<rparr>"
  define load :: "nat \<Rightarrow> (int \<times> ota_remote_pending_update_t) \<times> nat" where "load = (\<lambda>w. ((OTA_OK, pending), w))"
  define r :: "nat ota_remote" where "r = remote_zero\<lparr>rem_update_valid := True, rem_update := example_response,
      rem_storage := \<lparr>sto_load = Some load, sto_save = None, sto_clear = None\<rparr>\<rparr>"
  obtain r1 w2 where out: "publish_completed_if_pending (undefined :: nat remote_env) r 0 = (r1, w2)" by fastforce
  have "rem_update_valid r1 \<and> vrs_package_size (rem_update r1) = 0 \<and> vrs_download_url (rem_update r1) = [] \<and>
    (\<forall>w3 (s :: (nat \<Rightarrow> u8) ota_sys). \<exists>w4 r2. run_update undefined example_env r1 w3 s = Some (False, w4, r2, s) \<and> \<not> rem_update_in_progress r2)"
    by (rule remote_reconnect_spoils_offer [OF _ _ _ _ _ out, of load pending 0])
       (simp_all add: r_def load_def pending_def)
  then show ?thesis by blast
qed

definition example_device :: string where
  "example_device = ''H743-000000010000000200000003''"

definition example_offer :: ota_mqtt_version_response_t where
  "example_offer = example_response\<lparr>vrs_request_message_id := example_device @ ''-1'',
     vrs_device_id := example_device, vrs_package_crc32 := ota_crc32_calculate example_package,
     vrs_package_sha256 := hex_text (sha256_spec example_package)\<rparr>"

lemma example_offer_valid: "version_response_valid example_offer"
  using hex_text_xdigits [of "sha256_spec example_package"]
  by (simp add: example_offer_def example_response_def version_response_valid_def version_response_wf_def
      is_hex_string_def length_hex_text length_sha256_spec example_device_def)

abbreviation (input) example_offer_env :: "bytes remote_env" where
  "example_offer_env \<equiv> example_remote_env (version_response_tree example_offer)"

lemma example_offer_parse:
  "ota_mqtt_parse_version_response (env_json_parse example_offer_env) (Some ''{}'') (Some version_response_zero) =
     (OTA_OK, Some example_offer)"
  using version_response_tree_parse [OF example_offer_valid]
  by (simp add: ota_mqtt_parse_version_response_def version_response_tree_def example_remote_env_def)

definition example_config :: "bytes ota_remote_config_t" where
  "example_config = ota_remote_default_config\<lparr>cfg_enable_rollout_delay := False\<rparr>"

lemma example_device_id: "ota_remote_get_device_id example_offer_env 48 = (OTA_OK, example_device)"
  by (simp add: ota_remote_get_device_id_def example_remote_env_def example_device_def hex8_text_def
      upper_digit_def char_of_def bit_0)

lemma example_device_text: "example_device \<noteq> []" "length example_device = 29"
  by (simp_all add: example_device_def)

lemma example_build:
  "dst_device_id s \<noteq> [] \<Longrightarrow> ota_mqtt_build_device_status (env_json_alloc (example_remote_env t)) (env_json_print (example_remote_env t)) (Some s) False 1537 = (OTA_OK, Some ''{}'')"
  "vrq_message_id q \<noteq> [] \<Longrightarrow> vrq_device_id q \<noteq> [] \<Longrightarrow> ota_mqtt_build_version_request (env_json_alloc (example_remote_env t)) (env_json_print (example_remote_env t)) (Some q) False 1537 = (OTA_OK, Some ''{}'')"
  "evt_message_id e \<noteq> [] \<Longrightarrow> evt_device_id e \<noteq> [] \<Longrightarrow> ota_mqtt_build_update_event (env_json_alloc (example_remote_env t)) (env_json_print (example_remote_env t)) (Some e) False 1537 = (OTA_OK, Some ''{}'')"
  by (simp_all add: ota_mqtt_build_device_status_def ota_mqtt_build_version_request_def
      ota_mqtt_build_update_event_def build_object_def print_json_def example_remote_env_def list_all_iff)

lemma example_start:
  obtains r s where "ota_remote_start example_offer_env example_env (Some example_config) remote_zero
      (ota_boot (\<lambda>_. 0xFF)) = (OTA_OK, r, s)"
    "ota_service_init example_env (ota_boot (\<lambda>_. 0xFF)) = (OTA_OK, s)"
    "length (rem_request_topic r) < 128" "length (rem_status_topic r) < 128"
    "rem_queue r = Some []" "rem_tx_queue r = Some []" "rem_lock r" "rem_mqtt_lock r"
    "\<not> rem_broker_update_pending r" "rem_device_id r = example_device" "rem_message_counter r = 0"
    "sto_load (rem_storage r) = None" "sto_save (rem_storage r) = None" "rem_auto_reboot r" "\<not> rem_update_valid r"
    "\<not> rem_enable_rollout_delay r" "\<not> rem_update_in_progress r"
proof -
  obtain s where init: "ota_service_init example_env (ota_boot (\<lambda>_. 0xFF)) = (OTA_OK, s)"
    using example_find
    by (auto simp: ota_service_init_def ota_boot_def example_env_def [THEN arg_cong, of env_mutex_create, simplified]
        example_download_def example_upgrade_def)
  have nt: "\<not> rem_thread remote_zero" by (simp add: remote_zero_def)
  have cfg: "\<not> config_invalid example_config"
    by (simp add: config_invalid_def example_config_def ota_remote_default_config_def)
  obtain r where "ota_remote_start example_offer_env example_env (Some example_config) remote_zero
      (ota_boot (\<lambda>_. 0xFF)) = (OTA_OK, r, s) \<and>
    length (rem_request_topic r) < 128 \<and> length (rem_status_topic r) < 128 \<and>
    rem_queue r = Some [] \<and> rem_tx_queue r = Some [] \<and> rem_lock r \<and> rem_mqtt_lock r \<and>
    \<not> rem_broker_update_pending r \<and> rem_device_id r = example_device \<and> rem_message_counter r = 0 \<and>
    sto_load (rem_storage r) = None \<and> sto_save (rem_storage r) = None \<and> rem_auto_reboot r \<and> \<not> rem_update_valid r \<and>
    \<not> rem_enable_rollout_delay r \<and> \<not> rem_update_in_progress r"
    unfolding ota_remote_start_def if_not_P [OF nt] option.case if_not_P [OF cfg] init Let_def prod.case
      example_device_id
    by (simp add: example_build copy_text_def example_device_text remote_zero_def example_config_def
        ota_remote_default_config_def example_remote_env_fields)
  then show thesis using that init by blast
qed

lemma example_connect:
  assumes "rem_queue r = Some []" "rem_tx_queue r = Some []" "\<not> rem_broker_update_pending r"
    "rem_device_id r = example_device" "rem_message_counter r = 0" "sto_load (rem_storage r) = None"
    "length (rem_request_topic r) < 128" "length (rem_status_topic r) < 128"
  obtains r' where "remote_connect_round example_offer_env r w = (True, r', w)"
    "rem_last_request_id r' = example_device @ ''-1''" "rem_mqtt r'" "rem_mqtt_ready r'"
    "rem_queue r' = Some []" "rem_lock r' = rem_lock r" "rem_mqtt_lock r' = rem_mqtt_lock r"
    "\<not> rem_broker_update_pending r'" "rem_device_id r' = example_device"
    "rem_storage r' = rem_storage r" "rem_auto_reboot r' = rem_auto_reboot r"
    "rem_enable_rollout_delay r' = rem_enable_rollout_delay r" "rem_update_valid r' = rem_update_valid r"
    "rem_update_in_progress r' = rem_update_in_progress r"
proof -
  have one: "decimal_text (Suc 0) = ''1''" by (simp add: decimal_text.simps char_of_def bit_0)
  define r1 where "r1 = r\<lparr>rem_mqtt := True, rem_mqtt_ready := True, rem_mqtt_connect_stage := 4, rem_mqtt_last_result := 0\<rparr>"
  define m1 where "m1 = \<lparr>tx_qos = 1, tx_retained = True, tx_topic = rem_status_topic r, tx_payload = ''{}''\<rparr>"
  define m2 where "m2 = \<lparr>tx_qos = 1, tx_retained = False, tx_topic = rem_request_topic r, tx_payload = ''{}''\<rparr>"
  have ps: "publish_status example_offer_env True r1 = (OTA_OK, r1\<lparr>rem_tx_queue := Some [m1]\<rparr>)"
    using assms by (simp add: publish_status_def example_build copy_text_def example_device_text r1_def
        mqtt_publish_json_def mqtt_enqueue_def fifo_send_def m1_def)
  have pv: "publish_version_request example_offer_env (r1\<lparr>rem_tx_queue := Some [m1]\<rparr>) =
      (OTA_OK, r1\<lparr>rem_message_counter := 1, rem_last_request_id := example_device @ ''-1'',
         rem_tx_queue := Some [m1, m2]\<rparr>)"
    using assms by (simp add: publish_version_request_def make_message_id_def one example_build copy_text_def
        example_device_text r1_def mqtt_publish_json_def mqtt_enqueue_def fifo_send_def m2_def Let_def)
  have "remote_connect_round example_offer_env r w = (True, r1\<lparr>rem_message_counter := 1,
      rem_last_request_id := example_device @ ''-1'', rem_tx_queue := Some [m1, m2]\<rparr>, w)"
    using ps pv assms
    by (simp add: remote_connect_round_def example_remote_env_fields Let_def apply_pending_broker_uri_def
        connect_mqtt_def publish_completed_if_pending_def r1_def)
  then show thesis by (rule that) (use assms in \<open>simp_all add: r1_def\<close>)
qed

lemma example_offer_handle:
  assumes "rem_last_request_id r = example_device @ ''-1''" "rem_device_id r = example_device"
    "\<not> rem_update_valid r"
  obtains i where "handle_version_response example_offer_env ''{}'' r =
    ui_publish (r\<lparr>rem_update := example_offer, rem_update_valid := True, rem_ui_info := i\<rparr>)"
proof -
  have "\<exists>i. handle_version_response example_offer_env ''{}'' r =
    ui_publish (r\<lparr>rem_update := example_offer, rem_update_valid := True, rem_ui_info := i\<rparr>)"
    unfolding handle_version_response_def example_offer_parse prod.case Let_def
    using assms by (auto simp: example_offer_def example_response_def)
  then show thesis using that by blast
qed

lemma remote_http_example:
  "http_serves (remote_http (example_remote_env t)) fst" "http_quiet (remote_http (example_remote_env t)) fst stage"
  "http_connects (remote_http (example_remote_env t)) fst url data (data, r)"
  "http_read_ok (env_http (example_remote_env t))"
proof -
  have "http_serves (list_server None) (\<lambda>w. w)" by (rule list_server_facts(2))
  then show "http_serves (remote_http (example_remote_env t)) fst"
    by (auto simp: http_serves_def remote_http_def Let_def example_remote_env_fields split: prod.splits) 
  show "http_quiet (remote_http (example_remote_env t)) fst stage"
    by (cases stage) (auto simp: http_quiet_def notify_progress_def remote_http_def remote_http_progress_def
        example_remote_env_fields Let_def split: prod.splits)
  show "http_connects (remote_http (example_remote_env t)) fst url data (data, r)"
    by (simp add: http_connects_def remote_http_def Let_def example_remote_env_fields list_server_def)
  show "http_read_ok (env_http (example_remote_env t))"
    by (simp add: example_remote_env_fields list_server_facts)
qed

lemma example_run_update:
  assumes "rem_update r = example_offer" "rem_update_valid r" "rem_auto_reboot r" "\<not> rem_enable_rollout_delay r"
    "sto_save (rem_storage r) = None" "ota_service_init example_env (ota_boot (\<lambda>_. 0xFF)) = (OTA_OK, s)"
  obtains w' r' s' where "run_update example_offer_env example_env r example_package s = Some (True, w', r', s')"
proof -
  define r0 where "r0 = r\<lparr>rem_download_stage := OTA_HTTP_STAGE_DOWNLOAD, rem_last_ui_progress_tick := 0,
                  rem_last_mqtt_progress_tick := 0\<rparr>"
  obtain e r1 where ev: "publish_update_event example_offer_env OTA_MQTT_EVENT_UPDATE_ACCEPTED ''decision'' 0 0 OTA_OK r0 = (e, r1)"
    by fastforce
  have fr0: "rem_frame r r0" by (simp add: r0_def rem_frame_def tx_bounded_def)
  have fr1: "rem_frame r r1" using rem_frame_trans [OF fr0 rem_frame_event [OF ev]] .
  have wait: "rollout_delay example_offer_env r1 w = w" for w
    using fr1 assms(4) by (simp add: rem_frame_def rollout_delay_def)
  note slots = ota_inv_reach [OF ota_reach.step [OF ota_reach.boot ota_step.init [OF assms(6)]] example_env_slots]
  have idle: "sys_slots example_download example_upgrade s" "st_state (ota_status s) \<in> {OTA_STATE_IDLE}"
    using slots assms(6)
    by (auto simp: ota_inv_def ota_service_init_def ota_boot_def ota_status_zero_def Let_def split: if_splits)
  have req: "update_request r1 = \<lparr>req_url = Some ''http://10.0.0.2/fw'', req_package_size = 4104,
      req_package_crc32 = ota_crc32_calculate example_package,
      req_package_sha256 = Some (hex_text (sha256_spec example_package))\<rparr>"
    using fr1 assms(1) by (simp add: update_request_def rem_frame_def example_offer_def example_response_def)
  have "\<exists>res w5 w6 w' s'. notify_progress (remote_http example_offer_env) OTA_HTTP_STAGE_COMMIT 4104 4104 100 w5 = (res, w6) \<and>
    ota_http_download (remote_http example_offer_env) example_env (Some (update_request r1)) (example_package, r1) s =
      Some (res, w', s') \<and> st_state (ota_get_status s') = OTA_STATE_READY"
    unfolding req
    by (rule http_download_runs [OF example_env_slots idle(1) example_reliable _ _
          remote_http_example(1,2,2) _ hex_text_parse [OF length_sha256_spec] remote_http_example(3)
          example_package_valid]) (use idle(2) in \<open>simp_all add: example_env_def\<close>)
  then obtain res w5 w6 w' r2 s' where out:
    "notify_progress (remote_http example_offer_env) OTA_HTTP_STAGE_COMMIT 4104 4104 100 w5 = (res, w6)"
    "ota_http_download (remote_http example_offer_env) example_env (Some (update_request r1)) (example_package, r1) s =
      Some (res, (w', r2), s')" "st_state (ota_get_status s') = OTA_STATE_READY" by fastforce
  have "res = OTA_OK"
    using out(1) remote_http_example(2) [of "version_response_tree example_offer" OTA_HTTP_STAGE_COMMIT]
    unfolding http_quiet_def by (metis Pair_inject)
  note dl = out(2) [unfolded this]
  have fr2: "rem_frame r r2"
    using http_download_preserves [OF remote_http_preserves [of example_offer_env r] _ dl] fr1 by simp
  have fin: "\<exists>w3 r3. run_update_end example_offer_env OTA_OK w' r2 s' = Some (True, w3, r3, s')"
    using fr2 assms(3,5) out(3)
    by (auto simp: run_update_end_def save_pending_update_def rem_frame_def Let_def ota_reboot_to_install_def
        split: prod.split)
  have "run_update example_offer_env example_env r example_package s =
      run_update_end example_offer_env OTA_OK w' r2 s'"
    unfolding run_update_def Let_def if_not_P [OF not_not [THEN iffD2, OF assms(2)]] r0_def [symmetric] ev prod.case
      wait example_remote_env_fields
    by (simp add: dl)
  then show thesis using fin that by auto
qed


lemma remote_reach_invariant_witness:
  "\<exists>r s. remote_reach example_offer_env example_env (\<lambda>_. 0xFF) (r, s) \<and> rx_bounded r \<and> tx_bounded r"
proof -
  obtain r s where st: "ota_remote_start example_offer_env example_env (Some example_config) remote_zero
      (ota_boot (\<lambda>_. 0xFF)) = (OTA_OK, r, s)" by (rule example_start)
  note reach = remote_reach.start [OF ota_reach.boot st]
  show ?thesis using remote_reach_invariant [OF example_env_slots remote_http_example(4) reach] reach by blast
qed

end
