(* ===== verification/Ota_Remote_Address.thy ===== *)
theory Ota_Remote_Address
  imports Ota_Remote
begin

text \<open>
  The server address a user enters: \<open>ipv4_address_valid\<close> against the dotted notation, and the way of
  an address from \<open>ota_remote_set_server_ip\<close> through the pending broker address to the controller
  and back to the UI.
\<close>

section \<open>Dotted notation\<close>

definition octet_value :: "string \<Rightarrow> nat" where
  "octet_value t = foldl (\<lambda>v c. v * 10 + (of_char c - 48)) 0 t"

definition digit_text :: "string \<Rightarrow> bool" where
  "digit_text t \<longleftrightarrow> (\<forall>c \<in> set t. 48 \<le> (of_char c :: nat) \<and> (of_char c :: nat) \<le> 57)"

text \<open>One to three digits with a value below 256.\<close>

definition octet_text :: "string \<Rightarrow> bool" where
  "octet_text t \<longleftrightarrow> t \<noteq> [] \<and> length t \<le> 3 \<and> digit_text t \<and> octet_value t \<le> 255"

fun dotted :: "string list \<Rightarrow> string" where
  "dotted [] = []"
| "dotted [t] = t"
| "dotted (t # u # ts) = t @ CHR ''.'' # dotted (u # ts)"

lemma octet_value_snoc: "octet_value (p @ [c]) = octet_value p * 10 + (of_char c - 48)"
  by (simp add: octet_value_def)

lemma octet_value_mono: "octet_value p \<le> octet_value (p @ t)"
proof (induction t rule: rev_induct)
  case (snoc c t)
  then show ?case using octet_value_snoc [of "p @ t" c] by simp
qed simp

lemma digit_text_append [simp]: "digit_text (p @ t) \<longleftrightarrow> digit_text p \<and> digit_text t"
  by (auto simp: digit_text_def)

lemma digit_text_simps [simp]:
  "digit_text []" "digit_text (c # t) \<longleftrightarrow> 48 \<le> (of_char c :: nat) \<and> (of_char c :: nat) \<le> 57 \<and> digit_text t"
  by (auto simp: digit_text_def)

lemma dotted_Cons: "dotted (t # ts) = t @ (if ts = [] then [] else CHR ''.'' # dotted ts)"
  by (cases ts) simp_all

lemma ipv4_loop_dotted:
  assumes "digit_text p" "length p \<le> 3" "octet_value p \<le> 255" "k < 4"
  shows "ipv4_loop (octet_value p) (length p) k s \<longleftrightarrow>
    (\<exists>t ts. s = dotted (t # ts) \<and> octet_text (p @ t) \<and> (\<forall>t \<in> set ts. octet_text t) \<and> k + length ts = 3)"
  using assms
proof (induction s arbitrary: p k)
  case Nil
  have "[] = dotted (t # ts) \<longleftrightarrow> t = [] \<and> ts = []" for t ts by (auto simp: dotted_Cons)
  then show ?case using Nil by (auto simp: octet_text_def)
next
  case (Cons c cs)
  let ?n = "of_char c :: nat"
  consider (digit) "48 \<le> ?n" "?n \<le> 57" | (dot) "c = CHR ''.''" | (other) "\<not> (48 \<le> ?n \<and> ?n \<le> 57)" "c \<noteq> CHR ''.''"
    by blast
  then show ?case
  proof cases
    case digit
    then have nd: "c \<noteq> CHR ''.''" by auto
    have split: "c # cs = dotted (t # ts) \<longleftrightarrow> (\<exists>t'. t = c # t' \<and> cs = dotted (t' # ts))" for t ts
      using nd by (cases t) (auto simp: dotted_Cons)
    show ?thesis
    proof (cases "length p < 3 \<and> octet_value (p @ [c]) \<le> 255")
      case True
      have "ipv4_loop (octet_value p) (length p) k (c # cs) =
          ipv4_loop (octet_value (p @ [c])) (length (p @ [c])) k cs"
        using digit True by (simp add: Let_def octet_value_snoc)
      also have "\<dots> \<longleftrightarrow> (\<exists>t ts. cs = dotted (t # ts) \<and> octet_text ((p @ [c]) @ t) \<and>
          (\<forall>t \<in> set ts. octet_text t) \<and> k + length ts = 3)"
        by (rule Cons.IH) (use Cons.prems digit True in simp_all)
      finally show ?thesis unfolding split by auto
    next
      case False
      have "\<not> octet_text (p @ c # t)" for t
        using False octet_value_mono [of "p @ [c]" t] by (auto simp: octet_text_def)
      moreover have "\<not> ipv4_loop (octet_value p) (length p) k (c # cs)"
        using digit False by (auto simp: Let_def octet_value_snoc)
      ultimately show ?thesis unfolding split by auto
    qed
  next
    case dot
    have no: "t = []" if "c # cs = dotted (t # ts)" "octet_text (p @ t)" for t ts
    proof (cases t)
      case (Cons d t')
      then show ?thesis using that dot by (auto simp: dotted_Cons octet_text_def)
    qed simp
    have split: "(\<exists>t ts. c # cs = dotted (t # ts) \<and> octet_text (p @ t) \<and> (\<forall>t \<in> set ts. octet_text t) \<and> k + length ts = 3) \<longleftrightarrow>
        octet_text p \<and> (\<exists>u us. cs = dotted (u # us) \<and> octet_text u \<and> (\<forall>t \<in> set us. octet_text t) \<and> k + 1 + length us = 3)"
      (is "?L \<longleftrightarrow> ?R")
    proof
      assume ?L
      then obtain t ts where L: "c # cs = dotted (t # ts)" "octet_text (p @ t)" "\<forall>t \<in> set ts. octet_text t" "k + length ts = 3"
        by blast
      then have "t = []" using no by blast
      then show ?R using L by (cases ts) auto
    next
      assume ?R
      then obtain u us where R: "octet_text p" "cs = dotted (u # us)" "octet_text u" "\<forall>t \<in> set us. octet_text t" "k + 1 + length us = 3"
        by blast
      then show ?L using dot by (intro exI [of _ "[]"] exI [of _ "u # us"]) simp
    qed
    have IH: "ipv4_loop 0 0 (k + 1) cs \<longleftrightarrow>
        (\<exists>t ts. cs = dotted (t # ts) \<and> octet_text t \<and> (\<forall>t \<in> set ts. octet_text t) \<and> k + 1 + length ts = 3)"
      if "k + 1 < 4" using Cons.IH [of "[]" "k + 1"] that by (simp add: octet_value_def)
    show ?thesis
    proof (cases "p = [] \<or> k + 1 = 4")
      case True
      then show ?thesis unfolding split using dot Cons.prems(4) by (auto simp: Let_def octet_text_def)
    next
      case False
      then show ?thesis unfolding split using dot Cons.prems IH by (auto simp: Let_def octet_text_def)
    qed
  next
    case other
    have "\<not> (c # cs = dotted (t # ts) \<and> octet_text (p @ t))" for t ts
      using other by (cases t; cases ts) (auto simp: dotted_Cons octet_text_def)
    then show ?thesis using other by (auto simp: Let_def)
  qed
qed

lemma ipv4_address_valid_dotted:
  "ipv4_address_valid (Some s) \<longleftrightarrow> (\<exists>ts. length ts = 4 \<and> (\<forall>t \<in> set ts. octet_text t) \<and> s = dotted ts)"
proof -
  have loop: "ipv4_loop 0 0 0 s \<longleftrightarrow>
      (\<exists>t ts. s = dotted (t # ts) \<and> octet_text t \<and> (\<forall>t \<in> set ts. octet_text t) \<and> length ts = 3)"
    using ipv4_loop_dotted [of "[]" 0 s] by (simp add: octet_value_def)
  have "(\<exists>ts. length ts = 4 \<and> (\<forall>t \<in> set ts. octet_text t) \<and> s = dotted ts) \<longleftrightarrow>
      (\<exists>t ts. s = dotted (t # ts) \<and> octet_text t \<and> (\<forall>t \<in> set ts. octet_text t) \<and> length ts = 3)"
    (is "?L \<longleftrightarrow> ?R")
  proof
    assume ?L
    then obtain ts where ts: "length ts = 4" "\<forall>t \<in> set ts. octet_text t" "s = dotted ts" by blast
    then show ?R by (cases ts) auto
  next
    assume ?R
    then obtain t ts where "s = dotted (t # ts)" "octet_text t" "\<forall>t \<in> set ts. octet_text t" "length ts = 3"
      by blast
    then show ?L by (intro exI [of _ "t # ts"]) simp
  qed
  moreover have "s \<noteq> []" if "ipv4_loop 0 0 0 s" using that by auto
  ultimately show ?thesis using loop by (auto simp: ipv4_address_valid_def)
qed

section \<open>The way of an address\<close>

lemma dotted_length: "(\<forall>t \<in> set ts. octet_text t) \<Longrightarrow> length (dotted ts) + 1 \<le> 4 * length ts + (if ts = [] then 1 else 0)"
  by (induction ts rule: dotted.induct) (auto simp: octet_text_def)

lemma dotted_chars: "(\<forall>t \<in> set ts. octet_text t) \<Longrightarrow> CHR '':'' \<notin> set (dotted ts)"
  by (induction ts rule: dotted.induct) (auto simp: octet_text_def digit_text_def)

lemma ipv4_address_shape:
  assumes "ipv4_address_valid (Some s)"
  shows "0 < length s" "length s \<le> 15" "CHR '':'' \<notin> set s"
proof -
  obtain ts where ts: "length ts = 4" "\<forall>t \<in> set ts. octet_text t" "s = dotted ts"
    using assms ipv4_address_valid_dotted by blast
  show "length s \<le> 15" using dotted_length [OF ts(2)] ts by (cases ts) auto
  show "CHR '':'' \<notin> set s" using dotted_chars [OF ts(2)] ts(3) by simp
  show "0 < length s" using assms by (auto simp: ipv4_address_valid_def)
qed

text \<open>C38: A server address is accepted exactly if it is four decimal numbers of one to three digits
  up to 255, separated by dots; and the address the user entered is the one the UI reads back from
  the broker's URI once the controller's thread has taken it over.\<close>

theorem remote_server_address:
  assumes "rem_lock r"
  shows "(fst (ota_remote_set_server_ip (Some s) r) = OTA_OK \<longleftrightarrow>
      (\<exists>ts. length ts = 4 \<and> (\<forall>t \<in> set ts. octet_text t) \<and> s = dotted ts)) \<and>
    (\<forall>r1. ota_remote_set_server_ip (Some s) r = (OTA_OK, r1) \<longrightarrow>
      (let r2 = snd (apply_pending_broker_uri r1)
       in rem_broker_uri r2 = ''tcp://'' @ s @ '':1883'' \<and>
          broker_uri_server_ip (Some (rem_broker_uri r2)) 16 = (OTA_OK, s) \<and>
          apply_pending_broker_uri r2 = (False, r2)))"
proof (cases "ipv4_address_valid (Some s)")
  case False
  then show ?thesis using ipv4_address_valid_dotted by (simp add: ota_remote_set_server_ip_def)
next
  case True
  note s = ipv4_address_shape [OF True]
  have port: "decimal_text 1883 = ''1883''"
    by (simp add: decimal_text.simps char_of_def bit_0 bit_Suc)
  have set: "ota_remote_set_server_ip (Some s) r =
      (OTA_OK, r\<lparr>rem_pending_broker_uri := ''tcp://'' @ s @ '':1883'', rem_broker_update_pending := True\<rparr>)"
    using True assms s(2) port by (simp add: ota_remote_set_server_ip_def copy_text_def Let_def)
  have "takeWhile (\<lambda>c. c \<noteq> CHR '':'') (s @ '':1883'') = s"
    using s(3) by (subst takeWhile_append2) auto
  then have "broker_uri_server_ip (Some (''tcp://'' @ s @ '':1883'')) 16 = (OTA_OK, s)"
    using s True by (simp add: broker_uri_server_ip_def)
  then show ?thesis
    using True s(2) set ipv4_address_valid_dotted [of s]
    by (simp add: apply_pending_broker_uri_def copy_text_def)
qed

lemma remote_server_address_witness:
  "\<exists>r :: nat ota_remote. rem_lock r \<and> fst (ota_remote_set_server_ip (Some ''192.168.1.20'') r) = OTA_OK"
proof -
  let ?r = "remote_zero\<lparr>rem_lock := True\<rparr> :: nat ota_remote"
  have "octet_text ''192''" "octet_text ''168''" "octet_text ''1''" "octet_text ''20''"
    by (simp_all add: octet_text_def octet_value_def)
  moreover have "''192.168.1.20'' = dotted [''192'', ''168'', ''1'', ''20'']" by simp
  ultimately have "\<exists>ts. length ts = 4 \<and> (\<forall>t \<in> set ts. octet_text t) \<and> ''192.168.1.20'' = dotted ts"
    by (intro exI [of _ "[''192'', ''168'', ''1'', ''20'']"]) simp
  then show ?thesis using remote_server_address [of ?r "''192.168.1.20''"] by (intro exI [of _ ?r]) simp
qed

end
