(* ===== verification/Weather_Store.thy ===== *)
theory Weather_Store
  imports Ota_Hash "HOL-Library.Sublist"
begin

text \<open>
  The data of the weather component and its storage: the built-in city catalog
  (\<open>lvww_city_catalog.c\<close>), the stores of Wi-Fi profiles and of the weather cache with their memory
  layout, and \<open>lvww_storage.c\<close>.  Character arrays are byte lists of the declared length, whatever
  stands after the NUL; a \<open>double\<close> or \<open>float\<close> is its IEEE 754 bit pattern, since nothing here
  computes with them.
\<close>

section \<open>C strings in arrays\<close>

definition ascii :: "string \<Rightarrow> bytes" where
  "ascii s = map (\<lambda>c. of_nat (of_char c)) s"

definition c_array :: "nat \<Rightarrow> bytes \<Rightarrow> bytes" where
  "c_array n t = take n (t @ replicate n 0)"

definition c_str :: "bytes \<Rightarrow> bytes" where
  "c_str array = takeWhile (\<lambda>b. b \<noteq> 0) array"

lemma length_c_array [simp]: "length (c_array n t) = n"
  by (simp add: c_array_def)

lemma c_str_c_array: "0 \<notin> set t \<Longrightarrow> length t < n \<Longrightarrow> c_str (c_array n t) = t"
  by (auto simp: c_str_def c_array_def takeWhile_append takeWhile_eq_Nil_iff)

text \<open>\<open>rt_strncmp (a, b, n) == 0\<close> on NUL-terminated arrays.\<close>

definition strncmp_eq :: "nat \<Rightarrow> bytes \<Rightarrow> bytes \<Rightarrow> bool" where
  "strncmp_eq n a b \<longleftrightarrow> c_str (take n a) = c_str (take n b)"

section \<open>Cities\<close>

record lvww_city_t =
  city_id :: bytes
  city_name :: bytes
  city_admin :: bytes
  city_country :: bytes
  city_timezone :: bytes
  city_latitude :: u64
  city_longitude :: u64

definition lvww_city_catalog :: "(lvww_city_t \<times> bytes) list" where
  "lvww_city_catalog =
    [(\<lparr>city_id = c_array 32 (ascii ''beijing''), city_name = c_array 48 [229, 140, 151, 228, 186, 172],
       city_admin = c_array 48 [229, 140, 151, 228, 186, 172, 229, 184, 130],
       city_country = c_array 48 [228, 184, 173, 229, 155, 189],
       city_timezone = c_array 40 (ascii ''Asia/Shanghai''),
       city_latitude = 0x4043F3BCD35A8588, city_longitude = 0x405D1A12D77318FC\<rparr>,
      ascii ''beijing '' @ [229, 140, 151, 228, 186, 172] @ ascii '' '' @ [229, 140, 151, 228, 186, 172, 229, 184, 130]),
     (\<lparr>city_id = c_array 32 (ascii ''shanghai''), city_name = c_array 48 [228, 184, 138, 230, 181, 183],
       city_admin = c_array 48 [228, 184, 138, 230, 181, 183, 229, 184, 130],
       city_country = c_array 48 [228, 184, 173, 229, 155, 189],
       city_timezone = c_array 40 (ascii ''Asia/Shanghai''),
       city_latitude = 0x403F3AFB7E90FF97, city_longitude = 0x405E5E5119CE075F\<rparr>,
      ascii ''shanghai '' @ [228, 184, 138, 230, 181, 183] @ ascii '' '' @ [228, 184, 138, 230, 181, 183, 229, 184, 130]),
     (\<lparr>city_id = c_array 32 (ascii ''shenzhen''), city_name = c_array 48 [230, 183, 177, 229, 156, 179],
       city_admin = c_array 48 [229, 185, 191, 228, 184, 156, 231, 156, 129],
       city_country = c_array 48 [228, 184, 173, 229, 155, 189],
       city_timezone = c_array 40 (ascii ''Asia/Shanghai''),
       city_latitude = 0x40368B089A027525, city_longitude = 0x405C83B4A2339C0F\<rparr>,
      ascii ''shenzhen '' @ [230, 183, 177, 229, 156, 179] @ ascii '' '' @ [229, 185, 191, 228, 184, 156] @ ascii '' '' @ [229, 185, 191, 228, 184, 156, 231, 156, 129]),
     (\<lparr>city_id = c_array 32 (ascii ''guangzhou''), city_name = c_array 48 [229, 185, 191, 229, 183, 158],
       city_admin = c_array 48 [229, 185, 191, 228, 184, 156, 231, 156, 129],
       city_country = c_array 48 [228, 184, 173, 229, 155, 189],
       city_timezone = c_array 40 (ascii ''Asia/Shanghai''),
       city_latitude = 0x4037210CB295E9E2, city_longitude = 0x405C50EBEDFA43FE\<rparr>,
      ascii ''guangzhou '' @ [229, 185, 191, 229, 183, 158] @ ascii '' '' @ [229, 185, 191, 228, 184, 156] @ ascii '' '' @ [229, 185, 191, 228, 184, 156, 231, 156, 129]),
     (\<lparr>city_id = c_array 32 (ascii ''chengdu''), city_name = c_array 48 [230, 136, 144, 233, 131, 189],
       city_admin = c_array 48 [229, 155, 155, 229, 183, 157, 231, 156, 129],
       city_country = c_array 48 [228, 184, 173, 229, 155, 189],
       city_timezone = c_array 40 (ascii ''Asia/Shanghai''),
       city_latitude = 0x403E92A305532618, city_longitude = 0x405A04467381D7DC\<rparr>,
      ascii ''chengdu '' @ [230, 136, 144, 233, 131, 189] @ ascii '' '' @ [229, 155, 155, 229, 183, 157] @ ascii '' '' @ [229, 155, 155, 229, 183, 157, 231, 156, 129]),
     (\<lparr>city_id = c_array 32 (ascii ''hangzhou''), city_name = c_array 48 [230, 157, 173, 229, 183, 158],
       city_admin = c_array 48 [230, 181, 153, 230, 177, 159, 231, 156, 129],
       city_country = c_array 48 [228, 184, 173, 229, 155, 189],
       city_timezone = c_array 40 (ascii ''Asia/Shanghai''),
       city_latitude = 0x403E462B6AE7D567, city_longitude = 0x405E09ED288CE704\<rparr>,
      ascii ''hangzhou '' @ [230, 157, 173, 229, 183, 158] @ ascii '' '' @ [230, 181, 153, 230, 177, 159] @ ascii '' '' @ [230, 181, 153, 230, 177, 159, 231, 156, 129]),
     (\<lparr>city_id = c_array 32 (ascii ''wuhan''), city_name = c_array 48 [230, 173, 166, 230, 177, 137],
       city_admin = c_array 48 [230, 185, 150, 229, 140, 151, 231, 156, 129],
       city_country = c_array 48 [228, 184, 173, 229, 155, 189],
       city_timezone = c_array 40 (ascii ''Asia/Shanghai''),
       city_latitude = 0x403E97C1BDA5119D, city_longitude = 0x405C938D4FDF3B64\<rparr>,
      ascii ''wuhan '' @ [230, 173, 166, 230, 177, 137] @ ascii '' '' @ [230, 185, 150, 229, 140, 151] @ ascii '' '' @ [230, 185, 150, 229, 140, 151, 231, 156, 129]),
     (\<lparr>city_id = c_array 32 (ascii ''xian''), city_name = c_array 48 [232, 165, 191, 229, 174, 137],
       city_admin = c_array 48 [233, 153, 149, 232, 165, 191, 231, 156, 129],
       city_country = c_array 48 [228, 184, 173, 229, 155, 189],
       city_timezone = c_array 40 (ascii ''Asia/Shanghai''),
       city_latitude = 0x40412BB98C7E2824, city_longitude = 0x405B3C25AEE631F9\<rparr>,
      ascii ''xian xi'' @ [39] @ ascii ''an '' @ [232, 165, 191, 229, 174, 137] @ ascii '' '' @ [233, 153, 149, 232, 165, 191] @ ascii '' '' @ [233, 153, 149, 232, 165, 191, 231, 156, 129])]"

definition lvww_ascii_lower :: "nat \<Rightarrow> nat" where
  "lvww_ascii_lower c = (if 65 \<le> c \<and> c \<le> 90 then c + 32 else c)"

text \<open>The inner loop runs while the characters agree; the outer one over all positions.\<close>

fun text_prefix_ci :: "bytes \<Rightarrow> bytes \<Rightarrow> bool" where
  "text_prefix_ci query [] = (query = [])"
| "text_prefix_ci [] (t # text) = True"
| "text_prefix_ci (q # query) (t # text) =
     (lvww_ascii_lower (unat t) = lvww_ascii_lower (unat q) \<and> text_prefix_ci query text)"

definition lvww_text_contains_ci :: "bytes option \<Rightarrow> bytes option \<Rightarrow> bool" where
  "lvww_text_contains_ci text query =
     (case (text, query) of
        (Some t, Some q) \<Rightarrow>
          if length q = 0 then True
          else if length q > length t then False
          else list_ex (\<lambda>i. text_prefix_ci q (drop i t)) [0 ..< length t - length q + 1]
      | _ \<Rightarrow> False)"

fun catalog_loop :: "bytes \<Rightarrow> nat \<Rightarrow> (lvww_city_t \<times> bytes) list \<Rightarrow> lvww_city_t list" where
  "catalog_loop query capacity [] = []"
| "catalog_loop query capacity (item # items) =
     (if capacity = 0 then []
      else if query = [] \<or> lvww_text_contains_ci (Some (snd item)) (Some query)
      then fst item # catalog_loop query (capacity - 1) items
      else catalog_loop query capacity items)"

text \<open>The result is the list of the cities stored; its length is the returned count.\<close>

definition lvww_city_catalog_search :: "bytes option \<Rightarrow> nat \<Rightarrow> lvww_city_t list" where
  "lvww_city_catalog_search query capacity =
     (if capacity = 0 then []
      else catalog_loop (case query of None \<Rightarrow> [] | Some q \<Rightarrow> q) capacity lvww_city_catalog)"

subsection \<open>The search\<close>

abbreviation (input) lower_text :: "bytes \<Rightarrow> nat list" where
  "lower_text \<equiv> map (\<lambda>b. lvww_ascii_lower (unat b))"

lemma text_prefix_ci_iff: "text_prefix_ci q t \<longleftrightarrow> prefix (lower_text q) (lower_text t)"
  by (induction q t rule: text_prefix_ci.induct) auto

lemma text_contains_ci_iff:
  "lvww_text_contains_ci (Some t) (Some q) \<longleftrightarrow> sublist (lower_text q) (lower_text t)"
proof -
  have "sublist xs ys \<longleftrightarrow> (\<exists>i \<le> length ys. prefix xs (drop i ys))" for xs ys :: "nat list"
  proof
    assume "sublist xs ys"
    then obtain ps ss where "ys = ps @ xs @ ss" by (auto simp: sublist_def)
    then show "\<exists>i \<le> length ys. prefix xs (drop i ys)" by (intro exI [of _ "length ps"]) simp
  next
    assume "\<exists>i \<le> length ys. prefix xs (drop i ys)"
    then obtain i ss where "drop i ys = xs @ ss" by (auto simp: prefix_def)
    then have "ys = take i ys @ xs @ ss" using append_take_drop_id [of i ys] by simp
    then show "sublist xs ys" unfolding sublist_def by blast
  qed
  then have sub: "sublist (lower_text q) (lower_text t) \<longleftrightarrow>
      (\<exists>i \<le> length t. prefix (lower_text q) (lower_text (drop i t)))"
    by (simp add: drop_map)
  have bound: "i \<le> length t - length q \<and> length q \<le> length t"
    if "i \<le> length t" "prefix (lower_text q) (lower_text (drop i t))" for i
    using prefix_length_le [OF that(2)] that(1) by (simp only: length_map length_drop) arith
  show ?thesis
  proof (cases "length q = 0 \<or> length q > length t")
    case True
    then show ?thesis unfolding sub using bound by (auto simp: lvww_text_contains_ci_def)
  next
    case False
    then have "lvww_text_contains_ci (Some t) (Some q) \<longleftrightarrow>
        (\<exists>i. i < length t - length q + 1 \<and> prefix (lower_text q) (lower_text (drop i t)))"
      by (simp add: lvww_text_contains_ci_def list_ex_iff text_prefix_ci_iff Bex_def del: upt_Suc)
    also have "\<dots> \<longleftrightarrow> (\<exists>i \<le> length t. prefix (lower_text q) (lower_text (drop i t)))"
    proof
      assume "\<exists>i < length t - length q + 1. prefix (lower_text q) (lower_text (drop i t))"
      then obtain i where i: "i < length t - length q + 1" "prefix (lower_text q) (lower_text (drop i t))" by blast
      then have "i \<le> length t" by simp
      then show "\<exists>i \<le> length t. prefix (lower_text q) (lower_text (drop i t))" using i(2) by blast
    next
      assume "\<exists>i \<le> length t. prefix (lower_text q) (lower_text (drop i t))"
      then obtain i where i: "i \<le> length t" "prefix (lower_text q) (lower_text (drop i t))" by blast
      then have "i < length t - length q + 1" using bound [OF i] by simp
      then show "\<exists>i < length t - length q + 1. prefix (lower_text q) (lower_text (drop i t))"
        using i(2) by blast
    qed
    finally show ?thesis unfolding sub .
  qed
qed

lemma catalog_loop_filter:
  "catalog_loop query capacity items =
     take capacity (map fst (filter (\<lambda>item. query = [] \<or> sublist (lower_text query) (lower_text (snd item))) items))"
  by (induction items arbitrary: capacity) (auto simp: text_contains_ci_iff take_Cons')

section \<open>The stores and their memory layout\<close>

abbreviation (input) LVWW_MAX_PROFILES :: nat where "LVWW_MAX_PROFILES \<equiv> 8"
abbreviation (input) LVWW_MAX_WIFI_RESULTS :: nat where "LVWW_MAX_WIFI_RESULTS \<equiv> 20"
abbreviation (input) LVWW_MAX_CITY_RESULTS :: nat where "LVWW_MAX_CITY_RESULTS \<equiv> 8"
abbreviation (input) LVWW_STORE_MAGIC :: u32 where "LVWW_STORE_MAGIC \<equiv> 0x4C565757"
abbreviation (input) LVWW_STORE_VERSION :: u16 where "LVWW_STORE_VERSION \<equiv> 1"
abbreviation (input) LVWW_INVALID_INDEX :: u8 where "LVWW_INVALID_INDEX \<equiv> 0xFF"
abbreviation (input) RT_EOK :: int where "RT_EOK \<equiv> 0"
abbreviation (input) RT_ERROR :: int where "RT_ERROR \<equiv> 1"
abbreviation (input) RT_EFULL :: int where "RT_EFULL \<equiv> 3"
abbreviation (input) RT_ENOSYS :: int where "RT_ENOSYS \<equiv> 6"
abbreviation (input) RT_EINVAL :: int where "RT_EINVAL \<equiv> 10"

definition LVWW_PROFILE_KEY :: bytes where "LVWW_PROFILE_KEY = ascii ''lvww/profiles''"
definition LVWW_CACHE_KEY :: bytes where "LVWW_CACHE_KEY = ascii ''lvww/cache''"

record lvww_wifi_credentials_t =
  cred_ssid :: bytes
  cred_password :: bytes
  cred_secure :: u8

text \<open>\<open>last_success\<close> is an \<open>int8_t\<close>, read with \<open>sint\<close>; -1 is no profile.\<close>

record lvww_profile_store_t =
  ps_magic :: u32
  ps_version :: u16
  ps_count :: u8
  ps_last_success :: u8
  ps_profiles :: "lvww_wifi_credentials_t list"
  ps_crc :: u32

record lvww_weather_t =
  wth_code :: u32
  wth_temperature_c :: u32
  wth_apparent_c :: u32
  wth_humidity_percent :: u32
  wth_wind_kph :: u32
  wth_today_high_c :: u32
  wth_today_low_c :: u32
  wth_utc_offset_seconds :: u32
  wth_observed_utc :: u64

record lvww_cache_store_t =
  cs_magic :: u32
  cs_version :: u16
  cs_city_valid :: u8
  cs_weather_valid :: u8
  cs_city :: lvww_city_t
  cs_weather :: lvww_weather_t
  cs_crc :: u32

definition credentials_zero :: lvww_wifi_credentials_t where
  "credentials_zero = \<lparr>cred_ssid = replicate 33 0, cred_password = replicate 65 0, cred_secure = 0\<rparr>"

definition profile_store_zero :: lvww_profile_store_t where
  "profile_store_zero = \<lparr>ps_magic = 0, ps_version = 0, ps_count = 0, ps_last_success = 0,
     ps_profiles = replicate LVWW_MAX_PROFILES credentials_zero, ps_crc = 0\<rparr>"

definition city_zero :: lvww_city_t where
  "city_zero = \<lparr>city_id = replicate 32 0, city_name = replicate 48 0, city_admin = replicate 48 0,
     city_country = replicate 48 0, city_timezone = replicate 40 0, city_latitude = 0, city_longitude = 0\<rparr>"

definition weather_zero :: lvww_weather_t where
  "weather_zero = \<lparr>wth_code = 0, wth_temperature_c = 0, wth_apparent_c = 0, wth_humidity_percent = 0,
     wth_wind_kph = 0, wth_today_high_c = 0, wth_today_low_c = 0, wth_utc_offset_seconds = 0,
     wth_observed_utc = 0\<rparr>"

definition cache_store_zero :: lvww_cache_store_t where
  "cache_store_zero = \<lparr>cs_magic = 0, cs_version = 0, cs_city_valid = 0, cs_weather_valid = 0,
     cs_city = city_zero, cs_weather = weather_zero, cs_crc = 0\<rparr>"

text \<open>
  The bytes of a profile store: 99 bytes for each of the eight credentials, so that the checksum
  stands at offset 800 without padding.
\<close>

definition credentials_bytes :: "lvww_wifi_credentials_t \<Rightarrow> bytes" where
  "credentials_bytes c = cred_ssid c @ cred_password c @ [cred_secure c]"

definition credentials_of_bytes :: "bytes \<Rightarrow> lvww_wifi_credentials_t" where
  "credentials_of_bytes bs = \<lparr>cred_ssid = take 33 bs, cred_password = take 65 (drop 33 bs),
     cred_secure = bs ! 98\<rparr>"

definition profile_store_body :: "lvww_profile_store_t \<Rightarrow> bytes" where
  "profile_store_body s =
     store_le32 (ps_magic s) @ store_le16 (ps_version s) @ [ps_count s, ps_last_success s] @
     concat (map credentials_bytes (ps_profiles s))"

definition profile_store_bytes :: "lvww_profile_store_t \<Rightarrow> bytes" where
  "profile_store_bytes s = profile_store_body s @ store_le32 (ps_crc s)"

definition profile_store_of_bytes :: "bytes \<Rightarrow> lvww_profile_store_t" where
  "profile_store_of_bytes bs = \<lparr>ps_magic = load_le32 bs 0, ps_version = load_le16 bs 4, ps_count = bs ! 6,
     ps_last_success = bs ! 7,
     ps_profiles = map (\<lambda>i. credentials_of_bytes (take 99 (drop (8 + 99 * i) bs))) [0 ..< LVWW_MAX_PROFILES],
     ps_crc = load_le32 bs 800\<rparr>"

definition store_le64 :: "u64 \<Rightarrow> bytes" where
  "store_le64 w = store_le32 (ucast w) @ store_le32 (ucast (drop_bit 32 w))"

definition load_le64 :: "bytes \<Rightarrow> nat \<Rightarrow> u64" where
  "load_le64 bs i = ucast (load_le32 bs i) OR push_bit 32 (ucast (load_le32 bs (i + 4)))"

definition city_bytes :: "lvww_city_t \<Rightarrow> bytes" where
  "city_bytes c = city_id c @ city_name c @ city_admin c @ city_country c @ city_timezone c @
     store_le64 (city_latitude c) @ store_le64 (city_longitude c)"

definition weather_bytes :: "lvww_weather_t \<Rightarrow> bytes" where
  "weather_bytes w = store_le32 (wth_code w) @ store_le32 (wth_temperature_c w) @
     store_le32 (wth_apparent_c w) @ store_le32 (wth_humidity_percent w) @ store_le32 (wth_wind_kph w) @
     store_le32 (wth_today_high_c w) @ store_le32 (wth_today_low_c w) @
     store_le32 (wth_utc_offset_seconds w) @ store_le64 (wth_observed_utc w)"

text \<open>
  The bytes of a cache store: the city stands at offset 8, the weather at 240 and the checksum at
  280, followed by four bytes of padding.  The code of the weather is below 256, so that it makes
  no difference whether the compiler gives the enumeration one byte or four.
\<close>

definition cache_store_body :: "lvww_cache_store_t \<Rightarrow> bytes" where
  "cache_store_body s =
     store_le32 (cs_magic s) @ store_le16 (cs_version s) @ [cs_city_valid s, cs_weather_valid s] @
     city_bytes (cs_city s) @ weather_bytes (cs_weather s)"

definition cache_store_bytes :: "lvww_cache_store_t \<Rightarrow> bytes" where
  "cache_store_bytes s = cache_store_body s @ store_le32 (cs_crc s) @ [0, 0, 0, 0]"

definition city_of_bytes :: "bytes \<Rightarrow> lvww_city_t" where
  "city_of_bytes bs = \<lparr>city_id = take 32 bs, city_name = take 48 (drop 32 bs),
     city_admin = take 48 (drop 80 bs), city_country = take 48 (drop 128 bs),
     city_timezone = take 40 (drop 176 bs), city_latitude = load_le64 bs 216,
     city_longitude = load_le64 bs 224\<rparr>"

definition weather_of_bytes :: "bytes \<Rightarrow> lvww_weather_t" where
  "weather_of_bytes bs = \<lparr>wth_code = load_le32 bs 0, wth_temperature_c = load_le32 bs 4,
     wth_apparent_c = load_le32 bs 8, wth_humidity_percent = load_le32 bs 12,
     wth_wind_kph = load_le32 bs 16, wth_today_high_c = load_le32 bs 20,
     wth_today_low_c = load_le32 bs 24, wth_utc_offset_seconds = load_le32 bs 28,
     wth_observed_utc = load_le64 bs 32\<rparr>"

definition cache_store_of_bytes :: "bytes \<Rightarrow> lvww_cache_store_t" where
  "cache_store_of_bytes bs = \<lparr>cs_magic = load_le32 bs 0, cs_version = load_le16 bs 4,
     cs_city_valid = bs ! 6, cs_weather_valid = bs ! 7, cs_city = city_of_bytes (take 232 (drop 8 bs)),
     cs_weather = weather_of_bytes (take 40 (drop 240 bs)), cs_crc = load_le32 bs 280\<rparr>"

text \<open>The checksum of the stores, with the mask of the low bit written as in the code.\<close>

definition lvww_crc32 :: "bytes \<Rightarrow> u32" where
  "lvww_crc32 bs =
     NOT (foldl (\<lambda>crc b. ((\<lambda>crc. drop_bit 1 crc XOR (0xEDB88320 AND - (crc AND 1))) ^^ 8) (crc XOR ucast b))
            0xFFFFFFFF bs)"

lemma lvww_crc32_ota: "lvww_crc32 bs = ota_crc32_calculate bs"
proof -
  have bit: "(\<lambda>crc :: u32. drop_bit 1 crc XOR (0xEDB88320 AND - (crc AND 1))) = crc32_bit"
    by (simp add: crc32_bit_def fun_eq_iff)
  have "(0xFFFFFFFF :: u32) = - 1" by simp
  then have ones: "NOT w = w XOR 0xFFFFFFFF" for w :: u32
    by (simp only:) (rule bit_word_eqI, simp add: bit_simps)
  show ?thesis
    unfolding lvww_crc32_def bit crc32_calculate_foldl ones crc32_byte_def ..
qed

subsection \<open>Layout\<close>

definition credentials_wf :: "lvww_wifi_credentials_t \<Rightarrow> bool" where
  "credentials_wf c \<longleftrightarrow> length (cred_ssid c) = 33 \<and> length (cred_password c) = 65"

definition profile_store_wf :: "lvww_profile_store_t \<Rightarrow> bool" where
  "profile_store_wf s \<longleftrightarrow> length (ps_profiles s) = LVWW_MAX_PROFILES \<and>
     (\<forall>c \<in> set (ps_profiles s). credentials_wf c)"

definition city_wf :: "lvww_city_t \<Rightarrow> bool" where
  "city_wf c \<longleftrightarrow> length (city_id c) = 32 \<and> length (city_name c) = 48 \<and> length (city_admin c) = 48 \<and>
     length (city_country c) = 48 \<and> length (city_timezone c) = 40"

lemma zero_wf [wf_intros]: "credentials_wf credentials_zero" "profile_store_wf profile_store_zero" "city_wf city_zero"
  by (simp_all add: credentials_wf_def profile_store_wf_def credentials_zero_def profile_store_zero_def
      city_wf_def city_zero_def)

lemma credentials_roundtrip:
  assumes "credentials_wf c"
  shows "length (credentials_bytes c) = 99" "credentials_of_bytes (credentials_bytes c) = c"
  using assms by (simp_all add: credentials_wf_def credentials_bytes_def credentials_of_bytes_def nth_append)

lemma length_concat_equal: "(\<forall>x \<in> set xs. length x = n) \<Longrightarrow> length (concat xs) = n * length xs"
  by (induction xs) simp_all

lemma concat_slice:
  "(\<forall>x \<in> set xs. length x = n) \<Longrightarrow> i < length xs \<Longrightarrow> take n (drop (n * i) (concat xs @ ys)) = xs ! i"
proof (induction xs arbitrary: i)
  case (Cons x xs)
  then show ?case by (cases i) simp_all
qed simp

lemma profile_store_body_length:
  assumes "profile_store_wf s"
  shows "length (profile_store_body s) = 800" "length (profile_store_bytes s) = 804"
proof -
  have "length (concat (map credentials_bytes (ps_profiles s))) = 792"
    using assms credentials_roundtrip(1)
    by (subst length_concat_equal [of _ 99]) (auto simp: profile_store_wf_def)
  then show "length (profile_store_body s) = 800" "length (profile_store_bytes s) = 804"
    by (simp_all add: profile_store_body_def profile_store_bytes_def)
qed

lemma profile_store_of_bytes_bytes:
  assumes wf: "profile_store_wf s"
  shows "profile_store_of_bytes (profile_store_bytes s) = s"
proof -
  let ?cs = "map credentials_bytes (ps_profiles s)"
  have len: "length (ps_profiles s) = 8" "\<forall>x \<in> set ?cs. length x = 99"
    using wf credentials_roundtrip(1) by (auto simp: profile_store_wf_def)
  have head: "profile_store_bytes s = store_le32 (ps_magic s) @ store_le16 (ps_version s) @
      [ps_count s, ps_last_success s] @ concat ?cs @ store_le32 (ps_crc s)"
    by (simp add: profile_store_bytes_def profile_store_body_def)
  have m: "load_le32 (profile_store_bytes s) 0 = ps_magic s"
    unfolding head by (rule le32.load_front)
  have v: "load_le16 (profile_store_bytes s) 4 = ps_version s"
    unfolding head by (rule le16.load_at) simp
  have c: "profile_store_bytes s ! 6 = ps_count s" "profile_store_bytes s ! 7 = ps_last_success s"
    unfolding head by (simp_all add: nth_append)
  have crc: "load_le32 (profile_store_bytes s) 800 = ps_crc s"
    unfolding profile_store_bytes_def
    using le32.load_at [of "profile_store_body s" 800 "ps_crc s" "[]"] profile_store_body_length(1) [OF wf] by simp
  have "take 99 (drop (8 + 99 * i) (profile_store_bytes s)) = ?cs ! i" if "i < 8" for i
  proof -
    have "drop (8 + 99 * i) (profile_store_bytes s) = drop (99 * i) (concat ?cs @ store_le32 (ps_crc s))"
      unfolding head by simp
    then show ?thesis using concat_slice [OF len(2), of i] len(1) that by simp
  qed
  then have "credentials_of_bytes (take 99 (drop (8 + 99 * i) (profile_store_bytes s))) = ps_profiles s ! i"
    if "i < 8" for i
    using that len(1) wf credentials_roundtrip(2) by (simp add: profile_store_wf_def)
  then have "map (\<lambda>i. credentials_of_bytes (take 99 (drop (8 + 99 * i) (profile_store_bytes s)))) [0 ..< 8] =
      ps_profiles s"
    using len(1) by (intro nth_equalityI) simp_all
  then show ?thesis unfolding profile_store_of_bytes_def m v c crc by simp
qed

section \<open>The key-value stores of the ports\<close>

text \<open>
  A slot of \<open>lvww_rw007.c\<close> and of \<open>lvww_mock.c\<close>, three of which make a store in RAM.
\<close>

record lvww_rw_kv_t =
  kv_key :: bytes
  kv_data :: bytes
  kv_length :: nat
  kv_used :: bool

abbreviation (input) LVWW_RW007_KV_SLOTS :: nat where "LVWW_RW007_KV_SLOTS \<equiv> 3"
abbreviation (input) LVWW_RW007_KV_SIZE :: nat where "LVWW_RW007_KV_SIZE \<equiv> 1536"

definition kv_zero :: lvww_rw_kv_t where
  "kv_zero = \<lparr>kv_key = replicate 24 0, kv_data = replicate 1536 0, kv_length = 0, kv_used = False\<rparr>"

fun rw_kv_find :: "lvww_rw_kv_t list \<Rightarrow> bytes \<Rightarrow> nat option" where
  "rw_kv_find [] key = None"
| "rw_kv_find (kv # kvs) key =
     (if kv_used kv \<and> c_str (kv_key kv) = key then Some 0 else map_option Suc (rw_kv_find kvs key))"

fun rw_kv_free :: "lvww_rw_kv_t list \<Rightarrow> nat option" where
  "rw_kv_free [] = None"
| "rw_kv_free (kv # kvs) = (if \<not> kv_used kv then Some 0 else map_option Suc (rw_kv_free kvs))"

text \<open>Reading: the result, the buffer and the length; the length before is that of the buffer.\<close>

definition rw_kv_read :: "lvww_rw_kv_t list \<Rightarrow> bytes \<Rightarrow> bytes \<Rightarrow> int \<times> bytes \<times> nat" where
  "rw_kv_read kvs key buffer =
     (case rw_kv_find kvs key of
        None \<Rightarrow> (- RT_ENOSYS, buffer, length buffer)
      | Some i \<Rightarrow>
          let kv = kvs ! i
          in if length buffer < kv_length kv then (- RT_EFULL, buffer, kv_length kv)
             else (RT_EOK, memcpy_at buffer 0 (take (kv_length kv) (kv_data kv)), kv_length kv))"

definition rw_kv_write :: "bytes \<Rightarrow> bytes \<Rightarrow> lvww_rw_kv_t list \<Rightarrow> int \<times> lvww_rw_kv_t list" where
  "rw_kv_write key data kvs =
     (if length data > LVWW_RW007_KV_SIZE then (- RT_EINVAL, kvs)
      else
        case (case rw_kv_find kvs key of None \<Rightarrow> rw_kv_free kvs | Some i \<Rightarrow> Some i) of
          None \<Rightarrow> (- RT_EFULL, kvs)
        | Some i \<Rightarrow>
            let kv = kvs ! i
            in (RT_EOK, kvs[i := kv\<lparr>kv_key := memcpy_at (kv_key kv) 0 (c_array 23 key),
                                 kv_data := memcpy_at (kv_data kv) 0 data,
                                 kv_length := length data, kv_used := True\<rparr>]))"

definition rw_kv_delete :: "bytes \<Rightarrow> lvww_rw_kv_t list \<Rightarrow> int \<times> lvww_rw_kv_t list" where
  "rw_kv_delete key kvs =
     (case rw_kv_find kvs key of
        None \<Rightarrow> (- RT_ENOSYS, kvs)
      | Some i \<Rightarrow> (RT_EOK, kvs[i := kv_zero]))"

text \<open>The mock's store refuses everything while a storage failure is simulated.\<close>

record lvww_mock_kv =
  mock_kvs :: "lvww_rw_kv_t list"
  mock_storage_failure :: bool

definition mock_kv_read :: "lvww_mock_kv \<Rightarrow> bytes \<Rightarrow> bytes \<Rightarrow> int \<times> bytes \<times> nat" where
  "mock_kv_read m key buffer =
     (if mock_storage_failure m then (- RT_ERROR, buffer, length buffer)
      else rw_kv_read (mock_kvs m) key buffer)"

definition mock_kv_write :: "bytes \<Rightarrow> bytes \<Rightarrow> lvww_mock_kv \<Rightarrow> int \<times> lvww_mock_kv" where
  "mock_kv_write key data m =
     (if length data > LVWW_RW007_KV_SIZE \<or> mock_storage_failure m then (- RT_ERROR, m)
      else case rw_kv_write key data (mock_kvs m) of (rc, kvs) \<Rightarrow> (rc, m\<lparr>mock_kvs := kvs\<rparr>))"

definition mock_kv_delete :: "bytes \<Rightarrow> lvww_mock_kv \<Rightarrow> int \<times> lvww_mock_kv" where
  "mock_kv_delete key m =
     (case rw_kv_delete key (mock_kvs m) of (rc, kvs) \<Rightarrow> (rc, m\<lparr>mock_kvs := kvs\<rparr>))"

subsection \<open>The contract of a key-value store\<close>

text \<open>
  What \<open>lvww_storage.c\<close> relies on: what was written is read back, and writing one key does not
  change another.
\<close>

locale kv_port =
  fixes kvread :: "'s \<Rightarrow> bytes \<Rightarrow> bytes \<Rightarrow> int \<times> bytes \<times> nat"
    and kvwrite :: "bytes \<Rightarrow> bytes \<Rightarrow> 's \<Rightarrow> int \<times> 's"
    and kvinv :: "'s \<Rightarrow> bool" and key_ok :: "bytes \<Rightarrow> bool"
  assumes inv_write: "kvinv s \<Longrightarrow> key_ok k \<Longrightarrow> kvwrite k d s = (rc, s') \<Longrightarrow> kvinv s'"
    and read_written: "kvinv s \<Longrightarrow> key_ok k \<Longrightarrow> kvwrite k d s = (RT_EOK, s') \<Longrightarrow>
      length d \<le> length buf \<Longrightarrow> kvread s' k buf = (RT_EOK, d @ drop (length d) buf, length d)"
    and read_other: "kvinv s \<Longrightarrow> key_ok k \<Longrightarrow> key_ok k' \<Longrightarrow> k' \<noteq> k \<Longrightarrow> kvwrite k d s = (rc, s') \<Longrightarrow>
      kvread s' k' buf = kvread s k' buf"
begin

text \<open>A value of the buffer's length replaces the buffer, also after other keys were written.\<close>

lemma read_exact:
  "kvinv s \<Longrightarrow> key_ok k \<Longrightarrow> kvwrite k d s = (RT_EOK, s') \<Longrightarrow> length d = length buf \<Longrightarrow>
   kvread s' k buf = (RT_EOK, d, length d)"
  using read_written [of s k d s' buf] by simp

lemma read_exact_later:
  assumes "kvinv s" "key_ok k" "kvwrite k d s = (RT_EOK, s1)" "length d = length buf"
    and "key_ok k'" "k \<noteq> k'" "kvwrite k' d' s1 = (rc, s2)"
  shows "kvread s2 k buf = (RT_EOK, d, length d)"
  using read_exact [OF assms(1-4)] read_other [OF inv_write [OF assms(1-3)] assms(5,2,6,7)] by simp

end

definition kv_match :: "lvww_rw_kv_t list \<Rightarrow> bytes \<Rightarrow> nat \<Rightarrow> bool" where
  "kv_match kvs key i \<longleftrightarrow> i < length kvs \<and> kv_used (kvs ! i) \<and> c_str (kv_key (kvs ! i)) = key"

definition rw_kv_inv :: "lvww_rw_kv_t list \<Rightarrow> bool" where
  "rw_kv_inv kvs \<longleftrightarrow>
     (\<forall>i < length kvs. length (kv_key (kvs ! i)) = 24 \<and> kv_key (kvs ! i) ! 23 = 0 \<and>
        length (kv_data (kvs ! i)) = LVWW_RW007_KV_SIZE \<and> kv_length (kvs ! i) \<le> LVWW_RW007_KV_SIZE) \<and>
     (\<forall>key i j. kv_match kvs key i \<longrightarrow> kv_match kvs key j \<longrightarrow> i = j)"

definition rw_key_ok :: "bytes \<Rightarrow> bool" where
  "rw_key_ok key \<longleftrightarrow> 0 \<notin> set key \<and> length key \<le> 23"

lemma rw_kv_find_match: "rw_kv_find kvs key = Some i \<Longrightarrow> kv_match kvs key i"
  by (induction kvs arbitrary: i) (auto simp: kv_match_def split: if_splits)

lemma rw_kv_find_None: "rw_kv_find kvs key = None \<longleftrightarrow> (\<forall>i. \<not> kv_match kvs key i)"
proof (induction kvs)
  case (Cons kv kvs)
  have zero: "kv_match (kv # kvs) key 0 \<longleftrightarrow> kv_used kv \<and> c_str (kv_key kv) = key"
    and suc: "kv_match (kv # kvs) key (Suc i) \<longleftrightarrow> kv_match kvs key i" for i
    by (simp_all add: kv_match_def)
  have "(\<forall>i. \<not> kv_match (kv # kvs) key i) \<longleftrightarrow>
      \<not> kv_match (kv # kvs) key 0 \<and> (\<forall>i. \<not> kv_match (kv # kvs) key (Suc i))"
    by (metis nat.exhaust)
  then show ?case unfolding zero suc using Cons by simp
qed (simp add: kv_match_def)

lemma rw_kv_find_unique:
  "rw_kv_inv kvs \<Longrightarrow> kv_match kvs key i \<Longrightarrow> rw_kv_find kvs key = Some i"
  using rw_kv_find_match [of kvs key] rw_kv_find_None [of kvs key]
  by (cases "rw_kv_find kvs key") (auto simp: rw_kv_inv_def)

lemma rw_kv_free_unused: "rw_kv_free kvs = Some i \<Longrightarrow> i < length kvs \<and> \<not> kv_used (kvs ! i)"
  by (induction kvs arbitrary: i) (auto split: if_splits)

lemma stored_key:
  assumes "rw_key_ok key" "length old = 24" "old ! 23 = 0"
  shows "c_str (memcpy_at old 0 (c_array 23 key)) = key"
    "length (memcpy_at old 0 (c_array 23 key)) = 24" "memcpy_at old 0 (c_array 23 key) ! 23 = 0"
proof -
  have "drop 23 old = [old ! 23]" using assms(2) by (simp add: Cons_nth_drop_Suc [symmetric])
  moreover have "24 - length key = Suc (23 - length key)" using assms(1) unfolding rw_key_ok_def by arith
  ultimately have new: "memcpy_at old 0 (c_array 23 key) = key @ replicate (24 - length key) 0"
    using assms by (simp add: memcpy_at_def c_array_def rw_key_ok_def Suc_diff_le replicate_append_same)
  show "c_str (memcpy_at old 0 (c_array 23 key)) = key"
    unfolding new using assms(1) by (auto simp: c_str_def rw_key_ok_def takeWhile_append takeWhile_eq_Nil_iff)
  show "length (memcpy_at old 0 (c_array 23 key)) = 24" "memcpy_at old 0 (c_array 23 key) ! 23 = 0"
    using assms(1) unfolding new by (auto simp: rw_key_ok_def nth_append)
qed

lemma rw_kv_write_cases:
  assumes inv: "rw_kv_inv kvs" and key: "rw_key_ok key" and call: "rw_kv_write key data kvs = (rc, kvs')"
  obtains (refused) "kvs' = kvs" "rc \<noteq> RT_EOK"
  | (stored) i where "rc = RT_EOK" "i < length kvs" "length data \<le> LVWW_RW007_KV_SIZE"
      "kv_match kvs' key i" "kv_length (kvs' ! i) = length data" "take (length data) (kv_data (kvs' ! i)) = data"
      "\<And>j. j \<noteq> i \<Longrightarrow> kvs' ! j = kvs ! j" "length kvs' = length kvs"
      "\<And>k. k \<noteq> key \<Longrightarrow> \<not> kv_match kvs k i" "rw_kv_inv kvs'"
proof -
  consider (no) "kvs' = kvs" "rc \<noteq> RT_EOK" |
    (yes) i where "length data \<le> LVWW_RW007_KV_SIZE" "i < length kvs" "rc = RT_EOK"
      "rw_kv_find kvs key = Some i \<or> rw_kv_find kvs key = None \<and> \<not> kv_used (kvs ! i)"
      "kvs' = kvs[i := (kvs ! i)\<lparr>kv_key := memcpy_at (kv_key (kvs ! i)) 0 (c_array 23 key),
         kv_data := memcpy_at (kv_data (kvs ! i)) 0 data, kv_length := length data, kv_used := True\<rparr>]"
  proof (cases "length data > LVWW_RW007_KV_SIZE")
    case True
    then show ?thesis using call no by (simp add: rw_kv_write_def)
  next
    case False
    show ?thesis
    proof (cases "rw_kv_find kvs key")
      case (Some i)
      then show ?thesis using call False rw_kv_find_match [OF Some]
        by (intro yes [of i]) (simp_all add: rw_kv_write_def Let_def kv_match_def)
    next
      case None
      show ?thesis
      proof (cases "rw_kv_free kvs")
        case (Some i)
        then show ?thesis using call False None rw_kv_free_unused [OF Some]
          by (intro yes [of i]) (simp_all add: rw_kv_write_def Let_def)
      next
        assume "rw_kv_free kvs = None"
        then show ?thesis using call False None no by (simp add: rw_kv_write_def)
      qed
    qed
  qed
  then show thesis
  proof cases
    case yes
    have old: "length (kv_key (kvs ! i)) = 24" "kv_key (kvs ! i) ! 23 = 0" "length (kv_data (kvs ! i)) = 1536"
      using inv yes(2) by (simp_all add: rw_kv_inv_def)
    note k = stored_key [OF key old(1,2)]
    let ?kv = "kvs' ! i"
    have kv: "kv_key ?kv = memcpy_at (kv_key (kvs ! i)) 0 (c_array 23 key)" "kv_used ?kv"
      "kv_length ?kv = length data" "kv_data ?kv = memcpy_at (kv_data (kvs ! i)) 0 data"
      using yes(2,5) by simp_all
    have other: "kvs' ! j = kvs ! j" if "j \<noteq> i" for j using yes(5) that by simp
    have len: "length kvs' = length kvs" using yes(5) by simp
    have match_i: "kv_match kvs' k' i \<longleftrightarrow> k' = key" for k'
      using kv(1,2) k(1) yes(2) len by (auto simp: kv_match_def)
    have match_j: "kv_match kvs' k' j \<longleftrightarrow> kv_match kvs k' j" if "j \<noteq> i" for k' j
      using other [OF that] len by (simp add: kv_match_def)
    have no_other: "\<not> kv_match kvs k' i" if "k' \<noteq> key" for k'
      using yes(4) that rw_kv_find_match [of kvs key i] by (auto simp: kv_match_def)
    have not_j: "\<not> kv_match kvs key j" if "j \<noteq> i" for j
      using yes(4) that rw_kv_find_None [of kvs key] rw_kv_find_unique [OF inv, of key j] by auto
    have "rw_kv_inv kvs'"
      unfolding rw_kv_inv_def
    proof (intro conjI allI impI)
      fix j assume j: "j < length kvs'"
      show "length (kv_key (kvs' ! j)) = 24" "kv_key (kvs' ! j) ! 23 = 0"
        "length (kv_data (kvs' ! j)) = LVWW_RW007_KV_SIZE" "kv_length (kvs' ! j) \<le> LVWW_RW007_KV_SIZE"
        using j inv other [of j] kv k(2,3) yes(1) old(3) len
        by (cases "j = i"; simp add: rw_kv_inv_def)+
    next
      fix k' a b assume "kv_match kvs' k' a" "kv_match kvs' k' b"
      then show "a = b"
        using match_i match_j not_j inv unfolding rw_kv_inv_def by metis
    qed
    moreover have "take (length data) (kv_data ?kv) = data"
      using kv(4) old(3) yes(1) by (simp add: memcpy_at_def)
    ultimately show thesis
      using stored [OF yes(3,2,1)] match_i kv(3) other len no_other by blast
  qed (rule refused)
qed

lemma rw_kv_read_find:
  "rw_kv_find kvs key = rw_kv_find kvs' key \<Longrightarrow> (\<And>i. rw_kv_find kvs key = Some i \<Longrightarrow> kvs ! i = kvs' ! i) \<Longrightarrow>
   rw_kv_read kvs key buf = rw_kv_read kvs' key buf"
  by (auto simp: rw_kv_read_def split: option.split)

interpretation rw_kv: kv_port rw_kv_read rw_kv_write rw_kv_inv rw_key_ok
proof unfold_locales
  fix s k d rc s'
  assume inv: "rw_kv_inv s" and "rw_key_ok k" "rw_kv_write k d s = (rc, s')"
  then show "rw_kv_inv s'" by (cases rule: rw_kv_write_cases) (use inv in simp_all)
next
  fix s k d s' and buf :: bytes
  assume "rw_kv_inv s" "rw_key_ok k" "rw_kv_write k d s = (RT_EOK, s')" and len: "length d \<le> length buf"
  then show "rw_kv_read s' k buf = (RT_EOK, d @ drop (length d) buf, length d)"
  proof (cases rule: rw_kv_write_cases)
    case (stored i)
    then show ?thesis using rw_kv_find_unique [of s' k i] len
      by (simp add: rw_kv_read_def memcpy_at_def)
  qed simp
next
  fix s k k' d rc s' buf
  assume inv: "rw_kv_inv s" and ne: "k' \<noteq> k" and "rw_key_ok k" "rw_kv_write k d s = (rc, s')"
  from inv this(3,4) show "rw_kv_read s' k' buf = rw_kv_read s k' buf"
  proof (cases rule: rw_kv_write_cases)
    case (stored i)
    have "kv_match s' k' j \<longleftrightarrow> kv_match s k' j" for j
      using stored(4,7,8) stored(9) [OF ne] ne by (cases "j = i") (auto simp: kv_match_def)
    then have "rw_kv_find s' k' = rw_kv_find s k'"
      using rw_kv_find_unique [OF inv] rw_kv_find_unique [OF stored(10)] rw_kv_find_None rw_kv_find_match
      by (metis option.exhaust)
    moreover have "s' ! j = s ! j" if "rw_kv_find s' k' = Some j" for j
      using rw_kv_find_match [OF that] stored(4,7) ne by (cases "j = i") (auto simp: kv_match_def)
    ultimately show ?thesis by (rule rw_kv_read_find)
  qed simp
qed

definition mock_kv_inv :: "lvww_mock_kv \<Rightarrow> bool" where
  "mock_kv_inv m \<longleftrightarrow> rw_kv_inv (mock_kvs m)"

interpretation mock_kv: kv_port mock_kv_read mock_kv_write mock_kv_inv rw_key_ok
  by unfold_locales
     (auto simp: mock_kv_read_def mock_kv_write_def mock_kv_inv_def split: if_splits prod.splits
       intro: rw_kv.inv_write rw_kv.read_written rw_kv.read_other)

lemma kv_keys_ok: "rw_key_ok LVWW_PROFILE_KEY" "rw_key_ok LVWW_CACHE_KEY" "LVWW_PROFILE_KEY \<noteq> LVWW_CACHE_KEY"
  by (simp_all add: rw_key_ok_def LVWW_PROFILE_KEY_def LVWW_CACHE_KEY_def ascii_def)

end
