(* ===== verification/Weather_Core.thy ===== *)
theory Weather_Core
  imports Weather_Store Ota_Remote
begin

text \<open>
  The core of the weather component: \<open>lv_wifi_weather.c\<close>, \<open>lvww_storage.c\<close> and the callbacks of
  \<open>lvww_ui.c\<close> that change its state.  \<open>lvww_ctx\<close> holds the context without its LVGL objects; drawing,
  toasts and labels have no effect on it and are left out.  The operations of the port act on a
  world \<open>'w\<close>, which also holds the clock.
\<close>

section \<open>Data\<close>

datatype lvww_wifi_state_t =
    LVWW_WIFI_OFFLINE
  | LVWW_WIFI_SCANNING
  | LVWW_WIFI_CONNECTING
  | LVWW_WIFI_ONLINE
  | LVWW_WIFI_DISCONNECTING

datatype lvww_wifi_reason_t =
    LVWW_WIFI_REASON_NONE
  | LVWW_WIFI_REASON_AUTH
  | LVWW_WIFI_REASON_NOT_FOUND
  | LVWW_WIFI_REASON_TIMEOUT
  | LVWW_WIFI_REASON_DROPPED
  | LVWW_WIFI_REASON_UNSUPPORTED
  | LVWW_WIFI_REASON_OTHER

datatype lvww_operation_t =
    LVWW_OP_NONE
  | LVWW_OP_WIFI_SCAN
  | LVWW_OP_WIFI_CONNECT
  | LVWW_OP_WIFI_DISCONNECT
  | LVWW_OP_CITY_SEARCH
  | LVWW_OP_WEATHER_FETCH
  | LVWW_OP_TIME_SYNC
  | LVWW_OP_STORAGE

record lvww_wifi_ap_t =
  ap_ssid :: bytes
  ap_rssi :: u16
  ap_secure :: u8

text \<open>The union of an event with the type that selects its member.\<close>

datatype lvww_event_data =
    EVT_WIFI_SCAN_RESULT u16 "lvww_wifi_ap_t list"
  | EVT_WIFI_STATE lvww_wifi_state_t lvww_wifi_reason_t bytes
  | EVT_CITY_SEARCH_RESULT u16 "lvww_city_t list"
  | EVT_WEATHER_RESULT lvww_weather_t
  | EVT_TIME_RESULT u64
  | EVT_FIRMWARE_INFO lvww_firmware_info_t
  | EVT_ERROR lvww_operation_t int bytes

record lvww_event_t =
  ev_request_id :: u32
  ev_data :: lvww_event_data

record lvww_config_t =
  cfg_width :: u16
  cfg_height :: u16
  cfg_max_profiles :: u8
  cfg_max_wifi_results :: u8
  cfg_max_city_results :: u8
  cfg_weather_refresh_seconds :: u32
  cfg_time_sync_seconds :: u32
  cfg_default_city :: lvww_city_t

text \<open>A NULL operation is \<open>None\<close>; \<open>prt_tick\<close> is \<open>rt_tick_get\<close>.\<close>

record 'w lvww_port_ops_t =
  op_wifi_scan :: "(u32 \<Rightarrow> 'w \<Rightarrow> int \<times> 'w) option"
  op_wifi_connect :: "(u32 \<Rightarrow> lvww_wifi_credentials_t \<Rightarrow> 'w \<Rightarrow> int \<times> 'w) option"
  op_wifi_disconnect :: "(u32 \<Rightarrow> 'w \<Rightarrow> int \<times> 'w) option"
  op_city_search :: "(u32 \<Rightarrow> bytes \<Rightarrow> 'w \<Rightarrow> int \<times> 'w) option"
  op_weather_fetch :: "(u32 \<Rightarrow> lvww_city_t \<Rightarrow> 'w \<Rightarrow> int \<times> 'w) option"
  op_time_sync :: "(u32 \<Rightarrow> 'w \<Rightarrow> int \<times> 'w) option"
  op_cancel :: "(lvww_operation_t \<Rightarrow> u32 \<Rightarrow> 'w \<Rightarrow> 'w) option"
  op_kv_read :: "(bytes \<Rightarrow> bytes \<Rightarrow> 'w \<Rightarrow> (int \<times> bytes \<times> nat) \<times> 'w) option"
  op_kv_write :: "(bytes \<Rightarrow> bytes \<Rightarrow> bool \<Rightarrow> 'w \<Rightarrow> int \<times> 'w) option"
  op_kv_delete :: "(bytes \<Rightarrow> 'w \<Rightarrow> int \<times> 'w) option"
  prt_tick :: "'w \<Rightarrow> u32 \<times> 'w"

record lvww_ctx =
  ctx_cfg :: lvww_config_t
  ctx_alive :: bool
  ctx_event_mq :: "lvww_event_t list"
  ctx_profile_store :: lvww_profile_store_t
  ctx_cache_store :: lvww_cache_store_t
  ctx_wifi_results :: "lvww_wifi_ap_t list"
  ctx_wifi_count :: u16
  ctx_city_candidates :: "lvww_city_t list"
  ctx_city_count :: u16
  ctx_wifi_state :: lvww_wifi_state_t
  ctx_connected_ssid :: bytes
  ctx_firmware_info :: lvww_firmware_info_t
  ctx_utc_epoch :: u64
  ctx_utc_tick :: u32
  ctx_weather_tick :: u32
  ctx_time_tick :: u32
  ctx_weather_retry_tick :: u32
  ctx_time_retry_tick :: u32
  ctx_time_valid :: bool
  ctx_next_request_id :: u32
  ctx_scan_request_id :: u32
  ctx_connect_request_id :: u32
  ctx_disconnect_request_id :: u32
  ctx_city_request_id :: u32
  ctx_weather_request_id :: u32
  ctx_time_request_id :: u32
  ctx_pending_credentials :: lvww_wifi_credentials_t
  ctx_pending_valid :: bool
  ctx_editor_saved_index :: int
  ctx_editor_secure :: bool

abbreviation (input) LVWW_EVENT_QUEUE_DEPTH :: nat where "LVWW_EVENT_QUEUE_DEPTH \<equiv> 8"
abbreviation (input) LVWW_NETWORK_RETRY_SECONDS :: u32 where "LVWW_NETWORK_RETRY_SECONDS \<equiv> 60"
abbreviation (input) RT_TICK_PER_SECOND :: u32 where "RT_TICK_PER_SECOND \<equiv> 1000"

section \<open>Storage\<close>

text \<open>The loop of \<open>lvww_find_profile\<close>; the result is -1 or the index.\<close>

definition lvww_find_profile :: "lvww_ctx \<Rightarrow> bytes \<Rightarrow> int" where
  "lvww_find_profile c ssid =
     (let ps = ctx_profile_store c
      in case find (\<lambda>i. strncmp_eq 33 (cred_ssid (ps_profiles ps ! i)) ssid) [0 ..< unat (ps_count ps)] of
           None \<Rightarrow> -1 | Some i \<Rightarrow> int i)"

definition lvww_save_profiles :: "'w lvww_port_ops_t \<Rightarrow> lvww_ctx \<Rightarrow> 'w \<Rightarrow> lvww_ctx \<times> 'w" where
  "lvww_save_profiles E c w =
     (case op_kv_write E of
        None \<Rightarrow> (c, w)
      | Some kv_write \<Rightarrow>
          let ps = (ctx_profile_store c)\<lparr>ps_magic := LVWW_STORE_MAGIC, ps_version := LVWW_STORE_VERSION\<rparr>;
              ps = ps\<lparr>ps_crc := lvww_crc32 (profile_store_body ps)\<rparr>;
              (rc, w) = kv_write LVWW_PROFILE_KEY (profile_store_bytes ps) True w
          in (c\<lparr>ctx_profile_store := ps\<rparr>, w))"

definition lvww_save_cache :: "'w lvww_port_ops_t \<Rightarrow> lvww_ctx \<Rightarrow> 'w \<Rightarrow> lvww_ctx \<times> 'w" where
  "lvww_save_cache E c w =
     (case op_kv_write E of
        None \<Rightarrow> (c, w)
      | Some kv_write \<Rightarrow>
          let cs = (ctx_cache_store c)\<lparr>cs_magic := LVWW_STORE_MAGIC, cs_version := LVWW_STORE_VERSION\<rparr>;
              cs = cs\<lparr>cs_crc := lvww_crc32 (cache_store_body cs)\<rparr>;
              (rc, w) = kv_write LVWW_CACHE_KEY (cache_store_bytes cs) False w
          in (c\<lparr>ctx_cache_store := cs\<rparr>, w))"

text \<open>
  \<open>lvww_load_store\<close>: the two halves.  The buffer of a read holds the bytes of the zeroed store.
\<close>

definition lvww_load_profiles ::
  "'w lvww_port_ops_t \<Rightarrow> lvww_config_t \<Rightarrow> 'w \<Rightarrow> lvww_profile_store_t \<times> 'w" where
  "lvww_load_profiles E cfg w =
     (let fresh = profile_store_zero\<lparr>ps_last_success := LVWW_INVALID_INDEX\<rparr>;
          (ps, w) =
            (case op_kv_read E of
               None \<Rightarrow> (fresh, w)
             | Some kv_read \<Rightarrow>
                 (case kv_read LVWW_PROFILE_KEY (profile_store_bytes fresh) w of
                    ((rc, buffer, n), w) \<Rightarrow>
                      (if rc \<noteq> RT_EOK \<or> n \<noteq> 804 then fresh else profile_store_of_bytes buffer, w)));
          crc = lvww_crc32 (profile_store_body ps)
      in (if ps_magic ps \<noteq> LVWW_STORE_MAGIC \<or> ps_version ps \<noteq> LVWW_STORE_VERSION \<or>
             ps_count ps > cfg_max_profiles cfg \<or> ps_crc ps \<noteq> crc
          then fresh else ps, w))"

definition lvww_load_cache ::
  "'w lvww_port_ops_t \<Rightarrow> lvww_config_t \<Rightarrow> 'w \<Rightarrow> lvww_cache_store_t \<times> 'w" where
  "lvww_load_cache E cfg w =
     (let (cs, w) =
            (case op_kv_read E of
               None \<Rightarrow> (cache_store_zero, w)
             | Some kv_read \<Rightarrow>
                 (case kv_read LVWW_CACHE_KEY (cache_store_bytes cache_store_zero) w of
                    ((rc, buffer, n), w) \<Rightarrow>
                      (if rc \<noteq> RT_EOK \<or> n \<noteq> 288 then cache_store_zero else cache_store_of_bytes buffer, w)));
          crc = lvww_crc32 (cache_store_body cs)
      in (if cs_magic cs \<noteq> LVWW_STORE_MAGIC \<or> cs_version cs \<noteq> LVWW_STORE_VERSION \<or> cs_crc cs \<noteq> crc
          then cache_store_zero\<lparr>cs_city := cfg_default_city cfg,
                 cs_city_valid := (if hd (city_id (cfg_default_city cfg)) \<noteq> 0 then 1 else 0)\<rparr>
          else if cs_city_valid cs \<noteq> 0 then
            (case lvww_city_catalog_search (Some (c_str (city_id (cs_city cs)))) 1 of
               [normalized_city] \<Rightarrow>
                 if c_str (city_id normalized_city) = c_str (city_id (cs_city cs))
                 then cs\<lparr>cs_city := normalized_city\<rparr> else cs
             | _ \<Rightarrow> cs)
          else cs, w))"

definition lvww_load_store :: "'w lvww_port_ops_t \<Rightarrow> lvww_ctx \<Rightarrow> 'w \<Rightarrow> lvww_ctx \<times> 'w" where
  "lvww_load_store E c w =
     (let (ps, w) = lvww_load_profiles E (ctx_cfg c) w;
          (cs, w) = lvww_load_cache E (ctx_cfg c) w
      in (c\<lparr>ctx_profile_store := ps, ctx_cache_store := cs\<rparr>, w))"

definition lvww_upsert_pending_profile :: "'w lvww_port_ops_t \<Rightarrow> lvww_ctx \<Rightarrow> 'w \<Rightarrow> lvww_ctx \<times> 'w" where
  "lvww_upsert_pending_profile E c w =
     (if \<not> ctx_pending_valid c then (c, w)
      else
        let ps = ctx_profile_store c;
            index = lvww_find_profile c (cred_ssid (ctx_pending_credentials c))
        in if index < 0 \<and> ps_count ps \<ge> cfg_max_profiles (ctx_cfg c) then (c, w)
           else
             let (index, ps) = (if index < 0 then (unat (ps_count ps), ps\<lparr>ps_count := ps_count ps + 1\<rparr>)
                                else (nat index, ps));
                 ps = ps\<lparr>ps_profiles := (ps_profiles ps)[index := ctx_pending_credentials c],
                         ps_last_success := of_nat index\<rparr>;
                 (c, w) = lvww_save_profiles E (c\<lparr>ctx_profile_store := ps\<rparr>) w
             in (c\<lparr>ctx_pending_credentials := credentials_zero, ctx_pending_valid := False\<rparr>, w))"

section \<open>Requests\<close>

definition lvww_next_request :: "lvww_ctx \<Rightarrow> u32 \<times> lvww_ctx" where
  "lvww_next_request c =
     (let n = ctx_next_request_id c + 1;
          n = (if n = 0 then n + 1 else n)
      in (n, c\<lparr>ctx_next_request_id := n\<rparr>))"

definition lvww_retry_due :: "'w lvww_port_ops_t \<Rightarrow> u32 \<Rightarrow> 'w \<Rightarrow> bool \<times> 'w" where
  "lvww_retry_due E retry_tick w =
     (if retry_tick = 0 then (True, w)
      else case prt_tick E w of (now, w) \<Rightarrow> (0 \<le> sint (now - retry_tick), w))"

definition lvww_retry_deadline :: "'w lvww_port_ops_t \<Rightarrow> 'w \<Rightarrow> u32 \<times> 'w" where
  "lvww_retry_deadline E w =
     (case prt_tick E w of
        (now, w) \<Rightarrow>
          let deadline = now + LVWW_NETWORK_RETRY_SECONDS * RT_TICK_PER_SECOND
          in (if deadline = 0 then 1 else deadline, w))"

definition lvww_request_scan :: "'w lvww_port_ops_t \<Rightarrow> lvww_ctx \<Rightarrow> 'w \<Rightarrow> lvww_ctx \<times> 'w" where
  "lvww_request_scan E c w =
     (case op_wifi_scan E of
        None \<Rightarrow> (c, w)
      | Some wifi_scan \<Rightarrow>
          if ctx_scan_request_id c \<noteq> 0 then (c, w)
          else
            let (n, c) = lvww_next_request c;
                c = c\<lparr>ctx_scan_request_id := n,
                      ctx_wifi_state := (if ctx_wifi_state c = LVWW_WIFI_ONLINE then LVWW_WIFI_ONLINE
                                         else LVWW_WIFI_SCANNING)\<rparr>;
                (rc, w) = wifi_scan n w
            in (if rc \<noteq> RT_EOK then c\<lparr>ctx_scan_request_id := 0, ctx_wifi_state := LVWW_WIFI_OFFLINE\<rparr>
                else c, w))"

definition lvww_request_connect ::
  "'w lvww_port_ops_t \<Rightarrow> lvww_wifi_credentials_t \<Rightarrow> lvww_ctx \<Rightarrow> 'w \<Rightarrow> lvww_ctx \<times> 'w" where
  "lvww_request_connect E credentials c w =
     (case op_wifi_connect E of
        None \<Rightarrow> (c, w)
      | Some wifi_connect \<Rightarrow>
          if ctx_connect_request_id c \<noteq> 0 then (c, w)
          else
            let (n, c) = lvww_next_request (c\<lparr>ctx_pending_credentials := credentials, ctx_pending_valid := True\<rparr>);
                c = c\<lparr>ctx_connect_request_id := n, ctx_wifi_state := LVWW_WIFI_CONNECTING\<rparr>;
                (rc, w) = wifi_connect n credentials w
            in (if rc \<noteq> RT_EOK
                then c\<lparr>ctx_connect_request_id := 0, ctx_wifi_state := LVWW_WIFI_OFFLINE,
                       ctx_pending_credentials := credentials_zero, ctx_pending_valid := False\<rparr>
                else c, w))"

definition lvww_request_disconnect :: "'w lvww_port_ops_t \<Rightarrow> lvww_ctx \<Rightarrow> 'w \<Rightarrow> lvww_ctx \<times> 'w" where
  "lvww_request_disconnect E c w =
     (case op_wifi_disconnect E of
        None \<Rightarrow> (c, w)
      | Some wifi_disconnect \<Rightarrow>
          if ctx_disconnect_request_id c \<noteq> 0 then (c, w)
          else
            let (n, c) = lvww_next_request c;
                c = c\<lparr>ctx_disconnect_request_id := n, ctx_wifi_state := LVWW_WIFI_DISCONNECTING\<rparr>;
                (rc, w) = wifi_disconnect n w
            in (if rc \<noteq> RT_EOK then c\<lparr>ctx_disconnect_request_id := 0\<rparr> else c, w))"

definition lvww_request_weather :: "'w lvww_port_ops_t \<Rightarrow> lvww_ctx \<Rightarrow> 'w \<Rightarrow> lvww_ctx \<times> 'w" where
  "lvww_request_weather E c w =
     (if ctx_wifi_state c \<noteq> LVWW_WIFI_ONLINE \<or> cs_city_valid (ctx_cache_store c) = 0 then (c, w)
      else case op_weather_fetch E of
        None \<Rightarrow> (c, w)
      | Some weather_fetch \<Rightarrow>
          if ctx_weather_request_id c \<noteq> 0 then (c, w)
          else
            let (due, w) = lvww_retry_due E (ctx_weather_retry_tick c) w
            in if \<not> due then (c, w)
               else
                 let (n, c) = lvww_next_request (c\<lparr>ctx_weather_retry_tick := 0\<rparr>);
                     c = c\<lparr>ctx_weather_request_id := n\<rparr>;
                     (rc, w) = weather_fetch n (cs_city (ctx_cache_store c)) w
                 in if rc \<noteq> RT_EOK
                    then let (deadline, w) = lvww_retry_deadline E w
                         in (c\<lparr>ctx_weather_request_id := 0, ctx_weather_retry_tick := deadline\<rparr>, w)
                    else (c, w))"

definition lvww_request_time :: "'w lvww_port_ops_t \<Rightarrow> lvww_ctx \<Rightarrow> 'w \<Rightarrow> lvww_ctx \<times> 'w" where
  "lvww_request_time E c w =
     (if ctx_wifi_state c \<noteq> LVWW_WIFI_ONLINE then (c, w)
      else case op_time_sync E of
        None \<Rightarrow> (c, w)
      | Some time_sync \<Rightarrow>
          if ctx_time_request_id c \<noteq> 0 then (c, w)
          else
            let (due, w) = lvww_retry_due E (ctx_time_retry_tick c) w
            in if \<not> due then (c, w)
               else
                 let (n, c) = lvww_next_request (c\<lparr>ctx_time_retry_tick := 0\<rparr>);
                     c = c\<lparr>ctx_time_request_id := n\<rparr>;
                     (rc, w) = time_sync n w
                 in if rc \<noteq> RT_EOK
                    then let (deadline, w) = lvww_retry_deadline E w
                         in (c\<lparr>ctx_time_request_id := 0, ctx_time_retry_tick := deadline\<rparr>, w)
                    else (c, w))"

section \<open>Events\<close>

definition lvww_handle_wifi_state ::
  "'w lvww_port_ops_t \<Rightarrow> lvww_wifi_state_t \<Rightarrow> bytes \<Rightarrow> lvww_ctx \<Rightarrow> 'w \<Rightarrow> lvww_ctx \<times> 'w" where
  "lvww_handle_wifi_state E state ssid c w =
     (let c = c\<lparr>ctx_wifi_state := state\<rparr>
      in case state of
           LVWW_WIFI_ONLINE \<Rightarrow>
             let c = c\<lparr>ctx_connected_ssid := c_array 33 (take 32 (c_str ssid))\<rparr>;
                 (c, w) = lvww_upsert_pending_profile E c w;
                 c = c\<lparr>ctx_connect_request_id := 0, ctx_disconnect_request_id := 0,
                       ctx_weather_retry_tick := 0, ctx_time_retry_tick := 0\<rparr>;
                 (c, w) = lvww_request_time E c w
             in lvww_request_weather E c w
         | LVWW_WIFI_OFFLINE \<Rightarrow>
             let c = c\<lparr>ctx_connected_ssid := (ctx_connected_ssid c)[0 := 0],
                       ctx_connect_request_id := 0, ctx_disconnect_request_id := 0,
                       ctx_weather_retry_tick := 0, ctx_time_retry_tick := 0\<rparr>
             in (if ctx_pending_valid c
                 then c\<lparr>ctx_pending_credentials := credentials_zero, ctx_pending_valid := False\<rparr>
                 else c, w)
         | _ \<Rightarrow> (c, w))"

definition lvww_event_current :: "lvww_ctx \<Rightarrow> lvww_event_t \<Rightarrow> bool" where
  "lvww_event_current c event =
     (let n = ev_request_id event
      in if n = 0 then True
         else case ev_data event of
           EVT_WIFI_SCAN_RESULT count items \<Rightarrow> n = ctx_scan_request_id c
         | EVT_CITY_SEARCH_RESULT count items \<Rightarrow> n = ctx_city_request_id c
         | EVT_WEATHER_RESULT weather \<Rightarrow> n = ctx_weather_request_id c
         | EVT_TIME_RESULT utc \<Rightarrow> n = ctx_time_request_id c
         | EVT_FIRMWARE_INFO info \<Rightarrow> True
         | EVT_WIFI_STATE state reason ssid \<Rightarrow>
             n = ctx_connect_request_id c \<or> n = ctx_disconnect_request_id c
         | EVT_ERROR operation code text \<Rightarrow>
             (case operation of
                LVWW_OP_WIFI_SCAN \<Rightarrow> n = ctx_scan_request_id c
              | LVWW_OP_WIFI_CONNECT \<Rightarrow> n = ctx_connect_request_id c
              | LVWW_OP_WIFI_DISCONNECT \<Rightarrow> n = ctx_disconnect_request_id c
              | LVWW_OP_CITY_SEARCH \<Rightarrow> n = ctx_city_request_id c
              | LVWW_OP_WEATHER_FETCH \<Rightarrow> n = ctx_weather_request_id c
              | LVWW_OP_TIME_SYNC \<Rightarrow> n = ctx_time_request_id c
              | _ \<Rightarrow> True))"

definition lvww_handle_error ::
  "'w lvww_port_ops_t \<Rightarrow> lvww_operation_t \<Rightarrow> lvww_ctx \<Rightarrow> 'w \<Rightarrow> lvww_ctx \<times> 'w" where
  "lvww_handle_error E operation c w =
     (case operation of
        LVWW_OP_WIFI_SCAN \<Rightarrow> (c\<lparr>ctx_scan_request_id := 0\<rparr>, w)
      | LVWW_OP_WIFI_CONNECT \<Rightarrow>
          (c\<lparr>ctx_connect_request_id := 0, ctx_wifi_state := LVWW_WIFI_OFFLINE\<rparr>, w)
      | LVWW_OP_WIFI_DISCONNECT \<Rightarrow> (c\<lparr>ctx_disconnect_request_id := 0\<rparr>, w)
      | LVWW_OP_CITY_SEARCH \<Rightarrow> (c\<lparr>ctx_city_request_id := 0\<rparr>, w)
      | LVWW_OP_WEATHER_FETCH \<Rightarrow>
          let (deadline, w) = lvww_retry_deadline E w
          in (c\<lparr>ctx_weather_request_id := 0, ctx_weather_retry_tick := deadline\<rparr>, w)
      | LVWW_OP_TIME_SYNC \<Rightarrow>
          let (deadline, w) = lvww_retry_deadline E w
          in (c\<lparr>ctx_time_request_id := 0, ctx_time_retry_tick := deadline\<rparr>, w)
      | _ \<Rightarrow> (c, w))"

text \<open>\<open>memcpy\<close> of \<open>count\<close> items to the front of an array.\<close>

definition copy_items :: "u16 \<Rightarrow> u8 \<Rightarrow> 'a list \<Rightarrow> 'a list \<Rightarrow> u16 \<times> 'a list" where
  "copy_items count limit items old =
     (let count = (if count > ucast limit then ucast limit else count)
      in (count, memcpy_at old 0 (take (unat count) items)))"

definition lvww_handle_event ::
  "'w lvww_port_ops_t \<Rightarrow> lvww_event_t \<Rightarrow> lvww_ctx \<Rightarrow> 'w \<Rightarrow> lvww_ctx \<times> 'w" where
  "lvww_handle_event E event c w =
     (if \<not> lvww_event_current c event then (c, w)
      else case ev_data event of
        EVT_WIFI_SCAN_RESULT count items \<Rightarrow>
          let (count, results) = copy_items count (cfg_max_wifi_results (ctx_cfg c)) items (ctx_wifi_results c)
          in (c\<lparr>ctx_wifi_results := results, ctx_wifi_count := count, ctx_scan_request_id := 0,
                ctx_wifi_state := (if ctx_wifi_state c = LVWW_WIFI_SCANNING then LVWW_WIFI_OFFLINE
                                   else ctx_wifi_state c)\<rparr>, w)
      | EVT_WIFI_STATE state reason ssid \<Rightarrow> lvww_handle_wifi_state E state ssid c w
      | EVT_CITY_SEARCH_RESULT count items \<Rightarrow>
          let (count, results) = copy_items count (cfg_max_city_results (ctx_cfg c)) items (ctx_city_candidates c)
          in (c\<lparr>ctx_city_candidates := results, ctx_city_count := count, ctx_city_request_id := 0\<rparr>, w)
      | EVT_WEATHER_RESULT weather \<Rightarrow>
          let (now, w) = prt_tick E w
          in lvww_save_cache E
               (c\<lparr>ctx_cache_store := (ctx_cache_store c)\<lparr>cs_weather := weather, cs_weather_valid := 1\<rparr>,
                  ctx_weather_tick := now, ctx_weather_request_id := 0, ctx_weather_retry_tick := 0\<rparr>) w
      | EVT_TIME_RESULT utc \<Rightarrow>
          let (now, w) = prt_tick E w
          in (c\<lparr>ctx_utc_epoch := utc, ctx_utc_tick := now, ctx_time_tick := now, ctx_time_valid := True,
                ctx_time_request_id := 0, ctx_time_retry_tick := 0\<rparr>, w)
      | EVT_FIRMWARE_INFO info \<Rightarrow>
          (c\<lparr>ctx_firmware_info := info
               \<lparr>fwi_current_version := take 23 (fwi_current_version info),
                fwi_available_version := take 23 (fwi_available_version info),
                fwi_release_notes := take 191 (fwi_release_notes info),
                fwi_progress_percent := (if fwi_progress_percent info > 100 then 100
                                         else fwi_progress_percent info)\<rparr>\<rparr>, w)
      | EVT_ERROR operation code text \<Rightarrow> lvww_handle_error E operation c w)"

fun lvww_pump :: "'w lvww_port_ops_t \<Rightarrow> nat \<Rightarrow> lvww_ctx \<Rightarrow> 'w \<Rightarrow> lvww_ctx \<times> 'w" where
  "lvww_pump E 0 c w = (c, w)"
| "lvww_pump E (Suc n) c w =
     (case fifo_recv (ctx_event_mq c) of
        (None, q) \<Rightarrow> (c, w)
      | (Some event, q) \<Rightarrow>
          (case lvww_handle_event E event (c\<lparr>ctx_event_mq := q\<rparr>) w of
             (c, w) \<Rightarrow> lvww_pump E n c w))"

definition lvww_pump_timer_cb :: "'w lvww_port_ops_t \<Rightarrow> lvww_ctx \<Rightarrow> 'w \<Rightarrow> lvww_ctx \<times> 'w" where
  "lvww_pump_timer_cb E c w = lvww_pump E 4 c w"

definition lvww_clock_timer_cb :: "'w lvww_port_ops_t \<Rightarrow> lvww_ctx \<Rightarrow> 'w \<Rightarrow> lvww_ctx \<times> 'w" where
  "lvww_clock_timer_cb E c w =
     (let (now, w) = prt_tick E w
      in if ctx_wifi_state c \<noteq> LVWW_WIFI_ONLINE then (c, w)
         else
           let (c, w) =
                 (if \<not> ctx_time_valid c \<or>
                     (now - ctx_time_tick c) div RT_TICK_PER_SECOND \<ge> cfg_time_sync_seconds (ctx_cfg c)
                  then lvww_request_time E c w else (c, w))
           in if cs_weather_valid (ctx_cache_store c) = 0 \<or>
                 (now - ctx_weather_tick c) div RT_TICK_PER_SECOND \<ge> cfg_weather_refresh_seconds (ctx_cfg c)
              then lvww_request_weather E c w else (c, w))"

definition lvww_post_event :: "lvww_event_t \<Rightarrow> lvww_ctx \<Rightarrow> int \<times> lvww_ctx" where
  "lvww_post_event event c =
     (if \<not> ctx_alive c then (- RT_EINVAL, c)
      else case fifo_send LVWW_EVENT_QUEUE_DEPTH event (ctx_event_mq c) of
        (ok, q) \<Rightarrow> (if ok then RT_EOK else - RT_EFULL, c\<lparr>ctx_event_mq := q\<rparr>))"

definition lvww_set_firmware_info :: "lvww_firmware_info_t \<Rightarrow> lvww_ctx \<Rightarrow> int \<times> lvww_ctx" where
  "lvww_set_firmware_info info c =
     lvww_post_event \<lparr>ev_request_id = 0, ev_data = EVT_FIRMWARE_INFO info\<rparr> c"

end
