(* ===== verification/Weather_Ui.thy ===== *)
theory Weather_Ui
  imports Weather_Core
begin

text \<open>
  The life of a weather context and what a user does to it: \<open>lvww_config_init\<close>, \<open>lvww_create\<close> and
  \<open>lvww_destroy\<close> of \<open>lv_wifi_weather.c\<close>, and the callbacks of \<open>lvww_ui.c\<close>.  What stands in a text
  area, and which row was clicked, are arguments.
\<close>

section \<open>Life\<close>

definition lvww_config_init :: lvww_config_t where
  "lvww_config_init =
     \<lparr>cfg_width = 800, cfg_height = 480, cfg_max_profiles = 8, cfg_max_wifi_results = 20,
      cfg_max_city_results = 8, cfg_weather_refresh_seconds = 30 * 60,
      cfg_time_sync_seconds = 6 * 60 * 60,
      cfg_default_city = (case lvww_city_catalog_search (Some (ascii ''beijing'')) 1 of
                            [] \<Rightarrow> city_zero | city # _ \<Rightarrow> city)\<rparr>"

definition config_fix :: "lvww_config_t \<Rightarrow> lvww_config_t" where
  "config_fix cfg =
     cfg\<lparr>cfg_width := (if cfg_width cfg = 0 then cfg_width lvww_config_init else cfg_width cfg),
         cfg_height := (if cfg_height cfg = 0 then cfg_height lvww_config_init else cfg_height cfg),
         cfg_max_profiles := (if cfg_max_profiles cfg = 0 \<or> cfg_max_profiles cfg > 8 then 8
                              else cfg_max_profiles cfg),
         cfg_max_wifi_results := (if cfg_max_wifi_results cfg = 0 \<or> cfg_max_wifi_results cfg > 20 then 20
                                  else cfg_max_wifi_results cfg),
         cfg_max_city_results := (if cfg_max_city_results cfg = 0 \<or> cfg_max_city_results cfg > 8 then 8
                                  else cfg_max_city_results cfg),
         cfg_weather_refresh_seconds :=
           (if cfg_weather_refresh_seconds cfg = 0 then cfg_weather_refresh_seconds lvww_config_init
            else cfg_weather_refresh_seconds cfg),
         cfg_time_sync_seconds :=
           (if cfg_time_sync_seconds cfg = 0 then cfg_time_sync_seconds lvww_config_init
            else cfg_time_sync_seconds cfg)\<rparr>"

definition wifi_ap_zero :: lvww_wifi_ap_t where
  "wifi_ap_zero = \<lparr>ap_ssid = replicate 33 0, ap_rssi = 0, ap_secure = 0\<rparr>"

text \<open>\<open>rt_calloc\<close>, with the configuration filled in.\<close>

definition ctx_zero :: "lvww_config_t \<Rightarrow> lvww_ctx" where
  "ctx_zero cfg =
     \<lparr>ctx_cfg = cfg, ctx_alive = False, ctx_event_mq = [], ctx_profile_store = profile_store_zero,
      ctx_cache_store = cache_store_zero, ctx_wifi_results = replicate 20 wifi_ap_zero, ctx_wifi_count = 0,
      ctx_city_candidates = replicate 8 city_zero, ctx_city_count = 0, ctx_wifi_state = LVWW_WIFI_OFFLINE,
      ctx_connected_ssid = replicate 33 0, ctx_firmware_info = firmware_info_zero, ctx_utc_epoch = 0,
      ctx_utc_tick = 0, ctx_weather_tick = 0, ctx_time_tick = 0, ctx_weather_retry_tick = 0,
      ctx_time_retry_tick = 0, ctx_time_valid = False, ctx_next_request_id = 0, ctx_scan_request_id = 0,
      ctx_connect_request_id = 0, ctx_disconnect_request_id = 0, ctx_city_request_id = 0,
      ctx_weather_request_id = 0, ctx_time_request_id = 0, ctx_pending_credentials = credentials_zero,
      ctx_pending_valid = False, ctx_editor_saved_index = 0, ctx_editor_secure = False\<rparr>"

text \<open>The default list of the city page, as \<open>lvww_build_city\<close> and an emptied input set it.\<close>

definition default_cities :: "lvww_ctx \<Rightarrow> lvww_ctx" where
  "default_cities c =
     (let found = lvww_city_catalog_search (Some []) (unat (cfg_max_city_results (ctx_cfg c)))
      in c\<lparr>ctx_city_candidates := memcpy_at (ctx_city_candidates c) 0 found,
           ctx_city_count := of_nat (length found)\<rparr>)"

text \<open>
  \<open>mem_ok\<close> and \<open>ipc_ok\<close> say whether the context and its queue and mutex could be allocated.
\<close>

definition lvww_create ::
  "'w lvww_port_ops_t option \<Rightarrow> lvww_config_t option \<Rightarrow> bool \<Rightarrow> bool \<Rightarrow> bool \<Rightarrow> 'w \<Rightarrow> lvww_ctx option \<times> 'w" where
  "lvww_create port_ops config parent_ok mem_ok ipc_ok w =
     (case port_ops of
        None \<Rightarrow> (None, w)
      | Some E \<Rightarrow>
          if \<not> parent_ok \<or> \<not> mem_ok \<or> \<not> ipc_ok then (None, w)
          else
            let cfg = config_fix (case config of None \<Rightarrow> lvww_config_init | Some cfg \<Rightarrow> cfg);
                c = (ctx_zero cfg)\<lparr>ctx_alive := True, ctx_editor_saved_index := -1,
                       ctx_firmware_info := lvww_firmware_info_init\<rparr>;
                (c, w) = lvww_load_store E c w;
                c = default_cities c;
                ps = ctx_profile_store c;
                last = sint (ps_last_success ps);
                (c, w) = (if 0 \<le> last \<and> last < int (unat (ps_count ps))
                          then lvww_request_connect E (ps_profiles ps ! nat last) c w
                          else lvww_request_scan E c w)
            in (Some c, w))"

definition cancel_request ::
  "('w lvww_port_ops_t) \<Rightarrow> lvww_operation_t \<Rightarrow> u32 \<Rightarrow> 'w \<Rightarrow> 'w" where
  "cancel_request E operation n w =
     (case op_cancel E of None \<Rightarrow> w | Some cancel \<Rightarrow> if n \<noteq> 0 then cancel operation n w else w)"

text \<open>The context as it is when its memory is freed.\<close>

definition lvww_destroy :: "'w lvww_port_ops_t \<Rightarrow> lvww_ctx \<Rightarrow> 'w \<Rightarrow> lvww_ctx \<times> 'w" where
  "lvww_destroy E c w =
     (let c = c\<lparr>ctx_alive := False\<rparr>;
          w = cancel_request E LVWW_OP_WIFI_SCAN (ctx_scan_request_id c) w;
          w = cancel_request E LVWW_OP_WIFI_CONNECT (ctx_connect_request_id c) w;
          w = cancel_request E LVWW_OP_WIFI_DISCONNECT (ctx_disconnect_request_id c) w;
          w = cancel_request E LVWW_OP_CITY_SEARCH (ctx_city_request_id c) w;
          w = cancel_request E LVWW_OP_WEATHER_FETCH (ctx_weather_request_id c) w;
          w = cancel_request E LVWW_OP_TIME_SYNC (ctx_time_request_id c) w
      in (c\<lparr>ctx_event_mq := [], ctx_profile_store := profile_store_zero,
            ctx_pending_credentials := credentials_zero\<rparr>, w))"

section \<open>The clock\<close>

definition lvww_utc_now :: "'w lvww_port_ops_t \<Rightarrow> lvww_ctx \<Rightarrow> 'w \<Rightarrow> u64 \<times> 'w" where
  "lvww_utc_now E c w =
     (if \<not> ctx_time_valid c then (0, w)
      else case prt_tick E w of
        (now, w) \<Rightarrow> (ctx_utc_epoch c + ucast ((now - ctx_utc_tick c) div RT_TICK_PER_SECOND), w))"

section \<open>The Wi-Fi page\<close>

definition lvww_password_valid :: "bytes \<Rightarrow> bool" where
  "lvww_password_valid password =
     (let len = length password
      in if 8 \<le> len \<and> len \<le> 63 then True
         else if len \<noteq> 64 then False
         else list_all (\<lambda>b. 48 \<le> b \<and> b \<le> 57 \<or> 97 \<le> b \<and> b \<le> 102 \<or> 65 \<le> b \<and> b \<le> 70) password)"

definition lvww_close_editor :: "lvww_ctx \<Rightarrow> lvww_ctx" where
  "lvww_close_editor c = c\<lparr>ctx_editor_saved_index := -1\<rparr>"

definition lvww_open_editor :: "bool \<Rightarrow> int \<Rightarrow> lvww_ctx \<Rightarrow> lvww_ctx" where
  "lvww_open_editor secure saved_index c =
     (lvww_close_editor c)\<lparr>ctx_editor_saved_index := saved_index, ctx_editor_secure := secure\<rparr>"

definition lvww_editor_security_cb :: "lvww_ctx \<Rightarrow> lvww_ctx" where
  "lvww_editor_security_cb c = c\<lparr>ctx_editor_secure := \<not> ctx_editor_secure c\<rparr>"

definition lvww_ssid_in_scan :: "lvww_ctx \<Rightarrow> bytes \<Rightarrow> bool" where
  "lvww_ssid_in_scan c ssid =
     list_ex (\<lambda>i. strncmp_eq 33 (ap_ssid (ctx_wifi_results c ! i)) ssid) [0 ..< unat (ctx_wifi_count c)]"

abbreviation (input) LVWW_WIFI_SAVED_TAG :: nat where "LVWW_WIFI_SAVED_TAG \<equiv> 0x100"

text \<open>The tags bound to the rows of the list, in order.\<close>

definition lvww_refresh_wifi :: "lvww_ctx \<Rightarrow> nat list" where
  "lvww_refresh_wifi c =
     [0 ..< unat (ctx_wifi_count c)] @
     map (\<lambda>i. LVWW_WIFI_SAVED_TAG OR i)
       (filter (\<lambda>i. \<not> lvww_ssid_in_scan c (cred_ssid (ps_profiles (ctx_profile_store c) ! i)))
          [0 ..< unat (ps_count (ctx_profile_store c))])"

definition lvww_wifi_row_cb :: "nat \<Rightarrow> lvww_ctx \<Rightarrow> lvww_ctx" where
  "lvww_wifi_row_cb tag c =
     (if tag AND LVWW_WIFI_SAVED_TAG \<noteq> 0 then
        let saved_index = tag AND 0xFF
        in if saved_index < unat (ps_count (ctx_profile_store c))
           then lvww_open_editor (cred_secure (ps_profiles (ctx_profile_store c) ! saved_index) \<noteq> 0)
                  (int saved_index) c
           else c
      else if tag < unat (ctx_wifi_count c) then
        lvww_open_editor (ap_secure (ctx_wifi_results c ! tag) \<noteq> 0)
          (lvww_find_profile c (ap_ssid (ctx_wifi_results c ! tag))) c
      else c)"

definition lvww_add_button_cb :: "lvww_ctx \<Rightarrow> lvww_ctx" where
  "lvww_add_button_cb c = lvww_open_editor True (-1) c"

definition lvww_editor_submit_cb ::
  "'w lvww_port_ops_t \<Rightarrow> bytes \<Rightarrow> bytes \<Rightarrow> lvww_ctx \<Rightarrow> 'w \<Rightarrow> lvww_ctx \<times> 'w" where
  "lvww_editor_submit_cb E ssid password c w =
     (if ssid = [] then (c, w)
      else if ctx_editor_saved_index c < 0 \<and> lvww_find_profile c ssid < 0 \<and>
              ps_count (ctx_profile_store c) \<ge> cfg_max_profiles (ctx_cfg c) then (c, w)
      else if ctx_editor_secure c \<and> \<not> lvww_password_valid password then (c, w)
      else
        let credentials =
              \<lparr>cred_ssid = c_array 33 (take 32 ssid),
               cred_password = (if ctx_editor_secure c then c_array 65 (take 64 password) else replicate 65 0),
               cred_secure = (if ctx_editor_secure c then 1 else 0)\<rparr>
        in lvww_request_connect E credentials (lvww_close_editor c) w)"

text \<open>
  The loop moves the profiles behind \<open>index\<close> down by one; the last one is then wiped.
\<close>

definition remove_profile :: "nat \<Rightarrow> lvww_profile_store_t \<Rightarrow> lvww_profile_store_t" where
  "remove_profile index ps =
     (let n = unat (ps_count ps);
          profiles = (ps_profiles ps)[index := credentials_zero];
          profiles = foldl (\<lambda>profiles i. profiles[i := profiles ! (i + 1)]) profiles [index ..< n - 1];
          ps = ps\<lparr>ps_profiles := profiles[n - 1 := credentials_zero], ps_count := ps_count ps - 1\<rparr>
      in if sint (ps_last_success ps) = int index then ps\<lparr>ps_last_success := LVWW_INVALID_INDEX\<rparr>
         else if sint (ps_last_success ps) > int index
         then ps\<lparr>ps_last_success := ps_last_success ps - 1\<rparr> else ps)"

definition lvww_editor_delete_cb :: "'w lvww_port_ops_t \<Rightarrow> lvww_ctx \<Rightarrow> 'w \<Rightarrow> lvww_ctx \<times> 'w" where
  "lvww_editor_delete_cb E c w =
     (let index = ctx_editor_saved_index c; ps = ctx_profile_store c
      in if index < 0 \<or> index \<ge> int (unat (ps_count ps)) then (c, w)
         else
           let deleted_ssid = c_array 33 (take 32 (c_str (cred_ssid (ps_profiles ps ! nat index))));
               c = c\<lparr>ctx_profile_store := remove_profile (nat index) ps\<rparr>;
               (c, w) = lvww_save_profiles E c w;
               c = lvww_close_editor c
           in if ctx_wifi_state c = LVWW_WIFI_ONLINE \<and> strncmp_eq 33 (ctx_connected_ssid c) deleted_ssid
              then lvww_request_disconnect E c w else (c, w))"

abbreviation (input) LVWW_PAGE_WIFI :: nat where "LVWW_PAGE_WIFI \<equiv> 1"

definition lvww_show_page :: "'w lvww_port_ops_t \<Rightarrow> nat \<Rightarrow> lvww_ctx \<Rightarrow> 'w \<Rightarrow> lvww_ctx \<times> 'w" where
  "lvww_show_page E page c w = (if page = LVWW_PAGE_WIFI then lvww_request_scan E c w else (c, w))"

section \<open>The city page\<close>

definition lvww_city_result_cb :: "'w lvww_port_ops_t \<Rightarrow> nat \<Rightarrow> lvww_ctx \<Rightarrow> 'w \<Rightarrow> lvww_ctx \<times> 'w" where
  "lvww_city_result_cb E index c w =
     (if index \<ge> unat (ctx_city_count c) then (c, w)
      else
        let c = c\<lparr>ctx_cache_store := (ctx_cache_store c)
                    \<lparr>cs_city := ctx_city_candidates c ! index, cs_city_valid := 1, cs_weather_valid := 0\<rparr>\<rparr>;
            (c, w) = lvww_save_cache E c w
        in lvww_request_weather E c w)"

definition lvww_search_timer_cb :: "'w lvww_port_ops_t \<Rightarrow> bytes \<Rightarrow> lvww_ctx \<Rightarrow> 'w \<Rightarrow> lvww_ctx \<times> 'w" where
  "lvww_search_timer_cb E query c w =
     (if length query < 2 then (c, w)
      else case op_city_search E of
        None \<Rightarrow> (c, w)
      | Some city_search \<Rightarrow>
          let w = cancel_request E LVWW_OP_CITY_SEARCH (ctx_city_request_id c) w;
              (n, c) = lvww_next_request c;
              c = c\<lparr>ctx_city_request_id := n\<rparr>;
              (rc, w) = city_search n query w
          in (if rc \<noteq> RT_EOK then c\<lparr>ctx_city_request_id := 0\<rparr> else c, w))"

text \<open>The first component says whether the search timer runs afterwards.\<close>

definition lvww_city_input_cb ::
  "'w lvww_port_ops_t \<Rightarrow> bytes \<Rightarrow> lvww_ctx \<Rightarrow> 'w \<Rightarrow> bool \<times> lvww_ctx \<times> 'w" where
  "lvww_city_input_cb E input c w =
     (if length input < 2 then
        let w = cancel_request E LVWW_OP_CITY_SEARCH (ctx_city_request_id c) w
        in (False, default_cities (c\<lparr>ctx_city_request_id := 0\<rparr>), w)
      else (True, c, w))"

section \<open>The firmware card\<close>

text \<open>
  \<open>callback\<close> is the registered callback, if any; \<open>server\<close> is \<open>ctx->server_address\<close>.
\<close>

definition lvww_server_submit ::
  "(bytes \<Rightarrow> 'w \<Rightarrow> int \<times> 'w) option \<Rightarrow> bytes \<Rightarrow> bytes \<Rightarrow> lvww_ctx \<Rightarrow> 'w \<Rightarrow> bool \<times> bytes \<times> lvww_ctx \<times> 'w" where
  "lvww_server_submit callback address server c w =
     (if address = [] then (False, server, c, w)
      else case callback of
        None \<Rightarrow> (False, server, c, w)
      | Some callback \<Rightarrow>
          (case callback address w of
             (result, w) \<Rightarrow>
               if result \<noteq> RT_EOK then (False, server, c, w)
               else (True, c_array 16 (take 15 address),
                     c\<lparr>ctx_firmware_info := (ctx_firmware_info c)
                         \<lparr>fwi_state := LVWW_FIRMWARE_CHECKING, fwi_progress_percent := 0\<rparr>\<rparr>, w)))"

definition lvww_firmware_update_cb ::
  "(lvww_firmware_info_t \<Rightarrow> 'w \<Rightarrow> int \<times> 'w) option \<Rightarrow> lvww_ctx \<Rightarrow> 'w \<Rightarrow> lvww_ctx \<times> 'w" where
  "lvww_firmware_update_cb callback c w =
     (if fwi_state (ctx_firmware_info c) \<noteq> LVWW_FIRMWARE_AVAILABLE \<and>
         fwi_state (ctx_firmware_info c) \<noteq> LVWW_FIRMWARE_ERROR then (c, w)
      else case callback of
        None \<Rightarrow> (c, w)
      | Some callback \<Rightarrow>
          (case callback (ctx_firmware_info c) w of
             (result, w) \<Rightarrow>
               (if result = RT_EOK
                then c\<lparr>ctx_firmware_info := (ctx_firmware_info c)
                         \<lparr>fwi_state := LVWW_FIRMWARE_DOWNLOADING, fwi_progress_percent := 0\<rparr>\<rparr>
                else c, w)))"

end
