(* ===== verification/Weather_Safety.thy ===== *)
theory Weather_Safety
  imports Weather_Ui
begin

text \<open>
  The invariant of a weather context over everything that can happen to it: timers, events posted by
  other threads, and the actions of a user.
\<close>

section \<open>The invariant\<close>

definition ssid_of :: "lvww_wifi_credentials_t \<Rightarrow> bytes" where
  "ssid_of cred = c_str (take 33 (cred_ssid cred))"

text \<open>
  The saved profiles: within the limit, with different names, the last success one of them or none,
  and no credentials in the unused entries.
\<close>

definition profiles_ok :: "nat \<Rightarrow> lvww_profile_store_t \<Rightarrow> bool" where
  "profiles_ok limit ps \<longleftrightarrow>
     profile_store_wf ps \<and> unat (ps_count ps) \<le> limit \<and>
     distinct (map ssid_of (take (unat (ps_count ps)) (ps_profiles ps))) \<and>
     (sint (ps_last_success ps) = -1 \<or>
        0 \<le> sint (ps_last_success ps) \<and> sint (ps_last_success ps) < int (unat (ps_count ps))) \<and>
     list_all (\<lambda>cred. cred = credentials_zero) (drop (unat (ps_count ps)) (ps_profiles ps))"

definition config_ok :: "lvww_config_t \<Rightarrow> bool" where
  "config_ok cfg \<longleftrightarrow> unat (cfg_max_profiles cfg) \<le> LVWW_MAX_PROFILES \<and>
     unat (cfg_max_wifi_results cfg) \<le> LVWW_MAX_WIFI_RESULTS \<and>
     unat (cfg_max_city_results cfg) \<le> LVWW_MAX_CITY_RESULTS"

text \<open>What an event that fits its type satisfies.\<close>

fun event_wf :: "lvww_event_data \<Rightarrow> bool" where
  "event_wf (EVT_WIFI_SCAN_RESULT count items) = (length items = LVWW_MAX_WIFI_RESULTS)"
| "event_wf (EVT_CITY_SEARCH_RESULT count items) = (length items = LVWW_MAX_CITY_RESULTS)"
| "event_wf _ = True"

definition results_ok :: "lvww_ctx \<Rightarrow> bool" where
  "results_ok c \<longleftrightarrow>
     length (ctx_wifi_results c) = LVWW_MAX_WIFI_RESULTS \<and> unat (ctx_wifi_count c) \<le> LVWW_MAX_WIFI_RESULTS \<and>
     length (ctx_city_candidates c) = LVWW_MAX_CITY_RESULTS \<and> unat (ctx_city_count c) \<le> LVWW_MAX_CITY_RESULTS"

definition queue_ok :: "lvww_ctx \<Rightarrow> bool" where
  "queue_ok c \<longleftrightarrow> length (ctx_event_mq c) \<le> LVWW_EVENT_QUEUE_DEPTH \<and>
     list_all (\<lambda>event. event_wf (ev_data event)) (ctx_event_mq c)"

definition pending_ok :: "lvww_ctx \<Rightarrow> bool" where
  "pending_ok c \<longleftrightarrow> credentials_wf (ctx_pending_credentials c) \<and>
     (\<not> ctx_pending_valid c \<longrightarrow> ctx_pending_credentials c = credentials_zero)"

definition weather_inv :: "lvww_ctx \<Rightarrow> bool" where
  "weather_inv c \<longleftrightarrow> config_ok (ctx_cfg c) \<and>
     profiles_ok (unat (cfg_max_profiles (ctx_cfg c))) (ctx_profile_store c) \<and>
     results_ok c \<and> queue_ok c \<and> pending_ok c"

lemmas weather_inv_defs = weather_inv_def results_ok_def queue_ok_def pending_ok_def

text \<open>The fields the invariant speaks about.\<close>

definition same_core :: "lvww_ctx \<Rightarrow> lvww_ctx \<Rightarrow> bool" where
  "same_core c c' \<longleftrightarrow> ctx_cfg c' = ctx_cfg c \<and> ctx_profile_store c' = ctx_profile_store c \<and>
     ctx_wifi_results c' = ctx_wifi_results c \<and> ctx_wifi_count c' = ctx_wifi_count c \<and>
     ctx_city_candidates c' = ctx_city_candidates c \<and> ctx_city_count c' = ctx_city_count c \<and>
     ctx_event_mq c' = ctx_event_mq c \<and> ctx_pending_credentials c' = ctx_pending_credentials c \<and>
     ctx_pending_valid c' = ctx_pending_valid c"

lemma same_core_inv: "same_core c c' \<Longrightarrow> weather_inv c \<Longrightarrow> weather_inv c'"
  by (simp add: same_core_def weather_inv_defs)

lemma same_core_trans: "same_core c c' \<Longrightarrow> same_core c' c'' \<Longrightarrow> same_core c c''"
  by (simp add: same_core_def)

lemma same_core_refl [simp]: "same_core c c"
  by (simp add: same_core_def)

section \<open>Requests\<close>

lemma lvww_next_request_core: "lvww_next_request c = (n, c') \<Longrightarrow> same_core c c' \<and> n \<noteq> 0"
  by (auto simp: lvww_next_request_def same_core_def Let_def split: if_splits)

lemma request_core:
  "same_core c (fst (lvww_request_scan E c w))"
  "same_core c (fst (lvww_request_disconnect E c w))"
  "same_core c (fst (lvww_request_weather E c w))"
  "same_core c (fst (lvww_request_time E c w))"
  unfolding lvww_request_scan_def lvww_request_disconnect_def lvww_request_weather_def lvww_request_time_def
  by (auto simp: same_core_def Let_def lvww_next_request_def split: option.splits prod.splits)

lemma request_connect_inv:
  assumes "weather_inv c" "credentials_wf credentials"
  shows "weather_inv (fst (lvww_request_connect E credentials c w))"
  using assms zero_wf(1) unfolding lvww_request_connect_def
  by (auto simp: weather_inv_defs Let_def lvww_next_request_def split: option.splits prod.splits)

section \<open>Profiles\<close>

lemma profiles_ok_save: "profiles_ok m ps \<Longrightarrow> profiles_ok m (ps\<lparr>ps_magic := a, ps_version := v, ps_crc := k\<rparr>)"
  by (simp add: profiles_ok_def profile_store_wf_def)

lemma save_profiles_inv: "weather_inv c \<Longrightarrow> weather_inv (fst (lvww_save_profiles E c w))"
  using profiles_ok_save [of _ "ctx_profile_store c"]
  by (auto simp: lvww_save_profiles_def weather_inv_defs Let_def split: option.splits prod.splits)

lemma save_cache_core: "same_core c (fst (lvww_save_cache E c w))"
  by (auto simp: lvww_save_cache_def same_core_def Let_def split: option.splits prod.splits)

lemma find_profile_cases:
  obtains "lvww_find_profile c ssid = -1"
    "\<And>i. i < unat (ps_count (ctx_profile_store c)) \<Longrightarrow>
       ssid_of (ps_profiles (ctx_profile_store c) ! i) \<noteq> c_str (take 33 ssid)"
  | i where "i < unat (ps_count (ctx_profile_store c))" "lvww_find_profile c ssid = int i"
    "ssid_of (ps_profiles (ctx_profile_store c) ! i) = c_str (take 33 ssid)"
proof -
  let ?P = "\<lambda>i. strncmp_eq 33 (cred_ssid (ps_profiles (ctx_profile_store c) ! i)) ssid"
  show thesis
  proof (cases "find ?P [0 ..< unat (ps_count (ctx_profile_store c))]")
    case None
    then have "lvww_find_profile c ssid = -1" by (simp add: lvww_find_profile_def Let_def)
    then show ?thesis using that(1) None by (simp add: find_None_iff strncmp_eq_def ssid_of_def)
  next
    case (Some i)
    then have "?P i" "i < unat (ps_count (ctx_profile_store c))" by (auto simp: find_Some_iff)
    moreover have "lvww_find_profile c ssid = int i" using Some by (simp add: lvww_find_profile_def Let_def)
    ultimately show ?thesis using that(2) by (simp add: strncmp_eq_def ssid_of_def)
  qed
qed

lemma sint_of_nat_u8: "n < 128 \<Longrightarrow> sint (of_nat n :: u8) = int n"
  by (simp add: signed_of_nat signed_take_bit_int_eq_self)

lemma list_all_drop: "list_all P xs \<Longrightarrow> list_all P (drop n xs)"
  by (auto simp: list_all_iff dest: in_set_dropD)

text \<open>Writing a profile to a used entry with that name, or behind the last one.\<close>

lemma profiles_ok_put:
  assumes ok: "profiles_ok m ps" and m: "m \<le> LVWW_MAX_PROFILES" and cred: "credentials_wf cred"
    and index: "index = unat (ps_count ps) \<and> index < m \<and> n = ps_count ps + 1 \<and>
        (\<forall>i < unat (ps_count ps). ssid_of (ps_profiles ps ! i) \<noteq> ssid_of cred) \<or>
      index < unat (ps_count ps) \<and> n = ps_count ps \<and> ssid_of (ps_profiles ps ! index) = ssid_of cred"
  shows "profiles_ok m (ps\<lparr>ps_count := n, ps_profiles := (ps_profiles ps)[index := cred], ps_last_success := of_nat index\<rparr>)"
proof -
  let ?k = "unat (ps_count ps)" and ?p = "ps_profiles ps"
  have len: "length ?p = 8" and k: "?k \<le> 8" and dist: "distinct (map ssid_of (take ?k ?p))"
    and free: "list_all (\<lambda>cred. cred = credentials_zero) (drop ?k ?p)"
    using ok m by (simp_all add: profiles_ok_def profile_store_wf_def)
  have wf: "length (?p[index := cred]) = 8" "\<forall>x \<in> set (?p[index := cred]). credentials_wf x"
    using ok cred by (auto simp: profiles_ok_def profile_store_wf_def dest!: set_update_subset_insert [THEN subsetD])
  have last: "sint (of_nat index :: u8) = int index" using index m k by (intro sint_of_nat_u8) auto
  from index show ?thesis
  proof (elim disjE conjE)
    assume new: "index = ?k" "index < m" "n = ps_count ps + 1" "\<forall>i < ?k. ssid_of (?p ! i) \<noteq> ssid_of cred"
    then have n: "unat n = Suc ?k" using m by (simp add: unat_word_ariths)
    have "take (Suc ?k) (?p[index := cred]) = take ?k ?p @ [cred]"
      using new(1,2) m len by (simp add: take_Suc_conv_app_nth)
    moreover have "drop (Suc ?k) (?p[index := cred]) = drop 1 (drop ?k ?p)" using new(1) by simp
    moreover have "list_all (\<lambda>cred. cred = credentials_zero) (drop 1 (drop ?k ?p))"
      by (rule list_all_drop [OF free])
    moreover have "ssid_of cred \<notin> set (map ssid_of (take ?k ?p))"
      using new(4) len k by (fastforce simp: in_set_conv_nth)
    ultimately show ?thesis
      using wf dist new(1,2) n last by (simp add: profiles_ok_def profile_store_wf_def)
  next
    assume old: "index < ?k" "n = ps_count ps" "ssid_of (?p ! index) = ssid_of cred"
    have "map ssid_of (take ?k (?p[index := cred])) = (map ssid_of (take ?k ?p))[index := ssid_of cred]"
      by (simp add: take_update_swap map_update)
    also have "\<dots> = map ssid_of (take ?k ?p)"
      using old(1,3) len k by (intro list_update_same_conv [THEN iffD2]) simp_all
    finally have "map ssid_of (take ?k (?p[index := cred])) = map ssid_of (take ?k ?p)" .
    moreover have "int index < int ?k" using old(1) by (simp only: of_nat_less_iff)
    ultimately show ?thesis
      using wf dist old(1,2) free last ok by (simp add: profiles_ok_def profile_store_wf_def)
  qed
qed

lemma upsert_cases:
  assumes inv: "weather_inv c" and valid: "ctx_pending_valid c"
  obtains (full) "lvww_upsert_pending_profile E c w = (c, w)"
      "lvww_find_profile c (cred_ssid (ctx_pending_credentials c)) = -1"
      "ps_count (ctx_profile_store c) \<ge> cfg_max_profiles (ctx_cfg c)"
  | (saved) ps k where "lvww_upsert_pending_profile E c w =
        (case lvww_save_profiles E (c\<lparr>ctx_profile_store := ps\<rparr>) w of
           (c, w) \<Rightarrow> (c\<lparr>ctx_pending_credentials := credentials_zero, ctx_pending_valid := False\<rparr>, w))"
      "profiles_ok (unat (cfg_max_profiles (ctx_cfg c))) ps" "k < unat (ps_count ps)"
      "ps_profiles ps ! k = ctx_pending_credentials c" "ps_last_success ps = of_nat k"
proof -
  let ?ps = "ctx_profile_store c" and ?cred = "ctx_pending_credentials c"
  let ?m = "unat (cfg_max_profiles (ctx_cfg c))"
  have ok: "profiles_ok ?m ?ps" "?m \<le> 8" "credentials_wf ?cred" "length (ps_profiles ?ps) = 8" "unat (ps_count ?ps) \<le> ?m"
    using inv by (simp_all add: weather_inv_defs config_ok_def profiles_ok_def profile_store_wf_def)
  show thesis
  proof (cases rule: find_profile_cases [of c "cred_ssid ?cred"])
    case 1
    show ?thesis
    proof (cases "ps_count ?ps \<ge> cfg_max_profiles (ctx_cfg c)")
      case True
      then show ?thesis using 1 valid full by (simp add: lvww_upsert_pending_profile_def Let_def)
    next
      case False
      then have room: "unat (ps_count ?ps) < ?m" by (simp add: word_le_nat_alt)
      let ?new = "?ps\<lparr>ps_count := ps_count ?ps + 1, ps_profiles := (ps_profiles ?ps)[unat (ps_count ?ps) := ?cred],
            ps_last_success := of_nat (unat (ps_count ?ps))\<rparr>"
      have "profiles_ok ?m ?new" using 1 ok room by (intro profiles_ok_put) (auto simp: ssid_of_def)
      moreover have "unat (ps_count ?ps) < unat (ps_count ?ps + 1)"
        using room ok(2) by (simp add: unat_word_ariths)
      ultimately show ?thesis
        using valid False 1 ok room
        by (intro saved [of ?new "unat (ps_count ?ps)"]) (simp_all add: lvww_upsert_pending_profile_def Let_def)
    qed
  next
    case (2 i)
    let ?new = "?ps\<lparr>ps_count := ps_count ?ps, ps_profiles := (ps_profiles ?ps)[i := ?cred], ps_last_success := of_nat i\<rparr>"
    have "profiles_ok ?m ?new" using 2 ok by (intro profiles_ok_put) (auto simp: ssid_of_def)
    then show ?thesis
      using valid 2 ok by (intro saved [of ?new i]) (simp_all add: lvww_upsert_pending_profile_def Let_def)
  qed
qed

lemma upsert_inv:
  assumes "weather_inv c"
  shows "weather_inv (fst (lvww_upsert_pending_profile E c w))"
proof (cases "ctx_pending_valid c")
  case False
  then show ?thesis using assms by (simp add: lvww_upsert_pending_profile_def)
next
  case True
  from assms True show ?thesis
  proof (cases rule: upsert_cases [where E = E and w = w])
    case full
    then show ?thesis using assms by simp
  next
    case (saved ps k)
    then have "weather_inv (c\<lparr>ctx_profile_store := ps\<rparr>)" using assms by (simp add: weather_inv_defs)
    then have "weather_inv (fst (lvww_save_profiles E (c\<lparr>ctx_profile_store := ps\<rparr>) w))" by (rule save_profiles_inv)
    then show ?thesis using zero_wf(1) saved(1) by (auto simp: weather_inv_defs split: prod.splits)
  qed
qed

text \<open>Removing a profile closes the gap and wipes the last entry.\<close>

lemma update_behind:
  assumes "length f = k"
  shows "(f @ a # r)[k := x] = f @ x # r" "(f @ a # b # r) ! Suc k = b"
  using assms by (induction f arbitrary: k) auto

lemma shift_loop:
  assumes "index < n" "n \<le> length xs"
  shows "foldl (\<lambda>xs i. xs[i := xs ! (i + 1)]) xs [index ..< n - 1] =
    take index xs @ drop (Suc index) (take n xs) @ drop (n - 1) xs"
  using assms
proof (induction n)
  case (Suc n)
  show ?case
  proof (cases "index = n")
    case False
    let ?front = "take index xs @ drop (Suc index) (take n xs)"
    have front: "length ?front = n - 1" using Suc.prems False by simp
    have rest: "drop (n - 1) xs = xs ! (n - 1) # xs ! n # drop (Suc n) xs"
      using Suc.prems False by (cases n) (simp_all add: Cons_nth_drop_Suc)
    have "[index ..< Suc n - 1] = [index ..< n - 1] @ [n - 1]"
      using Suc.prems False by (cases n) (simp_all add: upt_Suc_append)
    then have "foldl (\<lambda>xs i. xs[i := xs ! (i + 1)]) xs [index ..< Suc n - 1] =
        (?front @ drop (n - 1) xs)[n - 1 := (?front @ drop (n - 1) xs) ! n]"
      using Suc False by simp
    also have "\<dots> = ?front @ xs ! n # xs ! n # drop (Suc n) xs"
      unfolding rest using update_behind [OF front] Suc.prems False by (cases n) simp_all
    also have "\<dots> = take index xs @ drop (Suc index) (take (Suc n) xs) @ drop n xs"
      using Suc.prems False by (simp add: take_Suc_conv_app_nth Cons_nth_drop_Suc)
    finally show ?thesis by simp
  qed simp
qed simp

lemma remove_profile_profiles:
  assumes "index < unat (ps_count ps)" "unat (ps_count ps) \<le> length (ps_profiles ps)"
  shows "ps_profiles (remove_profile index ps) =
    take index (ps_profiles ps) @ drop (Suc index) (take (unat (ps_count ps)) (ps_profiles ps)) @
    credentials_zero # drop (unat (ps_count ps)) (ps_profiles ps)"
proof -
  let ?n = "unat (ps_count ps)" and ?p = "ps_profiles ps"
  let ?front = "take index ?p @ drop (Suc index) (take ?n ?p)"
  have front: "length ?front = ?n - 1" using assms by simp
  have "drop (?n - 1) ?p = ?p ! (?n - 1) # drop ?n ?p"
    using assms Cons_nth_drop_Suc [of "?n - 1" ?p] by simp
  then have "(?front @ drop (?n - 1) (?p[index := credentials_zero]))[?n - 1 := credentials_zero] =
      ?front @ credentials_zero # drop ?n ?p"
    using update_behind(1) [OF front] assms
    by (cases "index = ?n - 1") (simp_all only: drop_update_swap drop_update_cancel le_refl, simp_all)
  then show ?thesis
    using shift_loop [of index ?n "?p[index := credentials_zero]"] assms
    by (simp add: remove_profile_def Let_def drop_take drop_update_cancel)
qed

lemma sint_minus_one_u8: "sint (0xFF :: u8) = -1"
  by simp

lemma sint_dec_u8:
  assumes "0 < sint (w :: u8)"
  shows "sint (w - 1) = sint w - 1"
proof -
  have "w - 1 = word_of_int (sint w - 1)" by simp
  moreover have "sint w < 128" using sint_lt [of w] by simp
  ultimately show ?thesis
    using assms by (simp only: sint_sbintrunc') (simp add: signed_take_bit_int_eq_self)
qed

lemma profiles_ok_remove:
  assumes ok: "profiles_ok m ps" and m: "m \<le> LVWW_MAX_PROFILES" and index: "index < unat (ps_count ps)"
  shows "profiles_ok m (remove_profile index ps)"
proof -
  let ?k = "unat (ps_count ps)" and ?p = "ps_profiles ps"
  let ?front = "take index ?p @ drop (Suc index) (take ?k ?p)"
  let ?ps = "remove_profile index ps"
  have len: "length ?p = 8" and k: "?k \<le> 8" and dist: "distinct (map ssid_of (take ?k ?p))"
    and free: "list_all (\<lambda>cred. cred = credentials_zero) (drop ?k ?p)" and km: "?k \<le> m"
    and wf: "\<forall>x \<in> set ?p. credentials_wf x"
    and last: "sint (ps_last_success ps) = -1 \<or> 0 \<le> sint (ps_last_success ps) \<and> sint (ps_last_success ps) < int ?k"
    using ok m by (simp_all add: profiles_ok_def profile_store_wf_def)
  have p: "ps_profiles ?ps = ?front @ credentials_zero # drop ?k ?p"
    using remove_profile_profiles [OF index] len k by simp
  have front: "length ?front = ?k - 1" using index len k by simp
  have count: "unat (ps_count ?ps) = ?k - 1"
  proof -
    have "ps_count ps \<noteq> 0" using index by auto
    then show ?thesis using unat_minus_one [of "ps_count ps"] by (simp add: remove_profile_def Let_def)
  qed
  have split: "take ?k ?p = take index ?p @ ?p ! index # drop (Suc index) (take ?k ?p)"
    using index len k id_take_nth_drop [of index "take ?k ?p"] by (simp add: min_def)
  have "distinct (map ssid_of (take index ?p @ ?p ! index # drop (Suc index) (take ?k ?p)))"
    using dist by (simp only: split [symmetric])
  then have dist': "distinct (map ssid_of ?front)" by simp
  have wf': "credentials_wf x" if "x \<in> set (ps_profiles ?ps)" for x
    using that wf zero_wf(1) unfolding p by (auto dest: in_set_takeD in_set_dropD)
  have last': "sint (ps_last_success ?ps) = -1 \<or>
      0 \<le> sint (ps_last_success ?ps) \<and> sint (ps_last_success ?ps) < int (?k - 1)"
  proof -
    have k1: "int (?k - 1) = int ?k - 1" using index of_nat_diff [of 1 ?k] by linarith
    have idx: "int index < int ?k" using index by (simp only: of_nat_less_iff)
    have "ps_last_success ?ps =
        (if sint (ps_last_success ps) = int index then LVWW_INVALID_INDEX
         else if sint (ps_last_success ps) > int index then ps_last_success ps - 1 else ps_last_success ps)"
      by (simp add: remove_profile_def Let_def)
    moreover have "sint (ps_last_success ps - 1) = sint (ps_last_success ps) - 1" if "sint (ps_last_success ps) > int index"
      using that by (intro sint_dec_u8) linarith
    ultimately show ?thesis
      using last idx sint_minus_one_u8 unfolding k1 by (auto simp del: int_nat_eq)
  qed
  show ?thesis
    unfolding profiles_ok_def profile_store_wf_def count p
    using front free dist' wf' last' km len k index
    by (simp add: p [symmetric]) (simp add: p)
qed

lemma editor_delete_inv:
  assumes "weather_inv c"
  shows "weather_inv (fst (lvww_editor_delete_cb E c w))"
proof (cases "ctx_editor_saved_index c < 0 \<or> ctx_editor_saved_index c \<ge> int (unat (ps_count (ctx_profile_store c)))")
  case True
  then show ?thesis using assms by (simp add: lvww_editor_delete_cb_def Let_def)
next
  case False
  let ?i = "nat (ctx_editor_saved_index c)" and ?ps = "ctx_profile_store c"
  have "?i < unat (ps_count ?ps)" using False by linarith
  then have "profiles_ok (unat (cfg_max_profiles (ctx_cfg c))) (remove_profile ?i ?ps)"
    using assms by (intro profiles_ok_remove) (simp_all add: weather_inv_defs config_ok_def)
  then have "weather_inv (c\<lparr>ctx_profile_store := remove_profile ?i ?ps\<rparr>)"
    using assms by (simp add: weather_inv_defs)
  then have "weather_inv (fst (lvww_save_profiles E (c\<lparr>ctx_profile_store := remove_profile ?i ?ps\<rparr>) w))"
    by (rule save_profiles_inv)
  moreover obtain c1 w1 where c1: "lvww_save_profiles E (c\<lparr>ctx_profile_store := remove_profile ?i ?ps\<rparr>) w = (c1, w1)"
    by fastforce
  ultimately have close: "weather_inv (lvww_close_editor c1)" by (simp add: lvww_close_editor_def weather_inv_defs)
  then show ?thesis
    using same_core_inv [OF request_core(2) [of "lvww_close_editor c1" E w1] close] False c1
    by (simp add: lvww_editor_delete_cb_def Let_def)
qed

section \<open>Events\<close>

lemma handle_wifi_state_inv:
  assumes "weather_inv c"
  shows "weather_inv (fst (lvww_handle_wifi_state E state ssid c w))"
proof (cases state)
  case LVWW_WIFI_ONLINE
  define c1 where "c1 = c\<lparr>ctx_wifi_state := LVWW_WIFI_ONLINE, ctx_connected_ssid := c_array 33 (take 32 (c_str ssid))\<rparr>"
  obtain c2 w2 where c2: "lvww_upsert_pending_profile E c1 w = (c2, w2)" by fastforce
  define c3 where "c3 = c2\<lparr>ctx_connect_request_id := 0, ctx_disconnect_request_id := 0,
      ctx_weather_retry_tick := 0, ctx_time_retry_tick := 0\<rparr>"
  obtain c4 w4 where c4: "lvww_request_time E c3 w2 = (c4, w4)" by fastforce
  have "weather_inv c1" using assms by (simp add: c1_def weather_inv_defs)
  then have "weather_inv c2" using upsert_inv [of c1 E w] c2 by simp
  then have "weather_inv c3" by (simp add: c3_def weather_inv_defs)
  then have "weather_inv c4" using same_core_inv [OF request_core(4) [of c3 E w2]] c4 by simp
  then have "weather_inv (fst (lvww_request_weather E c4 w4))" by (rule same_core_inv [OF request_core(3)])
  then show ?thesis
    by (simp only: lvww_handle_wifi_state_def Let_def LVWW_WIFI_ONLINE lvww_wifi_state_t.case prod.case
        c1_def [symmetric] c2 c3_def [symmetric] c4)
next
  case LVWW_WIFI_OFFLINE
  then show ?thesis using assms zero_wf(1) by (simp add: lvww_handle_wifi_state_def Let_def weather_inv_defs)
qed (use assms in \<open>simp_all add: lvww_handle_wifi_state_def Let_def weather_inv_defs\<close>)

lemma copy_items_ok:
  assumes "copy_items count limit items old = (n, results)" "unat limit \<le> k" "length items = k" "length old = k"
  shows "unat n \<le> k \<and> length results = k"
proof -
  have "unat (ucast limit :: u16) = unat limit" using unsigned_less [of limit, where 'a = nat] by (simp add: unsigned_ucast_eq take_bit_nat_eq_self)
  then have "unat n \<le> unat limit"
    using assms(1) by (auto simp: copy_items_def Let_def word_less_nat_alt)
  then show ?thesis using assms by (auto simp: copy_items_def Let_def min_def)
qed

lemma handle_error_core: "same_core c (fst (lvww_handle_error E operation c w))"
  by (auto simp: lvww_handle_error_def same_core_def Let_def split: lvww_operation_t.splits prod.splits)

lemma handle_event_inv:
  assumes inv: "weather_inv c" and wf: "event_wf (ev_data event)"
  shows "weather_inv (fst (lvww_handle_event E event c w))"
proof (cases "lvww_event_current c event")
  case False
  then show ?thesis using inv by (simp add: lvww_handle_event_def)
next
  case True
  show ?thesis
  proof (cases "ev_data event")
    case (EVT_WIFI_SCAN_RESULT count items)
    then show ?thesis
      using True inv wf copy_items_ok [of count "cfg_max_wifi_results (ctx_cfg c)" items "ctx_wifi_results c"]
      by (auto simp: lvww_handle_event_def weather_inv_defs config_ok_def split: prod.splits)
  next
    case (EVT_CITY_SEARCH_RESULT count items)
    then show ?thesis
      using True inv wf copy_items_ok [of count "cfg_max_city_results (ctx_cfg c)" items "ctx_city_candidates c"]
      by (auto simp: lvww_handle_event_def weather_inv_defs config_ok_def split: prod.splits)
  next
    case (EVT_WIFI_STATE state reason ssid)
    then show ?thesis using True handle_wifi_state_inv [OF inv] by (simp add: lvww_handle_event_def)
  next
    case (EVT_WEATHER_RESULT weather)
    obtain now w1 where now: "prt_tick E w = (now, w1)" by fastforce
    let ?c = "c\<lparr>ctx_cache_store := (ctx_cache_store c)\<lparr>cs_weather := weather, cs_weather_valid := 1\<rparr>,
                  ctx_weather_tick := now, ctx_weather_request_id := 0, ctx_weather_retry_tick := 0\<rparr>"
    have "weather_inv ?c" using inv by (simp add: weather_inv_defs)
    from same_core_inv [OF save_cache_core this]
    show ?thesis using True EVT_WEATHER_RESULT now by (simp add: lvww_handle_event_def)
  next
    case (EVT_ERROR operation code str)
    then show ?thesis using True same_core_inv [OF handle_error_core inv] by (simp add: lvww_handle_event_def)
  qed (use True inv in \<open>auto simp: lvww_handle_event_def weather_inv_defs split: prod.splits\<close>)
qed

lemma pump_inv: "weather_inv c \<Longrightarrow> weather_inv (fst (lvww_pump E n c w))"
proof (induction E n c w rule: lvww_pump.induct)
  case (2 E n c w)
  show ?case
  proof (cases "ctx_event_mq c")
    case Nil
    then show ?thesis using 2(2) by (simp add: fifo_recv_def)
  next
    case (Cons event q)
    have "weather_inv (c\<lparr>ctx_event_mq := q\<rparr>)" "event_wf (ev_data event)"
      using 2(2) Cons by (simp_all add: weather_inv_defs)
    then have "weather_inv (fst (lvww_handle_event E event (c\<lparr>ctx_event_mq := q\<rparr>) w))" by (rule handle_event_inv)
    then show ?thesis
      using 2(1) Cons by (auto simp: fifo_recv_def split: prod.splits)
  qed
qed simp

section \<open>Everything that can happen\<close>

text \<open>One callback of the UI thread that calls nothing but the port: a timer, or an action of the user.\<close>

inductive ui_step :: "'w lvww_port_ops_t \<Rightarrow> lvww_ctx \<times> 'w \<Rightarrow> lvww_ctx \<times> 'w \<Rightarrow> bool" for E where
  pump: "ui_step E (c, w) (lvww_pump_timer_cb E c w)"
| clock: "ui_step E (c, w) (lvww_clock_timer_cb E c w)"
| page: "ui_step E (c, w) (lvww_show_page E page c w)"
| scan_button: "ui_step E (c, w) (lvww_request_scan E c w)"
| disconnect_button: "ui_step E (c, w) (lvww_request_disconnect E c w)"
| wifi_row: "ui_step E (c, w) (lvww_wifi_row_cb tag c, w)"
| add_button: "ui_step E (c, w) (lvww_add_button_cb c, w)"
| editor_security: "ui_step E (c, w) (lvww_editor_security_cb c, w)"
| editor_close: "ui_step E (c, w) (lvww_close_editor c, w)"
| editor_submit: "ui_step E (c, w) (lvww_editor_submit_cb E ssid password c w)"
| editor_delete: "ui_step E (c, w) (lvww_editor_delete_cb E c w)"
| city_result: "ui_step E (c, w) (lvww_city_result_cb E index c w)"
| city_search: "ui_step E (c, w) (lvww_search_timer_cb E query c w)"
| city_input: "ui_step E (c, w) (snd (lvww_city_input_cb E input c w))"

text \<open>
  One callback of the UI thread, one of those that call the firmware update, one event posted by another thread that satisfies \<open>P\<close>, or anything
  that changes the world but not the context: the workers of the port, the network, the clock.
\<close>

inductive weather_step ::
  "'w lvww_port_ops_t \<Rightarrow> (lvww_event_t \<Rightarrow> bool) \<Rightarrow> lvww_ctx \<times> 'w \<Rightarrow> lvww_ctx \<times> 'w \<Rightarrow> bool" for E P where
  ui: "ui_step E s s' \<Longrightarrow> weather_step E P s s'"
| server: "weather_step E P (c, w) (snd (snd (lvww_server_submit callback address server c w)))"
| firmware: "weather_step E P (c, w) (lvww_firmware_update_cb fw_callback c w)"
| post: "P event \<Longrightarrow> weather_step E P (c, w) (snd (lvww_post_event event c), w)"
| world: "weather_step E P (c, w) (c, w')"

inductive_cases weather_stepE: "weather_step E P s s'"

abbreviation weather_reach ::
  "'w lvww_port_ops_t \<Rightarrow> (lvww_event_t \<Rightarrow> bool) \<Rightarrow> lvww_ctx \<times> 'w \<Rightarrow> lvww_ctx \<times> 'w \<Rightarrow> bool" where
  "weather_reach E P \<equiv> (weather_step E P)\<^sup>*\<^sup>*"

lemma catalog_loop_length: "length (catalog_loop query k items) \<le> k"
  by (induction query k items rule: catalog_loop.induct) auto

lemma catalog_search_length: "length (lvww_city_catalog_search query k) \<le> k"
  by (simp add: lvww_city_catalog_search_def catalog_loop_length)

lemma default_cities_inv:
  assumes "weather_inv c"
  shows "weather_inv (default_cities c)"
proof -
  let ?found = "lvww_city_catalog_search (Some []) (unat (cfg_max_city_results (ctx_cfg c)))"
  have len: "length ?found \<le> 8"
    using assms catalog_search_length [of "Some []" "unat (cfg_max_city_results (ctx_cfg c))"]
    by (simp add: weather_inv_def config_ok_def)
  then have "unat (of_nat (length ?found) :: u16) = length ?found" by (simp add: unat_of_nat)
  then show ?thesis
    using assms len by (simp add: default_cities_def Let_def weather_inv_defs)
qed

lemma small_steps_core:
  "same_core c (lvww_wifi_row_cb tag c)" "same_core c (lvww_add_button_cb c)"
  "same_core c (lvww_editor_security_cb c)" "same_core c (lvww_close_editor c)"
  "same_core c (fst (snd (snd (lvww_server_submit callback address server c w))))"
  "same_core c (fst (lvww_firmware_update_cb fw_callback c w))"
  by (auto simp: lvww_wifi_row_cb_def lvww_add_button_cb_def lvww_editor_security_cb_def lvww_close_editor_def
      lvww_open_editor_def lvww_server_submit_def lvww_firmware_update_cb_def Let_def same_core_def
      split: option.splits prod.splits)

lemma clock_core: "same_core c (fst (lvww_clock_timer_cb E c w))"
proof -
  obtain now w1 where now: "prt_tick E w = (now, w1)" by fastforce
  have "same_core c (fst (if b then lvww_request_weather E c1 w2 else (c1, w2)))" if "same_core c c1" for b c1 w2
    using that same_core_trans [OF that request_core(3)] by (cases b) simp_all
  moreover have "same_core c (fst (if b then lvww_request_time E c w1 else (c, w1)))" for b
    using request_core(4) [of c E w1] by simp
  ultimately show ?thesis
    by (simp add: lvww_clock_timer_cb_def now Let_def split: prod.split) (metis fst_conv)
qed

lemma editor_submit_inv:
  assumes "weather_inv c"
  shows "weather_inv (fst (lvww_editor_submit_cb E ssid password c w))"
proof -
  have "weather_inv (lvww_close_editor c)" using assms small_steps_core(4) same_core_inv by blast
  then show ?thesis
    using assms by (auto simp: lvww_editor_submit_cb_def Let_def credentials_wf_def intro!: request_connect_inv)
qed

lemma city_result_core_inv:
  assumes "weather_inv c"
  shows "weather_inv (fst (lvww_city_result_cb E index c w))"
proof -
  let ?c = "c\<lparr>ctx_cache_store := (ctx_cache_store c)
              \<lparr>cs_city := ctx_city_candidates c ! index, cs_city_valid := 1, cs_weather_valid := 0\<rparr>\<rparr>"
  obtain c1 w1 where c1: "lvww_save_cache E ?c w = (c1, w1)" by fastforce
  have "weather_inv ?c" using assms by (simp add: weather_inv_defs)
  then have "weather_inv c1" using same_core_inv [OF save_cache_core [of ?c E w]] c1 by simp
  then have "weather_inv (fst (lvww_request_weather E c1 w1))" by (rule same_core_inv [OF request_core(3)])
  then show ?thesis using assms c1 by (simp add: lvww_city_result_cb_def Let_def)
qed

lemma city_search_core: "same_core c (fst (lvww_search_timer_cb E query c w))"
  by (auto simp: lvww_search_timer_cb_def same_core_def Let_def lvww_next_request_def
      split: option.splits prod.splits)

lemma city_input_inv: "weather_inv c \<Longrightarrow> weather_inv (fst (snd (lvww_city_input_cb E input c w)))"
  using default_cities_inv [of "c\<lparr>ctx_city_request_id := 0\<rparr>"]
  by (simp add: lvww_city_input_cb_def Let_def weather_inv_defs)

lemma post_event_inv:
  "weather_inv c \<Longrightarrow> event_wf (ev_data event) \<Longrightarrow> weather_inv (snd (lvww_post_event event c))"
  by (auto simp: lvww_post_event_def fifo_send_def weather_inv_defs)

lemma ui_step_inv:
  assumes "ui_step E (c, w) (c', w')" "weather_inv c"
  shows "weather_inv c'"
proof -
  have core: "weather_inv (fst s)" if "same_core c (fst s)" for s :: "lvww_ctx \<times> 'w"
    using that assms(2) same_core_inv by blast
  from assms(1) show ?thesis
  proof cases
    case pump
    then show ?thesis using pump_inv [OF assms(2), of E 4 w] by (simp add: lvww_pump_timer_cb_def) (metis fst_conv)
  next
    case clock
    then show ?thesis using core [OF clock_core] by (metis fst_conv)
  next
    case (page page)
    then show ?thesis using core [OF request_core(1)] assms(2) by (metis fst_conv lvww_show_page_def)
  next
    case scan_button
    then show ?thesis using core [OF request_core(1)] by (metis fst_conv)
  next
    case disconnect_button
    then show ?thesis using core [OF request_core(2)] by (metis fst_conv)
  next
    case (editor_submit ssid password)
    then show ?thesis using editor_submit_inv [OF assms(2)] by (metis fst_conv)
  next
    case editor_delete
    then show ?thesis using editor_delete_inv [OF assms(2)] by (metis fst_conv)
  next
    case (city_result index)
    then show ?thesis using city_result_core_inv [OF assms(2)] by (metis fst_conv)
  next
    case (city_search query)
    then show ?thesis using core [OF city_search_core] by (metis fst_conv)
  next
    case (city_input input)
    then show ?thesis using city_input_inv [OF assms(2)] by (metis fst_conv snd_conv)
  qed (use assms(2) in \<open>auto intro: same_core_inv [OF small_steps_core(1)] same_core_inv [OF small_steps_core(2)]
      same_core_inv [OF small_steps_core(3)] same_core_inv [OF small_steps_core(4)]\<close>)
qed

lemma weather_step_inv:
  assumes "weather_step E P (c, w) (c', w')" "weather_inv c" "\<And>event. P event \<Longrightarrow> event_wf (ev_data event)"
  shows "weather_inv c'"
  using assms(1)
proof cases
  case ui
  then show ?thesis using assms(2) by (rule ui_step_inv)
next
  case (server callback address server)
  then show ?thesis using same_core_inv [OF small_steps_core(5) assms(2)] by (metis fst_conv snd_conv)
next
  case (firmware fw_callback)
  then show ?thesis using same_core_inv [OF small_steps_core(6) assms(2)] by (metis fst_conv)
next
  case (post event)
  then show ?thesis using post_event_inv assms(2,3) by simp
qed (use assms(2) in simp)

lemma weather_reach_inv:
  assumes "weather_reach E P s s'" "weather_inv (fst s)" "\<And>event. P event \<Longrightarrow> event_wf (ev_data event)"
  shows "weather_inv (fst s')"
  using assms(1,2)
proof (induction rule: rtranclp_induct)
  case (step s1 s2)
  then show ?case using weather_step_inv [of E P "fst s1" "snd s1" "fst s2" "snd s2"] assms(3) by simp
qed

section \<open>The start\<close>

text \<open>What the port has stored under the profile key, if anything, is a proper store.\<close>

definition stored_profiles_ok :: "'w lvww_port_ops_t \<Rightarrow> lvww_config_t \<Rightarrow> 'w \<Rightarrow> bool" where
  "stored_profiles_ok E cfg w \<longleftrightarrow>
     profiles_ok (unat (cfg_max_profiles cfg)) (fst (lvww_load_profiles E cfg w))"

definition used_config :: "lvww_config_t option \<Rightarrow> lvww_config_t" where
  "used_config config = config_fix (case config of None \<Rightarrow> lvww_config_init | Some cfg \<Rightarrow> cfg)"

lemma used_config_ok: "config_ok (used_config config)"
  by (simp add: used_config_def config_fix_def config_ok_def linorder_not_less word_le_nat_alt)

lemma create_inv:
  assumes "lvww_create (Some E) config True True True w = (Some c, w')" "stored_profiles_ok E (used_config config) w"
  shows "weather_inv c"
proof -
  let ?cfg = "used_config config"
  define c0 where "c0 = (ctx_zero ?cfg)\<lparr>ctx_alive := True, ctx_editor_saved_index := -1,
      ctx_firmware_info := lvww_firmware_info_init\<rparr>"
  obtain ps w1 where ps: "lvww_load_profiles E ?cfg w = (ps, w1)" by fastforce
  obtain cs w2 where cs: "lvww_load_cache E ?cfg w1 = (cs, w2)" by fastforce
  define c1 where "c1 = c0\<lparr>ctx_profile_store := ps, ctx_cache_store := cs\<rparr>"
  have ok: "profiles_ok (unat (cfg_max_profiles ?cfg)) ps" using assms(2) ps by (simp add: stored_profiles_ok_def)
  have "weather_inv c1"
    using ok used_config_ok zero_wf(1) by (simp add: c1_def c0_def ctx_zero_def weather_inv_defs)
  then have c2: "weather_inv (default_cities c1)" by (rule default_cities_inv)
  let ?c2 = "default_cities c1" and ?last = "sint (ps_last_success ps)"
  have load: "lvww_load_store E c0 w = (c1, w2)"
    using ps cs by (simp add: lvww_load_store_def c1_def c0_def ctx_zero_def)
  have store: "ctx_profile_store ?c2 = ps" by (simp add: default_cities_def Let_def c1_def)
  have made: "(Some c, w') = (case (if 0 \<le> ?last \<and> ?last < int (unat (ps_count ps))
        then lvww_request_connect E (ps_profiles ps ! nat ?last) ?c2 w2 else lvww_request_scan E ?c2 w2) of
      (c, w) \<Rightarrow> (Some c, w))"
    using assms(1) unfolding lvww_create_def option.case Let_def used_config_def [symmetric] c0_def [symmetric] load
    by (simp only: prod.case store simp_thms if_False)
  show ?thesis
  proof (cases "0 \<le> ?last \<and> ?last < int (unat (ps_count ps))")
    case True
    have "unat (ps_count ps) \<le> 8" "length (ps_profiles ps) = 8"
      using ok used_config_ok [of config] by (auto simp: profiles_ok_def profile_store_wf_def config_ok_def)
    then have "nat ?last < length (ps_profiles ps)" using True by linarith
    then have "credentials_wf (ps_profiles ps ! nat ?last)" using ok by (simp add: profiles_ok_def profile_store_wf_def)
    from request_connect_inv [OF c2 this, of E w2] show ?thesis using made True by (auto split: prod.splits)
  next
    case False
    from same_core_inv [OF request_core(1) c2, of E w2] show ?thesis using made False by (auto split: prod.splits)
  qed
qed

lemma wifi_rows_length: "length (lvww_refresh_wifi c) \<le> unat (ctx_wifi_count c) + unat (ps_count (ctx_profile_store c))"
  by (simp add: lvww_refresh_wifi_def) (metis diff_zero length_filter_le length_upt)

text \<open>
  C7: The weather application keeps its data in order whatever happens.  From its creation on, under
  any sequence of timer callbacks, user actions, events posted by other threads in any order, and
  any answers of the port, the saved profiles stay within the limit and have different names, the
  last success is one of them or none, unused and deleted entries hold no credentials, and neither
  does the pending entry when no connection is pending; the result lists never exceed their arrays,
  the rows of the Wi-Fi page fit into the bindings reserved for them, and the event queue is bounded.
\<close>

theorem weather_reach_invariant:
  assumes "lvww_create (Some E) config True True True w0 = (Some c0, w1)"
    and "stored_profiles_ok E (used_config config) w0"
    and "weather_reach E (\<lambda>event. event_wf (ev_data event)) (c0, w1) (c, w)"
  shows "profiles_ok LVWW_MAX_PROFILES (ctx_profile_store c) \<and>
    (\<not> ctx_pending_valid c \<longrightarrow> ctx_pending_credentials c = credentials_zero) \<and>
    unat (ctx_wifi_count c) \<le> length (ctx_wifi_results c) \<and> length (ctx_wifi_results c) = LVWW_MAX_WIFI_RESULTS \<and>
    unat (ctx_city_count c) \<le> length (ctx_city_candidates c) \<and>
    length (ctx_city_candidates c) = LVWW_MAX_CITY_RESULTS \<and>
    length (lvww_refresh_wifi c) \<le> LVWW_MAX_WIFI_RESULTS + LVWW_MAX_PROFILES \<and>
    length (ctx_event_mq c) \<le> LVWW_EVENT_QUEUE_DEPTH"
proof -
  have inv: "weather_inv c"
    using weather_reach_inv [OF assms(3)] create_inv [OF assms(1,2)] by simp
  then show ?thesis
    using wifi_rows_length [of c] by (auto simp: weather_inv_defs config_ok_def profiles_ok_def)
qed

section \<open>A sample\<close>

text \<open>A port that accepts every request, with the key-value store of \<open>lvww_rw007.c\<close> and a clock.\<close>

definition sample_port :: "(lvww_rw_kv_t list \<times> u32) lvww_port_ops_t" where
  "sample_port =
     \<lparr>op_wifi_scan = Some (\<lambda>n w. (RT_EOK, w)), op_wifi_connect = Some (\<lambda>n cred w. (RT_EOK, w)),
      op_wifi_disconnect = Some (\<lambda>n w. (RT_EOK, w)), op_city_search = Some (\<lambda>n query w. (RT_EOK, w)),
      op_weather_fetch = Some (\<lambda>n city w. (RT_EOK, w)), op_time_sync = Some (\<lambda>n w. (RT_EOK, w)),
      op_cancel = Some (\<lambda>operation n w. w),
      op_kv_read = Some (\<lambda>key buffer (kvs, t). (rw_kv_read kvs key buffer, kvs, t)),
      op_kv_write = Some (\<lambda>key data secret (kvs, t).
        case rw_kv_write key data kvs of (rc, kvs) \<Rightarrow> (rc, kvs, t)),
      op_kv_delete = Some (\<lambda>key (kvs, t). case rw_kv_delete key kvs of (rc, kvs) \<Rightarrow> (rc, kvs, t)),
      prt_tick = (\<lambda>(kvs, t). (t, kvs, t))\<rparr>"

definition sample_world :: "lvww_rw_kv_t list \<times> u32" where
  "sample_world = (replicate 3 kv_zero, 7)"

lemma profiles_ok_fresh: "profiles_ok m (profile_store_zero\<lparr>ps_last_success := LVWW_INVALID_INDEX\<rparr>)"
  using zero_wf(2) by (simp add: profiles_ok_def profile_store_wf_def profile_store_zero_def list_all_iff)

lemma fresh_crc: "ps_magic (profile_store_zero\<lparr>ps_last_success := LVWW_INVALID_INDEX\<rparr>) \<noteq> LVWW_STORE_MAGIC"
  by (simp add: profile_store_zero_def)

lemma sample_stored_ok: "stored_profiles_ok sample_port cfg sample_world"
proof -
  have "rw_kv_find (replicate 3 kv_zero) key = None" for key
    by (simp add: numeral_eq_Suc kv_zero_def)
  then have "fst (lvww_load_profiles sample_port cfg sample_world) = profile_store_zero\<lparr>ps_last_success := LVWW_INVALID_INDEX\<rparr>"
    using fresh_crc by (simp add: lvww_load_profiles_def sample_port_def sample_world_def rw_kv_read_def Let_def)
  then show ?thesis using profiles_ok_fresh by (simp add: stored_profiles_ok_def)
qed

lemma weather_reach_invariant_witness:
  "\<exists>c0 w1. lvww_create (Some sample_port) None True True True sample_world = (Some c0, w1) \<and>
     profiles_ok LVWW_MAX_PROFILES (ctx_profile_store (fst (lvww_pump_timer_cb sample_port c0 w1)))"
proof -
  obtain c0 w1 where c: "lvww_create (Some sample_port) None True True True sample_world = (Some c0, w1)"
    by (simp add: lvww_create_def Let_def case_prod_beta)
  obtain c2 w2 where p: "lvww_pump_timer_cb sample_port c0 w1 = (c2, w2)" by (metis surj_pair)
  have "weather_step sample_port P (c0, w1) (c2, w2)" for P using weather_step.ui ui_step.pump p by metis
  then have "weather_reach sample_port P (c0, w1) (c2, w2)" for P by (rule r_into_rtranclp)
  then have "profiles_ok LVWW_MAX_PROFILES (ctx_profile_store c2)"
    using weather_reach_invariant [OF c sample_stored_ok] by blast
  then show ?thesis using c p by auto
qed

end
