(* ===== verification/Weather_Restart.thy ===== *)
theory Weather_Restart
  imports Weather_Safety
begin

text \<open>
  What the weather application keeps over a restart: the saved profiles are read back from the
  key-value store of the port, and the network of the last success is connected to again.
\<close>

section \<open>Saving and loading\<close>

text \<open>A port whose key-value operations are those of a store that is one part of the world.\<close>

definition kv_backed ::
  "('s \<Rightarrow> bytes \<Rightarrow> bytes \<Rightarrow> int \<times> bytes \<times> nat) \<Rightarrow> (bytes \<Rightarrow> bytes \<Rightarrow> 's \<Rightarrow> int \<times> 's) \<Rightarrow>
   ('s \<times> 't) lvww_port_ops_t \<Rightarrow> bool" where
  "kv_backed rd wr E \<longleftrightarrow>
     op_kv_read E = Some (\<lambda>key buffer (s, t). (rd s key buffer, s, t)) \<and>
     op_kv_write E = Some (\<lambda>key data secret (s, t). case wr key data s of (rc, s) \<Rightarrow> (rc, s, t))"

lemma length_profile_store_bytes: "profile_store_wf ps \<Longrightarrow> length (profile_store_bytes ps) = 804"
  using profile_store_body_length(1) [of ps] by (simp add: profile_store_bytes_def)

lemma profile_store_body_crc [simp]: "profile_store_body (ps\<lparr>ps_crc := k\<rparr>) = profile_store_body ps"
  by (simp add: profile_store_body_def)

context kv_port begin

text \<open>What is saved is loaded again, whatever else is written to the store meanwhile.\<close>

lemma load_after_save:
  assumes E: "kv_backed kvread kvwrite E" and inv: "kvinv s" and keys: "key_ok LVWW_PROFILE_KEY" "key_ok key"
    and key: "key \<noteq> LVWW_PROFILE_KEY"
    and wf: "profile_store_wf (ctx_profile_store c)"
    and limit: "unat (ps_count (ctx_profile_store c)) \<le> unat (cfg_max_profiles cfg)"
    and save: "lvww_save_profiles E c (s, t) = (c', s1, t1)"
    and stored: "fst (kvwrite LVWW_PROFILE_KEY (profile_store_bytes (ctx_profile_store c')) s) = RT_EOK"
    and later: "s2 = s1 \<or> (\<exists>d. s2 = snd (kvwrite key d s1))"
  shows "lvww_load_profiles E cfg (s2, t2) = (ctx_profile_store c', s2, t2)"
proof -
  define ps where "ps = (ctx_profile_store c)\<lparr>ps_magic := LVWW_STORE_MAGIC, ps_version := LVWW_STORE_VERSION\<rparr>"
  define ps' where "ps' = ps\<lparr>ps_crc := lvww_crc32 (profile_store_body ps)\<rparr>"
  have c': "ctx_profile_store c' = ps'" and w: "kvwrite LVWW_PROFILE_KEY (profile_store_bytes ps') s = (RT_EOK, s1)"
    using save E stored
    by (auto simp: lvww_save_profiles_def kv_backed_def Let_def ps_def ps'_def split: prod.splits)
  have wf': "profile_store_wf ps'" using wf by (simp add: ps'_def ps_def profile_store_wf_def)
  let ?fresh = "profile_store_zero\<lparr>ps_last_success := LVWW_INVALID_INDEX\<rparr>"
  have "profile_store_wf ?fresh" using zero_wf(2) by (simp add: profile_store_wf_def)
  then have len: "length (profile_store_bytes ps') = length (profile_store_bytes ?fresh)"
    using wf' by (simp add: length_profile_store_bytes)
  have "kvread s2 LVWW_PROFILE_KEY (profile_store_bytes ?fresh) = (RT_EOK, profile_store_bytes ps', 804)"
    using later
  proof
    assume "s2 = s1"
    then show ?thesis using read_exact [OF inv keys(1) w len] wf' by (simp add: length_profile_store_bytes)
  next
    assume "\<exists>d. s2 = snd (kvwrite key d s1)"
    then obtain d rc where "kvwrite key d s1 = (rc, s2)" by (metis prod.collapse)
    then show ?thesis
      using read_exact_later [OF inv keys(1) w len keys(2)] key wf' by (simp add: length_profile_store_bytes)
  qed
  moreover have "ps_magic ps' = LVWW_STORE_MAGIC" "ps_version ps' = LVWW_STORE_VERSION"
    "ps_crc ps' = lvww_crc32 (profile_store_body ps')" "ps_count ps' = ps_count (ctx_profile_store c)"
    by (simp_all add: ps'_def ps_def)
  moreover have "\<not> cfg_max_profiles cfg < ps_count (ctx_profile_store c)" using limit by (simp add: word_less_nat_alt)
  ultimately show ?thesis
    using E profile_store_of_bytes_bytes [OF wf']
    by (simp add: lvww_load_profiles_def kv_backed_def Let_def c')
qed

end

section \<open>The next start\<close>

lemma create_reconnects:
  assumes create: "lvww_create (Some E) config True True True w = (Some c, w')"
    and load: "lvww_load_profiles E (used_config config) w = (ps, w1)"
    and last: "k < unat (ps_count ps)" "k < 128" "ps_last_success ps = of_nat k"
    and connect: "op_wifi_connect E = Some wifi_connect" "\<And>n cred w. fst (wifi_connect n cred w) = RT_EOK"
  shows "ctx_profile_store c = ps \<and> ctx_pending_credentials c = ps_profiles ps ! k \<and> ctx_pending_valid c \<and>
    ctx_wifi_state c = LVWW_WIFI_CONNECTING \<and> ctx_connect_request_id c = 1 \<and>
    (\<exists>w2. w' = snd (wifi_connect 1 (ps_profiles ps ! k) w2))"
proof -
  let ?cfg = "used_config config"
  define c0 where "c0 = (ctx_zero ?cfg)\<lparr>ctx_alive := True, ctx_editor_saved_index := -1,
      ctx_firmware_info := lvww_firmware_info_init\<rparr>"
  obtain cs w2 where cs: "lvww_load_cache E ?cfg w1 = (cs, w2)" by fastforce
  define c1 where "c1 = default_cities (c0\<lparr>ctx_profile_store := ps, ctx_cache_store := cs\<rparr>)"
  have l: "lvww_load_store E c0 w = (c0\<lparr>ctx_profile_store := ps, ctx_cache_store := cs\<rparr>, w2)"
    using load cs by (simp add: lvww_load_store_def c0_def ctx_zero_def)
  have c1: "ctx_profile_store c1 = ps" "ctx_connect_request_id c1 = 0" "ctx_next_request_id c1 = 0"
    by (simp_all add: c1_def c0_def ctx_zero_def default_cities_def Let_def)
  have "sint (ps_last_success ps) = int k" using last by (simp add: sint_of_nat_u8)
  moreover have "int k < int (unat (ps_count ps))" using last(1) by (simp only: of_nat_less_iff)
  ultimately have "(Some c, w') = (case lvww_request_connect E (ps_profiles ps ! k) c1 w2 of (c, w) \<Rightarrow> (Some c, w))"
    using create unfolding lvww_create_def option.case Let_def used_config_def [symmetric] c0_def [symmetric] l
    by (simp add: c1_def [symmetric] c1 del: default_cities_def)
  moreover obtain rc w3 where "wifi_connect 1 (ps_profiles ps ! k) w2 = (rc, w3)" by fastforce
  moreover from this have "rc = RT_EOK" using connect(2) [of 1 "ps_profiles ps ! k" w2] by simp
  ultimately show ?thesis
    using connect(1) c1 by (auto simp: lvww_request_connect_def lvww_next_request_def Let_def
        default_cities_def intro!: exI [of _ w2])
qed


section \<open>A sample\<close>

definition sample_credentials :: lvww_wifi_credentials_t where
  "sample_credentials = \<lparr>cred_ssid = c_array 33 (ascii ''home''), cred_password = c_array 65 (ascii ''correct horse''),
     cred_secure = 1\<rparr>"

text \<open>A context that is connecting to a network it does not know yet.\<close>

definition sample_connecting :: lvww_ctx where
  "sample_connecting = (ctx_zero (used_config None))
     \<lparr>ctx_profile_store := profile_store_zero\<lparr>ps_last_success := LVWW_INVALID_INDEX\<rparr>, ctx_alive := True,
      ctx_wifi_state := LVWW_WIFI_CONNECTING, ctx_connect_request_id := 1, ctx_next_request_id := 1,
      ctx_pending_credentials := sample_credentials, ctx_pending_valid := True\<rparr>"

lemma sample_connecting_inv: "weather_inv sample_connecting"
  using profiles_ok_fresh used_config_ok
  by (simp add: weather_inv_defs sample_connecting_def ctx_zero_def credentials_wf_def sample_credentials_def)

lemma empty_kvs: "rw_kv_inv (replicate 3 kv_zero)" "rw_kv_find (replicate 3 kv_zero) key = None"
  "rw_kv_free (replicate 3 kv_zero) = Some 0"
proof -
  show "rw_kv_inv (replicate 3 kv_zero)" by (auto simp: rw_kv_inv_def kv_match_def kv_zero_def)
  show "rw_kv_find (replicate 3 kv_zero) key = None" "rw_kv_free (replicate 3 kv_zero) = Some 0"
    by (simp_all add: numeral_3_eq_3) (simp_all add: kv_zero_def)
qed


end
