(* ===== verification/Weather_Stale.thy ===== *)
theory Weather_Stale
  imports Weather_Restart
begin

text \<open>
  How the weather application matches results to requests, and where it does not: a city chosen while
  the weather of another one is fetched, a result that is lost, and a connection that comes up on its
  own while another one is attempted.
\<close>

section \<open>The wrong city\<close>

lemma request_weather_waits: "ctx_weather_request_id c \<noteq> 0 \<Longrightarrow> lvww_request_weather E c w = (c, w)"
  by (simp add: lvww_request_weather_def split: option.splits)

lemma save_cache_kept:
  "cs_city (ctx_cache_store (fst (lvww_save_cache E c w))) = cs_city (ctx_cache_store c)"
  "cs_weather (ctx_cache_store (fst (lvww_save_cache E c w))) = cs_weather (ctx_cache_store c)"
  "cs_weather_valid (ctx_cache_store (fst (lvww_save_cache E c w))) = cs_weather_valid (ctx_cache_store c)"
  "ctx_weather_request_id (fst (lvww_save_cache E c w)) = ctx_weather_request_id c"
  "ctx_weather_tick (fst (lvww_save_cache E c w)) = ctx_weather_tick c"
  "ctx_time_tick (fst (lvww_save_cache E c w)) = ctx_time_tick c"
  "ctx_time_valid (fst (lvww_save_cache E c w)) = ctx_time_valid c"
  "ctx_cfg (fst (lvww_save_cache E c w)) = ctx_cfg c"
  by (auto simp: lvww_save_cache_def Let_def split: option.splits prod.splits)

lemma city_result_waiting:
  assumes "ctx_weather_request_id c \<noteq> 0" "index < unat (ctx_city_count c)"
  shows "lvww_city_result_cb E index c w = lvww_save_cache E (c\<lparr>ctx_cache_store := (ctx_cache_store c)
    \<lparr>cs_city := ctx_city_candidates c ! index, cs_city_valid := 1, cs_weather_valid := 0\<rparr>\<rparr>) w"
proof -
  let ?c = "c\<lparr>ctx_cache_store := (ctx_cache_store c)
              \<lparr>cs_city := ctx_city_candidates c ! index, cs_city_valid := 1, cs_weather_valid := 0\<rparr>\<rparr>"
  obtain s ws where save: "lvww_save_cache E ?c w = (s, ws)" by fastforce
  then have "lvww_request_weather E s ws = (s, ws)"
    using save_cache_kept(4) [of E ?c w] assms(1) by (intro request_weather_waits) simp
  then show ?thesis using assms(2) save by (simp add: lvww_city_result_cb_def Let_def)
qed

lemma weather_result_stored:
  assumes "ctx_weather_request_id c = n" "prt_tick E w = (now, w')"
  shows "lvww_handle_event E \<lparr>ev_request_id = n, ev_data = EVT_WEATHER_RESULT weather\<rparr> c w =
    lvww_save_cache E (c\<lparr>ctx_cache_store := (ctx_cache_store c)\<lparr>cs_weather := weather, cs_weather_valid := 1\<rparr>,
      ctx_weather_tick := now, ctx_weather_request_id := 0, ctx_weather_retry_tick := 0\<rparr>) w'"
  using assms by (simp add: lvww_handle_event_def lvww_event_current_def)

text \<open>
  C18: Choosing a city while the weather of another one is being fetched gives it the other one's
  weather.  The choice clears the cached weather but neither cancels the request under way nor
  starts a new one; its result still carries the current request id, so it is stored as valid weather
  of the new city, and written to the key-value store.  Until the refresh interval is over, no clock
  callback asks for the weather of the city that is shown.
\<close>

theorem weather_city_mixup:
  assumes "ctx_weather_request_id c \<noteq> 0" "index < unat (ctx_city_count c)"
    and choose: "lvww_city_result_cb E index c w = (c1, w1)"
    and result: "lvww_handle_event E \<lparr>ev_request_id = ctx_weather_request_id c, ev_data = EVT_WEATHER_RESULT weather\<rparr>
      c1 w2 = (c2, w3)"
    and tick: "prt_tick E w4 = (now, w5)"
    and fresh: "(now - ctx_weather_tick c2) div RT_TICK_PER_SECOND < cfg_weather_refresh_seconds (ctx_cfg c2)"
      "ctx_time_valid c2" "(now - ctx_time_tick c2) div RT_TICK_PER_SECOND < cfg_time_sync_seconds (ctx_cfg c2)"
  shows "cs_city (ctx_cache_store c2) = ctx_city_candidates c ! index \<and>
    cs_weather (ctx_cache_store c2) = weather \<and> cs_weather_valid (ctx_cache_store c2) = 1 \<and>
    ctx_weather_request_id c1 = ctx_weather_request_id c \<and>
    ctx_weather_request_id c2 = 0 \<and> lvww_clock_timer_cb E c2 w4 = (c2, w5)"
proof -
  have "c1 = fst (lvww_city_result_cb E index c w)" using choose by simp
  then have c1: "cs_city (ctx_cache_store c1) = ctx_city_candidates c ! index"
    "ctx_weather_request_id c1 = ctx_weather_request_id c"
    using assms(1,2) by (simp_all add: city_result_waiting save_cache_kept)
  obtain now' w' where now': "prt_tick E w2 = (now', w')" by fastforce
  have "c2 = fst (lvww_handle_event E \<lparr>ev_request_id = ctx_weather_request_id c, ev_data = EVT_WEATHER_RESULT weather\<rparr> c1 w2)"
    using result by simp
  then have c2: "cs_city (ctx_cache_store c2) = cs_city (ctx_cache_store c1)" "cs_weather (ctx_cache_store c2) = weather"
    "cs_weather_valid (ctx_cache_store c2) = 1" "ctx_weather_request_id c2 = 0"
    by (simp_all add: weather_result_stored [OF c1(2) now'] save_cache_kept)
  have "lvww_clock_timer_cb E c2 w4 = (c2, w5)"
    using tick fresh c2(3) by (simp add: lvww_clock_timer_cb_def linorder_not_le [symmetric])
  then show ?thesis using c1 c2 by simp
qed

text \<open>A context that fetches the weather, with the list of the built-in cities.\<close>

definition sample_fetching :: lvww_ctx where
  "sample_fetching = (ctx_zero (used_config None))
     \<lparr>ctx_alive := True, ctx_wifi_state := LVWW_WIFI_ONLINE, ctx_weather_request_id := 1,
      ctx_next_request_id := 1, ctx_time_valid := True, ctx_city_candidates := map fst lvww_city_catalog,
      ctx_city_count := 8\<rparr>"

lemma sample_fetching_simps:
  "ctx_weather_request_id sample_fetching = 1" "unat (ctx_city_count sample_fetching) = 8"
  "ctx_time_valid sample_fetching" "ctx_time_tick sample_fetching = 0" "ctx_cfg sample_fetching = used_config None"
  "ctx_city_candidates sample_fetching = map fst lvww_city_catalog" "ctx_alive sample_fetching"
  "ctx_event_mq sample_fetching = []"
  by (simp_all add: sample_fetching_def ctx_zero_def)

lemma used_config_times: "cfg_weather_refresh_seconds (used_config None) = 1800" "cfg_time_sync_seconds (used_config None) = 21600"
  by (simp_all add: used_config_def config_fix_def lvww_config_init_def)

lemma weather_city_mixup_witness:
  "\<exists>(c1 :: lvww_ctx) c2 w. cs_city (ctx_cache_store c2) = fst (lvww_city_catalog ! 2) \<and>
     cs_weather (ctx_cache_store c2) = weather_zero \<and> cs_weather_valid (ctx_cache_store c2) = 1 \<and>
     ctx_weather_request_id c1 = 1 \<and> lvww_clock_timer_cb sample_port c2 w = (c2, w)"
proof -
  obtain c1 w1 where choose: "lvww_city_result_cb sample_port 2 sample_fetching sample_world = (c1, w1)"
    by (metis surj_pair)
  obtain c2 w3 where result:
    "lvww_handle_event sample_port \<lparr>ev_request_id = ctx_weather_request_id sample_fetching,
       ev_data = EVT_WEATHER_RESULT weather_zero\<rparr> c1 sample_world = (c2, w3)"
    by (metis surj_pair)
  have tick: "prt_tick sample_port sample_world = (7, sample_world)" by (simp add: sample_port_def sample_world_def)
  have id: "ctx_weather_request_id sample_fetching \<noteq> 0" "2 < unat (ctx_city_count sample_fetching)"
    by (simp_all add: sample_fetching_simps)
  have "c1 = fst (lvww_city_result_cb sample_port 2 sample_fetching sample_world)" using choose by simp
  then have c1: "ctx_weather_request_id c1 = ctx_weather_request_id sample_fetching" "ctx_time_valid c1"
    "ctx_time_tick c1 = 0" "ctx_cfg c1 = used_config None"
    using id by (simp_all add: city_result_waiting save_cache_kept sample_fetching_simps)
  have "c2 = fst (lvww_handle_event sample_port \<lparr>ev_request_id = ctx_weather_request_id sample_fetching,
       ev_data = EVT_WEATHER_RESULT weather_zero\<rparr> c1 sample_world)"
    using result by simp
  then have c2: "ctx_weather_tick c2 = 7" "ctx_time_valid c2" "ctx_time_tick c2 = 0" "ctx_cfg c2 = used_config None"
    using c1 by (simp_all add: weather_result_stored [OF c1(1) tick] save_cache_kept)
  have fresh: "(7 - ctx_weather_tick c2) div RT_TICK_PER_SECOND < cfg_weather_refresh_seconds (ctx_cfg c2)"
    "(7 - ctx_time_tick c2) div RT_TICK_PER_SECOND < cfg_time_sync_seconds (ctx_cfg c2)"
    using c2 by (simp_all add: used_config_times)
  have "2 < length lvww_city_catalog" by (simp add: lvww_city_catalog_def)
  then have "ctx_city_candidates sample_fetching ! 2 = fst (lvww_city_catalog ! 2)"
    by (simp add: sample_fetching_simps)
  then have "cs_city (ctx_cache_store c2) = fst (lvww_city_catalog ! 2) \<and>
     cs_weather (ctx_cache_store c2) = weather_zero \<and> cs_weather_valid (ctx_cache_store c2) = 1 \<and>
     ctx_weather_request_id c1 = 1 \<and> lvww_clock_timer_cb sample_port c2 sample_world = (c2, sample_world)"
    using weather_city_mixup [OF id choose result tick fresh(1) c2(2) fresh(2)] by (simp add: sample_fetching_simps(1))
  then show ?thesis by blast
qed

section \<open>The lost result\<close>

text \<open>The events that end a weather request.\<close>

definition answers_weather :: "u32 \<Rightarrow> lvww_event_t \<Rightarrow> bool" where
  "answers_weather n event \<longleftrightarrow> (ev_request_id event = 0 \<or> ev_request_id event = n) \<and>
     (case ev_data event of
        EVT_WEATHER_RESULT weather \<Rightarrow> True
      | EVT_ERROR operation code message \<Rightarrow> operation = LVWW_OP_WEATHER_FETCH
      | _ \<Rightarrow> False)"

definition awaits_weather :: "u32 \<Rightarrow> lvww_ctx \<Rightarrow> bool" where
  "awaits_weather n c \<longleftrightarrow> ctx_weather_request_id c = n \<and>
     list_all (\<lambda>event. \<not> answers_weather n event) (ctx_event_mq c)"

text \<open>The fields that decide it.\<close>

definition same_wait :: "lvww_ctx \<Rightarrow> lvww_ctx \<Rightarrow> bool" where
  "same_wait c c' \<longleftrightarrow> ctx_weather_request_id c' = ctx_weather_request_id c \<and> ctx_event_mq c' = ctx_event_mq c"

lemma same_wait_awaits: "same_wait c c' \<Longrightarrow> awaits_weather n c \<Longrightarrow> awaits_weather n c'"
  by (simp add: same_wait_def awaits_weather_def)

lemma same_wait_trans: "same_wait c c' \<Longrightarrow> same_wait c' c'' \<Longrightarrow> same_wait c c''"
  by (simp add: same_wait_def)

lemma same_wait_refl [simp]: "same_wait c c"
  by (simp add: same_wait_def)

lemma storage_wait:
  "same_wait c (fst (lvww_save_profiles E c w))" "same_wait c (fst (lvww_save_cache E c w))"
  by (auto simp: lvww_save_profiles_def lvww_save_cache_def same_wait_def Let_def split: option.splits prod.splits)

lemma upsert_wait: "same_wait c (fst (lvww_upsert_pending_profile E c w))"
  unfolding lvww_upsert_pending_profile_def lvww_save_profiles_def same_wait_def Let_def
  by (auto split: option.splits prod.splits if_splits)

lemma request_wait:
  "same_wait c (fst (lvww_request_scan E c w))" "same_wait c (fst (lvww_request_disconnect E c w))"
  "same_wait c (fst (lvww_request_connect E credentials c w))" "same_wait c (fst (lvww_request_time E c w))"
  unfolding lvww_request_scan_def lvww_request_disconnect_def lvww_request_connect_def lvww_request_time_def
  by (auto simp: same_wait_def Let_def lvww_next_request_def split: option.splits prod.splits)

lemma handle_wifi_state_wait:
  assumes "ctx_weather_request_id c \<noteq> 0"
  shows "same_wait c (fst (lvww_handle_wifi_state E state ssid c w))"
proof (cases state)
  case LVWW_WIFI_ONLINE
  define c1 where "c1 = c\<lparr>ctx_wifi_state := LVWW_WIFI_ONLINE, ctx_connected_ssid := c_array 33 (take 32 (c_str ssid))\<rparr>"
  obtain c2 w2 where c2: "lvww_upsert_pending_profile E c1 w = (c2, w2)" by fastforce
  define c3 where "c3 = c2\<lparr>ctx_connect_request_id := 0, ctx_disconnect_request_id := 0,
      ctx_weather_retry_tick := 0, ctx_time_retry_tick := 0\<rparr>"
  obtain c4 w4 where c4: "lvww_request_time E c3 w2 = (c4, w4)" by fastforce
  have "same_wait c c1" by (simp add: c1_def same_wait_def)
  moreover have "same_wait c1 c2" using upsert_wait [of c1 E w] c2 by simp
  moreover have "same_wait c2 c3" by (simp add: c3_def same_wait_def)
  moreover have "same_wait c3 c4" using request_wait(4) [of c3 E w2] c4 by simp
  ultimately have same: "same_wait c c4" by (blast intro: same_wait_trans)
  then have "lvww_request_weather E c4 w4 = (c4, w4)"
    using assms by (intro request_weather_waits) (simp add: same_wait_def)
  then show ?thesis
    using same
    by (simp only: lvww_handle_wifi_state_def Let_def LVWW_WIFI_ONLINE lvww_wifi_state_t.case prod.case
        c1_def [symmetric] c2 c3_def [symmetric] c4 fst_conv)
qed (simp_all add: lvww_handle_wifi_state_def Let_def same_wait_def)

lemma handle_event_wait:
  assumes "ctx_weather_request_id c = n" "n \<noteq> 0" "\<not> answers_weather n event"
  shows "same_wait c (fst (lvww_handle_event E event c w))"
proof (cases "lvww_event_current c event")
  case True
  show ?thesis
  proof (cases "ev_data event")
    case (EVT_WIFI_STATE state reason ssid)
    then show ?thesis using True assms(1,2) by (simp add: lvww_handle_event_def handle_wifi_state_wait)
  next
    case (EVT_ERROR operation code str)
    then show ?thesis
      using True assms
      by (cases operation) (auto simp: lvww_handle_event_def lvww_handle_error_def lvww_event_current_def
          answers_weather_def same_wait_def Let_def split: prod.splits)
  qed (use True assms in \<open>auto simp: lvww_handle_event_def lvww_event_current_def answers_weather_def same_wait_def
      Let_def split: prod.splits\<close>)
qed (simp add: lvww_handle_event_def)

lemma pump_wait: "awaits_weather n c \<Longrightarrow> n \<noteq> 0 \<Longrightarrow> awaits_weather n (fst (lvww_pump E k c w))"
proof (induction E k c w rule: lvww_pump.induct)
  case (2 E k c w)
  show ?case
  proof (cases "ctx_event_mq c")
    case Nil
    then show ?thesis using 2(2) by (simp add: fifo_recv_def)
  next
    case (Cons event q)
    then have wait: "awaits_weather n (c\<lparr>ctx_event_mq := q\<rparr>)" "\<not> answers_weather n event"
      using 2(2) by (simp_all add: awaits_weather_def)
    then have "same_wait (c\<lparr>ctx_event_mq := q\<rparr>) (fst (lvww_handle_event E event (c\<lparr>ctx_event_mq := q\<rparr>) w))"
      using 2(3) by (intro handle_event_wait) (simp_all add: awaits_weather_def)
    then show ?thesis
      using 2(1,3) Cons same_wait_awaits wait(1) by (auto simp: fifo_recv_def split: prod.splits)
  qed
qed simp

lemma clock_wait:
  assumes "ctx_weather_request_id c \<noteq> 0"
  shows "same_wait c (fst (lvww_clock_timer_cb E c w))"
proof -
  obtain now w1 where now: "prt_tick E w = (now, w1)" by fastforce
  obtain c1 w2 where time: "lvww_request_time E c w1 = (c1, w2)" by fastforce
  have "same_wait c c1" using request_wait(4) [of c E w1] time by simp
  moreover from this have "lvww_request_weather E c1 w2 = (c1, w2)" "lvww_request_weather E c w1 = (c, w1)"
    using assms by (intro request_weather_waits; simp add: same_wait_def)+
  ultimately show ?thesis by (simp add: lvww_clock_timer_cb_def now time)
qed

lemma city_result_wait:
  assumes "ctx_weather_request_id c \<noteq> 0"
  shows "same_wait c (fst (lvww_city_result_cb E index c w))"
proof -
  let ?c = "c\<lparr>ctx_cache_store := (ctx_cache_store c)
              \<lparr>cs_city := ctx_city_candidates c ! index, cs_city_valid := 1, cs_weather_valid := 0\<rparr>\<rparr>"
  obtain c1 w1 where c1: "lvww_save_cache E ?c w = (c1, w1)" by fastforce
  have "same_wait c c1" using storage_wait(2) [of ?c E w] c1 by (simp add: same_wait_def)
  moreover from this have "lvww_request_weather E c1 w1 = (c1, w1)"
    using assms by (intro request_weather_waits) (simp add: same_wait_def)
  ultimately show ?thesis using c1 by (simp add: lvww_city_result_cb_def Let_def)
qed

lemma editor_wait:
  "same_wait c (fst (lvww_editor_submit_cb E ssid password c w))"
  "same_wait c (fst (lvww_editor_delete_cb E c w))"
proof -
  have close: "same_wait x (lvww_close_editor x)" for x by (simp add: lvww_close_editor_def same_wait_def)
  show "same_wait c (fst (lvww_editor_submit_cb E ssid password c w))"
    using same_wait_trans [OF close request_wait(3) [of "lvww_close_editor c" E _ w]]
    by (simp add: lvww_editor_submit_cb_def Let_def)
  show "same_wait c (fst (lvww_editor_delete_cb E c w))"
  proof -
    let ?c = "c\<lparr>ctx_profile_store := remove_profile (nat (ctx_editor_saved_index c)) (ctx_profile_store c)\<rparr>"
    obtain c1 w1 where c1: "lvww_save_profiles E ?c w = (c1, w1)" by fastforce
    have "same_wait c c1" using storage_wait(1) [of ?c E w] c1 by (simp add: same_wait_def)
    then have "same_wait c (lvww_close_editor c1)" by (rule same_wait_trans [OF _ close])
    then show ?thesis
      using same_wait_trans [OF _ request_wait(2) [of "lvww_close_editor c1" E w1]] c1
      by (simp add: lvww_editor_delete_cb_def Let_def)
  qed
qed

lemma small_steps_wait:
  "same_wait c (lvww_wifi_row_cb tag c)" "same_wait c (lvww_add_button_cb c)"
  "same_wait c (lvww_editor_security_cb c)" "same_wait c (lvww_close_editor c)"
  "same_wait c (fst (snd (snd (lvww_server_submit callback address server c w))))"
  "same_wait c (fst (lvww_firmware_update_cb fw_callback c w))"
  "same_wait c (fst (lvww_search_timer_cb E query c w))"
  "same_wait c (fst (snd (lvww_city_input_cb E input c w)))"
  "same_wait c (fst (lvww_show_page E page c w))"
  using request_wait(1) [of c E w]
  by (auto simp: lvww_wifi_row_cb_def lvww_add_button_cb_def lvww_editor_security_cb_def lvww_close_editor_def
      lvww_open_editor_def lvww_server_submit_def lvww_firmware_update_cb_def lvww_search_timer_cb_def
      lvww_city_input_cb_def default_cities_def lvww_show_page_def lvww_next_request_def Let_def same_wait_def
      split: option.splits prod.splits)

lemma ui_step_wait:
  assumes "ui_step E s s'" "awaits_weather n (fst s)" "n \<noteq> 0"
  shows "awaits_weather n (fst s')"
proof -
  have id: "ctx_weather_request_id (fst s) \<noteq> 0" using assms(2,3) by (simp add: awaits_weather_def)
  have same: "awaits_weather n x" if "same_wait (fst s) x" for x
    using that assms(2) by (rule same_wait_awaits)
  from assms(1) show ?thesis
  proof cases
    case (pump c w)
    then show ?thesis using pump_wait assms(2,3) by (simp add: lvww_pump_timer_cb_def)
  qed (use id assms(2) same in \<open>simp_all add: clock_wait city_result_wait editor_wait request_wait
      small_steps_wait\<close>)
qed

lemma weather_step_wait:
  assumes "weather_step E (\<lambda>event. \<not> answers_weather n event) s s'" "awaits_weather n (fst s)" "n \<noteq> 0"
  shows "awaits_weather n (fst s')"
  using assms(1)
proof cases
  case ui
  then show ?thesis using assms(2,3) by (rule ui_step_wait)
next
  case (server c w callback address server)
  then show ?thesis
    using same_wait_awaits [OF small_steps_wait(5)] assms(2) by (metis fst_conv snd_conv)
next
  case (firmware c w fw_callback)
  then show ?thesis
    using same_wait_awaits [OF small_steps_wait(6)] assms(2) by (metis fst_conv)
next
  case (post event c w)
  then show ?thesis
    using assms(2) by (auto simp: lvww_post_event_def fifo_send_def awaits_weather_def)
qed (use assms(2) in simp)

lemma weather_reach_wait:
  assumes "weather_reach E (\<lambda>event. \<not> answers_weather n event) s s'" "awaits_weather n (fst s)" "n \<noteq> 0"
  shows "awaits_weather n (fst s')"
  using assms by (induction rule: rtranclp_induct) (auto intro: weather_step_wait)

text \<open>
  C19: A result that finds the event queue full is lost, and with it the weather.  \<open>lvww_post_event\<close>
  refuses it with \<open>-RT_EFULL\<close>, which \<open>rw_post\<close> does not look at, and the worker posts nothing more
  for that request; whatever happens afterwards, unless another event answers the same request, the
  context still waits for it and no timer, no user action and no new connection asks the port for the
  weather again.
\<close>

theorem weather_result_lost:
  assumes waits: "awaits_weather n c" "n \<noteq> 0" and alive: "ctx_alive c"
    and full: "length (ctx_event_mq c) = LVWW_EVENT_QUEUE_DEPTH"
    and lost: "lvww_post_event \<lparr>ev_request_id = n, ev_data = EVT_WEATHER_RESULT weather\<rparr> c = (rc, c1)"
    and later: "weather_reach E (\<lambda>event. \<not> answers_weather n event) (c1, w1) (c2, w2)"
  shows "rc = - RT_EFULL \<and> c1 = c \<and> ctx_weather_request_id c2 = n \<and> lvww_request_weather E c2 w2 = (c2, w2)"
proof -
  have c1: "rc = - RT_EFULL" "c1 = c"
    using lost alive full by (auto simp: lvww_post_event_def fifo_send_def)
  then have "awaits_weather n c2" using weather_reach_wait [OF later] waits by simp
  then show ?thesis using c1 waits(2) by (simp add: awaits_weather_def request_weather_waits)
qed

text \<open>The same context, with a full queue of scan results.\<close>

definition sample_full :: lvww_ctx where
  "sample_full = sample_fetching
     \<lparr>ctx_event_mq := replicate 8 \<lparr>ev_request_id = 2,
        ev_data = EVT_WIFI_SCAN_RESULT 0 (replicate LVWW_MAX_WIFI_RESULTS wifi_ap_zero)\<rparr>\<rparr>"

lemma sample_full_simps:
  "awaits_weather 1 sample_full" "ctx_alive sample_full"
  "length (ctx_event_mq sample_full) = LVWW_EVENT_QUEUE_DEPTH"
  by (simp_all add: sample_full_def awaits_weather_def sample_fetching_simps list_all_iff answers_weather_def)

lemma weather_result_lost_witness:
  "\<exists>c1 c2 w2. lvww_post_event \<lparr>ev_request_id = 1, ev_data = EVT_WEATHER_RESULT weather_zero\<rparr> sample_full = (- RT_EFULL, c1) \<and>
     lvww_pump_timer_cb sample_port c1 sample_world = (c2, w2) \<and> lvww_request_weather sample_port c2 w2 = (c2, w2)"
proof -
  obtain rc c1 where lost:
    "lvww_post_event \<lparr>ev_request_id = 1, ev_data = EVT_WEATHER_RESULT weather_zero\<rparr> sample_full = (rc, c1)"
    by (metis surj_pair)
  obtain c2 w2 where p: "lvww_pump_timer_cb sample_port c1 sample_world = (c2, w2)" by (metis surj_pair)
  have "weather_step sample_port P (c1, sample_world) (c2, w2)" for P using weather_step.ui ui_step.pump p by metis
  then have "weather_reach sample_port P (c1, sample_world) (c2, w2)" for P by (rule r_into_rtranclp)
  from weather_result_lost [OF sample_full_simps(1) _ sample_full_simps(2,3) lost this]
  have "rc = - RT_EFULL" "lvww_request_weather sample_port c2 w2 = (c2, w2)" by simp_all
  then show ?thesis using lost p by blast
qed

end
