(* ===== verification/Weather_Date.thy ===== *)
theory Weather_Date
  imports Weather_Store "HOL-Library.Signed_Division"
begin

text \<open>
  Calendar arithmetic of the weather component: \<open>civil_to_epoch\<close> and \<open>parse_http_date\<close> of
  \<open>lvww_rw007.c\<close>, which turn the date of an HTTP response into seconds, and
  \<open>lvww_epoch_to_calendar\<close> of \<open>lvww_ui.c\<close>, which turns the seconds into the date of the home page.
  The reference is the proleptic Gregorian calendar, counted year by year and month by month.
\<close>

section \<open>The code\<close>

text \<open>An \<open>int64_t\<close> that is stored in an \<open>int\<close>.\<close>

definition c_int :: "int \<Rightarrow> int" where
  "c_int x = sint (of_int x :: u32)"

definition civil_to_epoch :: "int \<Rightarrow> u32 \<Rightarrow> u32 \<Rightarrow> u32 \<Rightarrow> u32 \<Rightarrow> u32 \<Rightarrow> u64" where
  "civil_to_epoch year month day hour minute second =
     (let year = (if month \<le> 2 then year - 1 else year);
          era = (if year \<ge> 0 then year else year - 399) sdiv 400;
          yoe = (of_int (year - era * 400) :: u32);
          doy = (153 * (month + (if month > 2 then - 3 else 9)) + 2) div 5 + day - 1;
          doe = yoe * 365 + yoe div 4 - yoe div 100 + doy;
          days = era * 146097 + int (unat doe) - 719468
      in if days < 0 then 0
         else of_int days * 86400 + ucast (hour * 3600) + ucast (minute * 60) + ucast second)"

record lvww_calendar =
  cal_year :: int
  cal_month :: int
  cal_day :: int
  cal_hour :: int
  cal_minute :: int
  cal_weekday :: int

definition lvww_epoch_to_calendar :: "int \<Rightarrow> lvww_calendar" where
  "lvww_epoch_to_calendar epoch =
     (let days = epoch sdiv 86400;
          seconds = epoch smod 86400;
          (seconds, days) = (if seconds < 0 then (seconds + 86400, days - 1) else (seconds, days));
          hour = c_int (seconds sdiv 3600);
          minute = c_int ((seconds smod 3600) sdiv 60);
          weekday = c_int ((days + 4) smod 7);
          weekday = (if weekday < 0 then weekday + 7 else weekday);
          z = days + 719468;
          era = (if z \<ge> 0 then z else z - 146096) sdiv 146097;
          doe = z - era * 146097;
          yoe = (doe - doe sdiv 1460 + doe sdiv 36524 - doe sdiv 146096) sdiv 365;
          y = yoe + era * 400;
          doy = doe - (365 * yoe + yoe sdiv 4 - yoe sdiv 100);
          mp = (5 * doy + 2) sdiv 153;
          day = c_int (doy - (153 * mp + 2) sdiv 5 + 1);
          month = c_int (mp + (if mp < 10 then 3 else - 9));
          year = c_int (y + (if month \<le> 2 then 1 else 0))
      in \<lparr>cal_year = year, cal_month = month, cal_day = day, cal_hour = hour, cal_minute = minute,
          cal_weekday = weekday\<rparr>)"

definition ascii_tolower :: "nat \<Rightarrow> nat" where
  "ascii_tolower c = (if 65 \<le> c \<and> c \<le> 90 then c + (97 - 65) else c)"

abbreviation lower_bytes :: "bytes \<Rightarrow> nat list" where
  "lower_bytes \<equiv> map (\<lambda>b. ascii_tolower (unat b))"

text \<open>The offset of the first occurrence; the inner loop compares until the characters differ.\<close>

definition mem_find_ci :: "bytes \<Rightarrow> bytes \<Rightarrow> nat option" where
  "mem_find_ci data needle =
     (if needle = [] \<or> length needle > length data then None
      else find (\<lambda>i. lower_bytes (take (length needle) (drop i data)) = lower_bytes needle)
             [0 ..< length data - length needle + 1])"

text \<open>
  What \<open>sscanf\<close> does for the conversions used: \<open>%Ns\<close>, \<open>%d\<close> (saturating like \<open>strtol\<close>, whose result
  the C library stores) and a literal character.  A white-space directive is \<open>scan_ws\<close>.
\<close>

definition is_space :: "u8 \<Rightarrow> bool" where
  "is_space b \<longleftrightarrow> b = 32 \<or> 9 \<le> b \<and> b \<le> 13"

definition is_digit :: "u8 \<Rightarrow> bool" where
  "is_digit b \<longleftrightarrow> 48 \<le> b \<and> b \<le> 57"

definition scan_ws :: "bytes \<Rightarrow> bytes" where
  "scan_ws str = dropWhile is_space str"

definition scan_word :: "nat \<Rightarrow> bytes \<Rightarrow> (bytes \<times> bytes) option" where
  "scan_word n str =
     (let str = scan_ws str; w = takeWhile (\<lambda>b. \<not> is_space b) (take n str)
      in if w = [] then None else Some (w, drop (length w) str))"

definition decimal_value :: "bytes \<Rightarrow> int" where
  "decimal_value digits = foldl (\<lambda>v d. 10 * v + (int (unat d) - 48)) 0 digits"

definition scan_sign :: "bytes \<Rightarrow> bool \<times> bytes" where
  "scan_sign str =
     (case str of
        [] \<Rightarrow> (False, [])
      | b # rest \<Rightarrow> if b = 45 then (True, rest) else if b = 43 then (False, rest) else (False, b # rest))"

definition scan_int :: "bytes \<Rightarrow> (int \<times> bytes) option" where
  "scan_int str =
     (let (neg, str) = scan_sign (scan_ws str); ds = takeWhile is_digit str;
          v = (if neg then - decimal_value ds else decimal_value ds)
      in if ds = [] then None
         else Some (max (- (2 ^ 31)) (min v (2 ^ 31 - 1)), dropWhile is_digit str))"

definition scan_char :: "u8 \<Rightarrow> bytes \<Rightarrow> bytes option" where
  "scan_char c str = (case str of [] \<Rightarrow> None | b # rest \<Rightarrow> if b = c then Some rest else None)"

text \<open>\<open>sscanf (date, "%*3s, %d %3s %d %d:%d:%d GMT", ...) == 6\<close>.\<close>

definition scan_http_date :: "bytes \<Rightarrow> (int \<times> bytes \<times> int \<times> int \<times> int \<times> int) option" where
  "scan_http_date str =
     Option.bind (scan_word 3 str) (\<lambda>(_, str).
     Option.bind (scan_char 44 str) (\<lambda>str.
     Option.bind (scan_int str) (\<lambda>(day, str).
     Option.bind (scan_word 3 str) (\<lambda>(month_text, str).
     Option.bind (scan_int str) (\<lambda>(year, str).
     Option.bind (scan_int str) (\<lambda>(hour, str).
     Option.bind (scan_char 58 str) (\<lambda>str.
     Option.bind (scan_int str) (\<lambda>(minute, str).
     Option.bind (scan_char 58 str) (\<lambda>str.
     Option.bind (scan_int str) (\<lambda>(second, str).
       Some (day, month_text, year, hour, minute, second)))))))))))"

definition http_months :: "bytes list" where
  "http_months = [ascii ''Jan'', ascii ''Feb'', ascii ''Mar'', ascii ''Apr'', ascii ''May'', ascii ''Jun'',
                  ascii ''Jul'', ascii ''Aug'', ascii ''Sep'', ascii ''Oct'', ascii ''Nov'', ascii ''Dec'']"

text \<open>
  \<open>response\<close> is the text from \<open>headers\<close> up to its NUL, of which the first \<open>n\<close> bytes are the header.
\<close>

definition parse_http_date :: "bytes \<Rightarrow> nat \<Rightarrow> u64" where
  "parse_http_date response n =
     (case mem_find_ci (take n response) (ascii [CHR 0x0D, CHR 0x0A] @ ascii ''Date:'') of
        None \<Rightarrow> 0
      | Some i \<Rightarrow>
          let blanks = length (takeWhile (\<lambda>b. b = 32 \<or> b = 9) (drop (i + 7) (take n response)))
          in (case scan_http_date (drop (i + 7 + blanks) response) of
                None \<Rightarrow> 0
              | Some (day, month_text, year, hour, minute, second) \<Rightarrow>
                  (case find (\<lambda>m. c_array 3 month_text = http_months ! m) [0 ..< 12] of
                     None \<Rightarrow> 0
                   | Some m \<Rightarrow>
                       civil_to_epoch year (of_nat m + 1) (of_int day) (of_int hour) (of_int minute)
                         (of_int second))))"

section \<open>The calendar\<close>

definition leap_year :: "int \<Rightarrow> bool" where
  "leap_year y \<longleftrightarrow> 4 dvd y \<and> (\<not> 100 dvd y \<or> 400 dvd y)"

definition year_days :: "int \<Rightarrow> int" where
  "year_days y = (if leap_year y then 366 else 365)"

definition month_days :: "int \<Rightarrow> nat \<Rightarrow> int" where
  "month_days y m =
     (if m = 2 then (if leap_year y then 29 else 28) else if m \<in> {4, 6, 9, 11} then 30 else 31)"

text \<open>Days since 1 January 1970.\<close>

definition day_number :: "int \<Rightarrow> nat \<Rightarrow> int \<Rightarrow> int" where
  "day_number y m d =
     sum_list (map year_days [1970 .. y - 1]) + sum_list (map (month_days y) [1 ..< m]) + (d - 1)"

definition valid_date :: "int \<Rightarrow> nat \<Rightarrow> int \<Rightarrow> bool" where
  "valid_date y m d \<longleftrightarrow> 1970 \<le> y \<and> y < 2 ^ 31 - 1 \<and> 1 \<le> m \<and> m \<le> 12 \<and> 1 \<le> d \<and> d \<le> month_days y m"

text \<open>Days of the years before March of the year \<open>y\<close>, counted from the year 0.\<close>

definition march_days :: "int \<Rightarrow> int" where
  "march_days y = 365 * y + y div 4 - y div 100 + y div 400"

lemma march_days_next: "march_days y = march_days (y - 1) + year_days y"
proof -
  have step: "y div k = (y - 1) div k + (if k dvd y then 1 else 0)" if "k > 0" for k :: int
  proof (cases "k dvd y")
    case True
    then obtain q where q: "y = k * q" by blast
    have "(y - 1) div k = q - 1"
      by (rule int_div_pos_eq [of _ _ _ "k - 1"]) (use that q in \<open>simp_all add: algebra_simps\<close>)
    moreover have "y div k = q" using that q by simp
    ultimately show ?thesis using True by simp
  next
    case False
    then have r: "y mod k > 0" using that by (simp add: dvd_eq_mod_eq_0 order_less_le)
    have "(y - 1) div k = y div k"
      by (rule int_div_pos_eq [of _ _ _ "y mod k - 1"])
        (use that r pos_mod_bound [OF that, of y] div_mult_mod_eq [of y k] in \<open>simp_all add: algebra_simps\<close>)
    then show ?thesis using False by simp
  qed
  have dvds: "400 dvd y \<Longrightarrow> 100 dvd y" "100 dvd y \<Longrightarrow> 4 dvd y"
    by (rule dvd_trans [of _ 400] dvd_trans [of _ 100], simp, assumption)+
  define a where "a = (y - 1) div 4"
  define b where "b = (y - 1) div 100"
  define c where "c = (y - 1) div 400"
  have "march_days y = 365 * y + (a + (if 4 dvd y then 1 else 0)) - (b + (if 100 dvd y then 1 else 0))
          + (c + (if 400 dvd y then 1 else 0))"
    by (simp only: march_days_def a_def b_def c_def step [of 4] step [of 100] step [of 400] zero_less_numeral)
  moreover have "march_days (y - 1) = 365 * (y - 1) + a - b + c"
    by (simp only: march_days_def a_def b_def c_def)
  moreover have "(r \<longrightarrow> q) \<and> (q \<longrightarrow> p) \<Longrightarrow>
      m = 365 * y + (a + (if p then 1 else 0)) - (b + (if q then 1 else 0)) + (c + (if r then 1 else 0)) \<Longrightarrow>
      m' = 365 * (y - 1) + a - b + c \<Longrightarrow> m = m' + (if p \<and> (\<not> q \<or> r) then 366 else 365)"
    for p q r and m m' :: int
    by (cases p; cases q; cases r) simp_all
  ultimately show ?thesis
    using dvds unfolding year_days_def leap_year_def by blast
qed

lemma year_days_sum:
  assumes "1970 \<le> y"
  shows "sum_list (map year_days [1970 .. y - 1]) = march_days (y - 1) - march_days 1969"
  using assms
proof (induction y rule: int_ge_induct)
  case base
  then show ?case by simp
next
  case (step y)
  then have "[1970 .. y] = [1970 .. y - 1] @ [y]" by (metis upto_rec2 diff_add_cancel)
  then show ?case using step march_days_next [of y] by simp
qed

text \<open>The year, the month and the day of the year that start in March.\<close>

definition march_year :: "int \<Rightarrow> nat \<Rightarrow> int" where
  "march_year y m = (if m \<le> 2 then y - 1 else y)"

definition march_doy :: "nat \<Rightarrow> int \<Rightarrow> int" where
  "march_doy m d = (153 * (if m > 2 then int m - 3 else int m + 9) + 2) div 5 + d - 1"

lemma month_cases:
  assumes "1 \<le> (m :: nat)" "m \<le> 12"
  obtains "m = 1" | "m = 2" | "m = 3" | "m = 4" | "m = 5" | "m = 6" | "m = 7" | "m = 8" | "m = 9" | "m = 10"
    | "m = 11" | "m = 12"
proof -
  have "m \<in> set [1 ..< 13]" using assms by simp
  then show ?thesis using that by (auto simp: upt_rec eval_nat_numeral)
qed

lemma day_number_march:
  assumes "valid_date y m d"
  shows "day_number y m d = march_days (march_year y m) + march_doy m d - 719468"
proof -
  have "march_days 1969 = 719162" by (simp add: march_days_def)
  then have n: "day_number y m d = march_days (y - 1) - 719162 + sum_list (map (month_days y) [1 ..< m]) + (d - 1)"
    using assms by (simp add: day_number_def year_days_sum valid_date_def)
  have m: "1 \<le> m" "m \<le> 12" using assms by (simp_all add: valid_date_def)
  note year = march_days_next [of y]
  show ?thesis unfolding n
    by (rule month_cases [OF m])
      (use year in \<open>simp_all add: n march_year_def march_doy_def month_days_def upt_rec year_days_def\<close>)
qed

section \<open>The code counts days\<close>

lemma of_int_div_u32:
  assumes "0 \<le> a" "a < 2 ^ 32" "0 < b" "b < 2 ^ 32"
  shows "(of_int a :: u32) div of_int b = of_int (a div b)"
proof -
  have "a div b \<le> a div 1" using assms by (intro zdiv_mono2) simp_all
  then have "0 \<le> a div b" "a div b < 2 ^ 32" using assms by (simp_all add: pos_imp_zdiv_nonneg_iff)
  then show ?thesis
    by (intro word_uint_eqI) (use assms in \<open>simp add: uint_div uint_word_of_int_eq take_bit_int_eq_self\<close>)
qed

lemma int_unat_of_int_u32: "0 \<le> n \<Longrightarrow> n < 2 ^ 32 \<Longrightarrow> int (unat (of_int n :: u32)) = n"
  by (simp add: uint_nat [symmetric] uint_word_of_int_eq take_bit_int_eq_self)

lemma ucast_of_int_u32: "0 \<le> n \<Longrightarrow> n < 2 ^ 32 \<Longrightarrow> ucast (of_int n :: u32) = (of_int n :: u64)"
  by (rule word_uint_eqI) (simp add: unsigned_ucast_eq uint_word_of_int_eq take_bit_int_eq_self)

lemma march_doy_bounds:
  assumes "valid_date y m d"
  shows "0 \<le> march_doy m d" "march_doy m d < (if leap_year (march_year y m + 1) then 366 else 365)"
proof -
  have m: "1 \<le> m" "m \<le> 12" and d: "1 \<le> d" "d \<le> month_days y m" using assms by (simp_all add: valid_date_def)
  show "0 \<le> march_doy m d" by (rule month_cases [OF m]) (use d in \<open>simp_all add: march_doy_def\<close>)
  show "march_doy m d < (if leap_year (march_year y m + 1) then 366 else 365)"
    by (rule month_cases [OF m]) (use d in \<open>simp_all add: march_doy_def month_days_def march_year_def split: if_splits\<close>)
qed

lemma march_days_era: "march_days y = y div 400 * 146097 + march_days (y mod 400)"
proof -
  define e where "e = y mod 400"
  have y: "y = 400 * (y div 400) + e" by (simp add: e_def)
  have e: "0 \<le> e" "e < 400" by (simp_all add: e_def)
  have "(400 * q + e) div 4 = 100 * q + e div 4" "(400 * q + e) div 100 = 4 * q + e div 100" for q
    using div_mult_self1 [of 4 e "100 * q"] div_mult_self1 [of 100 e "4 * q"] by (simp_all add: ac_simps)
  then show ?thesis using e unfolding march_days_def e_def [symmetric]
    by (subst (1 2 3 4) y) simp
qed

lemma civil_to_epoch_days:
  assumes "valid_date y m d"
  defines "year \<equiv> march_year y m"
  shows "year div 400 * 146097 +
           int (unat ((of_int (year mod 400) :: u32) * 365 + of_int (year mod 400) div 4 -
                      of_int (year mod 400) div 100 +
                      ((153 * (of_nat m + (if (of_nat m :: u32) > 2 then - 3 else 9)) + 2) div 5 + of_int d - 1)))
           - 719468
         = day_number y m d"
proof -
  define e where "e = year mod 400"
  have e: "0 \<le> e" "e < 400" by (simp_all add: e_def)
  have m: "1 \<le> m" "m \<le> 12" using assms by (simp_all add: valid_date_def)
  define k where "k = (if m > 2 then int m - 3 else int m + 9)"
  have k: "0 \<le> k" "k < 12" using m by (auto simp: k_def)
  have "(of_nat m :: u32) > 2 \<longleftrightarrow> m > 2" using m by (simp add: word_less_nat_alt)
  then have "153 * (of_nat m + (if (of_nat m :: u32) > 2 then - 3 else 9)) + 2 = (of_int (153 * k + 2) :: u32)"
    by (simp add: k_def)
  then have doy: "(153 * (of_nat m + (if (of_nat m :: u32) > 2 then - 3 else 9)) + 2) div 5 + of_int d - 1 =
      (of_int (march_doy m d) :: u32)"
    using of_int_div_u32 [of "153 * k + 2" 5] k by (simp add: march_doy_def k_def del: of_int_add of_int_mult) simp
  have "(of_int e :: u32) * 365 + of_int e div 4 - of_int e div 100 + of_int (march_doy m d) =
      of_int (march_days e + march_doy m d)"
    using of_int_div_u32 [of e 4] of_int_div_u32 [of e 100] e by (simp add: march_days_def)
  moreover have "0 \<le> march_days e + march_doy m d" "march_days e + march_doy m d < 2 ^ 32"
    using march_doy_bounds [OF assms(1)] e by (auto simp: march_days_def split: if_splits)
  ultimately have "int (unat ((of_int e :: u32) * 365 + of_int e div 4 - of_int e div 100 + of_int (march_doy m d)))
      = march_days e + march_doy m d"
    using int_unat_of_int_u32 by metis
  then show ?thesis
    using march_days_era [of year]
    unfolding day_number_march [OF assms(1)] year_def [symmetric] e_def [symmetric] doy
    by simp
qed

lemma sdiv_smod_nonneg: "0 \<le> a \<Longrightarrow> 0 < b \<Longrightarrow> a sdiv b = a div (b :: int)" "0 \<le> a \<Longrightarrow> 0 < b \<Longrightarrow> a smod b = a mod (b :: int)"
  by (simp_all add: signed_divide_int_def signed_modulo_int_def minus_div_mult_eq_mod sgn_if)

lemma valid_date_march: "valid_date y m d \<Longrightarrow> 1969 \<le> march_year y m \<and> march_year y m < 2 ^ 31 - 1"
  by (simp add: valid_date_def march_year_def)

lemma day_number_bounds:
  assumes "valid_date y m d"
  shows "0 \<le> day_number y m d" "day_number y m d < 2 ^ 40"
proof -
  let ?y = "march_year y m"
  have y: "1969 \<le> ?y" "?y < 2 ^ 31 - 1" using valid_date_march [OF assms] by simp_all
  show "day_number y m d < 2 ^ 40"
    using march_doy_bounds [OF assms] y
    unfolding day_number_march [OF assms] march_days_def by (simp split: if_splits)
  have "0 \<le> sum_list (map year_days [1970 .. y - 1])" "0 \<le> sum_list (map (month_days y) [1 ..< m])"
    by (rule sum_list_nonneg, auto simp: year_days_def month_days_def)+
  then show "0 \<le> day_number y m d" using assms by (simp add: day_number_def valid_date_def)
qed

definition time_of_day :: "int \<Rightarrow> int \<Rightarrow> int \<Rightarrow> bool" where
  "time_of_day h mi s \<longleftrightarrow> 0 \<le> h \<and> h < 24 \<and> 0 \<le> mi \<and> mi < 60 \<and> 0 \<le> s \<and> s < 60"

lemma civil_to_epoch_valid:
  assumes "valid_date y m d" "time_of_day h mi s"
  shows "civil_to_epoch y (of_nat m) (of_int d) (of_int h) (of_int mi) (of_int s) =
    of_int (86400 * day_number y m d + 3600 * h + 60 * mi + s)"
proof -
  have m: "1 \<le> m" "m \<le> 12" using assms by (simp_all add: valid_date_def)
  have "(of_nat m :: u32) \<le> 2 \<longleftrightarrow> m \<le> 2" using m by (simp add: word_le_nat_alt)
  then have year: "(if (of_nat m :: u32) \<le> 2 then y - 1 else y) = march_year y m" by (simp add: march_year_def)
  have y: "0 \<le> march_year y m" using valid_date_march [OF assms(1)] by simp
  have e: "march_year y m - march_year y m div 400 * 400 = march_year y m mod 400"
    by (simp add: minus_div_mult_eq_mod)
  have "ucast (of_int h * 3600 :: u32) = (of_int (3600 * h) :: u64)"
       "ucast (of_int mi * 60 :: u32) = (of_int (60 * mi) :: u64)"
       "ucast (of_int s :: u32) = (of_int s :: u64)"
    using ucast_of_int_u32 [of "3600 * h"] ucast_of_int_u32 [of "60 * mi"] ucast_of_int_u32 [of s] assms(2)
    by (simp_all add: time_of_day_def mult.commute)
  moreover have "(if 0 \<le> march_year y m then march_year y m else march_year y m - 399) sdiv 400 = march_year y m div 400"
    using y by (simp add: sdiv_smod_nonneg)
  ultimately show ?thesis
    using day_number_bounds(1) [OF assms(1)]
    unfolding civil_to_epoch_def Let_def year e
    by (simp only: e civil_to_epoch_days [OF assms(1)] if_False linorder_not_less [symmetric]) simp
qed

section \<open>The calendar of an epoch\<close>

lemma yoe_recover:
  fixes x :: int
  assumes x: "x = 36524 * c + 1461 * q + 365 * s + k"
    and c: "0 \<le> c" "c \<le> 3" and q: "0 \<le> q" "q \<le> 24" and s: "0 \<le> s" "s \<le> 3" and k: "0 \<le> k" "k \<le> 365"
    and leap: "k = 365 \<Longrightarrow> s = 3 \<and> (q \<noteq> 24 \<or> c = 3)"
  shows "(x - x div 1460 + x div 36524 - x div 146096) div 365 = 100 * c + 4 * q + s"
proof -
  define r where "r = 24 * c + q + 365 * s + k"
  have "x = r + (25 * c + q) * 1460" by (simp add: x r_def)
  then have d1: "x div 1460 = 25 * c + q + r div 1460" by simp
  have r1: "k - 364 \<le> r div 1460" "r div 1460 \<le> k"
  proof -
    have "0 \<le> r div 1460" using c q s k by (simp add: r_def pos_imp_zdiv_nonneg_iff)
    moreover have "1 \<le> r div 1460" if "k = 365"
      using leap [OF that] c q that by (simp add: r_def)
    ultimately show "k - 364 \<le> r div 1460" using k by linarith
    have "r div 1460 = 0" if "k = 0" using that c q s by (simp add: r_def)
    moreover have "r div 1460 \<le> 1" using c q s k by (simp add: r_def)
    ultimately show "r div 1460 \<le> k" using k by linarith
  qed
  have d2: "x div 36524 - x div 146096 = c"
  proof (cases "x = 146096")
    case True
    then have "c = 3" using x c q s k leap by (smt (verit))
    then show ?thesis using True by simp
  next
    case False
    have t: "1461 * q + 365 * s + k \<le> 36524" "0 \<le> 1461 * q + 365 * s + k"
      "1461 * q + 365 * s + k = 36524 \<Longrightarrow> c = 3"
      using q s k leap by (smt (verit))+
    then have "1461 * q + 365 * s + k < 36524" using False x by (smt (verit))
    then have "x div 36524 = c" using t by (intro int_div_pos_eq) (use x in simp_all)
    moreover have "x div 146096 = 0" using x c t \<open>1461 * q + 365 * s + k < 36524\<close> by simp
    ultimately show ?thesis by simp
  qed
  show ?thesis
    by (rule int_div_pos_eq [where r = "k - r div 1460"]) (use x d1 d2 r1 in simp_all)
qed

lemma era_split:
  fixes e :: int
  assumes "0 \<le> e" "e < 400"
  obtains c q s where "e = 100 * c + 4 * q + s" "0 \<le> c" "c \<le> 3" "0 \<le> q" "q \<le> 24" "0 \<le> s" "s \<le> 3"
    "march_days e = 36524 * c + 1461 * q + 365 * s" "leap_year (e + 1) \<Longrightarrow> s = 3 \<and> (q \<noteq> 24 \<or> c = 3)"
proof
  let ?c = "e div 100" and ?q = "e mod 100 div 4" and ?s = "e mod 100 mod 4"
  show e: "e = 100 * ?c + 4 * ?q + ?s" by (metis add.assoc mult_div_mod_eq)
  show "0 \<le> ?c" "?c \<le> 3" "0 \<le> ?q" "?q \<le> 24" "0 \<le> ?s" "?s \<le> 3" using assms by presburger+
  have "e div 4 = 25 * ?c + ?q" by (rule int_div_pos_eq [where r = ?s]) (use e in simp_all)
  moreover have "e div 400 = 0" using assms by simp
  ultimately show "march_days e = 36524 * ?c + 1461 * ?q + 365 * ?s" using e unfolding march_days_def by linarith
  show "?s = 3 \<and> (?q \<noteq> 24 \<or> ?c = 3)" if "leap_year (e + 1)"
  proof -
    define c q r where "c = ?c" "q = ?q" "r = ?s"
    note e' = e [folded this]
    have r: "0 \<le> r" "r \<le> 3" and c: "0 \<le> c" "c \<le> 3" using assms by (simp_all add: c_q_r_def)
    have "4 dvd 4 * (25 * c + q) + (r + 1)" using that by (simp add: leap_year_def e' ac_simps)
    then have "4 dvd r + 1" by (metis dvd_add_right_iff dvd_triv_left)
    then have "r = 3" using r by presburger
    moreover have "c = 3" if "q = 24" "r = 3"
    proof -
      have "e + 1 = 100 * (c + 1)" using e' that by simp
      then have "400 dvd 100 * (c + 1)" using \<open>leap_year (e + 1)\<close> by (simp add: leap_year_def ac_simps)
      then show "c = 3" using c by presburger
    qed
    ultimately show ?thesis unfolding c_q_r_def by blast
  qed
qed

lemma month_recover:
  assumes "valid_date y m d"
  shows "(5 * march_doy m d + 2) div 153 = (if m > 2 then int m - 3 else int m + 9)"
proof -
  have m: "1 \<le> m" "m \<le> 12" and d: "1 \<le> d" "d \<le> month_days y m" using assms by (simp_all add: valid_date_def)
  then have "d \<le> month_days y m" "month_days y m \<le> 31" "m = 2 \<Longrightarrow> month_days y m \<le> 29"
    "m \<in> {4, 6, 9, 11} \<Longrightarrow> month_days y m \<le> 30" by (auto simp: month_days_def)
  then show ?thesis using d
    by - (rule month_cases [OF m]; rule int_div_pos_eq [where r = "5 * march_doy m d + 2 - 153 * (if m > 2 then int m - 3 else int m + 9)"];
      simp add: march_doy_def)
qed

lemma c_int_small: "- (2 ^ 31) \<le> x \<Longrightarrow> x < 2 ^ 31 \<Longrightarrow> c_int x = x"
  by (simp add: c_int_def sint_sbintrunc' signed_take_bit_int_eq_self)

lemma epoch_to_calendar_valid:
  assumes valid: "valid_date y m d" and time: "time_of_day h mi s"
  shows "lvww_epoch_to_calendar (86400 * day_number y m d + 3600 * h + 60 * mi + s) =
    \<lparr>cal_year = y, cal_month = int m, cal_day = d, cal_hour = h, cal_minute = mi,
     cal_weekday = (day_number y m d + 4) mod 7\<rparr>"
proof -
  let ?n = "day_number y m d" and ?Y = "march_year y m" and ?k = "march_doy m d"
  define e where "e = ?Y mod 400"
  have e: "0 \<le> e" "e < 400" by (simp_all add: e_def)
  obtain c q sy where es: "e = 100 * c + 4 * q + sy" "0 \<le> c" "c \<le> 3" "0 \<le> q" "q \<le> 24" "0 \<le> sy" "sy \<le> 3"
    "march_days e = 36524 * c + 1461 * q + 365 * sy" "leap_year (e + 1) \<Longrightarrow> sy = 3 \<and> (q \<noteq> 24 \<or> c = 3)"
    using era_split [OF e] by blast
  note k = march_doy_bounds [OF valid]
  have "b dvd ?Y + 1 \<longleftrightarrow> b dvd e + 1" if "b dvd 400" for b
    using dvd_mod_iff [OF that, of "e + 1"] dvd_mod_iff [OF that, of "?Y + 1"] by (simp add: e_def mod_simps)
  then have leap: "leap_year (?Y + 1) = leap_year (e + 1)" by (simp add: leap_year_def)
  define doe where "doe = march_days e + ?k"
  have doe: "0 \<le> doe" "doe < 146097"
    using es k leap unfolding doe_def by (auto split: if_splits)
  have yoe: "(doe - doe div 1460 + doe div 36524 - doe div 146096) div 365 = e"
    by (rule yoe_recover [of doe c q sy ?k, folded es(1)]) (use es k leap in \<open>auto simp: doe_def split: if_splits\<close>)
  have z: "?n + 719468 = ?Y div 400 * 146097 + doe"
    using day_number_march [OF valid] march_days_era [of ?Y] by (simp add: e_def doe_def)
  have era: "(?n + 719468) div 146097 = ?Y div 400"
    by (rule int_div_pos_eq [where r = doe]) (use z doe in simp_all)
  have m: "1 \<le> m" "m \<le> 12" and d: "1 \<le> d" "d \<le> 31" and y: "1970 \<le> y" "y < 2 ^ 31 - 1"
    using valid by (auto simp: valid_date_def month_days_def split: if_splits)
  define t where "t = 3600 * h + 60 * mi + s"
  have t: "0 \<le> t" "t < 86400" using time unfolding time_of_day_def t_def by linarith+
  have epoch: "86400 * ?n + 3600 * h + 60 * mi + s = t + ?n * 86400" by (simp add: t_def)
  have tm: "t div 3600 = h" "t mod 3600 = 60 * mi + s"
    using time int_div_pos_eq [of t 3600 h "60 * mi + s"] int_mod_pos_eq [of t 3600 h "60 * mi + s"]
    unfolding t_def time_of_day_def by simp_all
  have n: "0 \<le> ?n" using day_number_bounds [OF valid] by simp
  have a1: "(t + ?n * 86400) sdiv 86400 = ?n" "(t + ?n * 86400) smod 86400 = t" "\<not> t < 0"
    using t n by (simp_all add: sdiv_smod_nonneg)
  have a2: "c_int (t sdiv 3600) = h" "c_int ((t smod 3600) sdiv 60) = mi"
    using t time tm int_div_pos_eq [of "60 * mi + s" 60 mi s]
    by (simp_all add: sdiv_smod_nonneg c_int_small time_of_day_def)
  have "0 \<le> (?n + 4) mod 7" "(?n + 4) mod 7 < 7" by simp_all
  then have a3: "c_int ((?n + 4) smod 7) = (?n + 4) mod 7" "\<not> (?n + 4) mod 7 < 0"
    using n by (simp_all add: sdiv_smod_nonneg c_int_small)
  have a4: "(if 0 \<le> ?n + 719468 then ?n + 719468 else ?n + 719468 - 146096) sdiv 146097 = ?Y div 400"
    "?n + 719468 - ?Y div 400 * 146097 = doe"
    using n era z by (simp_all add: sdiv_smod_nonneg)
  have "0 \<le> doe - doe div 1460 + doe div 36524 - doe div 146096"
    using yoe e by (smt (verit) pos_imp_zdiv_nonneg_iff)
  then have a5: "(doe - doe sdiv 1460 + doe sdiv 36524 - doe sdiv 146096) sdiv 365 = e"
    using yoe doe by (simp add: sdiv_smod_nonneg)
  have a6: "doe - (365 * e + e sdiv 4 - e sdiv 100) = ?k"
    using e by (simp add: doe_def march_days_def sdiv_smod_nonneg)
  define mp where "mp = (if m > 2 then int m - 3 else int m + 9)"
  have a7: "(5 * ?k + 2) sdiv 153 = mp"
    using month_recover [OF valid] k by (simp add: sdiv_smod_nonneg mp_def)
  have a8: "c_int (?k - (153 * mp + 2) sdiv 5 + 1) = d"
    using m d by (simp add: march_doy_def mp_def sdiv_smod_nonneg c_int_small)
  have a9: "c_int (mp + (if mp < 10 then 3 else - 9)) = int m"
    using m by (simp add: mp_def c_int_small)
  have a10: "c_int (e + ?Y div 400 * 400 + (if int m \<le> 2 then 1 else 0)) = y"
    using y by (simp add: e_def march_year_def c_int_small)
  show ?thesis
    unfolding epoch lvww_epoch_to_calendar_def Let_def
    by (simp only: a1 a2 a3 a4 a5 a6 a7 a8 a9 a10 split_conv if_False)
qed

section \<open>The date of a response\<close>

definition dec2 :: "int \<Rightarrow> bytes" where
  "dec2 n = [of_int (48 + n div 10), of_int (48 + n mod 10)]"

definition http_date :: "bytes \<Rightarrow> int \<Rightarrow> nat \<Rightarrow> int \<Rightarrow> int \<Rightarrow> int \<Rightarrow> int \<Rightarrow> bytes" where
  "http_date weekday y m d h mi s =
     weekday @ ascii '', '' @ dec2 d @ ascii '' '' @ http_months ! (m - 1) @ ascii '' '' @
     dec2 (y div 100) @ dec2 (y mod 100) @ ascii '' '' @ dec2 h @ ascii '':'' @ dec2 mi @ ascii '':'' @ dec2 s @
     ascii '' GMT''"

lemma digit_byte:
  assumes "0 \<le> k" "k < 10"
  shows "is_digit (of_int (48 + k))" "int (unat (of_int (48 + k) :: u8)) = 48 + k"
proof -
  show u: "int (unat (of_int (48 + k) :: u8)) = 48 + k"
    using assms by (simp add: uint_nat [symmetric] uint_word_of_int_eq take_bit_int_eq_self del: of_int_add)
  then have "48 \<le> unat (of_int (48 + k) :: u8)" "unat (of_int (48 + k) :: u8) \<le> 57" using assms by linarith+
  then show "is_digit (of_int (48 + k))" by (simp add: is_digit_def word_le_nat_alt del: of_int_add)
qed

lemma dec2_digits:
  assumes "0 \<le> n" "n < 100"
  shows "list_all is_digit (dec2 n)" "dec2 n \<noteq> []"
    "decimal_value (dec2 n) = n" "decimal_value (ds @ dec2 n) = 100 * decimal_value ds + n"
proof -
  have k: "0 \<le> n div 10" "n div 10 < 10" "0 \<le> n mod 10" "n mod 10 < 10" using assms by simp_all
  show "list_all is_digit (dec2 n)" "dec2 n \<noteq> []"
    using digit_byte(1) [OF k(1,2)] digit_byte(1) [OF k(3,4)] by (simp_all add: dec2_def del: of_int_add)
  have "10 * (n div 10) + n mod 10 = n" by simp
  then show "decimal_value (dec2 n) = n"
    "decimal_value (ds @ dec2 n) = 100 * decimal_value ds + n"
    using digit_byte(2) [OF k(1,2)] digit_byte(2) [OF k(3,4)]
    by (simp_all add: dec2_def decimal_value_def del: of_int_add)
qed

lemma digit_not_space: "is_digit b \<Longrightarrow> \<not> is_space b \<and> b \<noteq> 45 \<and> b \<noteq> 43"
  by (auto simp: is_digit_def is_space_def word_le_nat_alt)

lemma scan_int_digits:
  assumes "list_all is_digit ds" "ds \<noteq> []" "0 \<le> decimal_value ds" "decimal_value ds < 2 ^ 31 - 1"
    and "\<not> is_digit c"
  shows "scan_int (ds @ c # rest) = Some (decimal_value ds, c # rest)"
    "scan_int (32 # ds @ c # rest) = Some (decimal_value ds, c # rest)"
proof -
  obtain b bs where b: "ds = b # bs" using assms(2) by (cases ds) auto
  then have d: "\<not> is_space b \<and> b \<noteq> 45 \<and> b \<noteq> 43" using assms(1) digit_not_space by simp
  have "is_space 32" by (simp add: is_space_def)
  then have "scan_sign (scan_ws (ds @ c # rest)) = (False, ds @ c # rest)"
    "scan_sign (scan_ws (32 # ds @ c # rest)) = (False, ds @ c # rest)"
    using d by (simp_all add: scan_ws_def scan_sign_def b)
  moreover have "takeWhile is_digit (ds @ c # rest) = ds" "dropWhile is_digit (ds @ c # rest) = c # rest"
    using assms(1,5) by (simp_all add: list_all_iff)
  ultimately show "scan_int (ds @ c # rest) = Some (decimal_value ds, c # rest)"
    "scan_int (32 # ds @ c # rest) = Some (decimal_value ds, c # rest)"
    using assms by (simp_all add: scan_int_def)
qed

lemma find_first:
  "P n \<Longrightarrow> n < k \<Longrightarrow> (\<And>i. i < n \<Longrightarrow> \<not> P i) \<Longrightarrow> find P [0 ..< k] = Some n"
  by (auto simp: find_Some_iff intro!: exI [of _ n])

lemma http_months_ok:
  assumes "1 \<le> m" "m \<le> 12"
  shows "length (http_months ! (m - 1)) = 3" "list_all (\<lambda>b. \<not> is_space b) (http_months ! (m - 1))"
    "find (\<lambda>i. c_array 3 (http_months ! (m - 1)) = http_months ! i) [0 ..< 12] = Some (m - 1)"
  by (rule month_cases [OF assms], simp_all only:, code_simp+)+

lemma scan_word_exact:
  assumes "length w = 3" "list_all (\<lambda>b. \<not> is_space b) w"
  shows "scan_word 3 (w @ rest) = Some (w, rest)" "scan_word 3 (32 # w @ rest) = Some (w, rest)"
proof -
  obtain b bs where w: "w = b # bs" using assms(1) by (cases w) auto
  have "scan_ws (w @ rest) = w @ rest" "scan_ws (32 # w @ rest) = w @ rest"
    using assms(2) by (simp_all add: scan_ws_def w) (simp_all add: is_space_def)
  moreover have "takeWhile (\<lambda>b. \<not> is_space b) w = w" using assms(2) by (simp add: list_all_iff)
  ultimately show "scan_word 3 (w @ rest) = Some (w, rest)" "scan_word 3 (32 # w @ rest) = Some (w, rest)"
    using assms(1) w by (simp_all add: scan_word_def)
qed

lemma scan_http_date_valid:
  assumes date: "valid_date y m d" "y < 10000" "time_of_day h mi s"
    and weekday: "length weekday = 3" "list_all (\<lambda>b. \<not> is_space b) weekday"
  shows "scan_http_date (http_date weekday y m d h mi s @ rest) =
      Some (d, http_months ! (m - 1), y, h, mi, s)"
proof -
  have m: "1 \<le> m" "m \<le> 12" and d: "0 \<le> d" "d < 100" and y: "0 \<le> y div 100" "y div 100 < 100" "0 \<le> y mod 100" "y mod 100 < 100"
    and t: "0 \<le> h" "h < 100" "0 \<le> mi" "mi < 100" "0 \<le> s" "s < 100"
    using date by (auto simp: valid_date_def time_of_day_def month_days_def split: if_splits)
  have nd: "\<not> is_digit 32" "\<not> is_digit 58" by (simp_all add: is_digit_def)
  have year: "list_all is_digit (dec2 (y div 100) @ dec2 (y mod 100))" "dec2 (y div 100) @ dec2 (y mod 100) \<noteq> []"
    "decimal_value (dec2 (y div 100) @ dec2 (y mod 100)) = y"
    using dec2_digits [OF y(1,2)] dec2_digits [OF y(3,4)]
    by simp_all
  show ?thesis
    unfolding scan_http_date_def http_date_def
    using scan_word_exact [OF weekday] scan_word_exact [OF http_months_ok(1,2) [OF m]]
      scan_int_digits [OF dec2_digits(1,2) [OF d]] dec2_digits(3) [OF d] d
      scan_int_digits [OF year(1,2)] year(3) nd date
      scan_int_digits [OF dec2_digits(1,2) [OF t(1,2)]] dec2_digits(3) [OF t(1,2)]
      scan_int_digits [OF dec2_digits(1,2) [OF t(3,4)]] dec2_digits(3) [OF t(3,4)]
      scan_int_digits [OF dec2_digits(1,2) [OF t(5,6)]] dec2_digits(3) [OF t(5,6)] t
    by (simp add: scan_char_def ascii_def valid_date_def)
qed

lemma mem_find_ci_first:
  assumes "needle \<noteq> []" "length pre + length needle \<le> n"
    and "\<And>i. i < length pre \<Longrightarrow>
      lower_bytes (take (length needle) (drop i (pre @ needle @ post))) \<noteq> lower_bytes needle"
  shows "mem_find_ci (take n (pre @ needle @ post)) needle = Some (length pre)"
proof -
  let ?data = "pre @ needle @ post" and ?k = "length needle"
  have "take ?k (drop i (take n ?data)) = take ?k (drop i ?data)" if "i \<le> length pre" for i
    using that assms(2) by (simp add: drop_take min_def)
  then have "find (\<lambda>i. lower_bytes (take ?k (drop i (take n ?data))) = lower_bytes needle)
      [0 ..< length (take n ?data) - ?k + 1] = Some (length pre)"
    using assms by (intro find_first) simp_all
  then show ?thesis using assms(1,2) by (simp add: mem_find_ci_def min_def)
qed

lemma parse_http_date_valid:
  assumes date: "valid_date y m d" "y < 10000" "time_of_day h mi s"
    and weekday: "length weekday = 3" "list_all (\<lambda>b. \<not> is_space b) weekday"
    and response: "response = pre @ ascii (CHR 0x0D # CHR 0x0A # ''Date: '') @ http_date weekday y m d h mi s @ post"
    and n: "length pre + 8 < n" "n \<le> length response"
    and first: "\<And>i. i < length pre \<Longrightarrow>
      lower_bytes (take 7 (drop i response)) \<noteq> lower_bytes (ascii (CHR 0x0D # CHR 0x0A # ''Date:''))"
  shows "parse_http_date response n =
    civil_to_epoch y (of_nat m) (of_int d) (of_int h) (of_int mi) (of_int s)"
proof -
  let ?needle = "ascii [CHR 0x0D, CHR 0x0A] @ ascii ''Date:''"
  let ?date = "http_date weekday y m d h mi s"
  have needle: "?needle = ascii (CHR 0x0D # CHR 0x0A # ''Date:'')" "length ?needle = 7" by (simp_all add: ascii_def)
  have resp: "response = pre @ ?needle @ 32 # ?date @ post" by (simp add: response ascii_def)
  have find: "mem_find_ci (take n response) ?needle = Some (length pre)"
  proof (rule mem_find_ci_first [of ?needle pre n "32 # ?date @ post", folded resp, unfolded needle(2)])
    show "?needle \<noteq> []" by (simp add: ascii_def)
    show "length pre + 7 \<le> n" using n by simp
  qed (rule first [folded needle(1)])
  obtain b bs where b: "weekday = b # bs" "\<not> is_space b" using weekday by (cases weekday) auto
  then have b': "b \<noteq> 32 \<and> b \<noteq> 9" by (auto simp: is_space_def)
  obtain k where k: "n = length pre + 9 + k" using n(1) le_Suc_ex [of "length pre + 9" n] by auto
  have "drop (length pre + 7) (take n response) = take (k + 2) (32 # ?date @ post)"
    by (simp add: resp k ascii_def drop_take)
  then have blanks: "length (takeWhile (\<lambda>b. b = 32 \<or> b = 9) (drop (length pre + 7) (take n response))) = 1"
    using b b' by (simp add: http_date_def)
  have rest: "drop (8 + length pre) response = ?date @ post" by (simp add: resp ascii_def)
  have m: "1 \<le> m" "m \<le> 12" using date by (simp_all add: valid_date_def)
  then have "of_nat (m - 1) + 1 = (of_nat m :: u32)" by (cases m) simp_all
  then show ?thesis
    using scan_http_date_valid [OF date weekday, of post] http_months_ok(3) [OF m]
    by (simp add: parse_http_date_def find blanks rest)
qed


definition sample_response :: bytes where
  "sample_response = ascii ''HTTP/1.1 200 OK'' @ ascii (CHR 0x0D # CHR 0x0A # ''Date: '') @
     http_date (ascii ''Sat'') 2026 7 4 13 5 59 @ ascii [CHR 0x0D, CHR 0x0A, CHR 0x0D, CHR 0x0A]"


end
