(* ===== verification/Weather_Chunked.thy ===== *)
theory Weather_Chunked
  imports Weather_Date
begin

text \<open>
  \<open>decode_chunked\<close> of \<open>lvww_rw007.c\<close>: the in-place decoder of chunked HTTP bodies.  The model keeps
  the buffer, both pointers as offsets into it, and the 32-bit arithmetic of the target, and it
  fails (\<open>None\<close>) where the code would read or write outside the buffer.
\<close>

section \<open>The decoder\<close>

definition hex_value :: "u8 \<Rightarrow> u32 option" where
  "hex_value c =
     (if 48 \<le> c \<and> c \<le> 57 then Some (ucast c - 48)
      else if 97 \<le> c \<and> c \<le> 102 then Some (ucast c - 97 + 10)
      else if 65 \<le> c \<and> c \<le> 70 then Some (ucast c - 65 + 10)
      else None)"

text \<open>
  The loop over the size line, from \<open>*read\<close> to the end of the body; it returns \<open>chunk\<close>, \<open>digit\<close> and
  what is left at \<open>read\<close>.
\<close>

fun chunk_size_line :: "bytes \<Rightarrow> u32 \<Rightarrow> bool \<Rightarrow> (u32 \<times> bool \<times> bytes) option" where
  "chunk_size_line [] chunk digit = Some (chunk, digit, [])"
| "chunk_size_line (c # str) chunk digit =
     (if c = 13 then Some (chunk, digit, c # str)
      else if c = 59 then Some (chunk, digit, dropWhile (\<lambda>b. b \<noteq> 13) (c # str))
      else case hex_value c of
             None \<Rightarrow> None
           | Some v \<Rightarrow> chunk_size_line str (chunk * 16 + v) True)"

lemma chunk_size_line_length: "chunk_size_line str chunk digit = Some (c, d, rest) \<Longrightarrow> length rest \<le> length str"
  by (induction str chunk digit rule: chunk_size_line.induct)
    (auto split: if_splits option.splits intro: le_SucI order_trans [OF length_dropWhile_le])

text \<open>A read of one byte, and \<open>memmove\<close> within the buffer.\<close>

definition byte_at :: "bytes \<Rightarrow> nat \<Rightarrow> u8 option" where
  "byte_at buf i = (if i < length buf then Some (buf ! i) else None)"

definition memmove_at :: "bytes \<Rightarrow> nat \<Rightarrow> nat \<Rightarrow> nat \<Rightarrow> bytes option" where
  "memmove_at buf dst src n =
     (if src + n \<le> length buf \<and> dst + n \<le> length buf then Some (memcpy_at buf dst (take n (drop src buf)))
      else None)"

text \<open>\<open>p[0] != '\\r' || p[1] != '\\n'\<close>.\<close>

definition no_crlf :: "bytes \<Rightarrow> nat \<Rightarrow> bool option" where
  "no_crlf buf i =
     Option.bind (byte_at buf i) (\<lambda>a.
       if a \<noteq> 13 then Some True else Option.bind (byte_at buf (i + 1)) (\<lambda>b. Some (b \<noteq> 10)))"

text \<open>
  The result is the return code, the buffer and the decoded length; \<open>read\<close> and \<open>write\<close> are the
  pointers, \<open>n\<close> is \<open>end - body\<close>.
\<close>

function decode_loop :: "bytes \<Rightarrow> nat \<Rightarrow> nat \<Rightarrow> nat \<Rightarrow> (int \<times> bytes \<times> nat) option" where
  "decode_loop buf n read write =
     (if read < n then
        case chunk_size_line (drop read (take n buf)) 0 False of
          None \<Rightarrow> Some (- RT_ERROR, buf, 0)
        | Some (chunk, digit, rest) \<Rightarrow>
            let read' = n - length rest
            in if \<not> digit \<or> read' + 1 \<ge> n then Some (- RT_ERROR, buf, 0)
               else case no_crlf buf read' of
                 None \<Rightarrow> None
               | Some True \<Rightarrow> Some (- RT_ERROR, buf, 0)
               | Some False \<Rightarrow>
                   let data = read' + 2
                   in if chunk = 0 then
                        if write < length buf then Some (RT_EOK, buf[write := 0], write) else None
                      else if (of_nat (n - data) :: u32) < chunk + 2 then Some (- RT_ERROR, buf, 0)
                      else case memmove_at buf write data (unat chunk) of
                        None \<Rightarrow> None
                      | Some buf' \<Rightarrow>
                          (case no_crlf buf' (data + unat chunk) of
                             None \<Rightarrow> None
                           | Some True \<Rightarrow> Some (- RT_ERROR, buf', 0)
                           | Some False \<Rightarrow> decode_loop buf' n (data + unat chunk + 2) (write + unat chunk))
      else Some (- RT_ERROR, buf, 0))"
  by pat_completeness auto
termination
proof (relation "measure (\<lambda>(buf, n, read, write). n - read)", goal_cases)
  case (2 buf n rd wr pair chunk pair' digit rest read' ok data buf' ok')
  then have "length rest \<le> n - rd" by (auto dest: chunk_size_line_length)
  then show ?case using 2 by simp
qed simp

declare decode_loop.simps [simp del]

definition decode_chunked :: "bytes \<Rightarrow> nat \<Rightarrow> (int \<times> bytes \<times> nat) option" where
  "decode_chunked body n = decode_loop body n 0 0"

section \<open>What it decodes\<close>

text \<open>
  The same without buffer and pointers: on the text of the body.  \<open>Overrun\<close> is a size for which
  \<open>chunk + 2\<close> wraps around, so that the comparison with the bytes left lets it pass.
\<close>

datatype dechunked = Malformed | Overrun | Decoded bytes

fun prepend_data :: "bytes \<Rightarrow> dechunked \<Rightarrow> dechunked" where
  "prepend_data d (Decoded e) = Decoded (d @ e)"
| "prepend_data d r = r"

definition after_crlf :: "bytes \<Rightarrow> bytes option" where
  "after_crlf str =
     (case str of a # b # rest \<Rightarrow> if a = 13 \<and> b = 10 then Some rest else None | _ \<Rightarrow> None)"

lemma after_crlf_Some: "after_crlf str = Some rest \<longleftrightarrow> str = 13 # 10 # rest"
  by (auto simp: after_crlf_def split: list.splits if_splits)

function dechunk :: "bytes \<Rightarrow> dechunked" where
  "dechunk str =
     (case chunk_size_line str 0 False of
        None \<Rightarrow> Malformed
      | Some (chunk, digit, rest) \<Rightarrow>
          if \<not> digit then Malformed
          else case after_crlf rest of
            None \<Rightarrow> Malformed
          | Some rest \<Rightarrow>
              if chunk = 0 then Decoded []
              else if length rest < unat (chunk + 2) then Malformed
              else if 2 ^ 32 \<le> unat chunk + 2 then Overrun
              else case after_crlf (drop (unat chunk) rest) of
                None \<Rightarrow> Malformed
              | Some str' \<Rightarrow> prepend_data (take (unat chunk) rest) (dechunk str'))"
  by pat_completeness auto

termination
proof (relation "measure length", goal_cases)
  case (2 str pair chunk pair' digit rest rest' str')
  then have "length rest \<le> length str" by (auto dest: chunk_size_line_length)
  then show ?case using 2 by (auto simp: after_crlf_Some dest!: arg_cong [of "drop _ _" _ length])
qed simp

declare dechunk.simps [simp del]

lemma drop_dropWhile: "drop (length xs - length (dropWhile P xs)) xs = dropWhile P xs"
  by (simp add: dropWhile_eq_drop length_takeWhile_le)

lemma chunk_size_line_suffix:
  "chunk_size_line str chunk digit = Some (c, d, rest) \<Longrightarrow> rest = drop (length str - length rest) str"
proof (induction str chunk digit rule: chunk_size_line.induct)
  case (2 b str chunk digit)
  show ?case
  proof (cases "b = 13 \<or> b = 59")
    case True
    then show ?thesis using 2(2) drop_dropWhile [of "b # str" "\<lambda>b. b \<noteq> 13"] by (auto split: if_splits)
  next
    case False
    then obtain v where v: "hex_value b = Some v" using 2(2) by (auto split: option.splits)
    then have c: "chunk_size_line str (chunk * 16 + v) True = Some (c, d, rest)" using 2(2) False by simp
    then have "length rest \<le> length str" by (rule chunk_size_line_length)
    then show ?thesis using 2(1) False v c by (simp add: Suc_diff_le)
  qed
qed simp

lemma crlf_view:
  assumes "i + 1 < n" "n \<le> length buf"
  shows "no_crlf buf i = Some (after_crlf (drop i (take n buf)) = None)"
    "after_crlf (drop i (take n buf)) = Some rest \<Longrightarrow> rest = drop (i + 2) (take n buf)"
proof -
  have "drop i (take n buf) = buf ! i # buf ! (i + 1) # drop (i + 2) (take n buf)"
    using assms by (simp add: Cons_nth_drop_Suc [symmetric])
  then show "no_crlf buf i = Some (after_crlf (drop i (take n buf)) = None)"
    "after_crlf (drop i (take n buf)) = Some rest \<Longrightarrow> rest = drop (i + 2) (take n buf)"
    using assms by (auto simp: no_crlf_def byte_at_def after_crlf_def split: if_splits)
qed

lemma after_crlf_short: "length str < 2 \<Longrightarrow> after_crlf str = None"
  by (auto simp: after_crlf_def split: list.splits)

definition decodes :: "(int \<times> bytes \<times> nat) option \<Rightarrow> bytes \<Rightarrow> nat \<Rightarrow> dechunked \<Rightarrow> bool" where
  "decodes result buf wr d =
     (case d of
        Malformed \<Rightarrow> \<exists>buf'. result = Some (- RT_ERROR, buf', 0)
      | Overrun \<Rightarrow> result = None
      | Decoded data \<Rightarrow>
          \<exists>buf'. result = Some (RT_EOK, buf', wr + length data) \<and> length buf' = length buf \<and>
            take (wr + length data) buf' = take wr buf @ data \<and> buf' ! (wr + length data) = 0)"

lemma decodes_prepend:
  assumes "decodes result buf' (wr + length data) d" "length buf' = length buf"
    "take (wr + length data) buf' = take wr buf @ data"
  shows "decodes result buf wr (prepend_data data d)"
  using assms by (cases d) (auto simp: decodes_def add.assoc)

lemma decode_loop_dechunk:
  assumes "wr \<le> rd" "rd \<le> n" "n < length buf" "length buf < 2 ^ 32 - 2"
  shows "decodes (decode_loop buf n rd wr) buf wr (dechunk (drop rd (take n buf)))"
  using assms
proof (induction "n - rd" arbitrary: rd wr buf rule: less_induct)
  case less
  let ?str = "drop rd (take n buf)"
  note step = decode_loop.simps [of buf n rd wr] dechunk.simps [of ?str]
  show ?case
  proof (cases "chunk_size_line ?str 0 False")
    case None
    then show ?thesis by (simp add: step decodes_def)
  next
    case (Some r)
    then obtain c d rest where line: "chunk_size_line ?str 0 False = Some (c, d, rest)" by (cases r) auto
    define rd' where "rd' = n - length rest"
    have len: "length rest \<le> n - rd" using chunk_size_line_length [OF line] less.prems by simp
    then have rd': "rd \<le> rd'" "length rest = n - rd'" using less.prems by (simp_all add: rd'_def)
    have "rest = drop (n - rd - length rest) ?str"
      using chunk_size_line_suffix [OF line] less.prems by simp
    then have rest: "rest = drop rd' (take n buf)" using len less.prems by (simp add: rd'_def)
    show ?thesis
    proof (cases "rd < n \<and> d \<and> rd' + 1 < n \<and> after_crlf rest \<noteq> None")
      case False
      have "\<not> d \<or> after_crlf rest = None"
        using False line rd' less.prems by (cases "rd < n"; cases "rd' + 1 < n") (simp_all add: after_crlf_short)
      then have "dechunk ?str = Malformed" using line by (auto simp: step(2))
      moreover have "decode_loop buf n rd wr = Some (- RT_ERROR, buf, 0)"
        using False line crlf_view(1) [of rd' n buf] less.prems rest
        by (auto simp: step(1) Let_def rd'_def [symmetric] split: option.splits)
      ultimately show ?thesis by (simp add: decodes_def)
    next
      case True
      then have crlf: "no_crlf buf rd' = Some False" "after_crlf rest = Some (drop (rd' + 2) (take n buf))"
        using crlf_view [of rd' n buf] less.prems by (auto simp: rest)
      define dt where "dt = rd' + 2"
      have dt: "rd < dt" "dt \<le> n" "Suc (Suc rd') = dt" using rd' True by (simp_all add: dt_def)
      have loop: "decode_loop buf n rd wr =
          (if c = 0 then Some (RT_EOK, buf[wr := 0], wr)
           else if n - dt < unat (c + 2) then Some (- RT_ERROR, buf, 0)
           else case memmove_at buf wr dt (unat c) of
             None \<Rightarrow> None
           | Some buf' \<Rightarrow>
               (case no_crlf buf' (dt + unat c) of
                  None \<Rightarrow> None
                | Some True \<Rightarrow> Some (- RT_ERROR, buf', 0)
                | Some False \<Rightarrow> decode_loop buf' n (dt + unat c + 2) (wr + unat c)))"
        using True line crlf less.prems dt
        by (simp add: step(1) Let_def rd'_def [symmetric] word_less_nat_alt cong: option.case_cong if_cong)
      have spec: "dechunk ?str =
          (if c = 0 then Decoded []
           else if n - dt < unat (c + 2) then Malformed
           else if 2 ^ 32 \<le> unat c + 2 then Overrun
           else case after_crlf (drop (dt + unat c) (take n buf)) of
             None \<Rightarrow> Malformed
           | Some str' \<Rightarrow> prepend_data (take (unat c) (drop dt (take n buf))) (dechunk str'))"
        using True line crlf(2) less.prems dt(3) by (simp add: step(2) add.commute [of dt] cong: option.case_cong if_cong)
      consider "c = 0" | "c \<noteq> 0" "n - dt < unat (c + 2)" | "c \<noteq> 0" "\<not> n - dt < unat (c + 2)" "2 ^ 32 \<le> unat c + 2"
        | "c \<noteq> 0" "\<not> n - dt < unat (c + 2)" "unat c + 2 < 2 ^ 32" by linarith
      then show ?thesis
      proof cases
        case 3
        then have "memmove_at buf wr dt (unat c) = None" using less.prems by (simp add: memmove_at_def)
        then show ?thesis using 3 by (simp add: loop spec decodes_def)
      next
        case 4
        define k where "k = unat c"
        have k: "dt + k + 2 \<le> n" using 4 dt unat_add_u32 [of c 2] by (simp add: k_def)
        define data where "data = take k (drop dt buf)"
        have "k \<le> length buf - dt" "k \<le> n - dt" using k less.prems by linarith+
        then have data: "length data = k" "take k (drop dt (take n buf)) = data"
          by (simp_all add: data_def drop_take min.absorb1)
        define buf' where "buf' = memcpy_at buf wr data"
        have w: "wr + length data \<le> length buf" using data k dt less.prems by simp
        have mm: "memmove_at buf wr dt k = Some buf'"
          using w data k less.prems by (simp add: memmove_at_def buf'_def data_def)
        have buf': "length buf' = length buf" "take (wr + length data) buf' = take wr buf @ data"
          using w by (simp_all add: buf'_def take_memcpy_at)
        have same: "drop i (take n buf') = drop i (take n buf)" if "dt + k \<le> i" for i
        proof -
          have "wr + length data \<le> i" using that dt data less.prems by simp
          then have "drop i buf' = drop i buf"
            using arg_cong [OF drop_memcpy_at [OF w], of "drop (i - (wr + length data))"] by (simp add: buf'_def)
          then show ?thesis by (simp add: drop_take)
        qed
        show ?thesis
        proof (cases "after_crlf (drop (dt + k) (take n buf))")
          case None
          then have "no_crlf buf' (dt + k) = Some True"
            using crlf_view(1) [of "dt + k" n buf'] k less.prems buf' same by simp
          then show ?thesis using 4 None mm by (simp add: loop spec decodes_def k_def [symmetric])
        next
          case (Some str')
          then have "no_crlf buf' (dt + k) = Some False" "str' = drop (dt + k + 2) (take n buf')"
            using crlf_view [of "dt + k" n buf'] k less.prems buf' same by simp_all
          moreover have "decodes (decode_loop buf' n (dt + k + 2) (wr + k)) buf' (wr + k)
              (dechunk (drop (dt + k + 2) (take n buf')))"
            using less.prems k dt buf' by (intro less.hyps) simp_all
          ultimately show ?thesis
            using 4 Some mm data buf' decodes_prepend [of _ buf' wr data]
            by (simp add: loop spec k_def [symmetric])
        qed
      qed (use less.prems dt in \<open>simp_all add: loop spec decodes_def\<close>)
    qed
  qed
qed

text \<open>
  C39: The decoder of chunked bodies works in place and computes the decoding of the text of the body:
  a malformed body gives an error and nothing else, a well-formed one leaves the decoded data with a
  terminating NUL at the front of the buffer and reports its length.  It leaves the buffer exactly
  when the text declares a chunk size so large that adding 2 to it wraps around and passes the check
  against the bytes left; then no result exists, because \<open>memmove\<close> is called with that size.
\<close>

theorem decode_chunked_exact:
  assumes "n < length body" "length body < 2 ^ 32 - 2"
  shows "decodes (decode_chunked body n) body 0 (dechunk (take n body))"
  using decode_loop_dechunk [of 0 0 n body] assms by (simp add: decode_chunked_def)

section \<open>Well-formed bodies\<close>

text \<open>A chunk: the digits of its size, an extension, which starts with a semicolon, and the data.\<close>

definition hex_digits_value :: "bytes \<Rightarrow> u32" where
  "hex_digits_value h = foldl (\<lambda>v b. v * 16 + the (hex_value b)) 0 h"

definition chunk_head_ok :: "bytes \<Rightarrow> bytes \<Rightarrow> bool" where
  "chunk_head_ok h ext \<longleftrightarrow> h \<noteq> [] \<and> list_all (\<lambda>b. hex_value b \<noteq> None) h \<and>
     (ext = [] \<or> hd ext = 59) \<and> 13 \<notin> set ext"

definition chunk_ok :: "bytes \<times> bytes \<times> bytes \<Rightarrow> bool" where
  "chunk_ok = (\<lambda>(h, ext, data). chunk_head_ok h ext \<and> data \<noteq> [] \<and> length data < 2 ^ 32 - 2 \<and>
     hex_digits_value h = of_nat (length data))"

definition chunk_text :: "bytes \<times> bytes \<times> bytes \<Rightarrow> bytes" where
  "chunk_text = (\<lambda>(h, ext, data). h @ ext @ [13, 10] @ data @ [13, 10])"

lemma chunk_size_line_head:
  assumes "list_all (\<lambda>b. hex_value b \<noteq> None) h" "ext = [] \<or> hd ext = 59" "13 \<notin> set ext"
  shows "chunk_size_line (h @ ext @ 13 # rest) v d =
    Some (foldl (\<lambda>v b. v * 16 + the (hex_value b)) v h, d \<or> h \<noteq> [], 13 # rest)"
  using assms(1)
proof (induction h arbitrary: v d)
  case Nil
  have "dropWhile (\<lambda>b. b \<noteq> 13) (ext @ 13 # rest) = 13 # rest" if "13 \<notin> set ext"
    using that by (induction ext) auto
  then show ?case using assms(2,3) by (cases ext) auto
next
  case (Cons b h)
  then obtain x where x: "hex_value b = Some x" by auto
  then have "b \<noteq> 13" "b \<noteq> 59" by (auto simp: hex_value_def)
  then show ?case using Cons.IH [where v = "v * 16 + x" and d = True] Cons.prems x by simp
qed

lemma dechunk_chunk:
  assumes "chunk_ok c"
  shows "dechunk (chunk_text c @ rest) = prepend_data (snd (snd c)) (dechunk rest)"
proof -
  obtain h ext data where c: "c = (h, ext, data)" by (cases c)
  have ok: "chunk_head_ok h ext" "data \<noteq> []" "length data < 2 ^ 32 - 2" "hex_digits_value h = of_nat (length data)"
    using assms by (simp_all add: c chunk_ok_def)
  have line: "chunk_size_line (h @ ext @ 13 # 10 # data @ 13 # 10 # rest) 0 False =
      Some (of_nat (length data), True, 13 # 10 # data @ 13 # 10 # rest)"
    using ok(1) chunk_size_line_head [of h ext "10 # data @ 13 # 10 # rest" 0 False] ok(4)
    by (simp add: chunk_head_ok_def hex_digits_value_def)
  have u: "unat (of_nat (length data) :: u32) = length data" "unat (of_nat (length data) + 2 :: u32) = length data + 2"
    "(of_nat (length data) :: u32) \<noteq> 0"
  proof -
    show u: "unat (of_nat (length data) :: u32) = length data" using ok(3) by (intro unat_of_nat_u32) simp
    then show "unat (of_nat (length data) + 2 :: u32) = length data + 2"
      using ok(3) unat_add_u32 [of "of_nat (length data)" 2] by simp
    show "(of_nat (length data) :: u32) \<noteq> 0" using u ok(2) by (metis unat_0 length_0_conv)
  qed
  show ?thesis
    using ok(3) by (simp add: c chunk_text_def dechunk.simps [of "h @ _"] line after_crlf_def u)
qed

lemma dechunk_chunks:
  assumes "list_all chunk_ok cs" "chunk_head_ok h ext" "hex_digits_value h = 0"
  shows "dechunk (concat (map chunk_text cs) @ h @ ext @ [13, 10] @ trailer) = Decoded (concat (map (snd \<circ> snd) cs))"
  using assms(1)
proof (induction cs)
  case Nil
  have "chunk_size_line (h @ ext @ 13 # 10 # trailer) 0 False = Some (0, True, 13 # 10 # trailer)"
    using assms(2,3) chunk_size_line_head [of h ext "10 # trailer" 0 False]
    by (simp add: chunk_head_ok_def hex_digits_value_def)
  then show ?case by (simp add: dechunk.simps [of "h @ _"] after_crlf_def)
next
  case (Cons c cs)
  then show ?case using dechunk_chunk by simp
qed

text \<open>
  A body encoded in chunks is decoded to its data.  For every sequence of chunks, each with its
  size in hexadecimal digits of either case and possibly an extension, followed by the last chunk of
  size 0 and any trailer, the decoder succeeds, reports the length of the concatenated data, and
  leaves them with a terminating NUL at the front of the buffer it was given.
\<close>

theorem decode_chunked_roundtrip:
  assumes "list_all chunk_ok cs" "chunk_head_ok h ext" "hex_digits_value h = 0"
    and "body = concat (map chunk_text cs) @ h @ ext @ [13, 10] @ trailer" "length body + 1 < 2 ^ 32 - 2"
  shows "\<exists>buf. decode_chunked (body @ [0]) (length body) =
      Some (RT_EOK, buf, length (concat (map (snd \<circ> snd) cs))) \<and>
    take (length (concat (map (snd \<circ> snd) cs))) buf = concat (map (snd \<circ> snd) cs) \<and>
    buf ! length (concat (map (snd \<circ> snd) cs)) = 0"
proof -
  have "decodes (decode_loop (body @ [0]) (length body) 0 0) (body @ [0]) 0 (dechunk (take (length body) (body @ [0])))"
    using decode_loop_dechunk [of 0 0 "length body" "body @ [0]"] assms(5) by simp
  moreover have "dechunk body = Decoded (concat (map (snd \<circ> snd) cs))"
    using dechunk_chunks [OF assms(1,2,3), of trailer] assms(4) by simp
  ultimately show ?thesis by (auto simp: decodes_def decode_chunked_def)
qed

text \<open>
  A response whose first chunk is declared to have 4294967294 bytes leaves the buffer: whatever
  follows the size line, and however short the body is, the check against the bytes left compares
  with 0 and \<open>memmove\<close> is called with that size.  A size smaller by one is refused.
\<close>

theorem chunk_size_overrun:
  assumes "length body < 2 ^ 32 - 2" "n < length body" "10 \<le> n"
  shows "(take 10 body = ascii ''fffffffe'' @ [13, 10] \<longrightarrow> decode_chunked body n = None) \<and>
    (take 10 body = ascii ''fffffffd'' @ [13, 10] \<longrightarrow>
       (\<exists>buf. decode_chunked body n = Some (- RT_ERROR, buf, 0)))"
proof -
  have line: "chunk_size_line (ascii ''fffffffe'' @ 13 # rest) 0 False = Some (- 2, True, 13 # rest)"
    "chunk_size_line (ascii ''fffffffd'' @ 13 # rest) 0 False = Some (- 3, True, 13 # rest)" for rest
    by (simp_all add: ascii_def hex_value_def)
  have ex: "decodes (decode_loop body n 0 0) body 0 (dechunk (take n body))"
    using decode_loop_dechunk [of 0 0 n body] assms by simp
  have split: "take n body = take 10 body @ take (n - 10) (drop 10 body)"
    using assms(3) by (metis le_add_diff_inverse take_add)
  have "decode_chunked body n = None" if "take 10 body = ascii ''fffffffe'' @ [13, 10]"
  proof -
    have "dechunk (take n body) = Overrun"
      unfolding split that by (subst dechunk.simps) (simp add: line after_crlf_def)
    then show ?thesis using ex by (simp add: decodes_def decode_chunked_def)
  qed
  moreover have "\<exists>buf. decode_chunked body n = Some (- RT_ERROR, buf, 0)" if "take 10 body = ascii ''fffffffd'' @ [13, 10]"
  proof -
    have "dechunk (take n body) = Malformed"
      using assms unfolding split that by (subst dechunk.simps) (simp add: line after_crlf_def)
    then show ?thesis using ex by (simp add: decodes_def decode_chunked_def)
  qed
  ultimately show ?thesis by blast
qed

section \<open>A sample\<close>

definition sample_chunks :: "(bytes \<times> bytes \<times> bytes) list" where
  "sample_chunks = [(ascii ''04'', ascii '';a=b'', ascii ''Wiki''), (ascii ''b'', [], ascii ''pedia in C.'')]"

definition sample_body :: bytes where
  "sample_body = concat (map chunk_text sample_chunks) @ ascii ''0'' @ [] @ [13, 10] @ [13, 10]"

lemma sample_chunks_ok:
  "list_all chunk_ok sample_chunks" "chunk_head_ok (ascii ''0'') []" "hex_digits_value (ascii ''0'') = 0"
  "length sample_body + 1 < 2 ^ 32 - 2" "concat (map (snd \<circ> snd) sample_chunks) = ascii ''Wikipedia in C.''"
  "length (ascii ''Wikipedia in C.'') = 15"
  by (simp_all add: sample_body_def sample_chunks_def chunk_text_def chunk_ok_def chunk_head_ok_def
      hex_digits_value_def hex_value_def ascii_def)

lemma decode_chunked_exact_witness:
  "decodes (decode_chunked (sample_body @ [0]) (length sample_body)) (sample_body @ [0]) 0
     (Decoded (ascii ''Wikipedia in C.''))"
proof -
  have "dechunk sample_body = Decoded (ascii ''Wikipedia in C.'')"
    using dechunk_chunks [OF sample_chunks_ok(1,2,3), of "[13, 10]"] sample_chunks_ok(5) by (simp add: sample_body_def)
  then show ?thesis
    using decode_chunked_exact [of "length sample_body" "sample_body @ [0]"] sample_chunks_ok(4) by simp
qed

lemma decode_chunked_roundtrip_witness:
  "\<exists>buf. decode_chunked (sample_body @ [0]) (length sample_body) = Some (RT_EOK, buf, 15) \<and>
     take 15 buf = ascii ''Wikipedia in C.'' \<and> buf ! 15 = 0"
  using decode_chunked_roundtrip [OF sample_chunks_ok(1,2,3) sample_body_def sample_chunks_ok(4)]
    sample_chunks_ok(5,6) by simp

lemma chunk_size_overrun_witness:
  "decode_chunked (ascii ''fffffffe'' @ [13, 10] @ ascii ''tiny'' @ [0]) 14 = None"
  using chunk_size_overrun [of "ascii ''fffffffe'' @ [13, 10] @ ascii ''tiny'' @ [0]" 14] by (simp add: ascii_def)

end
