(* ===== verification/Weather_Cities.thy ===== *)
theory Weather_Cities
  imports Weather_Store
begin

text \<open>
  The city database of \<open>lvww_assets.c\<close>: a tab-separated file in the QSPI file system that is read line
  by line through a block buffer and searched for the best matches of a query.  The operations of
  the file system are a parameter; \<open>strtod\<close> is a parameter too, since a \<open>double\<close> is its bit pattern.
\<close>

section \<open>Files\<close>

text \<open>
  \<open>open\<close>, \<open>read\<close>, \<open>lseek\<close> to an absolute position and \<open>close\<close> on a world \<open>'w\<close>; \<open>read\<close> returns its
  count with the bytes that it stored.
\<close>

record 'w fs_ops =
  fs_open :: "bytes \<Rightarrow> 'w \<Rightarrow> int \<times> 'w"
  fs_read :: "int \<Rightarrow> nat \<Rightarrow> 'w \<Rightarrow> int \<times> bytes \<times> 'w"
  fs_lseek :: "int \<Rightarrow> u32 \<Rightarrow> 'w \<Rightarrow> int \<times> 'w"
  fs_close :: "int \<Rightarrow> 'w \<Rightarrow> int \<times> 'w"

text \<open>
  Sequential reading without errors: each call returns a non-empty piece of what is left of the
  file, of any length up to the one asked for, until nothing is left.
\<close>

definition file_reads :: "'w fs_ops \<Rightarrow> int \<Rightarrow> ('w \<Rightarrow> bytes) \<Rightarrow> bool" where
  "file_reads F fd rest \<longleftrightarrow>
     (\<forall>n w. 0 < n \<longrightarrow>
        (case fs_read F fd n w of (count, data, w') \<Rightarrow>
           if rest w = [] then count \<le> 0 \<and> rest w' = []
           else 0 < count \<and> count \<le> int n \<and> length data = nat count \<and> rest w = data @ rest w'))"

section \<open>Text\<close>

definition city_ascii_lower :: "nat \<Rightarrow> nat" where
  "city_ascii_lower v = (if 65 \<le> v \<and> v \<le> 90 then v + 32 else v)"

fun city_text_equal_ci :: "bytes \<Rightarrow> bytes \<Rightarrow> bool" where
  "city_text_equal_ci (l # left) (r # right) =
     (city_ascii_lower (unat l) = city_ascii_lower (unat r) \<and> city_text_equal_ci left right)"
| "city_text_equal_ci left right = (left = [] \<and> right = [])"

fun city_starts_loop :: "bytes \<Rightarrow> bytes \<Rightarrow> bool" where
  "city_starts_loop str [] = True"
| "city_starts_loop [] (q # query) = False"
| "city_starts_loop (t # str) (q # query) =
     (city_ascii_lower (unat t) = city_ascii_lower (unat q) \<and> city_starts_loop str query)"

definition city_text_starts_ci :: "bytes \<Rightarrow> bytes \<Rightarrow> bool" where
  "city_text_starts_ci str query = (if query = [] then False else city_starts_loop str query)"

fun city_contains_loop :: "bytes \<Rightarrow> bytes \<Rightarrow> bool" where
  "city_contains_loop [] query = False"
| "city_contains_loop (t # str) query =
     (if city_text_starts_ci (t # str) query then True else city_contains_loop str query)"

definition city_text_contains_ci :: "bytes \<Rightarrow> bytes \<Rightarrow> bool" where
  "city_text_contains_ci str query = (if query = [] then False else city_contains_loop str query)"

section \<open>Reading lines\<close>

abbreviation (input) LVWW_CITY_DB_LINE_SIZE :: nat where "LVWW_CITY_DB_LINE_SIZE \<equiv> 384"
abbreviation (input) LVWW_CITY_DB_READ_SIZE :: nat where "LVWW_CITY_DB_READ_SIZE \<equiv> 512"
abbreviation (input) LVWW_CITY_DB_FIELD_COUNT :: nat where "LVWW_CITY_DB_FIELD_COUNT \<equiv> 10"

record lvww_city_reader_t =
  rdr_fd :: int
  rdr_buffer :: bytes
  rdr_position :: nat
  rdr_length :: nat

definition city_reader_getc ::
  "'w fs_ops \<Rightarrow> lvww_city_reader_t \<Rightarrow> 'w \<Rightarrow> int \<times> lvww_city_reader_t \<times> 'w" where
  "city_reader_getc F reader w =
     (if rdr_position reader \<ge> rdr_length reader then
        case fs_read F (rdr_fd reader) LVWW_CITY_DB_READ_SIZE w of
          (count, data, w) \<Rightarrow>
            if count \<le> 0 then (-1, reader, w)
            else
              let reader = reader\<lparr>rdr_buffer := memcpy_at (rdr_buffer reader) 0 data, rdr_position := 0,
                                  rdr_length := nat count\<rparr>
              in (int (unat (rdr_buffer reader ! rdr_position reader)),
                  reader\<lparr>rdr_position := rdr_position reader + 1\<rparr>, w)
      else (int (unat (rdr_buffer reader ! rdr_position reader)),
            reader\<lparr>rdr_position := rdr_position reader + 1\<rparr>, w))"

text \<open>The loop ends with the last value read; \<open>used\<close> is the length of \<open>line\<close>.\<close>

partial_function (option) city_line_loop ::
  "'w fs_ops \<Rightarrow> nat \<Rightarrow> bytes \<Rightarrow> bool \<Rightarrow> lvww_city_reader_t \<Rightarrow> 'w \<Rightarrow>
     (int \<times> bytes \<times> bool \<times> lvww_city_reader_t \<times> 'w) option" where
  "city_line_loop F capacity line overflow reader w =
     (case city_reader_getc F reader w of
        (v, reader, w) \<Rightarrow>
          if v < 0 then Some (v, line, overflow, reader, w)
          else if v = 13 then city_line_loop F capacity line overflow reader w
          else if v = 10 then Some (v, line, overflow, reader, w)
          else if length line + 1 < capacity
          then city_line_loop F capacity (line @ [word_of_int v]) overflow reader w
          else city_line_loop F capacity line True reader w)"

text \<open>The result is the returned value and the characters stored.\<close>

definition city_reader_line ::
  "'w fs_ops \<Rightarrow> nat \<Rightarrow> lvww_city_reader_t \<Rightarrow> 'w \<Rightarrow> (int \<times> bytes \<times> lvww_city_reader_t \<times> 'w) option" where
  "city_reader_line F capacity reader w =
     (case city_line_loop F capacity [] False reader w of
        None \<Rightarrow> None
      | Some (v, line, overflow, reader, w) \<Rightarrow>
          Some (if v < 0 \<and> line = [] then 0
                else if overflow then - RT_EFULL
                else int (length line), line, reader, w))"

section \<open>Fields and scores\<close>

text \<open>The tab that ends a field becomes its NUL; the last field is the rest of the line.\<close>

fun city_split_loop :: "nat \<Rightarrow> bytes \<Rightarrow> bytes \<Rightarrow> bytes list" where
  "city_split_loop room field [] = [field]"
| "city_split_loop room field (b # line) =
     (if room = 0 then [field @ b # line]
      else if b = 9 then field # city_split_loop (room - 1) [] line
      else city_split_loop room (field @ [b]) line)"

definition city_split_fields :: "bytes \<Rightarrow> nat \<Rightarrow> bytes list" where
  "city_split_fields line capacity =
     (if capacity = 0 then [] else city_split_loop (capacity - 1) [] line)"

definition city_copy_text :: "nat \<Rightarrow> bytes \<Rightarrow> bytes" where
  "city_copy_text capacity source = c_array capacity (take (capacity - 1) source)"

definition city_is_prefecture :: "bytes \<Rightarrow> bool" where
  "city_is_prefecture adcode \<longleftrightarrow> length adcode = 6 \<and> adcode ! 4 = 48 \<and> adcode ! 5 = 48"

definition city_match_score :: "bytes list \<Rightarrow> bytes \<Rightarrow> int" where
  "city_match_score items query =
     (let name_en = items ! 1; name_zh = items ! 2; adm1_zh = items ! 3; adm2_zh = items ! 4;
          score = (if city_text_equal_ci name_en query \<or> city_text_equal_ci name_zh query then 1000
                   else if city_text_starts_ci name_en query \<or> city_text_starts_ci name_zh query then 700
                   else if city_text_contains_ci name_en query \<or> city_text_contains_ci name_zh query then 450
                   else if city_text_contains_ci adm2_zh query then 250
                   else if city_text_contains_ci adm1_zh query then 150
                   else 0)
      in if score = 0 then 0
         else
           let score = (if city_is_prefecture (items ! 9) then score + 200 else score)
           in if name_zh \<noteq> [] \<and> city_text_starts_ci adm2_zh name_zh then score + 120 else score)"

definition city_of_fields :: "(bytes \<Rightarrow> u64) \<Rightarrow> bytes list \<Rightarrow> lvww_city_t" where
  "city_of_fields strtod items =
     \<lparr>city_id = city_copy_text 32 (items ! 0), city_name = city_copy_text 48 (items ! 2),
      city_admin = city_copy_text 48 (items ! 3), city_country = city_copy_text 48 (items ! 5),
      city_timezone = city_copy_text 40 (items ! 6), city_latitude = strtod (items ! 7),
      city_longitude = strtod (items ! 8)\<rparr>"

section \<open>The best results\<close>

fun insert_position :: "int list \<Rightarrow> nat \<Rightarrow> int \<Rightarrow> nat" where
  "insert_position (s # scores) (Suc count) score =
     (if s \<ge> score then Suc (insert_position scores count score) else 0)"
| "insert_position scores count score = 0"

definition city_insert_result ::
  "nat \<Rightarrow> lvww_city_t \<Rightarrow> int \<Rightarrow> lvww_city_t list \<times> int list \<times> nat \<Rightarrow> lvww_city_t list \<times> int list \<times> nat" where
  "city_insert_result capacity city score =
     (\<lambda>(cities, scores, count).
        let position = insert_position scores count score
        in if position \<ge> capacity then (cities, scores, count)
           else
             let count = (if count < capacity then count + 1 else count);
                 move_count = count - position - 1;
                 cities = memcpy_at cities (position + 1) (take move_count (drop position cities));
                 scores = memcpy_at scores (position + 1) (take move_count (drop position scores))
             in (cities[position := city], scores[position := score], count))"

partial_function (option) city_search_loop ::
  "'w fs_ops \<Rightarrow> (bytes \<Rightarrow> u64) \<Rightarrow> bytes \<Rightarrow> nat \<Rightarrow> lvww_city_t list \<times> int list \<times> nat \<Rightarrow>
     lvww_city_reader_t \<Rightarrow> 'w \<Rightarrow> ((lvww_city_t list \<times> int list \<times> nat) \<times> 'w) option" where
  "city_search_loop F strtod query capacity results reader w =
     (case city_reader_line F LVWW_CITY_DB_LINE_SIZE reader w of
        None \<Rightarrow> None
      | Some (line_length, line, reader, w) \<Rightarrow>
          if line_length = 0 then Some (results, w)
          else if line_length < 0 then city_search_loop F strtod query capacity results reader w
          else
            let items = city_split_fields (c_str line) LVWW_CITY_DB_FIELD_COUNT
            in if length items \<noteq> LVWW_CITY_DB_FIELD_COUNT
               then city_search_loop F strtod query capacity results reader w
               else
                 let score = city_match_score items query
                 in if score = 0 then city_search_loop F strtod query capacity results reader w
                    else city_search_loop F strtod query capacity
                           (city_insert_result capacity (city_of_fields strtod items) score results) reader w)"

definition LVWW_CITY_DB_MAGIC :: bytes where "LVWW_CITY_DB_MAGIC = ascii ''#LVWW_CITY_DB_V1''"
definition LVWW_ASSET_CITY_DB_PATH :: bytes where "LVWW_ASSET_CITY_DB_PATH = ascii ''/ui/data/cities_zh.tsv''"

text \<open>
  The array \<open>cities\<close> of the caller is returned with the number of entries that were stored; the
  result is \<open>None\<close> if a line never ends.
\<close>

definition lvww_assets_city_search ::
  "'w fs_ops \<Rightarrow> (bytes \<Rightarrow> u64) \<Rightarrow> bytes option \<Rightarrow> lvww_city_t list \<Rightarrow> nat \<Rightarrow> 'w \<Rightarrow>
     (nat \<times> lvww_city_t list \<times> 'w) option" where
  "lvww_assets_city_search F strtod query cities capacity w =
     (case query of
        None \<Rightarrow> Some (0, cities, w)
      | Some query \<Rightarrow>
          if query = [] \<or> capacity = 0 then Some (0, cities, w)
          else
            let capacity = (if capacity > LVWW_MAX_CITY_RESULTS then LVWW_MAX_CITY_RESULTS else capacity)
            in case fs_open F LVWW_ASSET_CITY_DB_PATH w of
                 (fd, w) \<Rightarrow>
                   if fd < 0 then Some (0, cities, w)
                   else
                     let reader = \<lparr>rdr_fd = fd, rdr_buffer = replicate 512 0, rdr_position = 0, rdr_length = 0\<rparr>
                     in case city_reader_line F LVWW_CITY_DB_LINE_SIZE reader w of
                          None \<Rightarrow> None
                        | Some (line_length, line, reader, w) \<Rightarrow>
                            if line_length \<le> 0 \<or> c_str line \<noteq> LVWW_CITY_DB_MAGIC
                            then Some (0, cities, snd (fs_close F fd w))
                            else
                              (case city_reader_line F LVWW_CITY_DB_LINE_SIZE reader w of
                                 None \<Rightarrow> None
                               | Some (n, line, reader, w) \<Rightarrow>
                                   (case city_search_loop F strtod query capacity
                                           (cities, replicate 8 0, 0) reader w of
                                      None \<Rightarrow> None
                                    | Some ((cities, scores, count), w) \<Rightarrow>
                                        Some (count, cities, snd (fs_close F fd w)))))"

section \<open>Lines are read exactly\<close>

text \<open>What has not been read yet: the rest of the block, and the rest of the file.\<close>

definition reader_ok :: "int \<Rightarrow> lvww_city_reader_t \<Rightarrow> bool" where
  "reader_ok fd reader \<longleftrightarrow> rdr_fd reader = fd \<and> length (rdr_buffer reader) = LVWW_CITY_DB_READ_SIZE \<and>
     rdr_position reader \<le> rdr_length reader \<and> rdr_length reader \<le> LVWW_CITY_DB_READ_SIZE"

definition unread :: "('w \<Rightarrow> bytes) \<Rightarrow> lvww_city_reader_t \<Rightarrow> 'w \<Rightarrow> bytes" where
  "unread rest reader w = drop (rdr_position reader) (take (rdr_length reader) (rdr_buffer reader)) @ rest w"

lemma getc_unread:
  assumes F: "file_reads F fd rest" and ok: "reader_ok fd reader"
    and getc: "city_reader_getc F reader w = (v, reader', w')"
  shows "reader_ok fd reader' \<and>
    (case unread rest reader w of
       [] \<Rightarrow> v = -1 \<and> unread rest reader' w' = []
     | b # bs \<Rightarrow> v = int (unat b) \<and> unread rest reader' w' = bs)"
proof (cases "rdr_position reader \<ge> rdr_length reader")
  case True
  then have u: "unread rest reader w = rest w" using ok by (simp add: unread_def reader_ok_def)
  obtain count data w1 where read: "fs_read F fd LVWW_CITY_DB_READ_SIZE w = (count, data, w1)" by (metis surj_pair)
  then have spec: "if rest w = [] then count \<le> 0 \<and> rest w1 = []
      else 0 < count \<and> count \<le> 512 \<and> length data = nat count \<and> rest w = data @ rest w1"
    using F [unfolded file_reads_def, rule_format, of 512 w] by (auto split: if_splits)
  show ?thesis
  proof (cases "rest w = []")
    case True
    then show ?thesis
      using getc spec read ok u \<open>rdr_position reader \<ge> rdr_length reader\<close>
      by (auto simp: city_reader_getc_def reader_ok_def unread_def)
  next
    case False
    then have n: "0 < count" "nat count \<le> 512" "length data = nat count" "rest w = data @ rest w1" using spec by auto
    then obtain b bs where data: "data = b # bs" by (cases data) auto
    then have c: "nat count = Suc (length bs)" "length bs < 512" using n by simp_all
    then have "take (Suc (length bs)) (memcpy_at (rdr_buffer reader) 0 data) = data"
      using ok data by (simp add: memcpy_at_def reader_ok_def)
    moreover have "memcpy_at (rdr_buffer reader) 0 data ! 0 = b" using data by (simp add: memcpy_at_def)
    ultimately show ?thesis
      using getc read ok u n data c \<open>rdr_position reader \<ge> rdr_length reader\<close>
      by (auto simp: city_reader_getc_def reader_ok_def unread_def Let_def)
  qed
next
  case False
  then have "drop (rdr_position reader) (take (rdr_length reader) (rdr_buffer reader)) =
      rdr_buffer reader ! rdr_position reader # drop (Suc (rdr_position reader)) (take (rdr_length reader) (rdr_buffer reader))"
    using ok Cons_nth_drop_Suc [of "rdr_position reader" "take (rdr_length reader) (rdr_buffer reader)"]
    by (simp add: reader_ok_def)
  then show ?thesis
    using False getc ok by (auto simp: city_reader_getc_def reader_ok_def unread_def)
qed

text \<open>The characters of the next line, without carriage returns, and what stands behind it.\<close>

definition line_chars :: "bytes \<Rightarrow> bytes" where
  "line_chars content = filter (\<lambda>b. b \<noteq> 13) (takeWhile (\<lambda>b. b \<noteq> 10) content)"

definition behind_line :: "bytes \<Rightarrow> bytes" where
  "behind_line content = drop 1 (dropWhile (\<lambda>b. b \<noteq> 10) content)"

lemma byte_values: "int (unat (b :: u8)) = 13 \<longleftrightarrow> b = 13" "int (unat (b :: u8)) = 10 \<longleftrightarrow> b = 10"
  using word_uint_eq_iff [of b 13] word_uint_eq_iff [of b 10] by simp_all

lemma line_loop_exact:
  assumes F: "file_reads F fd rest" and "reader_ok fd reader" "length line < capacity"
  shows "\<exists>v reader' w'. city_line_loop F capacity line overflow reader w =
      Some (v, line @ take (capacity - 1 - length line) (line_chars (unread rest reader w)),
        overflow \<or> capacity - 1 < length line + length (line_chars (unread rest reader w)), reader', w') \<and>
    reader_ok fd reader' \<and> unread rest reader' w' = behind_line (unread rest reader w) \<and>
    (v < 0 \<longleftrightarrow> 10 \<notin> set (unread rest reader w))"
  using assms(2,3)
proof (induction "unread rest reader w" arbitrary: line overflow reader w)
  case Nil
  obtain v r w1 where g: "city_reader_getc F reader w = (v, r, w1)" by (metis surj_pair)
  then show ?case
    using getc_unread [OF F Nil(2) g] Nil(1) [symmetric] Nil(3)
    by (auto simp: city_line_loop.simps line_chars_def behind_line_def)
next
  case (Cons b bs)
  obtain v r w1 where g: "city_reader_getc F reader w = (v, r, w1)" by (metis surj_pair)
  have spec: "reader_ok fd r" "v = int (unat b)" "unread rest r w1 = bs"
    using getc_unread [OF F Cons(3) g] Cons(2) [symmetric] by simp_all
  have b: "v = 13 \<longleftrightarrow> b = 13" "v = 10 \<longleftrightarrow> b = 10" "\<not> v < 0" "word_of_int v = b"
    using spec(2) byte_values by simp_all
  note IH = Cons(1) [OF spec(3) [symmetric] spec(1)]
  consider "b = 13" | "b = 10" | "b \<noteq> 13" "b \<noteq> 10" "length line + 1 < capacity"
    | "b \<noteq> 13" "b \<noteq> 10" "\<not> length line + 1 < capacity"
    by blast
  then show ?case
  proof cases
    case 1
    then show ?thesis
      using IH [of line overflow] g b Cons(2) [symmetric] Cons(4) spec(3)
      by (simp add: city_line_loop.simps [of F capacity line] line_chars_def behind_line_def)
  next
    case 2
    then show ?thesis
      using g b Cons(2) [symmetric] Cons(4) spec
      by (auto simp: city_line_loop.simps line_chars_def behind_line_def)
  next
    case 3
    then obtain k where k: "capacity - 1 - length line = Suc k" "capacity - 1 - length (line @ [b]) = k"
      by (cases "capacity - 1 - length line") auto
    show ?thesis
      using IH [of "line @ [b]" overflow] g b Cons(2) [symmetric] spec(3) 3 k
      by (simp add: city_line_loop.simps [of F capacity line] line_chars_def behind_line_def)
  next
    case 4
    then have k: "capacity - 1 - length line = 0" by simp
    show ?thesis
      using IH [of line True] g b Cons(2) [symmetric] Cons(4) spec(3) 4 k
      by (auto simp: city_line_loop.simps [of F capacity line] line_chars_def behind_line_def)
  qed
qed

lemma reader_line_exact:
  assumes "file_reads F fd rest" "reader_ok fd reader" "1 < capacity"
  obtains reader' w' where
    "city_reader_line F capacity reader w =
       Some (if capacity \<le> length (line_chars (unread rest reader w)) then - RT_EFULL
             else int (length (line_chars (unread rest reader w))),
         take (capacity - 1) (line_chars (unread rest reader w)), reader', w')"
    "reader_ok fd reader'" "unread rest reader' w' = behind_line (unread rest reader w)"
proof -
  from line_loop_exact [OF assms(1,2), of "[]" capacity False w] assms(3)
  obtain v reader' w' where l: "city_line_loop F capacity [] False reader w =
      Some (v, take (capacity - 1) (line_chars (unread rest reader w)),
        capacity - 1 < length (line_chars (unread rest reader w)), reader', w')"
    and ok: "reader_ok fd reader'" "unread rest reader' w' = behind_line (unread rest reader w)"
    by auto
  have "city_reader_line F capacity reader w =
       Some (if capacity \<le> length (line_chars (unread rest reader w)) then - RT_EFULL
             else int (length (line_chars (unread rest reader w))),
         take (capacity - 1) (line_chars (unread rest reader w)), reader', w')"
    using l assms(3) by (auto simp: city_reader_line_def not_le)
  from that [OF this ok] show ?thesis .
qed

section \<open>The lines of a file\<close>

text \<open>All lines of a file; after a final newline there is no further line.\<close>

fun db_lines :: "bytes \<Rightarrow> bytes list" where
  "db_lines [] = []"
| "db_lines (b # bs) =
     (if b = 10 then [] # db_lines bs
      else case db_lines bs of
        [] \<Rightarrow> [if b = 13 then [] else [b]]
      | line # lines \<Rightarrow>
          if bs = [] then [if b = 13 then [] else [b]]
          else (if b = 13 then line else b # line) # lines)"

lemma db_lines_empty: "db_lines bs = [] \<longleftrightarrow> bs = []"
  by (induction bs) (auto split: list.split)

lemma db_lines_step: "content \<noteq> [] \<Longrightarrow> db_lines content = line_chars content # db_lines (behind_line content)"
proof (induction content)
  case (Cons b bs)
  then show ?case
    by (cases "bs = []") (auto simp: line_chars_def behind_line_def)
qed simp

lemma length_behind_line: "content \<noteq> [] \<Longrightarrow> length (behind_line content) < length content"
  using length_dropWhile_le [of "\<lambda>b. b \<noteq> 10" content] by (cases content) (auto simp: behind_line_def)

section \<open>Splitting undoes joining\<close>

fun join_tabs :: "bytes list \<Rightarrow> bytes" where
  "join_tabs [] = []"
| "join_tabs [item] = item"
| "join_tabs (item # items) = item @ 9 # join_tabs items"

lemma split_loop_item: "9 \<notin> set item \<Longrightarrow> 0 < room \<Longrightarrow>
    city_split_loop room acc (item @ 9 # line) = (acc @ item) # city_split_loop (room - 1) [] line"
  by (induction item arbitrary: acc) auto

lemma split_loop_last: "9 \<notin> set item \<Longrightarrow> city_split_loop room acc item = [acc @ item]"
  by (induction item arbitrary: acc) auto

lemma split_join_tabs:
  "items \<noteq> [] \<Longrightarrow> (\<And>item. item \<in> set items \<Longrightarrow> 9 \<notin> set item) \<Longrightarrow>
   city_split_fields (join_tabs items) (length items) = items"
proof (induction items rule: join_tabs.induct)
  case (3 item item' items)
  then show ?case
    using split_loop_item [of item "Suc (length items)" "[]" "join_tabs (item' # items)"]
    by (simp add: city_split_fields_def)
qed (simp_all add: city_split_fields_def split_loop_last)

section \<open>The best results are kept\<close>

text \<open>A stable sort adds a new last element behind those that are at least as good.\<close>

lemma insort_between:
  "insort_key f a (takeWhile (\<lambda>y. f y \<le> f x) ys @ x # dropWhile (\<lambda>y. f y \<le> f x) ys) =
   takeWhile (\<lambda>y. f y \<le> f x) (insort_key f a ys) @ x # dropWhile (\<lambda>y. f y \<le> f x) (insort_key f a ys)"
  by (induction ys) auto

lemma sort_key_snoc:
  "sort_key f (xs @ [x]) =
   takeWhile (\<lambda>y. f y \<le> f x) (sort_key f xs) @ x # dropWhile (\<lambda>y. f y \<le> f x) (sort_key f xs)"
  by (induction xs) (simp_all add: insort_between)

text \<open>Inserting into the used part of an array.\<close>

lemma array_insert:
  assumes "position \<le> count" "count \<le> n" "position < n" "n \<le> length xs" "count' = min n (count + 1)"
  shows "take count' ((memcpy_at xs (position + 1) (take (count' - position - 1) (drop position xs)))[position := x]) =
    take count' (take position (take count xs) @ x # drop position (take count xs))"
proof -
  let ?m = "count' - position - 1"
  have m: "?m \<le> length (drop position xs)" "position + 1 + ?m = count'" "?m \<le> count - position"
    using assms by (auto simp: min_def)
  have moved: "memcpy_at xs (position + 1) (take ?m (drop position xs)) =
      take position xs @ xs ! position # take ?m (drop position xs) @ drop count' xs"
    using assms m by (simp add: memcpy_at_def take_Suc_conv_app_nth)
  have "(memcpy_at xs (position + 1) (take ?m (drop position xs)))[position := x] =
      take position xs @ x # take ?m (drop position xs) @ drop count' xs"
    unfolding moved using assms by (simp add: list_update_append)
  moreover have "take ?m (drop position xs) = take ?m (drop position (take count xs))"
    using m(3) by (simp add: drop_take)
  ultimately show ?thesis
    using assms m by (simp add: take_Cons' min_def split: if_splits)
qed

lemma insert_position_takeWhile:
  "count \<le> length scores \<Longrightarrow>
   insert_position scores count score = length (takeWhile (\<lambda>s. s \<ge> score) (take count scores))"
  by (induction scores count score rule: insert_position.induct) auto

text \<open>The arrays hold the best \<open>capacity\<close> results of those that were offered.\<close>

definition best_results ::
  "nat \<Rightarrow> (int \<times> lvww_city_t) list \<Rightarrow> lvww_city_t list \<times> int list \<times> nat \<Rightarrow> bool" where
  "best_results capacity offered = (\<lambda>(cities, scores, count).
     length cities = LVWW_MAX_CITY_RESULTS \<and> length scores = LVWW_MAX_CITY_RESULTS \<and>
     count = min capacity (length offered) \<and>
     zip (take count scores) (take count cities) = take capacity (sort_key (\<lambda>p. - fst p) offered))"

lemma takeWhile_take: "takeWhile P (take n xs) = take n (takeWhile P xs)"
  by (induction xs arbitrary: n) (auto simp: take_Cons' )

lemma insert_best_results:
  assumes best: "best_results capacity offered results" and cap: "0 < capacity" "capacity \<le> LVWW_MAX_CITY_RESULTS"
  shows "best_results capacity (offered @ [(score, city)]) (city_insert_result capacity city score results)"
proof -
  obtain cities scores count where r: "results = (cities, scores, count)" by (metis prod_cases3)
  let ?f = "\<lambda>p :: int \<times> lvww_city_t. - fst p"
  define S where "S = sort_key ?f offered"
  define before where "before = takeWhile (\<lambda>y. ?f y \<le> ?f (score, city)) S"
  define behind where "behind = dropWhile (\<lambda>y. ?f y \<le> ?f (score, city)) S"
  have len: "length cities = 8" "length scores = 8" and count: "count = min capacity (length S)"
    and L: "zip (take count scores) (take count cities) = take capacity S"
    using best by (auto simp: r best_results_def S_def)
  have S: "before @ behind = S" by (simp add: before_def behind_def)
  have goal: "take capacity (sort_key ?f (offered @ [(score, city)])) = take capacity (before @ (score, city) # behind)"
    by (simp only: sort_key_snoc S_def [symmetric] before_def behind_def)
  let ?pos = "insert_position scores count score"
  have "takeWhile (\<lambda>s. s \<ge> score) (map fst (zip (take count scores) (take count cities))) =
      map fst (take capacity before)"
    unfolding L by (simp add: before_def takeWhile_map comp_def takeWhile_take)
  then have pos: "?pos = min capacity (length before)"
    using len count cap by (simp add: insert_position_takeWhile min_def)
  show ?thesis
  proof (cases "?pos \<ge> capacity")
    case True
    then have "capacity \<le> length before" using pos by simp
    moreover from this have "length S \<ge> capacity" unfolding S [symmetric] by simp
    ultimately have "take capacity (before @ (score, city) # behind) = take capacity S" "count = capacity"
      using count S [symmetric] by simp_all
    then show ?thesis
      using True L goal len count \<open>length S \<ge> capacity\<close>
      by (simp add: r city_insert_result_def Let_def best_results_def S_def)
  next
    case False
    then have p: "?pos = length before" "length before < capacity" using pos by auto
    then have pc: "?pos \<le> count" using count S [symmetric] by simp
    define count' where "count' = min capacity (count + 1)"
    have count'': "(if count < capacity then count + 1 else count) = count'"
      using count by (auto simp: count'_def)
    let ?new = "\<lambda>xs x. (memcpy_at xs (?pos + 1) (take (count' - ?pos - 1) (drop ?pos xs)))[?pos := x]"
    have new: "take count' (?new xs x) = take count' (take ?pos (take count xs) @ x # drop ?pos (take count xs))"
      if "length xs = 8" for xs :: "'x list" and x
      using array_insert [of ?pos count capacity xs count' x] pc p count cap that count'_def by simp
    have L': "take ?pos (take capacity S) = before" "drop ?pos (take capacity S) = take (capacity - length before) behind"
      using p S [symmetric] by simp_all
    have "zip (take count' (?new scores score)) (take count' (?new cities city)) =
        take count' (zip (take ?pos (take count scores) @ score # drop ?pos (take count scores))
          (take ?pos (take count cities) @ city # drop ?pos (take count cities)))"
      using new [OF len(1)] new [OF len(2)] by (simp only: take_zip)
    also have "\<dots> = take count' (take ?pos (take capacity S) @ (score, city) # drop ?pos (take capacity S))"
      unfolding L [symmetric] using pc len count cap by (simp add: zip_append take_zip drop_zip min_def)
    also have "\<dots> = take capacity (before @ (score, city) # behind)"
      unfolding L' using p count S [symmetric] by (auto simp: count'_def min_def take_Cons')
    finally have "zip (take count' (?new scores score)) (take count' (?new cities city)) =
      take capacity (before @ (score, city) # behind)" .
    moreover have newlen: "length (?new xs x) = 8" if "length xs = 8" for xs :: "'x list" and x
    proof -
      have "count' \<le> 8" "?pos < 8" using cap p by (simp_all add: count'_def)
      then show ?thesis using that by simp
    qed
    moreover have "city_insert_result capacity city score results = (?new cities city, ?new scores score, count')"
      using False by (simp only: r city_insert_result_def Let_def prod.case count'' if_False)
    moreover have "count' = min capacity (length (offered @ [(score, city)]))"
      using count by (simp add: count'_def S_def)
    ultimately show ?thesis
      using goal newlen [OF len(1)] newlen [OF len(2)]
      by (simp only: best_results_def prod.case)
  qed
qed

section \<open>The search\<close>

text \<open>What a line contributes, and what the lines of a file do: they are used up to the first empty one.\<close>

definition city_match :: "(bytes \<Rightarrow> u64) \<Rightarrow> bytes \<Rightarrow> bytes \<Rightarrow> (int \<times> lvww_city_t) option" where
  "city_match strtod query line =
     (let items = city_split_fields (c_str line) LVWW_CITY_DB_FIELD_COUNT
      in if LVWW_CITY_DB_LINE_SIZE \<le> length line \<or> length items \<noteq> LVWW_CITY_DB_FIELD_COUNT \<or>
            city_match_score items query = 0 then None
         else Some (city_match_score items query, city_of_fields strtod items))"

definition city_matches :: "(bytes \<Rightarrow> u64) \<Rightarrow> bytes \<Rightarrow> bytes list \<Rightarrow> (int \<times> lvww_city_t) list" where
  "city_matches strtod query lines =
     List.map_filter (city_match strtod query) (takeWhile (\<lambda>line. line \<noteq> []) lines)"

lemma city_matches_Cons:
  "city_matches strtod query (line # lines) =
     (if line = [] then []
      else (case city_match strtod query line of None \<Rightarrow> [] | Some m \<Rightarrow> [m]) @ city_matches strtod query lines)"
  by (simp add: city_matches_def List.map_filter_def split: option.split)

lemma search_loop_exact:
  assumes F: "file_reads F fd rest" and cap: "0 < capacity" "capacity \<le> LVWW_MAX_CITY_RESULTS"
    and "reader_ok fd reader" "best_results capacity offered results"
  shows "\<exists>results' w'. city_search_loop F strtod query capacity results reader w = Some (results', w') \<and>
    best_results capacity (offered @ city_matches strtod query (db_lines (unread rest reader w))) results'"
  using assms(4,5)
proof (induction "length (unread rest reader w)" arbitrary: reader w results offered rule: less_induct)
  case less
  let ?content = "unread rest reader w" and ?line = "line_chars (unread rest reader w)"
  obtain reader' w' where l: "city_reader_line F LVWW_CITY_DB_LINE_SIZE reader w =
       Some (if LVWW_CITY_DB_LINE_SIZE \<le> length ?line then - RT_EFULL else int (length ?line), take 383 ?line, reader', w')"
    and ok: "reader_ok fd reader'" and u: "unread rest reader' w' = behind_line ?content"
    using reader_line_exact [OF F less(2), of 384 w] by auto
  show ?case
  proof (cases "?line = []")
    case True
    then have "city_search_loop F strtod query capacity results reader w = Some (results, w')"
      using l by (simp add: city_search_loop.simps)
    moreover have "city_matches strtod query (db_lines ?content) = []"
      using True db_lines_step [of ?content] by (cases "?content = []") (simp_all add: city_matches_def List.map_filter_def)
    ultimately show ?thesis using less(3) by simp
  next
    case False
    then have c: "?content \<noteq> []" by (auto simp: line_chars_def)
    have "length (unread rest reader' w') < length ?content" using u length_behind_line [OF c] by simp
    note IH = less(1) [OF this ok, unfolded u]
    have lines: "db_lines ?content = ?line # db_lines (behind_line ?content)" by (rule db_lines_step [OF c])
    let ?items = "city_split_fields (c_str ?line) LVWW_CITY_DB_FIELD_COUNT"
    show ?thesis
    proof (cases "city_match strtod query ?line")
      case None
      then have "city_search_loop F strtod query capacity results reader w =
          city_search_loop F strtod query capacity results reader' w'"
        using l False by (subst city_search_loop.simps)
          (auto simp: city_match_def Let_def split: if_splits)
      then show ?thesis using IH [OF less(3)] None False by (simp add: lines city_matches_Cons)
    next
      case (Some m)
      then have m: "m = (city_match_score ?items query, city_of_fields strtod ?items)" "length ?line < 384"
        by (auto simp: city_match_def Let_def split: if_splits)
      then have "city_search_loop F strtod query capacity results reader w =
          city_search_loop F strtod query capacity (city_insert_result capacity (snd m) (fst m) results) reader' w'"
        using l False Some by (subst city_search_loop.simps)
          (auto simp: city_match_def Let_def split: if_splits)
      moreover have "best_results capacity (offered @ [m]) (city_insert_result capacity (snd m) (fst m) results)"
        using insert_best_results [OF less(3) cap, of "fst m" "snd m"] by simp
      ultimately show ?thesis using IH Some False by (simp add: lines city_matches_Cons) fastforce
    qed
  qed
qed

text \<open>The results of a search: the best of all matches, in order, and earlier lines first.\<close>

definition city_search_spec :: "(bytes \<Rightarrow> u64) \<Rightarrow> bytes \<Rightarrow> nat \<Rightarrow> bytes \<Rightarrow> lvww_city_t list" where
  "city_search_spec strtod query capacity content =
     (case db_lines content of
        header # names # lines \<Rightarrow>
          if length header < LVWW_CITY_DB_LINE_SIZE \<and> c_str header = LVWW_CITY_DB_MAGIC
          then map snd (take (min capacity LVWW_MAX_CITY_RESULTS) (sort_key (\<lambda>p. - fst p) (city_matches strtod query lines)))
          else []
      | _ \<Rightarrow> [])"

text \<open>
  C12: The search of the city database returns exactly the best matches.  However the file system
  cuts the file into blocks, the search returns, and the cities stored are those of the lines of the
  file that match the query, the ones with the highest score first and those with equal scores in the
  order of the file, cut to the capacity of the caller and at most eight.  Only the lines before the
  first empty one count; lines that are too long, or do not have ten fields, are passed over.
\<close>

theorem city_search_result:
  assumes F: "\<And>fd. file_reads F fd (rest fd)"
    and opened: "fs_open F LVWW_ASSET_CITY_DB_PATH w = (fd, w1)" "0 \<le> fd"
    and query: "query \<noteq> []" "0 < capacity" and cities: "length cities = LVWW_MAX_CITY_RESULTS"
  shows "\<exists>n cities' w2. lvww_assets_city_search F strtod (Some query) cities capacity w = Some (n, cities', w2) \<and>
    length cities' = LVWW_MAX_CITY_RESULTS \<and>
    take n cities' = city_search_spec strtod query capacity (rest fd w1) \<and>
    n = length (city_search_spec strtod query capacity (rest fd w1))"
proof -
  define reader where "reader = \<lparr>rdr_fd = fd, rdr_buffer = replicate 512 0, rdr_position = 0, rdr_length = 0 :: nat\<rparr>"
  have ok: "reader_ok fd reader" and u: "unread (rest fd) reader w1 = rest fd w1"
    by (simp_all add: reader_def reader_ok_def unread_def)
  let ?content = "rest fd w1" and ?cap = "if capacity > LVWW_MAX_CITY_RESULTS then LVWW_MAX_CITY_RESULTS else capacity"
  have cap: "0 < ?cap" "?cap \<le> LVWW_MAX_CITY_RESULTS" "?cap = min capacity LVWW_MAX_CITY_RESULTS"
    using query(2) by auto
  let ?header = "line_chars ?content"
  obtain reader1 w2 where l1: "city_reader_line F LVWW_CITY_DB_LINE_SIZE reader w1 =
       Some (if LVWW_CITY_DB_LINE_SIZE \<le> length ?header then - RT_EFULL else int (length ?header), take 383 ?header, reader1, w2)"
    and ok1: "reader_ok fd reader1" and u1: "unread (rest fd) reader1 w2 = behind_line ?content"
    using reader_line_exact [OF F ok, of 384 w1, unfolded u] by auto
  obtain n2 names reader2 w3 where l2: "city_reader_line F LVWW_CITY_DB_LINE_SIZE reader1 w2 = Some (n2, names, reader2, w3)"
    and ok2: "reader_ok fd reader2" and u2: "unread (rest fd) reader2 w3 = behind_line (behind_line ?content)"
    using reader_line_exact [OF F ok1, of 384 w2] u1 by (metis one_less_numeral_iff semiring_norm(76))
  have "best_results ?cap [] (cities, replicate 8 0, 0)" using cities by (simp add: best_results_def)
  from search_loop_exact [OF F cap(1,2) ok2 this, of strtod query w3]
  obtain cities' scores n w4 where loop: "city_search_loop F strtod query ?cap (cities, replicate 8 0, 0) reader2 w3 =
      Some ((cities', scores, n), w4)"
    and best: "best_results ?cap (city_matches strtod query (db_lines (behind_line (behind_line ?content)))) (cities', scores, n)"
    using u2 by (auto simp del: split_paired_Ex)
  show ?thesis
  proof (cases "?header = [] \<or> LVWW_CITY_DB_LINE_SIZE \<le> length ?header \<or> c_str ?header \<noteq> LVWW_CITY_DB_MAGIC")
    case True
    then have "lvww_assets_city_search F strtod (Some query) cities capacity w = Some (0, cities, snd (fs_close F fd w2))"
      using opened query l1
      by (auto simp: lvww_assets_city_search_def reader_def [symmetric] Let_def)
    moreover have "city_search_spec strtod query capacity ?content = []"
      using True db_lines_step [of ?content]
      by (cases "?content = []")
        (auto simp: city_search_spec_def c_str_def LVWW_CITY_DB_MAGIC_def ascii_def split: list.split)
    ultimately show ?thesis using cities by simp
  next
    case False
    have "c_str (take 383 ?header) = c_str ?header" using False by simp
    then have call: "lvww_assets_city_search F strtod (Some query) cities capacity w = Some (n, cities', snd (fs_close F fd w4))"
      using False opened query l1 l2 loop
      by (simp add: lvww_assets_city_search_def reader_def [symmetric] Let_def del: One_nat_def)
    let ?lines = "db_lines (behind_line (behind_line ?content))"
    have spec: "city_search_spec strtod query capacity ?content =
        map snd (take ?cap (sort_key (\<lambda>p. - fst p) (city_matches strtod query ?lines)))"
    proof (cases "behind_line ?content = []")
      case True
      moreover have "behind_line [] = []" by (simp add: behind_line_def)
      ultimately show ?thesis
        using db_lines_step [of ?content] False
        by (cases "?content = []") (simp_all add: city_search_spec_def city_matches_def line_chars_def List.map_filter_def)
    next
      case names: False
      have "?content \<noteq> []" using False by (auto simp: line_chars_def)
      then show ?thesis
        using db_lines_step [of ?content] db_lines_step [OF names] False
        by (simp add: city_search_spec_def cap(3) not_le)
    qed
    have b: "length cities' = 8" "length scores = 8" "n = min ?cap (length (city_matches strtod query ?lines))"
      "zip (take n scores) (take n cities') = take ?cap (sort_key (\<lambda>p. - fst p) (city_matches strtod query ?lines))"
      using best unfolding best_results_def prod.case by blast+
    have "n \<le> 8" using b(3) cap(2) by simp
    then have "take n cities' = map snd (zip (take n scores) (take n cities'))" using b(1,2) by simp
    then have "take n cities' = city_search_spec strtod query capacity ?content" by (simp only: b(4) spec)
    moreover have "n = length (city_search_spec strtod query capacity ?content)" unfolding spec by (simp only: length_map length_take length_sort b(3) min.commute)
    ultimately show ?thesis using call b(1) by simp
  qed
qed

text \<open>A file system with one file that is read in blocks of at most seven bytes.\<close>

definition sample_db :: bytes where
  "sample_db = LVWW_CITY_DB_MAGIC @ [10] @ ascii ''columns'' @ [13, 10] @
     join_tabs (map ascii [''1'', ''Xian'', ''X'', ''A'', ''B'', ''C'', ''T'', ''34'', ''109'', ''610100'']) @ [10] @
     ascii ''broken'' @ [10] @
     join_tabs (map ascii [''2'', ''Xi'', ''Y'', ''A'', ''B'', ''C'', ''T'', ''35'', ''110'', ''610101'']) @ [10]"

definition sample_fs :: "bytes fs_ops" where
  "sample_fs = \<lparr>fs_open = (\<lambda>path w. (3, sample_db)),
     fs_read = (\<lambda>fd n w. (int (min 7 (min n (length w))), take (min 7 n) w, drop (min 7 n) w)),
     fs_lseek = (\<lambda>fd offset w. (0, w)), fs_close = (\<lambda>fd w. (0, w))\<rparr>"

lemma sample_fs_reads: "file_reads sample_fs fd (\<lambda>w. w)"
  by (auto simp: file_reads_def sample_fs_def min_def)

lemma sample_search: "map (\<lambda>city. c_str (city_id city)) (city_search_spec (\<lambda>s. 0) (ascii ''xi'') 3 sample_db) =
    [ascii ''2'', ascii ''1'']"
  by code_simp

lemma city_search_result_witness:
  "\<exists>n cities w. lvww_assets_city_search sample_fs (\<lambda>s. 0) (Some (ascii ''xi'')) (replicate 8 city_zero) 3 [] = Some (n, cities, w) \<and>
     map (\<lambda>city. c_str (city_id city)) (take n cities) = [ascii ''2'', ascii ''1'']"
proof -
  have opened: "fs_open sample_fs LVWW_ASSET_CITY_DB_PATH [] = (3, sample_db)" by (simp add: sample_fs_def)
  have "\<exists>n cities w. lvww_assets_city_search sample_fs (\<lambda>s. 0) (Some (ascii ''xi'')) (replicate 8 city_zero) 3 [] =
      Some (n, cities, w) \<and> take n cities = city_search_spec (\<lambda>s. 0) (ascii ''xi'') 3 sample_db"
    using city_search_result [where rest = "\<lambda>fd w. w", OF sample_fs_reads opened, of "ascii ''xi''" 3 "replicate 8 city_zero" "\<lambda>s. 0"]
    by (auto simp: ascii_def)
  then show ?thesis using sample_search by metis
qed

end
