(* ===== verification/Weather_Font.thy ===== *)
theory Weather_Font
  imports Weather_Cities
begin

text \<open>
  The streaming font of \<open>lvww_assets.c\<close>: a sorted table of code points in memory, bitmaps that are
  read from a file on demand, and a cache of eight bitmaps.  The operations of the file system are a
  parameter.
\<close>

section \<open>Data\<close>

definition LVWW_FONT_MAGIC :: bytes where "LVWW_FONT_MAGIC = ascii ''LVWWFNT1''"

abbreviation (input) LVWW_FONT_HEADER_SIZE :: nat where "LVWW_FONT_HEADER_SIZE \<equiv> 38"
abbreviation (input) LVWW_FONT_GLYPH_BYTES :: nat where "LVWW_FONT_GLYPH_BYTES \<equiv> 128"
abbreviation (input) RT_ENOMEM :: int where "RT_ENOMEM \<equiv> 5"
abbreviation (input) LVWW_FONT_CACHE_COUNT :: nat where "LVWW_FONT_CACHE_COUNT \<equiv> 8"

record lvww_glyph_cache_t =
  gly_codepoint :: u32
  gly_age :: u32
  gly_valid :: bool
  gly_bitmap :: bytes

text \<open>The fields of the \<open>lv_font_t\<close> that change are \<open>fnt_line_height\<close> and \<open>fnt_base_line\<close>.\<close>

record lvww_file_font_t =
  fnt_line_height :: u16
  fnt_base_line :: u16
  fnt_fd :: int
  fnt_glyph_count :: u32
  fnt_bitmap_offset :: u32
  fnt_codepoints :: "u32 list"
  fnt_cache_clock :: u32
  fnt_glyph_ofs_y :: u16
  fnt_cache :: "lvww_glyph_cache_t list"
  fnt_loaded :: bool
  fnt_prepared :: bool

definition glyph_cache_zero :: lvww_glyph_cache_t where
  "glyph_cache_zero = \<lparr>gly_codepoint = 0, gly_age = 0, gly_valid = False, gly_bitmap = replicate 128 0\<rparr>"

text \<open>The static object before anything is called.\<close>

definition file_font_zero :: lvww_file_font_t where
  "file_font_zero =
     \<lparr>fnt_line_height = 0, fnt_base_line = 0, fnt_fd = 0, fnt_glyph_count = 0, fnt_bitmap_offset = 0,
      fnt_codepoints = [], fnt_cache_clock = 0, fnt_glyph_ofs_y = 0,
      fnt_cache = replicate 8 glyph_cache_zero, fnt_loaded = False, fnt_prepared = False\<rparr>"

definition read_u16_le :: "bytes \<Rightarrow> u16" where
  "read_u16_le p = ucast (p ! 0) OR push_bit 8 (ucast (p ! 1))"

definition read_u32_le :: "bytes \<Rightarrow> u32" where
  "read_u32_le p = ucast (p ! 0) OR push_bit 8 (ucast (p ! 1)) OR
     push_bit 16 (ucast (p ! 2)) OR push_bit 24 (ucast (p ! 3))"

section \<open>Reading\<close>

text \<open>
  The loop of \<open>read_exact_at\<close>: \<open>data\<close> is what has been stored in the buffer, \<open>got\<close> is \<open>done\<close>.
\<close>

function read_exact_loop ::
  "'w fs_ops \<Rightarrow> int \<Rightarrow> nat \<Rightarrow> nat \<Rightarrow> bytes \<Rightarrow> 'w \<Rightarrow> int \<times> bytes \<times> 'w" where
  "read_exact_loop F fd n got data w =
     (if got < n then
        case fs_read F fd (n - got) w of
          (count, chunk, w) \<Rightarrow>
            if count \<le> 0 then (- RT_ERROR, data, w)
            else read_exact_loop F fd n (got + nat count) (data @ chunk) w
      else (RT_EOK, data, w))"
  by pat_completeness auto
termination
  by (relation "measure (\<lambda>(F, fd, n, got, data, w). n - got)") auto

declare read_exact_loop.simps [simp del]

definition read_exact_at :: "'w fs_ops \<Rightarrow> int \<Rightarrow> u32 \<Rightarrow> nat \<Rightarrow> 'w \<Rightarrow> int \<times> bytes \<times> 'w" where
  "read_exact_at F fd offset n w =
     (case fs_lseek F fd offset w of
        (position, w) \<Rightarrow>
          if position < 0 then (- RT_ERROR, [], w) else read_exact_loop F fd n 0 [] w)"

section \<open>Looking up\<close>

function find_loop :: "u32 list \<Rightarrow> u32 \<Rightarrow> int \<Rightarrow> int \<Rightarrow> int" where
  "find_loop codepoints codepoint low high =
     (if low \<le> high then
        let middle = low + (high - low) div 2; current = codepoints ! nat middle
        in if current = codepoint then middle
           else if current < codepoint then find_loop codepoints codepoint (middle + 1) high
           else find_loop codepoints codepoint low (middle - 1)
      else -1)"
  by pat_completeness auto
termination
  by (relation "measure (\<lambda>(codepoints, codepoint, low, high). nat (high - low + 1))") auto

declare find_loop.simps [simp del]

definition find_codepoint :: "lvww_file_font_t \<Rightarrow> u32 \<Rightarrow> int" where
  "find_codepoint state codepoint =
     find_loop (fnt_codepoints state) codepoint 0 (int (unat (fnt_glyph_count state)) - 1)"

record lv_font_glyph_dsc_t =
  dsc_adv_w :: nat
  dsc_box_w :: nat
  dsc_box_h :: nat
  dsc_ofs_x :: int
  dsc_ofs_y :: int
  dsc_bpp :: nat

definition file_font_get_glyph_dsc :: "lvww_file_font_t \<Rightarrow> u32 \<Rightarrow> lv_font_glyph_dsc_t option" where
  "file_font_get_glyph_dsc state letter =
     (if find_codepoint state letter < 0 then None
      else Some \<lparr>dsc_adv_w = 16, dsc_box_w = 16, dsc_box_h = 16, dsc_ofs_x = 0,
                 dsc_ofs_y = sint (fnt_glyph_ofs_y state), dsc_bpp = 4\<rparr>)"

text \<open>The loop over the cache: the entry that hits, or the victim.\<close>

fun cache_scan ::
  "u32 \<Rightarrow> lvww_glyph_cache_t list \<Rightarrow> nat \<Rightarrow> nat option \<Rightarrow> u32 \<Rightarrow> nat + nat option" where
  "cache_scan letter [] i victim oldest_age = Inr victim"
| "cache_scan letter (entry # cache) i victim oldest_age =
     (if gly_valid entry \<and> gly_codepoint entry = letter then Inl i
      else if \<not> gly_valid entry then cache_scan letter cache (i + 1) (Some i) oldest_age
      else if victim = None \<and> gly_age entry < oldest_age
      then cache_scan letter cache (i + 1) (Some i) (gly_age entry)
      else cache_scan letter cache (i + 1) victim oldest_age)"

definition file_font_get_bitmap ::
  "'w fs_ops \<Rightarrow> u32 \<Rightarrow> lvww_file_font_t \<Rightarrow> 'w \<Rightarrow> bytes option \<times> lvww_file_font_t \<times> 'w" where
  "file_font_get_bitmap F letter state w =
     (let index = find_codepoint state letter
      in if index < 0 then (None, state, w)
         else case cache_scan letter (fnt_cache state) 0 None 0xFFFFFFFF of
           Inl i \<Rightarrow>
             let clock = fnt_cache_clock state + 1; entry = (fnt_cache state ! i)\<lparr>gly_age := clock\<rparr>
             in (Some (gly_bitmap entry),
                 state\<lparr>fnt_cache_clock := clock, fnt_cache := (fnt_cache state)[i := entry]\<rparr>, w)
         | Inr None \<Rightarrow> (None, state, w)
         | Inr (Some i) \<Rightarrow>
             (case read_exact_at F (fnt_fd state) (fnt_bitmap_offset state + of_int index * 128)
                     LVWW_FONT_GLYPH_BYTES w of
                (rc, data, w) \<Rightarrow>
                  let old = fnt_cache state ! i;
                      entry = old\<lparr>gly_bitmap := memcpy_at (gly_bitmap old) 0 data\<rparr>
                  in if rc \<noteq> RT_EOK
                     then (None, state\<lparr>fnt_cache := (fnt_cache state)[i := entry]\<rparr>, w)
                     else
                       let clock = fnt_cache_clock state + 1;
                           entry = entry\<lparr>gly_codepoint := letter, gly_age := clock, gly_valid := True\<rparr>
                       in (Some (gly_bitmap entry),
                           state\<lparr>fnt_cache_clock := clock, fnt_cache := (fnt_cache state)[i := entry]\<rparr>, w)))"

section \<open>Loading and unloading\<close>

definition file_font_prepare :: "lvww_file_font_t \<Rightarrow> lvww_file_font_t" where
  "file_font_prepare state =
     (if fnt_prepared state then state
      else state\<lparr>fnt_fd := -1, fnt_glyph_ofs_y := - 2, fnt_line_height := 19, fnt_base_line := 3,
                 fnt_prepared := True\<rparr>)"

fun strictly_rising :: "u32 list \<Rightarrow> bool" where
  "strictly_rising (a # b # table) = (if a \<ge> b then False else strictly_rising (b # table))"
| "strictly_rising table = True"

text \<open>\<open>mem_ok\<close> says whether the table could be allocated.\<close>

definition file_font_open ::
  "'w fs_ops \<Rightarrow> bool \<Rightarrow> bytes \<Rightarrow> lvww_file_font_t \<Rightarrow> 'w \<Rightarrow> int \<times> lvww_file_font_t \<times> 'w" where
  "file_font_open F mem_ok path state w =
     (case fs_open F path w of
        (fd, w) \<Rightarrow>
          if fd < 0 then (- RT_ERROR, state, w)
          else case read_exact_at F fd 0 LVWW_FONT_HEADER_SIZE w of
            (rc, header, w) \<Rightarrow>
              if rc \<noteq> RT_EOK \<or> take 8 header \<noteq> LVWW_FONT_MAGIC \<or>
                 read_u16_le (drop 8 header) \<noteq> 1 \<or> read_u16_le (drop 10 header) \<noteq> 38 \<or>
                 read_u16_le (drop 12 header) \<noteq> 16 \<or> header ! 20 \<noteq> 4 \<or>
                 read_u16_le (drop 34 header) \<noteq> 128
              then (- RT_EINVAL, state, snd (fs_close F fd w))
              else
                let glyph_count = read_u32_le (drop 22 header);
                    codepoint_offset = read_u32_le (drop 26 header)
                in if glyph_count = 0 \<or> glyph_count > 30000 \<or> glyph_count > 0xFFFFFFFF div 4
                   then (- RT_EINVAL, state, snd (fs_close F fd w))
                   else if \<not> mem_ok then (- RT_ENOMEM, state, snd (fs_close F fd w))
                   else
                     (case read_exact_at F fd codepoint_offset (unat glyph_count * 4) w of
                        (rc, table, w) \<Rightarrow>
                          if rc \<noteq> RT_EOK then (- RT_ERROR, state, snd (fs_close F fd w))
                          else
                            let codepoints = map (\<lambda>i. read_u32_le (drop (4 * i) table)) [0 ..< unat glyph_count]
                            in if \<not> strictly_rising codepoints
                               then (- RT_EINVAL, state, snd (fs_close F fd w))
                               else
                                 let old_fd = (if fnt_loaded state then fnt_fd state else -1);
                                     state = state\<lparr>fnt_cache := replicate 8 glyph_cache_zero, fnt_cache_clock := 0,
                                       fnt_fd := fd, fnt_codepoints := codepoints, fnt_glyph_count := glyph_count,
                                       fnt_bitmap_offset := read_u32_le (drop 30 header),
                                       fnt_glyph_ofs_y := read_u16_le (drop 18 header),
                                       fnt_line_height := read_u16_le (drop 14 header),
                                       fnt_base_line := read_u16_le (drop 16 header), fnt_loaded := True\<rparr>
                                 in (RT_EOK, state, if old_fd \<ge> 0 then snd (fs_close F old_fd w) else w)))"

definition LVWW_ASSET_FONT_PATH :: bytes where
  "LVWW_ASSET_FONT_PATH = ascii ''/ui/fonts/lvww_source_han_sans_sc_16_4bpp.fnt''"

definition lvww_assets_reload ::
  "'w fs_ops \<Rightarrow> bool \<Rightarrow> lvww_file_font_t \<Rightarrow> 'w \<Rightarrow> int \<times> lvww_file_font_t \<times> 'w" where
  "lvww_assets_reload F mem_ok state w =
     file_font_open F mem_ok LVWW_ASSET_FONT_PATH (file_font_prepare state) w"

definition lvww_assets_init ::
  "'w fs_ops \<Rightarrow> bool \<Rightarrow> lvww_file_font_t \<Rightarrow> 'w \<Rightarrow> int \<times> lvww_file_font_t \<times> 'w" where
  "lvww_assets_init F mem_ok state w =
     (let state = file_font_prepare state
      in if fnt_loaded state then (RT_EOK, state, w) else lvww_assets_reload F mem_ok state w)"

definition lvww_assets_unload ::
  "'w fs_ops \<Rightarrow> lvww_file_font_t \<Rightarrow> 'w \<Rightarrow> int \<times> lvww_file_font_t \<times> 'w" where
  "lvww_assets_unload F state w =
     (let state = file_font_prepare state;
          old_fd = (if fnt_loaded state then fnt_fd state else -1);
          state = state\<lparr>fnt_loaded := False, fnt_fd := -1, fnt_codepoints := [], fnt_glyph_count := 0,
            fnt_bitmap_offset := 0, fnt_cache_clock := 0, fnt_cache := replicate 8 glyph_cache_zero\<rparr>
      in if old_fd \<ge> 0
         then (case fs_close F old_fd w of (rc, w) \<Rightarrow> (if rc \<noteq> 0 then - RT_ERROR else RT_EOK, state, w))
         else (RT_EOK, state, w))"

section \<open>Binary search\<close>

lemma strictly_rising_iff: "strictly_rising table \<longleftrightarrow> sorted_wrt (<) table"
proof (induction table rule: strictly_rising.induct)
  case (1 a b table)
  then show ?case using order.strict_trans by (auto simp: not_le)
qed simp_all

lemma rising_nth:
  fixes table :: "u32 list"
  assumes "sorted_wrt (<) table" "i < length table" "j < length table"
  shows "table ! i < table ! j \<longleftrightarrow> i < j" "table ! i = table ! j \<longleftrightarrow> i = j"
  using sorted_wrt_nth_less [OF assms(1), of i j] sorted_wrt_nth_less [OF assms(1), of j i] assms(2,3)
  by (cases i j rule: linorder_cases; auto)+

lemma find_loop_exact:
  fixes table :: "u32 list"
  assumes "sorted_wrt (<) table" "0 \<le> low" "high < int (length table)"
    and "\<And>i. i < length table \<Longrightarrow> table ! i = c \<Longrightarrow> low \<le> int i \<and> int i \<le> high"
  shows "find_loop table c low high = -1 \<and> c \<notin> set table \<or>
    (\<exists>i < length table. find_loop table c low high = int i \<and> table ! i = c)"
  using assms
proof (induction table c low high rule: find_loop.induct)
  case (1 table c low high)
  show ?case
  proof (cases "low \<le> high")
    case False
    then have "c \<notin> set table" using 1(6) by (fastforce simp: in_set_conv_nth)
    then show ?thesis using False by (simp add: find_loop.simps)
  next
    case True
    define m where "m = nat (low + (high - low) div 2)"
    have m: "low + (high - low) div 2 = int m" "m < length table" "low \<le> int m" "int m \<le> high"
      using True 1(4,5) by (auto simp: m_def)
    note step = find_loop.simps [of table c low high]
    consider "table ! m = c" | "table ! m < c" | "table ! m \<noteq> c" "\<not> table ! m < c" by blast
    then show ?thesis
    proof cases
      case 1
      then show ?thesis using m True by (simp add: step Let_def)
    next
      case 2
      have "int m + 1 \<le> int i \<and> int i \<le> high" if "i < length table" "table ! i = c" for i
        using rising_nth(1) [OF 1(3) m(2) that(1)] that 2 1(6) by simp
      then show ?thesis
        using 1(1) [OF True m(1) [symmetric] refl _ _ 1(3)] 2 m 1(5) True by (simp add: step Let_def)
    next
      case 3
      then have "c < table ! m" by simp
      then have "low \<le> int i \<and> int i \<le> int m - 1" if "i < length table" "table ! i = c" for i
        using rising_nth(1) [OF 1(3) that(1) m(2)] that 1(6) by simp
      then show ?thesis
        using 1(2) [OF True m(1) [symmetric] refl _ _ 1(3)] 3 m 1(4) True by (simp add: step Let_def)
    qed
  qed
qed

text \<open>Where a code point stands in a table.\<close>

definition code_index :: "u32 list \<Rightarrow> u32 \<Rightarrow> nat" where
  "code_index table letter = length (takeWhile (\<lambda>c. c \<noteq> letter) table)"

lemma code_index_less: "c \<in> set table \<Longrightarrow> code_index table c < length table"
  by (induction table) (auto simp: code_index_def)

lemma code_index_nth:
  fixes table :: "u32 list"
  assumes "sorted_wrt (<) table" "i < length table"
  shows "code_index table (table ! i) = i"
proof -
  have "table ! i = c \<longleftrightarrow> i = code_index table c" if "c \<in> set table" for c
  proof -
    have k: "code_index table c < length table"
      using that by (rule code_index_less)
    have "table ! code_index table c = c"
      using nth_length_takeWhile [of "\<lambda>x. x \<noteq> c" table] k by (simp add: code_index_def)
    then show ?thesis using rising_nth(2) [OF assms k] by metis
  qed
  then show ?thesis using assms(2) nth_mem by metis
qed

lemma find_codepoint_exact:
  assumes "sorted_wrt (<) (fnt_codepoints state)" "unat (fnt_glyph_count state) = length (fnt_codepoints state)"
  shows "find_codepoint state letter =
    (if letter \<in> set (fnt_codepoints state) then int (code_index (fnt_codepoints state) letter) else -1)"
  using find_loop_exact [OF assms(1), of 0 "int (length (fnt_codepoints state)) - 1" letter]
    code_index_nth [OF assms(1)] assms(2)
  by (auto simp: find_codepoint_def)

section \<open>Reading from a file\<close>

text \<open>
  A file whose bytes are \<open>content\<close>: \<open>lseek\<close> sets the position, and from there it is read
  sequentially.
\<close>

definition file_content :: "'w fs_ops \<Rightarrow> int \<Rightarrow> bytes \<Rightarrow> ('w \<Rightarrow> nat) \<Rightarrow> bool" where
  "file_content F fd content pos \<longleftrightarrow>
     (\<forall>offset w. case fs_lseek F fd offset w of (p, w') \<Rightarrow> 0 \<le> p \<and> pos w' = unat offset) \<and>
     file_reads F fd (\<lambda>w. drop (pos w) content)"

lemma read_exact_loop_exact:
  assumes F: "file_reads F fd rest" and "got \<le> n"
  shows "\<exists>w'. read_exact_loop F fd n got data w =
    (if n - got \<le> length (rest w) then RT_EOK else - RT_ERROR, data @ take (n - got) (rest w), w')"
  using assms(2)
proof (induction "n - got" arbitrary: got data w rule: less_induct)
  case less
  show ?case
  proof (cases "got < n")
    case False
    then show ?thesis using less(2) by (simp add: read_exact_loop.simps)
  next
    case True
    obtain count chunk w1 where read: "fs_read F fd (n - got) w = (count, chunk, w1)" by (metis surj_pair)
    have spec: "if rest w = [] then count \<le> 0 \<and> rest w1 = []
      else 0 < count \<and> count \<le> int (n - got) \<and> length chunk = nat count \<and> rest w = chunk @ rest w1"
      using F [unfolded file_reads_def, rule_format, of "n - got" w] read True by (auto split: if_splits)
    show ?thesis
    proof (cases "rest w = []")
      case True
      then show ?thesis using spec read \<open>got < n\<close> by (simp add: read_exact_loop.simps)
    next
      case False
      then have c: "0 < count" "nat count \<le> n - got" "length chunk = nat count" "rest w = chunk @ rest w1"
        using spec by auto
      then have "n - (got + nat count) < n - got" "got + nat count \<le> n" using \<open>got < n\<close> by auto
      from less(1) [OF this, of "data @ chunk" w1]
      show ?thesis
        using read c True by (auto simp: read_exact_loop.simps [of F fd n got])
    qed
  qed
qed

lemma read_exact_at_exact:
  assumes "file_content F fd content pos" "0 < n"
  shows "\<exists>w'. read_exact_at F fd offset n w =
    (if unat offset + n \<le> length content then RT_EOK else - RT_ERROR, take n (drop (unat offset) content), w')"
proof -
  obtain p w1 where s: "fs_lseek F fd offset w = (p, w1)" by (metis surj_pair)
  then have "0 \<le> p" "pos w1 = unat offset"
    using assms(1) by (auto simp: file_content_def dest!: spec [of _ offset] spec [of _ w])
  moreover have "file_reads F fd (\<lambda>w. drop (pos w) content)" using assms(1) by (simp add: file_content_def)
  from read_exact_loop_exact [OF this, of 0 n "[]" w1]
  obtain w' where "read_exact_loop F fd n 0 [] w1 =
      (if n \<le> length (drop (pos w1) content) then RT_EOK else - RT_ERROR, take n (drop (pos w1) content), w')"
    by auto
  ultimately show ?thesis using s assms(2) by (auto simp: read_exact_at_def)
qed

section \<open>The cache is transparent\<close>

lemma cache_scan_hit:
  "cache_scan letter cache i victim oldest = Inl j \<Longrightarrow>
   i \<le> j \<and> j < i + length cache \<and> gly_valid (cache ! (j - i)) \<and> gly_codepoint (cache ! (j - i)) = letter"
proof (induction letter cache i victim oldest rule: cache_scan.induct)
  case (2 letter entry cache i victim oldest)
  show ?case
  proof (cases "j = i")
    case True
    then show ?thesis using 2 by (auto split: if_splits)
  next
    case False
    then have "i + 1 \<le> j \<and> j < i + 1 + length cache \<and> gly_valid (cache ! (j - (i + 1))) \<and>
        gly_codepoint (cache ! (j - (i + 1))) = letter"
      using 2 by (auto split: if_splits)
    moreover from this have "j - i = Suc (j - (i + 1))" by (elim conjE) arith
    ultimately show ?thesis by simp
  qed
qed simp

lemma cache_scan_miss:
  "cache_scan letter cache i victim oldest = Inr v \<Longrightarrow>
   (case v of None \<Rightarrow> victim = None \<and> (\<forall>entry \<in> set cache. gly_valid entry \<and> oldest \<le> gly_age entry)
    | Some j \<Rightarrow> victim = Some j \<or> i \<le> j \<and> j < i + length cache)"
  by (induction letter cache i victim oldest rule: cache_scan.induct)
    (auto split: if_splits option.splits simp: not_less)

text \<open>The bitmap of the glyph at an index, and the table and the offset as the file has them.\<close>

definition glyph_at :: "bytes \<Rightarrow> u32 \<Rightarrow> nat \<Rightarrow> bytes" where
  "glyph_at content offset i = take LVWW_FONT_GLYPH_BYTES (drop (unat offset + LVWW_FONT_GLYPH_BYTES * i) content)"

definition glyph_ok :: "bytes \<Rightarrow> lvww_file_font_t \<Rightarrow> lvww_glyph_cache_t \<Rightarrow> bool" where
  "glyph_ok content state entry \<longleftrightarrow> length (gly_bitmap entry) = LVWW_FONT_GLYPH_BYTES \<and>
     (gly_valid entry \<longrightarrow>
        gly_age entry \<le> fnt_cache_clock state \<and>
        gly_bitmap entry = glyph_at content (fnt_bitmap_offset state)
          (code_index (fnt_codepoints state) (gly_codepoint entry)))"

definition font_ok :: "bytes \<Rightarrow> lvww_file_font_t \<Rightarrow> bool" where
  "font_ok content state \<longleftrightarrow>
     sorted_wrt (<) (fnt_codepoints state) \<and> unat (fnt_glyph_count state) = length (fnt_codepoints state) \<and>
     unat (fnt_bitmap_offset state) + LVWW_FONT_GLYPH_BYTES * length (fnt_codepoints state) \<le> length content \<and>
     length content < 2 ^ 32 \<and>
     length (fnt_cache state) = LVWW_FONT_CACHE_COUNT \<and> list_all (glyph_ok content state) (fnt_cache state)"

definition glyph_spec :: "bytes \<Rightarrow> lvww_file_font_t \<Rightarrow> u32 \<Rightarrow> bytes option" where
  "glyph_spec content state letter =
     (if letter \<in> set (fnt_codepoints state)
      then Some (glyph_at content (fnt_bitmap_offset state) (code_index (fnt_codepoints state) letter)) else None)"

definition same_font :: "lvww_file_font_t \<Rightarrow> lvww_file_font_t \<Rightarrow> bool" where
  "same_font state state' \<longleftrightarrow> fnt_fd state' = fnt_fd state \<and> fnt_codepoints state' = fnt_codepoints state \<and>
     fnt_bitmap_offset state' = fnt_bitmap_offset state"

lemma font_ok_entry:
  assumes ok: "font_ok content state" and i: "i < LVWW_FONT_CACHE_COUNT"
    and clock: "fnt_cache_clock state \<le> clock" and entry: "glyph_ok content (state\<lparr>fnt_cache_clock := clock\<rparr>) entry"
  shows "font_ok content (state\<lparr>fnt_cache_clock := clock, fnt_cache := (fnt_cache state)[i := entry]\<rparr>)"
proof -
  have "glyph_ok content (state\<lparr>fnt_cache_clock := clock, fnt_cache := cache\<rparr>) e = glyph_ok content (state\<lparr>fnt_cache_clock := clock\<rparr>) e"
    for e cache by (simp add: glyph_ok_def)
  moreover have "glyph_ok content (state\<lparr>fnt_cache_clock := clock\<rparr>) e" if "e \<in> set (fnt_cache state)" for e
    using that ok clock by (auto simp: font_ok_def glyph_ok_def list_all_iff intro: order.trans)
  ultimately show ?thesis
    using ok entry set_update_subset_insert [of "fnt_cache state" i entry]
    by (auto simp: font_ok_def list_all_iff dest!: subsetD)
qed

lemma offset_exact:
  assumes "unat offset + 128 * n \<le> m" "m < 2 ^ 32" "i < n"
  shows "unat (offset + of_nat i * 128 :: u32) = unat offset + 128 * i"
proof -
  have "unat offset + 128 * i < 2 ^ 32" using assms by linarith
  moreover have "offset + of_nat i * 128 = of_nat (unat offset + 128 * i)" by simp
  ultimately show ?thesis by (simp only: unat_of_nat_u32)
qed

lemma get_bitmap_exact:
  assumes ok: "font_ok content state" and F: "file_content F (fnt_fd state) content pos"
    and clock: "unat (fnt_cache_clock state) < 2 ^ 32 - 1"
    and get: "file_font_get_bitmap F letter state w = (result, state', w')"
  shows "result = glyph_spec content state letter \<and> font_ok content state' \<and> same_font state state' \<and>
    unat (fnt_cache_clock state') \<le> unat (fnt_cache_clock state) + 1"
proof (cases "letter \<in> set (fnt_codepoints state)")
  case False
  then have "find_codepoint state letter = -1" using find_codepoint_exact ok by (simp add: font_ok_def)
  then show ?thesis using get False ok by (auto simp: file_font_get_bitmap_def glyph_spec_def same_font_def)
next
  case True
  let ?index = "code_index (fnt_codepoints state) letter" and ?clock = "fnt_cache_clock state + 1"
  have index: "find_codepoint state letter = int ?index" "?index < length (fnt_codepoints state)"
    using find_codepoint_exact ok True code_index_less by (auto simp: font_ok_def)
  have len: "length (fnt_cache state) = 8" using ok by (simp add: font_ok_def)
  have up: "unat ?clock = unat (fnt_cache_clock state) + 1" "fnt_cache_clock state \<le> ?clock"
    using clock by (simp_all add: unat_word_ariths word_le_nat_alt)
  show ?thesis
  proof (cases "cache_scan letter (fnt_cache state) 0 None 0xFFFFFFFF")
    case (Inl i)
    then have i: "i < 8" "gly_valid (fnt_cache state ! i)" "gly_codepoint (fnt_cache state ! i) = letter"
      using cache_scan_hit [of letter "fnt_cache state" 0] len by auto
    then have "glyph_ok content state (fnt_cache state ! i)"
      using ok len by (simp add: font_ok_def list_all_length)
    then have l: "length (gly_bitmap (fnt_cache state ! i)) = 128"
      and b: "gly_bitmap (fnt_cache state ! i) = glyph_at content (fnt_bitmap_offset state) ?index"
      using i(2,3) unfolding glyph_ok_def by blast+
    have e: "glyph_ok content (state\<lparr>fnt_cache_clock := ?clock\<rparr>) ((fnt_cache state ! i)\<lparr>gly_age := ?clock\<rparr>)"
      using i b l by (simp add: glyph_ok_def)
    show ?thesis
      using get Inl index b up font_ok_entry [OF ok i(1) up(2) e] True
      by (auto simp: file_font_get_bitmap_def Let_def glyph_spec_def same_font_def)
  next
    case (Inr v)
    have "v \<noteq> None"
    proof
      assume "v = None"
      then have "gly_valid (fnt_cache state ! 0) \<and> 0xFFFFFFFF \<le> gly_age (fnt_cache state ! 0)"
        using cache_scan_miss [OF Inr] len by auto
      moreover have "glyph_ok content state (fnt_cache state ! 0)" using ok len by (simp add: font_ok_def list_all_length)
      ultimately have "0xFFFFFFFF \<le> fnt_cache_clock state" by (auto simp: glyph_ok_def)
      then show False using clock by (simp add: word_le_nat_alt)
    qed
    then obtain i where i: "v = Some i" "i < 8" using cache_scan_miss [OF Inr] len by auto
    have bound: "unat (fnt_bitmap_offset state) + 128 * length (fnt_codepoints state) \<le> length content"
      "length content < 2 ^ 32" using ok by (simp_all add: font_ok_def)
    let ?offset = "fnt_bitmap_offset state + of_nat ?index * 128"
    have off: "unat ?offset = unat (fnt_bitmap_offset state) + 128 * ?index"
      by (rule offset_exact [OF bound index(2)])
    have fits: "unat ?offset + 128 \<le> length content" using off bound(1) index(2) by linarith
    obtain w1 where read: "read_exact_at F (fnt_fd state) ?offset 128 w =
        (RT_EOK, glyph_at content (fnt_bitmap_offset state) ?index, w1)"
      using read_exact_at_exact [OF F, of 128 ?offset w] fits by (auto simp: off glyph_at_def)
    have full: "length (glyph_at content (fnt_bitmap_offset state) ?index) = 128"
      using fits by (simp add: glyph_at_def off)
    have "length (gly_bitmap (fnt_cache state ! i)) = 128"
      using ok i(2) len by (simp add: font_ok_def list_all_length glyph_ok_def)
    then have new: "memcpy_at (gly_bitmap (fnt_cache state ! i)) 0 (glyph_at content (fnt_bitmap_offset state) ?index) =
        glyph_at content (fnt_bitmap_offset state) ?index"
      using full by (simp add: memcpy_at_def)
    let ?entry = "(fnt_cache state ! i)\<lparr>gly_bitmap := glyph_at content (fnt_bitmap_offset state) ?index,
        gly_codepoint := letter, gly_age := ?clock, gly_valid := True\<rparr>"
    have e: "glyph_ok content (state\<lparr>fnt_cache_clock := ?clock\<rparr>) ?entry" using full by (simp add: glyph_ok_def)
    show ?thesis
      using get Inr i index read new up font_ok_entry [OF ok i(2) up(2) e] True
      by (auto simp: file_font_get_bitmap_def Let_def glyph_spec_def same_font_def)
  qed
qed

section \<open>A loaded font\<close>

definition font_table :: "bytes \<Rightarrow> u32 list" where
  "font_table content = map (\<lambda>i. load_le32 content (unat (load_le32 content 26) + 4 * i)) [0 ..< unat (load_le32 content 22)]"

text \<open>All bitmaps lie within the file.\<close>

definition font_complete :: "bytes \<Rightarrow> bool" where
  "font_complete content \<longleftrightarrow>
     unat (load_le32 content 30) + LVWW_FONT_GLYPH_BYTES * unat (load_le32 content 22) \<le> length content \<and>
     length content < 2 ^ 32"

definition font_file_glyph :: "bytes \<Rightarrow> u32 \<Rightarrow> bytes option" where
  "font_file_glyph content letter =
     (if letter \<in> set (font_table content)
      then Some (glyph_at content (load_le32 content 30) (code_index (font_table content) letter)) else None)"

lemma read_u32_at: "k + 4 \<le> n \<Longrightarrow> n \<le> length data \<Longrightarrow> read_u32_le (drop k (take n data)) = load_le32 data k"
  by (simp add: read_u32_le_def load_le32_def)

lemma read_u32_table:
  assumes "i < n" "offset + 4 * n \<le> length content"
  shows "read_u32_le (drop (4 * i) (take (4 * n) (drop offset content))) = load_le32 content (offset + 4 * i)"
  using assms read_u32_at [of "4 * i" "4 * n" "drop offset content"]
  by (simp add: load_le32_def add.assoc)

lemma open_exact:
  assumes "\<And>fd. file_content F fd (content fd) pos"
    and opened: "fs_open F path w = (fd, w1)" "file_font_open F mem_ok path state w = (RT_EOK, state', w')"
    and complete: "font_complete (content fd)"
  shows "font_ok (content fd) state' \<and> fnt_fd state' = fd \<and> fnt_codepoints state' = font_table (content fd) \<and>
    fnt_bitmap_offset state' = load_le32 (content fd) 30 \<and> fnt_cache_clock state' = 0"
proof -
  note F = assms(1) [of fd]
  let ?c = "content fd"
  obtain rc header w2 where h: "read_exact_at F fd 0 38 w1 = (rc, header, w2)" by (metis surj_pair)
  have rc: "rc = RT_EOK" using opened h by (auto simp: file_font_open_def split: if_splits)
  then have header: "header = take 38 ?c" "38 \<le> length ?c"
    using read_exact_at_exact [OF F, of 38 0 w1] h by (auto split: if_splits)
  have count: "read_u32_le (drop 22 header) = load_le32 ?c 22" and cps: "read_u32_le (drop 26 header) = load_le32 ?c 26"
    and bitmaps: "read_u32_le (drop 30 header) = load_le32 ?c 30"
    using header by (simp_all add: read_u32_at)
  let ?n = "unat (load_le32 ?c 22)"
  obtain rc2 table w3 where t: "read_exact_at F fd (load_le32 ?c 26) (?n * 4) w2 = (rc2, table, w3)" by (metis surj_pair)
  have ok: "rc2 = RT_EOK" "load_le32 ?c 22 \<noteq> 0"
    "strictly_rising (map (\<lambda>i. read_u32_le (drop (4 * i) table)) [0 ..< ?n])"
    and state': "state' = state\<lparr>fnt_cache := replicate 8 glyph_cache_zero, fnt_cache_clock := 0,
       fnt_fd := fd, fnt_codepoints := map (\<lambda>i. read_u32_le (drop (4 * i) table)) [0 ..< ?n], fnt_glyph_count := load_le32 ?c 22,
       fnt_bitmap_offset := load_le32 ?c 30, fnt_glyph_ofs_y := read_u16_le (drop 18 header),
       fnt_line_height := read_u16_le (drop 14 header), fnt_base_line := read_u16_le (drop 16 header), fnt_loaded := True\<rparr>"
    using opened h rc t count cps bitmaps by (auto simp: file_font_open_def Let_def split: if_splits)
  have "0 < ?n" using ok(2) by (simp add: unat_gt_0)
  then have table: "table = take (4 * ?n) (drop (unat (load_le32 ?c 26)) ?c)"
    "unat (load_le32 ?c 26) + 4 * ?n \<le> length ?c"
    using read_exact_at_exact [OF F, of "?n * 4" "load_le32 ?c 26" w2] t ok(1) by (auto simp: mult.commute split: if_splits)
  then have "map (\<lambda>i. read_u32_le (drop (4 * i) table)) [0 ..< ?n] = font_table ?c"
    by (simp add: font_table_def read_u32_table)
  moreover have "length (font_table ?c) = ?n" by (simp add: font_table_def)
  moreover have "glyph_ok ?c s glyph_cache_zero" for s by (simp add: glyph_ok_def glyph_cache_zero_def)
  ultimately show ?thesis
    using ok(3) complete
    by (simp add: state' font_ok_def font_complete_def strictly_rising_iff list_all_iff)
qed

text \<open>The checks that \<open>file_font_open\<close> makes.\<close>

definition font_valid :: "bytes \<Rightarrow> bool" where
  "font_valid content \<longleftrightarrow> LVWW_FONT_HEADER_SIZE \<le> length content \<and> take 8 content = LVWW_FONT_MAGIC \<and>
     load_le16 content 8 = 1 \<and> load_le16 content 10 = 38 \<and> load_le16 content 12 = 16 \<and> content ! 20 = 4 \<and>
     load_le16 content 34 = 128 \<and> load_le32 content 22 \<noteq> 0 \<and> load_le32 content 22 \<le> 30000 \<and>
     unat (load_le32 content 26) + 4 * unat (load_le32 content 22) \<le> length content \<and>
     strictly_rising (font_table content)"

lemma read_u16_at: "k + 2 \<le> n \<Longrightarrow> n \<le> length data \<Longrightarrow> read_u16_le (drop k (take n data)) = load_le16 data k"
  by (simp add: read_u16_le_def load_le16_def)

lemma open_succeeds:
  assumes F: "file_content F fd content pos" and opened: "fs_open F path w = (fd, w1)" "0 \<le> fd"
    and valid: "font_valid content"
  shows "fst (file_font_open F True path state w) = RT_EOK"
proof -
  let ?n = "unat (load_le32 content 22)"
  have v: "38 \<le> length content" "take 8 content = LVWW_FONT_MAGIC" "load_le32 content 22 \<noteq> 0"
    "load_le32 content 22 \<le> 30000" "unat (load_le32 content 26) + 4 * ?n \<le> length content"
    "strictly_rising (font_table content)" "content ! 20 = 4"
    using valid by (simp_all add: font_valid_def)
  obtain w2 where h: "read_exact_at F fd 0 38 w1 = (RT_EOK, take 38 content, w2)"
    using read_exact_at_exact [OF F, of 38 0 w1] v(1) by auto
  have "0 < ?n" using v(3) by (simp add: unat_gt_0)
  then obtain w3 where t: "read_exact_at F fd (load_le32 content 26) (?n * 4) w2 =
      (RT_EOK, take (4 * ?n) (drop (unat (load_le32 content 26)) content), w3)"
    using read_exact_at_exact [OF F, of "?n * 4" "load_le32 content 26" w2] v(5) by (auto simp: mult.commute)
  have "map (\<lambda>i. read_u32_le (drop (4 * i) (take (4 * ?n) (drop (unat (load_le32 content 26)) content)))) [0 ..< ?n] = font_table content"
    using v(5) by (simp add: font_table_def read_u32_table)
  moreover have "\<not> 30000 < load_le32 content 22" "\<not> 0xFFFFFFFF div 4 < load_le32 content 22" using v(4) by (auto simp: word_less_nat_alt word_le_nat_alt)
  moreover have "read_u16_le (drop 8 (take 38 content)) = 1" "read_u16_le (drop 10 (take 38 content)) = 38"
    "read_u16_le (drop 12 (take 38 content)) = 16" "read_u16_le (drop 34 (take 38 content)) = 128"
    "read_u32_le (drop 22 (take 38 content)) = load_le32 content 22" "read_u32_le (drop 26 (take 38 content)) = load_le32 content 26"
    using valid by (simp_all add: font_valid_def read_u16_at read_u32_at)
  ultimately show ?thesis
    using opened h t v by (simp add: file_font_open_def Let_def)
qed

fun font_lookups ::
  "'w fs_ops \<Rightarrow> u32 list \<Rightarrow> lvww_file_font_t \<Rightarrow> 'w \<Rightarrow> bytes option list \<times> lvww_file_font_t \<times> 'w" where
  "font_lookups F [] state w = ([], state, w)"
| "font_lookups F (letter # letters) state w =
     (case file_font_get_bitmap F letter state w of
        (result, state, w) \<Rightarrow>
          (case font_lookups F letters state w of (results, state, w) \<Rightarrow> (result # results, state, w)))"

lemma lookups_exact:
  "font_ok content state \<Longrightarrow> file_content F (fnt_fd state) content pos \<Longrightarrow>
   unat (fnt_cache_clock state) + length letters < 2 ^ 32 \<Longrightarrow>
   fst (font_lookups F letters state w) = map (glyph_spec content state) letters"
proof (induction letters arbitrary: state w)
  case (Cons letter letters)
  obtain result state1 w1 where g: "file_font_get_bitmap F letter state w = (result, state1, w1)" by (metis surj_pair)
  from get_bitmap_exact [OF Cons(2,3) _ g] Cons(4)
  have "result = glyph_spec content state letter" "font_ok content state1" "same_font state state1"
    "unat (fnt_cache_clock state1) \<le> unat (fnt_cache_clock state) + 1" by auto
  moreover from this(3) have "glyph_spec content state1 = glyph_spec content state" "fnt_fd state1 = fnt_fd state"
    by (simp_all add: same_font_def glyph_spec_def fun_eq_iff)
  ultimately show ?case using Cons(1) [of state1 w1] Cons(3,4) g by (simp split: prod.split) (metis fst_conv)
qed simp

text \<open>
  C13: The glyph cache is transparent.  A valid and complete font file is loaded, and then every lookup,
  in any sequence and whatever blocks the file system returns, gives the bytes that the file holds for
  that code point, found by binary search in its table, and nothing for a code point that is not in
  the table; up to the wrap-around of the cache clock no lookup of a glyph fails.
\<close>

theorem font_glyphs_exact:
  assumes "\<And>fd. file_content F fd (content fd) pos"
    and "fs_open F path w = (fd, w1)" "0 \<le> fd" "font_valid (content fd)" "font_complete (content fd)"
  shows "\<exists>state1 w2. file_font_open F True path state w = (RT_EOK, state1, w2) \<and>
    (\<forall>letters w3. length letters < 2 ^ 32 \<longrightarrow>
       fst (font_lookups F letters state1 w3) = map (font_file_glyph (content fd)) letters)"
proof -
  obtain state1 w2 where r: "file_font_open F True path state w = (RT_EOK, state1, w2)"
    using open_succeeds [OF assms(1-4)] by (metis prod.collapse)
  note o = open_exact [OF assms(1,2) r assms(5)]
  have "glyph_spec (content fd) state1 = font_file_glyph (content fd)"
    using o by (simp add: glyph_spec_def font_file_glyph_def fun_eq_iff)
  moreover have "fst (font_lookups F letters state1 w3) = map (glyph_spec (content fd) state1) letters"
    if "length letters < 2 ^ 32" for letters w3
    using o assms(1) [of fd] that by (intro lookups_exact) simp_all
  ultimately show ?thesis using r by auto
qed

section \<open>Where the cache is not what it should be\<close>

lemma scan_full:
  "list_all (\<lambda>entry. gly_valid entry \<and> gly_codepoint entry \<noteq> letter) cache \<Longrightarrow>
   cache_scan letter cache i (Some v) oldest = Inr (Some v)"
  by (induction cache arbitrary: i) auto

text \<open>
  A full cache always evicts its first entry, and a failed load damages it.  When all eight
  entries are valid, a glyph that is not cached is loaded into entry 0 whatever the ages are, so the
  entry that was used last can be the one evicted.  If its bitmap cannot be read completely, the
  lookup fails, but the bytes that were read stay in entry 0, which still counts as valid for its
  old code point: the next lookup of that code point returns the damaged bitmap.
\<close>

theorem font_cache_damaged:
  assumes full: "fnt_cache state = entry # cache" "list_all gly_valid (entry # cache)"
    and new: "list_all (\<lambda>entry. gly_codepoint entry \<noteq> letter) (entry # cache)" "gly_age entry < 0xFFFFFFFF"
    and known: "0 \<le> find_codepoint state letter" "0 \<le> find_codepoint state (gly_codepoint entry)"
    and read: "read_exact_at F (fnt_fd state) (fnt_bitmap_offset state + of_int (find_codepoint state letter) * 128)
      LVWW_FONT_GLYPH_BYTES w = (rc, data, w1)" "rc \<noteq> RT_EOK"
    and lookup: "file_font_get_bitmap F letter state w = (result, state1, w2)"
  shows "result = None \<and>
    fst (file_font_get_bitmap F (gly_codepoint entry) state1 w3) = Some (memcpy_at (gly_bitmap entry) 0 data)"
proof -
  let ?entry = "entry\<lparr>gly_bitmap := memcpy_at (gly_bitmap entry) 0 data\<rparr>"
  have "cache_scan letter (fnt_cache state) 0 None 0xFFFFFFFF = Inr (Some 0)"
    using full new by (simp add: scan_full list_all_iff)
  then have r: "result = None" "state1 = state\<lparr>fnt_cache := ?entry # cache\<rparr>"
    using lookup known(1) read full(1) by (auto simp: file_font_get_bitmap_def Let_def)
  moreover have "0 \<le> find_codepoint state1 (gly_codepoint entry)" using known(2) by (simp add: r find_codepoint_def)
  ultimately show ?thesis using full(2) by (simp add: file_font_get_bitmap_def Let_def)
qed

section \<open>Samples\<close>

text \<open>A file system with one file, read in blocks of at most fifty bytes; the world is the position.\<close>

definition memory_fs :: "bytes \<Rightarrow> nat fs_ops" where
  "memory_fs content = \<lparr>fs_open = (\<lambda>path w. (3, 0)),
     fs_read = (\<lambda>fd n w. let data = take (min n 50) (drop w content) in (int (length data), data, w + length data)),
     fs_lseek = (\<lambda>fd offset w. (int (unat offset), unat offset)), fs_close = (\<lambda>fd w. (0, w))\<rparr>"

lemma memory_fs_content: "file_content (memory_fs content) fd content (\<lambda>w. w)"
proof -
  have "file_reads (memory_fs content) fd (\<lambda>w. drop w content)"
  proof -
    have "take k (drop w content) @ drop (w + k) content = drop w content" for w k
      using append_take_drop_id [of k "drop w content"] by (simp add: add.commute)
    then show ?thesis by (auto simp: file_reads_def memory_fs_def Let_def min_def)
  qed
  then show ?thesis by (simp add: file_content_def) (simp add: memory_fs_def)
qed

definition sample_font :: bytes where
  "sample_font = LVWW_FONT_MAGIC @ [1, 0, 38, 0, 16, 0, 19, 0, 3, 0, 254, 255, 4, 0, 2, 0, 0, 0, 38, 0, 0, 0, 46, 0, 0, 0, 128, 0, 0, 0] @
     [0, 0x4E, 0, 0, 0x2D, 0x4E, 0, 0] @ replicate 128 17 @ replicate 128 34"

lemma sample_font_words:
  "load_le16 sample_font 8 = 1" "load_le16 sample_font 10 = 38" "load_le16 sample_font 12 = 16"
  "load_le16 sample_font 34 = 128" "sample_font ! 20 = 4" "load_le32 sample_font 22 = 2"
  "load_le32 sample_font 26 = 38" "load_le32 sample_font 30 = 46"
  "load_le32 sample_font 38 = 0x4E00" "load_le32 sample_font 42 = 0x4E2D"
  by (simp_all add: load_le16_def load_le32_def sample_font_def LVWW_FONT_MAGIC_def ascii_def)

lemma sample_font_length: "length sample_font = 302" "take 8 sample_font = LVWW_FONT_MAGIC"
  by (simp_all add: sample_font_def LVWW_FONT_MAGIC_def ascii_def)

lemma sample_font_table: "font_table sample_font = [0x4E00, 0x4E2D]"
  by (simp add: font_table_def sample_font_words upt_rec)

lemma sample_font_valid: "font_valid sample_font"
  by (simp add: font_valid_def sample_font_words sample_font_length sample_font_table)

lemma sample_font_complete: "font_complete sample_font"
  by (simp add: font_complete_def sample_font_words sample_font_length)

lemma sample_font_glyphs: "map (font_file_glyph sample_font) [0x4E2D, 65, 0x4E00, 0x4E2D] =
    [Some (replicate 128 34), None, Some (replicate 128 17), Some (replicate 128 34)]"
proof -
  have "glyph_at sample_font 46 0 = replicate 128 17" "glyph_at sample_font 46 1 = replicate 128 34"
    by (simp_all add: glyph_at_def sample_font_def LVWW_FONT_MAGIC_def ascii_def)
  then show ?thesis
    by (simp add: font_file_glyph_def sample_font_table sample_font_words code_index_def)
qed

lemma font_glyphs_exact_witness:
  "\<exists>state w. file_font_open (memory_fs sample_font) True [] (file_font_prepare file_font_zero) 0 = (RT_EOK, state, w) \<and>
     fst (font_lookups (memory_fs sample_font) [0x4E2D, 65, 0x4E00, 0x4E2D] state w) =
       [Some (replicate 128 34), None, Some (replicate 128 17), Some (replicate 128 34)]"
proof -
  have "fs_open (memory_fs sample_font) [] 0 = (3, 0)" by (simp add: memory_fs_def)
  from font_glyphs_exact [where content = "\<lambda>fd. sample_font", OF memory_fs_content this _ sample_font_valid sample_font_complete]
  obtain state w where o: "file_font_open (memory_fs sample_font) True [] (file_font_prepare file_font_zero) 0 = (RT_EOK, state, w)"
    and l: "\<forall>letters w3. length letters < 2 ^ 32 \<longrightarrow>
       fst (font_lookups (memory_fs sample_font) letters state w3) = map (font_file_glyph sample_font) letters"
    by fastforce
  have "fst (font_lookups (memory_fs sample_font) [0x4E2D, 65, 0x4E00, 0x4E2D] state w) =
      map (font_file_glyph sample_font) [0x4E2D, 65, 0x4E00, 0x4E2D]"
    by (rule l [rule_format]) simp
  then show ?thesis using o by (simp only: sample_font_glyphs) blast
qed

text \<open>A full cache over a file whose last bitmap is cut off after a hundred bytes.\<close>

definition sample_full_font :: lvww_file_font_t where
  "sample_full_font = file_font_zero
     \<lparr>fnt_fd := 3, fnt_glyph_count := 9, fnt_codepoints := [1, 2, 3, 4, 5, 6, 7, 8, 9], fnt_cache_clock := 8, fnt_loaded := True,
      fnt_cache := map (\<lambda>i. \<lparr>gly_codepoint = i, gly_age = i, gly_valid = True, gly_bitmap = replicate 128 1\<rparr>) [1, 2, 3, 4, 5, 6, 7, 8]\<rparr>"

lemma sample_full_font_file: "fnt_fd sample_full_font = 3" "fnt_bitmap_offset sample_full_font = 0"
  by (simp_all add: sample_full_font_def file_font_zero_def)

lemma sample_full_font_finds: "find_codepoint sample_full_font 9 = 8" "find_codepoint sample_full_font 1 = 0"
  by code_simp+

lemma font_cache_damaged_witness:
  "\<exists>state1 w1. file_font_get_bitmap (memory_fs (replicate 1124 9)) 9 sample_full_font 0 = (None, state1, w1) \<and>
     fst (file_font_get_bitmap (memory_fs (replicate 1124 9)) 1 state1 w1) = Some (replicate 100 9 @ replicate 28 1)"
proof -
  let ?F = "memory_fs (replicate 1124 9)"
  let ?entry = "\<lparr>gly_codepoint = 1, gly_age = 1, gly_valid = True, gly_bitmap = replicate 128 1\<rparr>"
  let ?cache = "map (\<lambda>i. \<lparr>gly_codepoint = i, gly_age = i, gly_valid = True, gly_bitmap = replicate 128 1\<rparr>) [2, 3, 4, 5, 6, 7, 8]"
  obtain result state1 w2 where l: "file_font_get_bitmap ?F 9 sample_full_font 0 = (result, state1, w2)" by (metis surj_pair)
  obtain w1 where read: "read_exact_at ?F (fnt_fd sample_full_font)
      (fnt_bitmap_offset sample_full_font + of_int (find_codepoint sample_full_font 9) * 128) 128 0 = (- RT_ERROR, replicate 100 9, w1)"
    using read_exact_at_exact [OF memory_fs_content, of 128 "replicate 1124 9" 3 1024 0]
    by (auto simp: sample_full_font_finds sample_full_font_file)
  have "fnt_cache sample_full_font = ?entry # ?cache" by (simp add: sample_full_font_def)
  from font_cache_damaged [OF this _ _ _ _ _ read _ l, of w2]
  have "result = None" "fst (file_font_get_bitmap ?F 1 state1 w2) = Some (memcpy_at (replicate 128 1) 0 (replicate 100 9))"
    by (simp_all add: sample_full_font_finds)
  then show ?thesis using l by (simp add: memcpy_at_def)
qed

end
