(* ===== verification/Weather_Json.thy ===== *)
theory Weather_Json
  imports Weather_Store "HOL-Library.Monad_Syntax"
begin

text \<open>
  The JSON scanner of \<open>lvww_rw007.c\<close>, and the weather that is read with it.  The text between
  \<open>cursor\<close> and \<open>end\<close> is a list; a pointer into it is the rest of the list from there, NULL is
  \<open>None\<close>, and a value found is the text from \<open>value\<close> to \<open>value_end\<close>.  \<open>strtod\<close>, and the conversions
  from \<open>double\<close>, are parameters.
\<close>

section \<open>The scanner\<close>

definition is_space :: "u8 \<Rightarrow> bool" where
  "is_space c \<longleftrightarrow> 9 \<le> c \<and> c \<le> 13 \<or> c = 32"

definition json_skip_ws :: "bytes \<Rightarrow> bytes" where
  "json_skip_ws cursor = dropWhile is_space cursor"

fun json_string_loop :: "bytes \<Rightarrow> bytes option" where
  "json_string_loop [] = None"
| "json_string_loop (c # cursor) =
     (if c = 92 then json_string_loop (drop 1 cursor)
      else if c = 34 then Some cursor else json_string_loop cursor)"

definition json_skip_string :: "bytes \<Rightarrow> bytes option" where
  "json_skip_string cursor =
     (case cursor of [] \<Rightarrow> None | c # cursor \<Rightarrow> if c \<noteq> 34 then None else json_string_loop cursor)"

lemma json_string_loop_shorter: "json_string_loop cursor = Some rest \<Longrightarrow> length rest < length cursor"
  by (induction cursor rule: json_string_loop.induct) (auto split: if_splits)

lemma json_skip_string_shorter: "json_skip_string cursor = Some rest \<Longrightarrow> length rest < length cursor"
  using json_string_loop_shorter by (fastforce simp: json_skip_string_def split: list.splits if_splits)

function json_value_loop :: "u8 \<Rightarrow> u8 \<Rightarrow> nat \<Rightarrow> bytes \<Rightarrow> bytes option" where
  "json_value_loop left right depth cursor =
     (if cursor = [] \<or> depth = 0 then (if depth = 0 then Some cursor else None)
      else if hd cursor = 34 then
        (case json_skip_string cursor of
           None \<Rightarrow> None
         | Some cursor \<Rightarrow> json_value_loop left right depth cursor)
      else if hd cursor = left then json_value_loop left right (depth + 1) (tl cursor)
      else if hd cursor = right then json_value_loop left right (depth - 1) (tl cursor)
      else json_value_loop left right depth (tl cursor))"
  by pat_completeness auto
termination
  by (relation "measure (\<lambda>(left, right, depth, cursor). length cursor)") (auto dest: json_skip_string_shorter)

declare json_value_loop.simps [simp del]

definition json_skip_value :: "bytes \<Rightarrow> bytes option" where
  "json_skip_value cursor =
     (case json_skip_ws cursor of
        [] \<Rightarrow> None
      | c # rest \<Rightarrow>
          if c = 34 then json_skip_string (c # rest)
          else if c \<noteq> 123 \<and> c \<noteq> 91
          then Some (dropWhile (\<lambda>c. c \<noteq> 44 \<and> c \<noteq> 125 \<and> c \<noteq> 93 \<and> \<not> is_space c) (c # rest))
          else json_value_loop c (if c = 123 then 125 else 93) 1 rest)"

lemma json_value_loop_shorter:
  "json_value_loop left right depth cursor = Some rest \<Longrightarrow> length rest \<le> length cursor"
proof (induction left right depth cursor rule: json_value_loop.induct)
  case (1 left right depth cursor)
  note step = json_value_loop.simps [of left right depth cursor]
  show ?case
  proof (cases "cursor = [] \<or> depth = 0")
    case True
    then show ?thesis using 1(5) by (simp add: step split: if_splits)
  next
    case False
    show ?thesis
    proof (cases "hd cursor = 34")
      case True
      then obtain key where "json_skip_string cursor = Some key" "json_value_loop left right depth key = Some rest"
        using 1(5) False by (auto simp: step split: option.splits)
      then show ?thesis using 1(1) [OF False True] json_skip_string_shorter by fastforce
    next
      case quote: False
      have "length rest \<le> length (tl cursor)"
        using 1(2-5) False quote by (auto simp: step split: if_splits)
      then show ?thesis by simp
    qed
  qed
qed

lemma json_skip_value_shorter:
  assumes "json_skip_value cursor = Some rest"
  shows "length rest \<le> length cursor"
proof -
  have ws: "length (json_skip_ws cursor) \<le> length cursor" by (simp add: json_skip_ws_def length_dropWhile_le)
  obtain c tail where c: "json_skip_ws cursor = c # tail"
    using assms by (cases "json_skip_ws cursor") (simp_all add: json_skip_value_def)
  consider "json_skip_string (c # tail) = Some rest" | d where "json_value_loop c d 1 tail = Some rest"
    | "rest = dropWhile (\<lambda>c. c \<noteq> 44 \<and> c \<noteq> 125 \<and> c \<noteq> 93 \<and> \<not> is_space c) (c # tail)"
    using assms c unfolding json_skip_value_def by (auto split: if_splits)
  then have "length rest \<le> length (c # tail)"
  proof cases
    case 1
    then show ?thesis using json_skip_string_shorter [of "c # tail" rest] by simp
  next
    case 2
    then show ?thesis using json_value_loop_shorter [of c _ 1 tail rest] by fastforce
  next
    case 3
    then show ?thesis by (simp only: length_dropWhile_le)
  qed
  then show ?thesis using ws c by simp
qed

text \<open>What stands between two positions of one text.\<close>

definition json_between :: "bytes \<Rightarrow> bytes \<Rightarrow> bytes" where
  "json_between from_here to_there = take (length from_here - length to_there) from_here"

function json_member_loop :: "bytes \<Rightarrow> bytes \<Rightarrow> bytes option" where
  "json_member_loop key cursor =
     (case json_skip_ws cursor of
        [] \<Rightarrow> None
      | c # rest \<Rightarrow>
          if c = 125 then None
          else if c = 44 then json_member_loop key rest
          else if c \<noteq> 34 then None
          else case json_skip_string (c # rest) of
            None \<Rightarrow> None
          | Some key_finish \<Rightarrow>
              (case json_skip_ws key_finish of
                 [] \<Rightarrow> None
               | colon # behind \<Rightarrow>
                   if colon \<noteq> 58 then None
                   else
                     let cursor = json_skip_ws behind
                     in case json_skip_value cursor of
                          None \<Rightarrow> None
                        | Some item_end \<Rightarrow>
                            if take (length rest - length key_finish - 1) rest = key
                            then Some (json_between cursor item_end)
                            else json_member_loop key item_end))"
  by pat_completeness auto
termination
proof (relation "measure (\<lambda>(key, cursor). length cursor)", goal_cases)
  case (2 key cursor c rest)
  then show ?case
    using length_dropWhile_le [of is_space cursor] by (simp add: json_skip_ws_def)
next
  case (3 key cursor c rest key_finish colon behind v item_end)
  then show ?case
    using length_dropWhile_le [of is_space cursor] length_dropWhile_le [of is_space key_finish]
      length_dropWhile_le [of is_space behind] json_skip_string_shorter [of "c # rest" key_finish]
      json_skip_value_shorter [of v item_end]
    by (simp add: json_skip_ws_def)
qed simp

declare json_member_loop.simps [simp del]

definition json_find_member :: "bytes \<Rightarrow> bytes \<Rightarrow> bytes option" where
  "json_find_member obj key =
     (case obj of [] \<Rightarrow> None | c # cursor \<Rightarrow> if c \<noteq> 123 then None else json_member_loop key cursor)"

text \<open>\<open>current\<close> counts from 0, so that it never exceeds \<open>index\<close>.\<close>

function json_item_loop :: "nat \<Rightarrow> nat \<Rightarrow> bytes \<Rightarrow> bytes option" where
  "json_item_loop index current cursor =
     (case json_skip_ws cursor of
        [] \<Rightarrow> None
      | c # rest \<Rightarrow>
          if c = 93 then None
          else if c = 44 then json_item_loop index current rest
          else case json_skip_value (c # rest) of
            None \<Rightarrow> None
          | Some item_end \<Rightarrow>
              if current = index then Some (json_between (c # rest) item_end)
              else if current < index then json_item_loop index (current + 1) item_end
              else None)"
  by pat_completeness auto
termination
proof (relation "measure (\<lambda>(index, current, cursor). length cursor + (index - current))", goal_cases)
  case (2 index current cursor c rest)
  then show ?case
    using length_dropWhile_le [of is_space cursor] by (simp add: json_skip_ws_def)
next
  case (3 index current cursor c rest item_end)
  then show ?case
    using length_dropWhile_le [of is_space cursor] json_skip_value_shorter [of "c # rest" item_end]
    by (simp add: json_skip_ws_def)
qed simp

declare json_item_loop.simps [simp del]

definition json_array_item :: "bytes \<Rightarrow> nat \<Rightarrow> bytes option" where
  "json_array_item array index =
     (case array of [] \<Rightarrow> None | c # cursor \<Rightarrow> if c \<noteq> 91 then None else json_item_loop index 0 cursor)"

text \<open>A \<open>double\<close> is its bit pattern.\<close>

definition json_member_number :: "(bytes \<Rightarrow> u64) \<Rightarrow> bytes \<Rightarrow> bytes \<Rightarrow> u64 option" where
  "json_member_number strtod obj key =
     (case json_find_member obj key of
        None \<Rightarrow> None
      | Some value \<Rightarrow> if length value = 0 \<or> length value \<ge> 32 then None else Some (strtod (c_str value)))"

definition json_member_array_number :: "(bytes \<Rightarrow> u64) \<Rightarrow> bytes \<Rightarrow> bytes \<Rightarrow> nat \<Rightarrow> u64 option" where
  "json_member_array_number strtod obj key index =
     (case json_find_member obj key of
        None \<Rightarrow> None
      | Some array \<Rightarrow>
          (case json_array_item array index of
             None \<Rightarrow> None
           | Some value \<Rightarrow>
               if length value = 0 \<or> length value \<ge> 32 then None else Some (strtod (c_str value))))"

section \<open>The weather\<close>

definition map_weather_code :: "int \<Rightarrow> u32" where
  "map_weather_code code =
     (if code = 0 then 0
      else if code = 1 \<or> code = 2 then 1
      else if code = 3 then 2
      else if code = 45 \<or> code = 48 then 3
      else if 51 \<le> code \<and> code \<le> 57 then 4
      else if 61 \<le> code \<and> code \<le> 67 \<or> 80 \<le> code \<and> code \<le> 82 then 5
      else if 71 \<le> code \<and> code \<le> 77 \<or> code = 85 \<or> code = 86 then 6
      else if 95 \<le> code \<and> code \<le> 99 then 7
      else 8)"

text \<open>
  The part of \<open>rw_do_weather\<close> behind the request; \<open>None\<close> is either of its two error reports.
  \<open>to_float\<close>, \<open>to_int\<close> and \<open>to_u64\<close> are the conversions of a \<open>double\<close>.
\<close>

definition weather_of_json ::
  "(bytes \<Rightarrow> u64) \<Rightarrow> (u64 \<Rightarrow> u32) \<Rightarrow> (u64 \<Rightarrow> int) \<Rightarrow> (u64 \<Rightarrow> u64) \<Rightarrow> bytes \<Rightarrow> lvww_weather_t option" where
  "weather_of_json strtod to_float to_int to_u64 json =
     do {
       current \<leftarrow> json_find_member json (ascii ''current'');
       daily \<leftarrow> json_find_member json (ascii ''daily'');
       temperature \<leftarrow> json_member_number strtod current (ascii ''temperature_2m'');
       apparent \<leftarrow> json_member_number strtod current (ascii ''apparent_temperature'');
       humidity \<leftarrow> json_member_number strtod current (ascii ''relative_humidity_2m'');
       code \<leftarrow> json_member_number strtod current (ascii ''weather_code'');
       wind \<leftarrow> json_member_number strtod current (ascii ''wind_speed_10m'');
       time \<leftarrow> json_member_number strtod current (ascii ''time'');
       high \<leftarrow> json_member_array_number strtod daily (ascii ''temperature_2m_max'') 0;
       low \<leftarrow> json_member_array_number strtod daily (ascii ''temperature_2m_min'') 0;
       Some \<lparr>wth_code = map_weather_code (to_int code), wth_temperature_c = to_float temperature,
          wth_apparent_c = to_float apparent, wth_humidity_percent = to_float humidity,
          wth_wind_kph = to_float wind, wth_today_high_c = to_float high, wth_today_low_c = to_float low,
          wth_utc_offset_seconds =
            (case json_member_number strtod json (ascii ''utc_offset_seconds'') of
               None \<Rightarrow> 0 | Some value \<Rightarrow> word_of_int (to_int value)),
          wth_observed_utc = to_u64 time\<rparr>
     }"

section \<open>Documents\<close>

text \<open>JSON documents, with the raw text of their numbers, strings and keys, written without spaces.\<close>

datatype json_value =
    JText bytes
  | JString bytes
  | JArray "json_value list"
  | JObject "(bytes \<times> json_value) list"

fun json_render :: "json_value \<Rightarrow> bytes" and
    json_render_items :: "json_value list \<Rightarrow> bytes" and
    json_render_members :: "(bytes \<times> json_value) list \<Rightarrow> bytes" where
  "json_render (JText t) = t"
| "json_render (JString s) = 34 # s @ [34]"
| "json_render (JArray vs) = 91 # json_render_items vs @ [93]"
| "json_render (JObject ms) = 123 # json_render_members ms @ [125]"
| "json_render_items [] = []"
| "json_render_items (v # vs) = json_render v @ (if vs = [] then [] else 44 # json_render_items vs)"
| "json_render_members [] = []"
| "json_render_members ((k, v) # ms) =
     34 # k @ 34 # 58 # json_render v @ (if ms = [] then [] else 44 # json_render_members ms)"

fun json_string_ok :: "bytes \<Rightarrow> bool" where
  "json_string_ok [] = True"
| "json_string_ok [c] = (c \<noteq> 34 \<and> c \<noteq> 92)"
| "json_string_ok (c # d # s) = (if c = 92 then json_string_ok s else c \<noteq> 34 \<and> json_string_ok (d # s))"

definition json_plain :: "u8 \<Rightarrow> bool" where
  "json_plain c \<longleftrightarrow> c \<noteq> 0 \<and> c \<noteq> 34 \<and> c \<noteq> 44 \<and> c \<noteq> 91 \<and> c \<noteq> 93 \<and> c \<noteq> 123 \<and> c \<noteq> 125 \<and> \<not> is_space c"

fun json_ok :: "json_value \<Rightarrow> bool" where
  "json_ok (JText t) = (t \<noteq> [] \<and> list_all json_plain t)"
| "json_ok (JString s) = json_string_ok s"
| "json_ok (JArray vs) = list_all json_ok vs"
| "json_ok (JObject ms) = list_all (\<lambda>(k, v). json_string_ok k \<and> json_ok v) ms"

lemma json_string_loop_exact: "json_string_ok s \<Longrightarrow> json_string_loop (s @ 34 # rest) = Some rest"
  by (induction s rule: json_string_ok.induct) (auto split: if_splits)

lemma json_skip_string_exact: "json_string_ok s \<Longrightarrow> json_skip_string (34 # s @ 34 # rest) = Some rest"
  by (simp add: json_skip_string_def json_string_loop_exact)

lemmas value_loop_step = json_value_loop.simps [of _ _ _ "c # cursor" for c cursor]

text \<open>Inside brackets of either kind, a whole value leaves the depth as it is.\<close>

lemma value_loop_text:
  "list_all json_plain t \<Longrightarrow> left \<in> {123, 91} \<Longrightarrow> right \<in> {125, 93} \<Longrightarrow>
   json_value_loop left right (Suc d) (t @ rest) = json_value_loop left right (Suc d) rest"
  by (induction t) (auto simp: value_loop_step json_plain_def)

lemma value_loop_string:
  "json_string_ok s \<Longrightarrow> json_value_loop left right (Suc d) (34 # s @ 34 # rest) = json_value_loop left right (Suc d) rest"
  by (simp add: value_loop_step json_skip_string_exact)

lemma value_loop_value:
  assumes "left = 123 \<and> right = 125 \<or> left = 91 \<and> right = 93"
  shows "json_ok v \<Longrightarrow> json_value_loop left right (Suc d) (json_render v @ rest) = json_value_loop left right (Suc d) rest"
    "list_all json_ok vs \<Longrightarrow>
     json_value_loop left right (Suc d) (json_render_items vs @ rest) = json_value_loop left right (Suc d) rest"
    "list_all (\<lambda>(k, v). json_string_ok k \<and> json_ok v) ms \<Longrightarrow>
     json_value_loop left right (Suc d) (json_render_members ms @ rest) = json_value_loop left right (Suc d) rest"
proof (induction v and vs and ms arbitrary: d rest and d rest and d rest
    rule: json_render_json_render_items_json_render_members.induct)
  case (1 t)
  then show ?case using value_loop_text assms by auto
next
  case (2 s)
  then show ?case by (simp add: value_loop_string)
next
  case (3 vs)
  then show ?case using assms by (auto simp: value_loop_step)
next
  case (4 ms)
  then show ?case using assms by (auto simp: value_loop_step)
next
  case (6 v vs)
  then show ?case using assms by (auto simp: value_loop_step)
next
  case (8 k v ms)
  then show ?case using assms by (auto simp: value_loop_string) (auto simp: value_loop_step)
qed simp_all

lemma render_front: "json_ok v \<Longrightarrow> \<exists>c t. json_render v = c # t \<and> \<not> is_space c \<and> c \<noteq> 44 \<and> c \<noteq> 93 \<and> c \<noteq> 125"
  by (cases v) (auto simp: is_space_def json_plain_def neq_Nil_conv)

lemma render_ws: "json_ok v \<Longrightarrow> json_skip_ws (json_render v @ rest) = json_render v @ rest"
  using render_front [of v] by (auto simp: json_skip_ws_def)

lemma dropWhile_stop: "list_all P t \<Longrightarrow> rest = [] \<or> \<not> P (hd rest) \<Longrightarrow> dropWhile P (t @ rest) = rest"
  by (induction t) (auto simp: neq_Nil_conv dropWhile_eq_self_iff)

text \<open>A value is skipped exactly when something stands behind it that can stand there.\<close>

lemma json_skip_value_exact:
  assumes ok: "json_ok v" and behind: "rest = [] \<or> hd rest \<in> {44, 93, 125}"
  shows "json_skip_value (json_render v @ rest) = Some rest"
proof (cases v)
  case (JText t)
  let ?P = "\<lambda>c. c \<noteq> 44 \<and> c \<noteq> 125 \<and> c \<noteq> 93 \<and> \<not> is_space c"
  have "dropWhile ?P (t @ rest) = rest"
    using ok JText behind by (intro dropWhile_stop) (auto simp: json_plain_def list_all_iff)
  moreover obtain c t' where t: "t = c # t'" using ok JText by (auto simp: neq_Nil_conv)
  moreover have "c \<noteq> 34" "c \<noteq> 123" "c \<noteq> 91" using ok JText t by (auto simp: json_plain_def)
  ultimately show ?thesis using render_ws [OF ok] JText by (simp add: json_skip_value_def)
next
  case (JString s)
  then show ?thesis using render_ws [OF ok, of rest] ok by (simp add: json_skip_value_def json_skip_string_exact)
next
  case (JArray vs)
  have "json_value_loop 91 93 (Suc 0) (json_render_items vs @ 93 # rest) = Some rest"
    using value_loop_value(2) [of 91 93 vs 0 "93 # rest"] ok JArray by (simp add: value_loop_step json_value_loop.simps [of _ _ 0])
  then show ?thesis using render_ws [OF ok, of rest] JArray by (simp add: json_skip_value_def)
next
  case (JObject ms)
  have "json_value_loop 123 125 (Suc 0) (json_render_members ms @ 125 # rest) = Some rest"
    using value_loop_value(3) [of 123 125 ms 0 "125 # rest"] ok JObject by (simp add: value_loop_step json_value_loop.simps [of _ _ 0])
  then show ?thesis using render_ws [OF ok, of rest] JObject by (simp add: json_skip_value_def)
qed

section \<open>Lookups are exact\<close>

lemma json_between_append [simp]: "json_between (xs @ rest) rest = xs"
  by (simp add: json_between_def)

abbreviation (input) members_ok :: "(bytes \<times> json_value) list \<Rightarrow> bool" where
  "members_ok ms \<equiv> list_all (\<lambda>(k, v). json_string_ok k \<and> json_ok v) ms"

text \<open>One member, from its opening quote.\<close>

lemma member_loop_step:
  assumes ok: "json_string_ok k" "json_ok v" and behind: "rest = [] \<or> hd rest \<in> {44, 93, 125}"
  shows "json_member_loop key (34 # k @ 34 # 58 # json_render v @ rest) =
    (if k = key then Some (json_render v) else json_member_loop key rest)"
proof -
  have "json_skip_string (34 # k @ 34 # 58 # json_render v @ rest) = Some (58 # json_render v @ rest)"
    by (rule json_skip_string_exact [OF ok(1)])
  moreover have "json_skip_ws (34 # xs) = 34 # xs" "json_skip_ws (58 # xs) = 58 # xs" for xs
    by (simp_all add: json_skip_ws_def is_space_def)
  ultimately show ?thesis
    using json_skip_value_exact [OF ok(2) behind] render_ws [OF ok(2), of rest]
    by (simp add: json_member_loop.simps [of key "34 # k @ 34 # 58 # json_render v @ rest"] Let_def)
qed

lemma member_loop_end: "json_member_loop key (125 # rest) = None"
  and member_loop_comma: "json_member_loop key (44 # rest) = json_member_loop key rest"
  by (simp_all add: json_member_loop.simps [of key "125 # rest"] json_member_loop.simps [of key "44 # rest"]
      json_skip_ws_def is_space_def)

lemma member_loop_exact:
  "members_ok ms \<Longrightarrow>
   json_member_loop key (json_render_members ms @ 125 # rest) = map_option json_render (map_of ms key)"
proof (induction ms)
  case Nil
  then show ?case by (simp add: member_loop_end)
next
  case (Cons m ms)
  obtain k v where m: "m = (k, v)" by (metis surj_pair)
  let ?tail = "(if ms = [] then [] else 44 # json_render_members ms) @ 125 # rest"
  have "json_member_loop key (json_render_members (m # ms) @ 125 # rest) =
      json_member_loop key (34 # k @ 34 # 58 # json_render v @ ?tail)" by (simp add: m)
  also have "\<dots> = (if k = key then Some (json_render v) else json_member_loop key ?tail)"
    using Cons(2) m by (intro member_loop_step) auto
  finally show ?case using Cons m by (auto simp: member_loop_end member_loop_comma)
qed

lemma json_find_member_exact:
  assumes "json_ok (JObject ms)"
  shows "json_find_member (json_render (JObject ms) @ rest) key = map_option json_render (map_of ms key)"
  using assms member_loop_exact [of ms key rest] by (simp add: json_find_member_def)

lemma item_loop_step:
  assumes ok: "json_ok v" and behind: "rest = [] \<or> hd rest \<in> {44, 93, 125}" and "current \<le> index"
  shows "json_item_loop index current (json_render v @ rest) =
    (if current = index then Some (json_render v) else json_item_loop index (current + 1) rest)"
proof -
  obtain c t where c: "json_render v = c # t" "c \<noteq> 44" "c \<noteq> 93" using render_front [OF ok] by auto
  have "json_skip_ws (json_render v @ rest) = c # t @ rest" using render_ws [OF ok] c(1) by simp
  moreover have "json_skip_value (c # t @ rest) = Some rest" using json_skip_value_exact [OF ok behind] c(1) by simp
  moreover have "json_between (c # t @ rest) rest = c # t" using json_between_append [of "c # t" rest] by simp
  ultimately show ?thesis
    using c assms(3) by (simp add: json_item_loop.simps [of index current])
qed

lemma item_loop_end: "json_item_loop index current (93 # rest) = None"
  and item_loop_comma: "json_item_loop index current (44 # rest) = json_item_loop index current rest"
  by (simp_all add: json_item_loop.simps [of index current "93 # rest"] json_item_loop.simps [of index current "44 # rest"]
      json_skip_ws_def is_space_def)

lemma item_loop_exact:
  "list_all json_ok vs \<Longrightarrow> current \<le> index \<Longrightarrow>
   json_item_loop index current (json_render_items vs @ 93 # rest) =
     (if index - current < length vs then Some (json_render (vs ! (index - current))) else None)"
proof (induction vs arbitrary: current)
  case Nil
  then show ?case by (simp add: item_loop_end)
next
  case (Cons v vs)
  let ?tail = "(if vs = [] then [] else 44 # json_render_items vs) @ 93 # rest"
  have step: "json_item_loop index current (json_render_items (v # vs) @ 93 # rest) =
      (if current = index then Some (json_render v) else json_item_loop index (current + 1) ?tail)"
    using item_loop_step [of v ?tail current index] Cons(2,3) by (auto split: if_splits)
  show ?case
  proof (cases "current = index")
    case True
    then show ?thesis using step by simp
  next
    case False
    then have d: "current + 1 \<le> index" "index - current = Suc (index - (current + 1))" using Cons(3) by auto
    have "json_item_loop index (current + 1) ?tail =
        (if index - (current + 1) < length vs then Some (json_render (vs ! (index - (current + 1)))) else None)"
      using Cons(1) [OF _ d(1)] Cons(2) by (auto simp: item_loop_end item_loop_comma)
    then show ?thesis using step False by (simp only: d(2)) simp
  qed
qed

lemma json_array_item_exact:
  assumes "json_ok (JArray vs)"
  shows "json_array_item (json_render (JArray vs)) index = (if index < length vs then Some (json_render (vs ! index)) else None)"
  using assms item_loop_exact [of vs 0 index "[]"] by (simp add: json_array_item_def)

text \<open>The numbers of a document: those whose text fits into the buffer of 32 bytes.\<close>

definition number_text :: "json_value option \<Rightarrow> bytes option" where
  "number_text value =
     (case value of Some (JText t) \<Rightarrow> if length t < 32 then Some t else None | _ \<Rightarrow> None)"

lemma c_str_text: "list_all json_plain t \<Longrightarrow> c_str t = t"
  by (auto simp: c_str_def json_plain_def list_all_iff takeWhile_eq_all_conv)

lemma number_exact:
  assumes ok: "json_ok (JObject ms)" and t: "number_text (map_of ms key) = Some t"
  shows "json_member_number strtod (json_render (JObject ms)) key = Some (strtod t)"
proof -
  have m: "map_of ms key = Some (JText t)" "length t < 32"
    using t by (auto simp: number_text_def split: option.splits json_value.splits if_splits)
  then have "json_ok (JText t)" using ok map_of_SomeD [OF m(1)] by (fastforce simp: list_all_iff)
  then show ?thesis
    using json_find_member_exact [OF ok, of "[]" key] m c_str_text by (simp add: json_member_number_def)
qed

lemma array_number_exact:
  assumes ok: "json_ok (JObject ms)" and a: "map_of ms key = Some (JArray (JText t # vs))" "length t < 32"
  shows "json_member_array_number strtod (json_render (JObject ms)) key 0 = Some (strtod t)"
proof -
  have "json_ok (JArray (JText t # vs))" using ok map_of_SomeD [OF a(1)] by (fastforce simp: list_all_iff)
  then show ?thesis
    using json_find_member_exact [OF ok, of "[]" key] json_array_item_exact [of "JText t # vs" 0] a c_str_text
    by (simp add: json_member_array_number_def)
qed

text \<open>
  C14: The weather in a well-formed answer is read exactly.  From the text of any JSON object, with any
  further members, nested values, strings with escapes and keys that contain each other, in any
  order, the scanner takes each number from the first member with its own name of the object
  \<open>current\<close> or \<open>daily\<close>, and the offset of the time zone if there is one; the members \<open>current_units\<close> and
  the like do not disturb it.
\<close>

theorem weather_json_exact:
  assumes ok: "json_ok (JObject ms)"
    and current: "map_of ms (ascii ''current'') = Some (JObject cs)"
    and daily: "map_of ms (ascii ''daily'') = Some (JObject ds)"
    and numbers: "number_text (map_of cs (ascii ''temperature_2m'')) = Some temperature"
      "number_text (map_of cs (ascii ''apparent_temperature'')) = Some apparent"
      "number_text (map_of cs (ascii ''relative_humidity_2m'')) = Some humidity"
      "number_text (map_of cs (ascii ''weather_code'')) = Some code"
      "number_text (map_of cs (ascii ''wind_speed_10m'')) = Some wind"
      "number_text (map_of cs (ascii ''time'')) = Some observed"
    and days: "map_of ds (ascii ''temperature_2m_max'') = Some (JArray (JText high # highs))" "length high < 32"
      "map_of ds (ascii ''temperature_2m_min'') = Some (JArray (JText low # lows))" "length low < 32"
    and zone: "map_of ms (ascii ''utc_offset_seconds'') = zone"
      "zone = None \<or> number_text zone \<noteq> None"
  shows "weather_of_json strtod to_float to_int to_u64 (json_render (JObject ms)) =
    Some \<lparr>wth_code = map_weather_code (to_int (strtod code)), wth_temperature_c = to_float (strtod temperature),
      wth_apparent_c = to_float (strtod apparent), wth_humidity_percent = to_float (strtod humidity),
      wth_wind_kph = to_float (strtod wind), wth_today_high_c = to_float (strtod high),
      wth_today_low_c = to_float (strtod low),
      wth_utc_offset_seconds =
        (case number_text zone of None \<Rightarrow> 0 | Some t \<Rightarrow> word_of_int (to_int (strtod t))),
      wth_observed_utc = to_u64 (strtod observed)\<rparr>"
proof -
  have "json_ok (JObject cs)" "json_ok (JObject ds)"
    using ok map_of_SomeD [OF current] map_of_SomeD [OF daily] by (fastforce simp: list_all_iff)+
  note cs = number_exact [OF this(1)] and ds = array_number_exact [OF this(2)]
  have "json_find_member (json_render (JObject ms)) (ascii ''current'') = Some (json_render (JObject cs))"
    "json_find_member (json_render (JObject ms)) (ascii ''daily'') = Some (json_render (JObject ds))"
    using json_find_member_exact [OF ok, of "[]"] current daily by simp_all
  moreover have "json_member_number strtod (json_render (JObject ms)) (ascii ''utc_offset_seconds'') =
      map_option strtod (number_text zone)"
  proof (cases "number_text zone")
    case None
    then have "map_of ms (ascii ''utc_offset_seconds'') = None" using zone by simp
    then show ?thesis using None json_find_member_exact [OF ok, of "[]"] by (simp add: json_member_number_def)
  next
    case (Some t)
    then show ?thesis using number_exact [OF ok] zone(1) by simp
  qed
  ultimately show ?thesis
    using numbers [THEN cs] ds [OF days(1,2)] ds [OF days(3,4)]
    by (simp add: weather_of_json_def del: json_render.simps split: option.split)
qed

text \<open>An answer of the forecast service.\<close>

definition sample_current :: "(bytes \<times> json_value) list" where
  "sample_current = [(ascii ''time'', JText (ascii ''1700000000'')), (ascii ''temperature_2m'', JText (ascii ''21.5'')),
     (ascii ''apparent_temperature'', JText (ascii ''20'')), (ascii ''relative_humidity_2m'', JText (ascii ''100'')),
     (ascii ''weather_code'', JText (ascii ''3'')), (ascii ''wind_speed_10m'', JText (ascii ''12.25''))]"

definition sample_daily :: "(bytes \<times> json_value) list" where
  "sample_daily = [(ascii ''temperature_2m_max'', JArray [JText (ascii ''-12.345'')]),
     (ascii ''temperature_2m_min'', JArray [JText (ascii ''-123.456''), JText (ascii ''0'')])]"

definition sample_answer :: "(bytes \<times> json_value) list" where
  "sample_answer = [(ascii ''utc_offset_seconds'', JText (ascii ''28800'')),
     (ascii ''current_units'', JObject [(ascii ''temperature_2m'', JString [92, 34, 67])]),
     (ascii ''current'', JObject sample_current), (ascii ''daily'', JObject sample_daily)]"

lemma sample_answer_ok: "json_ok (JObject sample_answer)"
  by (simp add: sample_answer_def sample_current_def sample_daily_def ascii_def json_plain_def is_space_def)

lemma weather_json_exact_witness:
  "weather_of_json (\<lambda>t. of_nat (length t)) ucast uint (\<lambda>v. v) (json_render (JObject sample_answer)) =
     Some \<lparr>wth_code = 1, wth_temperature_c = 4, wth_apparent_c = 2, wth_humidity_percent = 3, wth_wind_kph = 5,
       wth_today_high_c = 7, wth_today_low_c = 8, wth_utc_offset_seconds = 5, wth_observed_utc = 10\<rparr>"
proof -
  have "map_of sample_answer (ascii ''current'') = Some (JObject sample_current)"
    "map_of sample_answer (ascii ''daily'') = Some (JObject sample_daily)"
    "map_of sample_answer (ascii ''utc_offset_seconds'') = Some (JText (ascii ''28800''))"
    by (simp_all add: sample_answer_def ascii_def)
  moreover have "number_text (map_of sample_current (ascii ''temperature_2m'')) = Some (ascii ''21.5'')"
    "number_text (map_of sample_current (ascii ''apparent_temperature'')) = Some (ascii ''20'')"
    "number_text (map_of sample_current (ascii ''relative_humidity_2m'')) = Some (ascii ''100'')"
    "number_text (map_of sample_current (ascii ''weather_code'')) = Some (ascii ''3'')"
    "number_text (map_of sample_current (ascii ''wind_speed_10m'')) = Some (ascii ''12.25'')"
    "number_text (map_of sample_current (ascii ''time'')) = Some (ascii ''1700000000'')"
    by (simp_all add: sample_current_def ascii_def number_text_def)
  moreover have "map_of sample_daily (ascii ''temperature_2m_max'') = Some (JArray (JText (ascii ''-12.345'') # []))"
    "map_of sample_daily (ascii ''temperature_2m_min'') = Some (JArray (JText (ascii ''-123.456'') # [JText (ascii ''0'')]))"
    by (simp_all add: sample_daily_def ascii_def)
  ultimately have "weather_of_json (\<lambda>t. of_nat (length t)) ucast uint (\<lambda>v. v) (json_render (JObject sample_answer)) =
     Some \<lparr>wth_code = map_weather_code (uint (of_nat (length (ascii ''3'')) :: u64)),
      wth_temperature_c = ucast (of_nat (length (ascii ''21.5'')) :: u64),
      wth_apparent_c = ucast (of_nat (length (ascii ''20'')) :: u64), wth_humidity_percent = ucast (of_nat (length (ascii ''100'')) :: u64),
      wth_wind_kph = ucast (of_nat (length (ascii ''12.25'')) :: u64), wth_today_high_c = ucast (of_nat (length (ascii ''-12.345'')) :: u64),
      wth_today_low_c = ucast (of_nat (length (ascii ''-123.456'')) :: u64),
      wth_utc_offset_seconds = (case number_text (Some (JText (ascii ''28800''))) of None \<Rightarrow> 0
         | Some t \<Rightarrow> word_of_int (uint (of_nat (length t) :: u64))),
      wth_observed_utc = of_nat (length (ascii ''1700000000''))\<rparr>"
    by (intro weather_json_exact [OF sample_answer_ok]) (simp_all add: ascii_def number_text_def)
  then show ?thesis by (simp add: ascii_def number_text_def map_weather_code_def)
qed

end
