(* ===== verification/Weather_Rw007.thy ===== *)
theory Weather_Rw007
  imports Weather_Restart Weather_Cities Weather_Json
begin

text \<open>
  The RW007 port of \<open>lvww_rw007.c\<close>: the requests that the user interface hands to two workers, what
  the workers post for them, and the callbacks of the WLAN manager.  A piece of code that holds the
  mutex, and the code of a worker between two calls of the WLAN manager or the network, is one step;
  what these calls return is an argument.
\<close>

section \<open>Data\<close>

text \<open>The union of a command with the type that selects its member.\<close>

datatype lvww_rw_cmd_data =
    RW_CMD_SCAN
  | RW_CMD_CONNECT lvww_wifi_credentials_t
  | RW_CMD_DISCONNECT
  | RW_CMD_CITY bytes
  | RW_CMD_WEATHER lvww_city_t
  | RW_CMD_TIME
  | RW_CMD_STOP

record lvww_rw_cmd_t =
  cmd_request_id :: u32
  cmd_data :: lvww_rw_cmd_data

text \<open>\<open>rw_bound\<close> says whether a context is bound; the context itself is passed along.\<close>

record lvww_rw007 =
  rw_bound :: bool
  rw_queue :: "lvww_rw_cmd_t list"
  rw_city_queue :: "lvww_rw_cmd_t list"
  rw_running :: bool
  rw_city_running :: bool
  rw_disconnecting :: bool
  rw_scan_results :: "lvww_wifi_ap_t list"
  rw_scan_count :: u16
  rw_latest :: "lvww_operation_t \<Rightarrow> u32"
  rw_cancelled :: "lvww_operation_t \<Rightarrow> u32"
  rw_kvs :: "lvww_rw_kv_t list"

abbreviation (input) LVWW_RW007_QUEUE_DEPTH :: nat where "LVWW_RW007_QUEUE_DEPTH \<equiv> 8"
abbreviation (input) LVWW_RW007_CITY_QUEUE_DEPTH :: nat where "LVWW_RW007_CITY_QUEUE_DEPTH \<equiv> 4"

text \<open>The fields of \<open>struct rt_wlan_info\<close> that are used.\<close>

record rt_wlan_info =
  info_ssid_len :: u8
  info_ssid_val :: bytes
  info_rssi :: u16
  info_open :: bool

definition rw_operation :: "lvww_rw_cmd_data \<Rightarrow> lvww_operation_t" where
  "rw_operation data =
     (case data of
        RW_CMD_SCAN \<Rightarrow> LVWW_OP_WIFI_SCAN
      | RW_CMD_CONNECT credentials \<Rightarrow> LVWW_OP_WIFI_CONNECT
      | RW_CMD_DISCONNECT \<Rightarrow> LVWW_OP_WIFI_DISCONNECT
      | RW_CMD_CITY query \<Rightarrow> LVWW_OP_CITY_SEARCH
      | RW_CMD_WEATHER city \<Rightarrow> LVWW_OP_WEATHER_FETCH
      | RW_CMD_TIME \<Rightarrow> LVWW_OP_TIME_SYNC
      | RW_CMD_STOP \<Rightarrow> LVWW_OP_NONE)"

definition rw_request_current :: "lvww_rw007 \<Rightarrow> lvww_operation_t \<Rightarrow> u32 \<Rightarrow> bool" where
  "rw_request_current b operation n \<longleftrightarrow>
     (if operation = LVWW_OP_CITY_SEARCH then rw_city_running b else rw_running b) \<and>
     rw_latest b operation = n \<and> rw_cancelled b operation \<noteq> n"

section \<open>Posting\<close>

definition rw_post :: "lvww_rw007 \<Rightarrow> lvww_rw_cmd_t \<Rightarrow> lvww_event_data \<Rightarrow> lvww_ctx \<Rightarrow> lvww_ctx" where
  "rw_post b cmd data c =
     (if \<not> rw_request_current b (rw_operation (cmd_data cmd)) (cmd_request_id cmd) then c
      else if \<not> rw_bound b then c
      else snd (lvww_post_event \<lparr>ev_request_id = cmd_request_id cmd, ev_data = data\<rparr> c))"

definition rw_post_error ::
  "lvww_rw007 \<Rightarrow> lvww_rw_cmd_t \<Rightarrow> lvww_operation_t \<Rightarrow> int \<Rightarrow> bytes \<Rightarrow> lvww_ctx \<Rightarrow> lvww_ctx" where
  "rw_post_error b cmd operation code message c =
     rw_post b cmd (EVT_ERROR operation code (c_array 64 (take 63 message))) c"

section \<open>Callbacks of the WLAN manager\<close>

definition rw_scan_same :: "rt_wlan_info \<Rightarrow> lvww_wifi_ap_t \<Rightarrow> bool" where
  "rw_scan_same info ap \<longleftrightarrow>
     length (c_str (ap_ssid ap)) = unat (info_ssid_len info) \<and>
     take (unat (info_ssid_len info)) (ap_ssid ap) = take (unat (info_ssid_len info)) (info_ssid_val info)"

text \<open>\<open>info\<close> is \<open>None\<close> when there is no buffer, or one of another length.\<close>

definition rw_scan_report_cb :: "rt_wlan_info option \<Rightarrow> lvww_rw007 \<Rightarrow> lvww_rw007" where
  "rw_scan_report_cb info b =
     (case info of
        None \<Rightarrow> b
      | Some info \<Rightarrow>
          if info_ssid_len info = 0 \<or> info_ssid_len info > 32 then b
          else case find (\<lambda>i. rw_scan_same info (rw_scan_results b ! i)) [0 ..< unat (rw_scan_count b)] of
            Some i \<Rightarrow>
              let ap = rw_scan_results b ! i
              in if sint (info_rssi info) > sint (ap_rssi ap)
                 then b\<lparr>rw_scan_results := (rw_scan_results b)[i := ap\<lparr>ap_rssi := info_rssi info\<rparr>]\<rparr>
                 else b
          | None \<Rightarrow>
              if rw_scan_count b < of_nat LVWW_MAX_WIFI_RESULTS then
                let ap = \<lparr>ap_ssid = c_array 33 (take (unat (info_ssid_len info)) (info_ssid_val info)),
                          ap_rssi = info_rssi info, ap_secure = (if info_open info then 0 else 1)\<rparr>
                in b\<lparr>rw_scan_results := (rw_scan_results b)[unat (rw_scan_count b) := ap],
                     rw_scan_count := rw_scan_count b + 1\<rparr>
              else b)"

text \<open>\<open>mem_ok\<close> says whether the event could be allocated.\<close>

definition rw_disconnected_cb :: "bool \<Rightarrow> lvww_rw007 \<Rightarrow> lvww_ctx \<Rightarrow> lvww_ctx" where
  "rw_disconnected_cb mem_ok b c =
     (if rw_disconnecting b \<or> \<not> rw_running b \<or> \<not> rw_bound b \<or> \<not> mem_ok then c
      else snd (lvww_post_event
             \<lparr>ev_request_id = 0,
              ev_data = EVT_WIFI_STATE LVWW_WIFI_OFFLINE LVWW_WIFI_REASON_DROPPED (replicate 33 0)\<rparr> c))"

section \<open>The work\<close>

text \<open>\<open>rw_do_scan\<close> up to \<open>rt_wlan_scan\<close>, and from there; \<open>ok\<close> says whether the scan was completed.\<close>

definition rw_scan_start :: "lvww_rw007 \<Rightarrow> lvww_rw007" where
  "rw_scan_start b = b\<lparr>rw_scan_count := 0, rw_scan_results := replicate LVWW_MAX_WIFI_RESULTS wifi_ap_zero\<rparr>"

definition rw_scan_finish :: "bool \<Rightarrow> lvww_rw007 \<Rightarrow> lvww_rw_cmd_t \<Rightarrow> lvww_ctx \<Rightarrow> lvww_ctx" where
  "rw_scan_finish ok b cmd c =
     (if \<not> ok then rw_post_error b cmd LVWW_OP_WIFI_SCAN (-2)
          [87, 105, 45, 70, 105, 32, 230, 137, 171, 230, 143, 143, 232, 182, 133, 230, 151, 182] c
      else rw_post b cmd
             (EVT_WIFI_SCAN_RESULT (rw_scan_count b)
                (memcpy_at (replicate LVWW_MAX_WIFI_RESULTS wifi_ap_zero) 0
                   (take (unat (rw_scan_count b)) (rw_scan_results b)))) c)"

text \<open>
  \<open>rw_do_connect\<close> up to \<open>rt_wlan_connect\<close>, and from there; \<open>rc\<close> is its result and \<open>ready\<close> what
  \<open>rt_wlan_is_ready\<close> says at the end.
\<close>

definition rw_connect_start ::
  "lvww_rw007 \<Rightarrow> lvww_rw_cmd_t \<Rightarrow> lvww_wifi_credentials_t \<Rightarrow> lvww_ctx \<Rightarrow> lvww_ctx" where
  "rw_connect_start b cmd credentials c =
     rw_post b cmd (EVT_WIFI_STATE LVWW_WIFI_CONNECTING LVWW_WIFI_REASON_NONE
       (c_array 33 (take 32 (c_str (cred_ssid credentials))))) c"

definition rw_connect_finish ::
  "int \<Rightarrow> bool \<Rightarrow> lvww_rw007 \<Rightarrow> lvww_rw_cmd_t \<Rightarrow> lvww_wifi_credentials_t \<Rightarrow> lvww_ctx \<Rightarrow> lvww_ctx" where
  "rw_connect_finish rc ready b cmd credentials c =
     (let ssid = c_array 33 (take 32 (c_str (cred_ssid credentials)))
      in rw_post b cmd
           (if rc = RT_EOK \<and> ready then EVT_WIFI_STATE LVWW_WIFI_ONLINE LVWW_WIFI_REASON_NONE ssid
            else EVT_WIFI_STATE LVWW_WIFI_OFFLINE
                   (if rc = RT_EOK then LVWW_WIFI_REASON_TIMEOUT
                    else if cred_secure credentials \<noteq> 0 then LVWW_WIFI_REASON_AUTH
                    else LVWW_WIFI_REASON_OTHER) ssid) c)"

definition rw_disconnect_start :: "lvww_rw007 \<Rightarrow> lvww_rw007" where
  "rw_disconnect_start b = b\<lparr>rw_disconnecting := True\<rparr>"

definition rw_disconnect_finish :: "int \<Rightarrow> lvww_rw007 \<Rightarrow> lvww_rw_cmd_t \<Rightarrow> lvww_ctx \<Rightarrow> lvww_rw007 \<times> lvww_ctx" where
  "rw_disconnect_finish rc b cmd c =
     (let b = b\<lparr>rw_disconnecting := False\<rparr>
      in if rc \<noteq> RT_EOK
         then (b, rw_post_error b cmd LVWW_OP_WIFI_DISCONNECT rc
                    [87, 105, 45, 70, 105, 32, 230, 150, 173, 229, 188, 128, 229, 164, 177, 232, 180, 165] c)
         else (b, rw_post b cmd (EVT_WIFI_STATE LVWW_WIFI_OFFLINE LVWW_WIFI_REASON_NONE (replicate 33 0)) c))"

text \<open>What \<open>rw_do_city\<close> posts: the built-in cities, or else those of the city database.\<close>

definition rw_do_city :: "'w fs_ops \<Rightarrow> (bytes \<Rightarrow> u64) \<Rightarrow> bytes \<Rightarrow> 'w \<Rightarrow> (lvww_event_data \<times> 'w) option" where
  "rw_do_city F strtod query w =
     (let found = lvww_city_catalog_search (Some query) LVWW_MAX_CITY_RESULTS;
          items = memcpy_at (replicate LVWW_MAX_CITY_RESULTS city_zero) 0 found
      in if length found \<noteq> 0 then Some (EVT_CITY_SEARCH_RESULT (of_nat (length found)) items, w)
         else case lvww_assets_city_search F strtod (Some query) items LVWW_MAX_CITY_RESULTS w of
           None \<Rightarrow> None
         | Some (count, items, w) \<Rightarrow> Some (EVT_CITY_SEARCH_RESULT (of_nat count) items, w))"

abbreviation (input) weather_error :: "bytes \<Rightarrow> lvww_event_data" where
  "weather_error message \<equiv> EVT_ERROR LVWW_OP_WEATHER_FETCH (-1) (c_array 64 (take 63 message))"

text \<open>
  What \<open>rw_do_weather\<close> and \<open>rw_do_time\<close> post; \<open>ready\<close> is \<open>rt_wlan_is_ready\<close>, and \<open>answer\<close> what
  \<open>http_get_json\<close> gives, if it succeeds: the text, or the time of the server.
\<close>

definition rw_do_weather ::
  "(bytes \<Rightarrow> u64) \<Rightarrow> (u64 \<Rightarrow> u32) \<Rightarrow> (u64 \<Rightarrow> int) \<Rightarrow> (u64 \<Rightarrow> u64) \<Rightarrow> bool \<Rightarrow> bytes option \<Rightarrow> lvww_event_data" where
  "rw_do_weather strtod to_float to_int to_u64 ready answer =
     (if \<not> ready
      then weather_error [231, 189, 145, 231, 187, 156, 229, 176, 154, 230, 156, 170, 229, 176, 177, 231, 187, 170]
      else case answer of
        None \<Rightarrow> weather_error [229, 164, 169, 230, 176, 148, 230, 156, 141, 229, 138, 161, 232, 175, 183, 230, 177, 130,
                  229, 164, 177, 232, 180, 165]
      | Some json \<Rightarrow>
          if json_find_member json (ascii ''current'') = None \<or> json_find_member json (ascii ''daily'') = None
          then weather_error [229, 164, 169, 230, 176, 148, 230, 149, 176, 230, 141, 174, 230, 160, 188, 229, 188, 143,
                 233, 148, 153, 232, 175, 175]
          else case weather_of_json strtod to_float to_int to_u64 json of
            None \<Rightarrow> weather_error [229, 164, 169, 230, 176, 148, 230, 149, 176, 230, 141, 174, 229, 173, 151, 230, 174, 181,
                      231, 188, 186, 229, 164, 177]
          | Some weather \<Rightarrow> EVT_WEATHER_RESULT weather)"

definition rw_do_time :: "bool \<Rightarrow> u64 option \<Rightarrow> lvww_event_data" where
  "rw_do_time ready answer =
     (let error = EVT_ERROR LVWW_OP_TIME_SYNC (-1) (c_array 64 (take 63
            [231, 189, 145, 231, 187, 156, 230, 160, 161, 230, 151, 182, 229, 164, 177, 232, 180, 165]))
      in if \<not> ready then error
         else case answer of
           None \<Rightarrow> error
         | Some server_time \<Rightarrow> if server_time < 1577836800 then error else EVT_TIME_RESULT server_time)"

section \<open>The workers\<close>

text \<open>
  One round of \<open>rw_worker_entry\<close> up to the call of the WLAN manager or of the network; the command
  that is worked on then, if any, is the third component.
\<close>

definition rw_worker_take :: "lvww_rw007 \<Rightarrow> lvww_ctx \<Rightarrow> lvww_rw007 \<times> lvww_ctx \<times> lvww_rw_cmd_t option" where
  "rw_worker_take b c =
     (case fifo_recv (rw_queue b) of
        (None, q) \<Rightarrow> (b, c, None)
      | (Some cmd, q) \<Rightarrow>
          let b = b\<lparr>rw_queue := q\<rparr>
          in if cmd_data cmd = RW_CMD_STOP then (b\<lparr>rw_running := False\<rparr>, c, None)
             else if \<not> rw_request_current b (rw_operation (cmd_data cmd)) (cmd_request_id cmd) then (b, c, None)
             else case cmd_data cmd of
               RW_CMD_SCAN \<Rightarrow> (rw_scan_start b, c, Some cmd)
             | RW_CMD_CONNECT credentials \<Rightarrow> (b, rw_connect_start b cmd credentials c, Some cmd)
             | RW_CMD_DISCONNECT \<Rightarrow> (rw_disconnect_start b, c, Some cmd)
             | RW_CMD_WEATHER city \<Rightarrow> (b, c, Some cmd)
             | RW_CMD_TIME \<Rightarrow> (b, c, Some cmd)
             | _ \<Rightarrow> (b, c, None))"

text \<open>What the call gave: the results of the WLAN manager, or the event for an answer of the network.\<close>

datatype rw_outcome = WLAN_SCANNED bool | WLAN_CONNECTED int bool | WLAN_DISCONNECTED int | HTTP_EVENT lvww_event_data

definition rw_worker_finish ::
  "rw_outcome \<Rightarrow> lvww_rw_cmd_t \<Rightarrow> lvww_rw007 \<Rightarrow> lvww_ctx \<Rightarrow> lvww_rw007 \<times> lvww_ctx" where
  "rw_worker_finish outcome cmd b c =
     (case (cmd_data cmd, outcome) of
        (RW_CMD_SCAN, WLAN_SCANNED ok) \<Rightarrow> (b, rw_scan_finish ok b cmd c)
      | (RW_CMD_CONNECT credentials, WLAN_CONNECTED rc ready) \<Rightarrow> (b, rw_connect_finish rc ready b cmd credentials c)
      | (RW_CMD_DISCONNECT, WLAN_DISCONNECTED rc) \<Rightarrow> rw_disconnect_finish rc b cmd c
      | (_, HTTP_EVENT data) \<Rightarrow> (b, rw_post b cmd data c)
      | _ \<Rightarrow> (b, c))"

text \<open>The outcomes that fit a command.\<close>

inductive rw_outcome_fits :: "lvww_rw_cmd_data \<Rightarrow> rw_outcome \<Rightarrow> bool" where
  "rw_outcome_fits RW_CMD_SCAN (WLAN_SCANNED ok)"
| "rw_outcome_fits (RW_CMD_CONNECT credentials) (WLAN_CONNECTED rc ready)"
| "rw_outcome_fits RW_CMD_DISCONNECT (WLAN_DISCONNECTED rc)"
| "rw_outcome_fits (RW_CMD_WEATHER city) (HTTP_EVENT (rw_do_weather strtod to_float to_int to_u64 ready answer))"
| "rw_outcome_fits RW_CMD_TIME (HTTP_EVENT (rw_do_time ready received))"

inductive_cases rw_outcome_fitsE: "rw_outcome_fits data outcome"

definition rw_city_take :: "lvww_rw007 \<Rightarrow> lvww_rw007 \<times> lvww_rw_cmd_t option" where
  "rw_city_take b =
     (case fifo_recv (rw_city_queue b) of
        (None, q) \<Rightarrow> (b, None)
      | (Some cmd, q) \<Rightarrow>
          let b = b\<lparr>rw_city_queue := q\<rparr>
          in case cmd_data cmd of
               RW_CMD_STOP \<Rightarrow> (b\<lparr>rw_city_running := False\<rparr>, None)
             | RW_CMD_CITY query \<Rightarrow>
                 if \<not> rw_request_current b LVWW_OP_CITY_SEARCH (cmd_request_id cmd) then (b, None)
                 else (b, Some cmd)
             | _ \<Rightarrow> (b, None))"

section \<open>The operations of the port\<close>

definition rw_send :: "lvww_rw_cmd_t \<Rightarrow> lvww_rw007 \<Rightarrow> int \<times> lvww_rw007" where
  "rw_send cmd b =
     (let operation = rw_operation (cmd_data cmd);
          city = (operation = LVWW_OP_CITY_SEARCH);
          running = (if city then rw_city_running b else rw_running b);
          b = (if running
               then b\<lparr>rw_latest := (rw_latest b)(operation := cmd_request_id cmd),
                      rw_cancelled := (rw_cancelled b)(operation := 0)\<rparr>
               else b)
      in if \<not> running then (-1, b)
         else if city then
           case fifo_send LVWW_RW007_CITY_QUEUE_DEPTH cmd (rw_city_queue b) of
             (ok, q) \<Rightarrow> (if ok then RT_EOK else - RT_EFULL, b\<lparr>rw_city_queue := q\<rparr>)
         else
           case fifo_send LVWW_RW007_QUEUE_DEPTH cmd (rw_queue b) of
             (ok, q) \<Rightarrow> (if ok then RT_EOK else - RT_EFULL, b\<lparr>rw_queue := q\<rparr>))"

definition rw_cancel :: "lvww_operation_t \<Rightarrow> u32 \<Rightarrow> lvww_rw007 \<Rightarrow> lvww_rw007" where
  "rw_cancel operation n b = b\<lparr>rw_cancelled := (rw_cancelled b)(operation := n)\<rparr>"

text \<open>The world of the user interface: the port and the clock.\<close>

definition rw_send_op :: "lvww_rw_cmd_data \<Rightarrow> u32 \<Rightarrow> lvww_rw007 \<times> u32 \<Rightarrow> int \<times> lvww_rw007 \<times> u32" where
  "rw_send_op data n =
     (\<lambda>(b, t). case rw_send \<lparr>cmd_request_id = n, cmd_data = data\<rparr> b of (rc, b) \<Rightarrow> (rc, b, t))"

definition rw_ops :: "(lvww_rw007 \<times> u32) lvww_port_ops_t" where
  "rw_ops =
     \<lparr>op_wifi_scan = Some (rw_send_op RW_CMD_SCAN),
      op_wifi_connect = Some (\<lambda>n credentials. rw_send_op (RW_CMD_CONNECT credentials) n),
      op_wifi_disconnect = Some (rw_send_op RW_CMD_DISCONNECT),
      op_city_search = Some (\<lambda>n query. rw_send_op (RW_CMD_CITY (take 47 query)) n),
      op_weather_fetch = Some (\<lambda>n city. rw_send_op (RW_CMD_WEATHER city) n),
      op_time_sync = Some (rw_send_op RW_CMD_TIME),
      op_cancel = Some (\<lambda>operation n (b, t). (rw_cancel operation n b, t)),
      op_kv_read = Some (\<lambda>key buffer (b, t). (rw_kv_read (rw_kvs b) key buffer, b, t)),
      op_kv_write = Some (\<lambda>key data secret (b, t).
        case rw_kv_write key data (rw_kvs b) of (rc, kvs) \<Rightarrow> (rc, b\<lparr>rw_kvs := kvs\<rparr>, t)),
      op_kv_delete = Some (\<lambda>key (b, t).
        case rw_kv_delete key (rw_kvs b) of (rc, kvs) \<Rightarrow> (rc, b\<lparr>rw_kvs := kvs\<rparr>, t)),
      prt_tick = (\<lambda>(b, t). (t, b, t))\<rparr>"

section \<open>Life\<close>

definition lvww_rw007_create :: lvww_rw007 where
  "lvww_rw007_create =
     \<lparr>rw_bound = False, rw_queue = [], rw_city_queue = [], rw_running = True, rw_city_running = True,
      rw_disconnecting = False, rw_scan_results = replicate LVWW_MAX_WIFI_RESULTS wifi_ap_zero, rw_scan_count = 0,
      rw_latest = (\<lambda>operation. 0), rw_cancelled = (\<lambda>operation. 0), rw_kvs = replicate 3 kv_zero\<rparr>"

text \<open>\<open>ready\<close> is \<open>rt_wlan_is_ready\<close>, and \<open>info\<close> what \<open>rt_wlan_get_info\<close> gives, if it succeeds.\<close>

definition lvww_rw007_bind ::
  "bool \<Rightarrow> rt_wlan_info option \<Rightarrow> lvww_rw007 \<Rightarrow> lvww_ctx option \<Rightarrow> lvww_rw007 \<times> lvww_ctx option" where
  "lvww_rw007_bind ready info b ctx =
     (case ctx of
        None \<Rightarrow> (b\<lparr>rw_bound := False\<rparr>, None)
      | Some c \<Rightarrow>
          let b = b\<lparr>rw_bound := True\<rparr>
          in if \<not> ready then (b, Some c)
             else
               let ssid = (case info of
                             None \<Rightarrow> replicate 33 0
                           | Some info \<Rightarrow> c_array 33 (take (min 32 (unat (info_ssid_len info))) (info_ssid_val info)))
               in (b, Some (snd (lvww_post_event
                     \<lparr>ev_request_id = 0, ev_data = EVT_WIFI_STATE LVWW_WIFI_ONLINE LVWW_WIFI_REASON_NONE ssid\<rparr> c))))"

text \<open>\<open>lvww_rw007_destroy\<close> up to the wait for the workers: each gets an urgent stop.\<close>

definition rw_urgent :: "nat \<Rightarrow> lvww_rw_cmd_t \<Rightarrow> lvww_rw_cmd_t list \<Rightarrow> lvww_rw_cmd_t list" where
  "rw_urgent depth cmd q = (if length q < depth then cmd # q else q)"

definition lvww_rw007_destroy :: "lvww_rw007 \<Rightarrow> lvww_rw007" where
  "lvww_rw007_destroy b =
     (let b = fst (lvww_rw007_bind False None b None); stop = \<lparr>cmd_request_id = 0, cmd_data = RW_CMD_STOP\<rparr>
      in b\<lparr>rw_queue := (if rw_running b then rw_urgent LVWW_RW007_QUEUE_DEPTH stop (rw_queue b) else rw_queue b),
           rw_city_queue := (if rw_city_running b then rw_urgent LVWW_RW007_CITY_QUEUE_DEPTH stop (rw_city_queue b)
                             else rw_city_queue b)\<rparr>)"

section \<open>Changing the network\<close>

text \<open>
  C17: Connecting to another network while one is connected ends with the application offline.
  \<open>rt_wlan_connect\<close> disconnects from the first network itself, which is not a disconnection that
  \<open>rw_do_disconnect\<close> has announced, so that \<open>rw_disconnected_cb\<close> posts that the connection was
  dropped; and this ends the pending request.  When the new network then comes up, its event no
  longer belongs to any request and is ignored: the state stays offline, the credentials that worked
  are wiped and not stored, and neither this nor the clock asks for the weather or the time.
\<close>

theorem rw_switch_lost:
  assumes wait: "ctx_connect_request_id c = n" "n \<noteq> 0" "ctx_disconnect_request_id c \<noteq> n" "ctx_pending_valid c"
    and queue: "ctx_alive c" "ctx_event_mq c = []"
    and port: "rw_bound b" "\<not> rw_disconnecting b" "rw_request_current b LVWW_OP_WIFI_CONNECT n"
    and cmd: "cmd = \<lparr>cmd_request_id = n, cmd_data = RW_CMD_CONNECT credentials\<rparr>"
    and posted: "c1 = rw_connect_finish RT_EOK True b cmd credentials
      (rw_disconnected_cb True b (rw_connect_start b cmd credentials c))"
    and handled: "lvww_pump_timer_cb E c1 w = (c2, w2)"
  shows "length (ctx_event_mq c1) = 3 \<and>
    (\<exists>ssid. last (ctx_event_mq c1) =
       \<lparr>ev_request_id = n, ev_data = EVT_WIFI_STATE LVWW_WIFI_ONLINE LVWW_WIFI_REASON_NONE ssid\<rparr>) \<and>
    ctx_event_mq c2 = [] \<and> ctx_wifi_state c2 = LVWW_WIFI_OFFLINE \<and> ctx_connect_request_id c2 = 0 \<and>
    ctx_pending_credentials c2 = credentials_zero \<and> ctx_profile_store c2 = ctx_profile_store c \<and> w2 = w \<and>
    lvww_clock_timer_cb E c2 w3 = (c2, snd (prt_tick E w3))"
proof -
  let ?ssid = "c_array 33 (take 32 (c_str (cred_ssid credentials)))"
  let ?drop = "EVT_WIFI_STATE LVWW_WIFI_OFFLINE LVWW_WIFI_REASON_DROPPED (replicate 33 0)"
  have running: "rw_running b" using port(3) by (simp add: rw_request_current_def)
  have op: "rw_operation (cmd_data cmd) = LVWW_OP_WIFI_CONNECT" "cmd_request_id cmd = n"
    by (simp_all add: cmd rw_operation_def)
  have c1: "c1 = c\<lparr>ctx_event_mq :=
      [\<lparr>ev_request_id = n, ev_data = EVT_WIFI_STATE LVWW_WIFI_CONNECTING LVWW_WIFI_REASON_NONE ?ssid\<rparr>,
       \<lparr>ev_request_id = 0, ev_data = ?drop\<rparr>,
       \<lparr>ev_request_id = n, ev_data = EVT_WIFI_STATE LVWW_WIFI_ONLINE LVWW_WIFI_REASON_NONE ?ssid\<rparr>]\<rparr>"
    unfolding posted using port queue op running
    by (simp add: rw_connect_finish_def rw_connect_start_def rw_disconnected_cb_def rw_post_def
        lvww_post_event_def fifo_send_def Let_def)
  define offline where "offline = c\<lparr>ctx_event_mq := [], ctx_wifi_state := LVWW_WIFI_OFFLINE,
      ctx_connected_ssid := (ctx_connected_ssid c)[0 := 0], ctx_connect_request_id := 0,
      ctx_disconnect_request_id := 0, ctx_weather_retry_tick := 0, ctx_time_retry_tick := 0,
      ctx_pending_credentials := credentials_zero, ctx_pending_valid := False\<rparr>"
  have "lvww_pump E 4 c1 w = (offline, w)"
    using wait by (simp add: c1 numeral_eq_Suc fifo_recv_def lvww_handle_event_def lvww_event_current_def
        lvww_handle_wifi_state_def Let_def offline_def)
  then have "c2 = offline" "w2 = w" using handled by (simp_all add: lvww_pump_timer_cb_def)
  then show ?thesis by (simp add: c1 offline_def lvww_clock_timer_cb_def split: prod.split)
qed

definition sample_backend :: lvww_rw007 where
  "sample_backend = snd (rw_send \<lparr>cmd_request_id = 1, cmd_data = RW_CMD_CONNECT sample_credentials\<rparr>
     (lvww_rw007_create\<lparr>rw_bound := True\<rparr>))"

lemma rw_switch_lost_witness:
  "\<exists>c w. lvww_pump_timer_cb rw_ops
       (rw_connect_finish RT_EOK True sample_backend \<lparr>cmd_request_id = 1, cmd_data = RW_CMD_CONNECT sample_credentials\<rparr>
          sample_credentials
          (rw_disconnected_cb True sample_backend
             (rw_connect_start sample_backend \<lparr>cmd_request_id = 1, cmd_data = RW_CMD_CONNECT sample_credentials\<rparr>
                sample_credentials sample_connecting))) (sample_backend, 7) = (c, w) \<and>
     ctx_wifi_state c = LVWW_WIFI_OFFLINE \<and> ctx_pending_credentials c = credentials_zero \<and>
     ctx_profile_store c = ctx_profile_store sample_connecting"
proof -
  let ?cmd = "\<lparr>cmd_request_id = 1 :: u32, cmd_data = RW_CMD_CONNECT sample_credentials\<rparr>"
  let ?c1 = "rw_connect_finish RT_EOK True sample_backend ?cmd sample_credentials
      (rw_disconnected_cb True sample_backend (rw_connect_start sample_backend ?cmd sample_credentials sample_connecting))"
  have port: "rw_bound sample_backend" "\<not> rw_disconnecting sample_backend"
    "rw_request_current sample_backend LVWW_OP_WIFI_CONNECT 1"
    by (simp_all add: sample_backend_def rw_send_def lvww_rw007_create_def rw_operation_def rw_request_current_def
        fifo_send_def Let_def)
  have c: "ctx_connect_request_id sample_connecting = 1" "ctx_disconnect_request_id sample_connecting \<noteq> 1"
    "ctx_pending_valid sample_connecting" "ctx_alive sample_connecting" "ctx_event_mq sample_connecting = []"
    by (simp_all add: sample_connecting_def ctx_zero_def)
  obtain c2 w2 where p: "lvww_pump_timer_cb rw_ops ?c1 (sample_backend, 7) = (c2, w2)" by (metis surj_pair)
  from rw_switch_lost [OF c(1) _ c(2-5) port refl refl p]
  have "ctx_wifi_state c2 = LVWW_WIFI_OFFLINE \<and> ctx_pending_credentials c2 = credentials_zero \<and>
     ctx_profile_store c2 = ctx_profile_store sample_connecting" by simp
  then show ?thesis using p by blast
qed

section \<open>The results of a scan\<close>

definition info_ssid :: "rt_wlan_info \<Rightarrow> bytes" where
  "info_ssid info = take (unat (info_ssid_len info)) (info_ssid_val info)"

text \<open>A report with a name, as the driver makes them.\<close>

definition info_ok :: "rt_wlan_info \<Rightarrow> bool" where
  "info_ok info \<longleftrightarrow> 0 < info_ssid_len info \<and> info_ssid_len info \<le> 32 \<and> length (info_ssid_val info) = 32 \<and>
     0 \<notin> set (info_ssid info)"

text \<open>The different elements of a list, in the order in which they come first.\<close>

fun firsts :: "'a list \<Rightarrow> 'a list" where
  "firsts [] = []"
| "firsts (x # xs) = x # filter (\<lambda>y. y \<noteq> x) (firsts xs)"

lemma set_firsts [simp]: "set (firsts xs) = set xs"
  by (induction xs) auto

lemma firsts_snoc: "firsts (xs @ [x]) = (if x \<in> set xs then firsts xs else firsts xs @ [x])"
  by (induction xs) auto

definition scan_names :: "lvww_rw007 \<Rightarrow> bytes list" where
  "scan_names b = map (\<lambda>ap. c_str (ap_ssid ap)) (take (unat (rw_scan_count b)) (rw_scan_results b))"

definition scan_ok :: "rt_wlan_info list \<Rightarrow> lvww_rw007 \<Rightarrow> bool" where
  "scan_ok infos b \<longleftrightarrow> length (rw_scan_results b) = LVWW_MAX_WIFI_RESULTS \<and>
     unat (rw_scan_count b) \<le> LVWW_MAX_WIFI_RESULTS \<and>
     scan_names b = take LVWW_MAX_WIFI_RESULTS (firsts (map info_ssid infos)) \<and>
     (\<forall>i < unat (rw_scan_count b). length (ap_ssid (rw_scan_results b ! i)) = 33 \<and>
        sint (ap_rssi (rw_scan_results b ! i)) =
          Max (sint ` info_rssi ` {info \<in> set infos. info_ssid info = c_str (ap_ssid (rw_scan_results b ! i))}))"

lemma distinct_firsts: "distinct (firsts xs)"
  by (induction xs) auto

lemma scan_same_iff:
  assumes "info_ok info"
  shows "rw_scan_same info ap \<longleftrightarrow> c_str (ap_ssid ap) = info_ssid info"
proof -
  have "length (info_ssid info) = unat (info_ssid_len info)"
    using assms by (simp add: info_ok_def info_ssid_def word_le_nat_alt)
  moreover have "take (length (c_str (ap_ssid ap))) (ap_ssid ap) = c_str (ap_ssid ap)"
    by (simp add: c_str_def takeWhile_eq_take [symmetric])
  ultimately show ?thesis by (auto simp: rw_scan_same_def info_ssid_def)
qed

lemma scan_max_insert:
  fixes f :: "rt_wlan_info \<Rightarrow> int"
  assumes "info_ssid info = name" "info_ssid old = name" "old \<in> set infos"
  shows "Max (f ` {x \<in> set (infos @ [info]). info_ssid x = name}) = max (f info) (Max (f ` {x \<in> set infos. info_ssid x = name}))"
proof -
  have "{x \<in> set (infos @ [info]). info_ssid x = name} = insert info {x \<in> set infos. info_ssid x = name}"
    using assms(1) by auto
  moreover have "f ` {x \<in> set infos. info_ssid x = name} \<noteq> {}" using assms(2,3) by auto
  ultimately show ?thesis by (simp add: Max_insert)
qed

lemma scan_others:
  "info_ssid info \<noteq> name \<Longrightarrow> {x \<in> set (infos @ [info]). info_ssid x = name} = {x \<in> set infos. info_ssid x = name}"
  by auto

lemma scan_report_ok:
  assumes ok: "scan_ok infos b" and info: "info_ok info"
  shows "scan_ok (infos @ [info]) (rw_scan_report_cb (Some info) b)"
proof -
  let ?n = "unat (rw_scan_count b)" and ?rs = "rw_scan_results b" and ?s = "info_ssid info"
  let ?L = "map info_ssid infos"
  let ?f = "\<lambda>x. sint (info_rssi x)"
  define name where "name i = c_str (ap_ssid (?rs ! i))" for i
  have len: "length ?rs = 20" "?n \<le> 20" and names: "scan_names b = take 20 (firsts ?L)"
    and old: "\<And>i. i < ?n \<Longrightarrow> length (ap_ssid (?rs ! i)) = 33"
      "\<And>i. i < ?n \<Longrightarrow> sint (ap_rssi (?rs ! i)) = Max (?f ` {x \<in> set infos. info_ssid x = name i})"
    using ok by (simp_all add: scan_ok_def name_def image_image)
  have nth: "scan_names b ! i = name i" if "i < ?n" for i using that len by (simp add: scan_names_def name_def)
  have n: "length (scan_names b) = ?n" using len by (simp add: scan_names_def)
  have dist: "distinct (scan_names b)" unfolding names by (simp add: distinct_firsts)
  have slen: "info_ssid_len info \<noteq> 0" "\<not> info_ssid_len info > 32" using info by (auto simp: info_ok_def)
  have firsts': "firsts (map info_ssid (infos @ [info])) = (if ?s \<in> set ?L then firsts ?L else firsts ?L @ [?s])"
    by (simp add: firsts_snoc)
  show ?thesis
  proof (cases "find (\<lambda>i. rw_scan_same info (?rs ! i)) [0 ..< ?n]")
    case (Some i)
    then have i: "i < ?n" "name i = ?s" by (auto simp: find_Some_iff scan_same_iff [OF info] name_def)
    then have "?s \<in> set (scan_names b)" using nth n nth_mem by metis
    then have known: "?s \<in> set ?L" unfolding names using set_firsts in_set_takeD by metis
    then obtain prev where prev: "prev \<in> set infos" "info_ssid prev = ?s" by auto
    define ap where "ap = (if ?f info > sint (ap_rssi (?rs ! i)) then (?rs ! i)\<lparr>ap_rssi := info_rssi info\<rparr> else ?rs ! i)"
    have step: "rw_scan_report_cb (Some info) b = b\<lparr>rw_scan_results := ?rs[i := ap]\<rparr>"
      using Some slen by (simp add: rw_scan_report_cb_def ap_def Let_def)
    have ap: "ap_ssid ap = ap_ssid (?rs ! i)" by (simp add: ap_def)
    have "scan_names (b\<lparr>rw_scan_results := ?rs[i := ap]\<rparr>) = (scan_names b)[i := c_str (ap_ssid ap)]"
      by (simp add: scan_names_def take_update_swap map_update)
    then have names': "scan_names (b\<lparr>rw_scan_results := ?rs[i := ap]\<rparr>) = take 20 (firsts (map info_ssid (infos @ [info])))"
      using ap nth [OF i(1)] known names firsts' by (simp add: name_def) (metis list_update_id)
    have "sint (ap_rssi ap) = Max (?f ` {x \<in> set (infos @ [info]). info_ssid x = ?s})"
      using scan_max_insert [OF refl prev(2,1), of ?f] old(2) [OF i(1)] by (simp add: ap_def i(2) max_def)
    note mine = this
    have other: "name j \<noteq> ?s" if "j < ?n" "j \<noteq> i" for j
      using dist that i nth n by (metis nth_eq_iff_index_eq)
    have "sint (ap_rssi (?rs[i := ap] ! j)) =
        Max (?f ` {x \<in> set (infos @ [info]). info_ssid x = c_str (ap_ssid (?rs[i := ap] ! j))})" if "j < ?n" for j
    proof (cases "j = i")
      case True
      then show ?thesis using mine len that ap i(2) by (simp add: name_def del: set_append)
    next
      case False
      have ne: "?s \<noteq> name j" using other [OF that False] by simp
      have "sint (ap_rssi (?rs ! j)) = Max (?f ` {x \<in> set (infos @ [info]). info_ssid x = name j})"
        unfolding scan_others [OF ne] by (rule old(2) [OF that])
      then show ?thesis using False by (simp add: name_def del: set_append)
    qed
    then show ?thesis
      using len names' old(1) ap i(1) unfolding step scan_ok_def image_image
      by (auto simp: nth_list_update)
  next
    case None
    then have new: "name i \<noteq> ?s" if "i < ?n" for i
      using that by (auto simp: find_None_iff scan_same_iff [OF info] name_def)
    then have fresh: "?s \<notin> set (scan_names b)" using nth n by (metis in_set_conv_nth)
    have keep: "sint (ap_rssi (?rs ! i)) = Max (?f ` {x \<in> set (infos @ [info]). info_ssid x = name i})" if "i < ?n" for i
      using old(2) [OF that] new [OF that] scan_others [of info "name i" infos] by auto
    show ?thesis
    proof (cases "?n < 20")
      case True
      then have all: "scan_names b = firsts ?L" using names n by (metis length_take linorder_not_less min_def nat_less_le take_all)
      then have "?s \<notin> set ?L" using fresh by (metis set_firsts)
      then have alone: "{x \<in> set (infos @ [info]). info_ssid x = ?s} = {info}" by (auto simp: image_iff)
      define ap where "ap = \<lparr>ap_ssid = c_array 33 ?s, ap_rssi = info_rssi info, ap_secure = (if info_open info then 0 else 1 :: u8)\<rparr>"
      have "length ?s < 33" using info by (simp add: info_ok_def info_ssid_def word_le_nat_alt)
      then have apn: "c_str (ap_ssid ap) = ?s" using info by (simp add: ap_def c_str_c_array info_ok_def)
      have cnt: "rw_scan_count b < of_nat 20" "unat (rw_scan_count b + 1) = Suc ?n"
        using True by (simp_all add: word_less_nat_alt unat_word_ariths)
      have step: "rw_scan_report_cb (Some info) b = b\<lparr>rw_scan_results := ?rs[?n := ap], rw_scan_count := rw_scan_count b + 1\<rparr>"
        using None slen cnt(1) by (simp add: rw_scan_report_cb_def ap_def info_ssid_def Let_def)
      have "scan_names (rw_scan_report_cb (Some info) b) = scan_names b @ [?s]"
        using True len by (simp add: step scan_names_def cnt(2) take_Suc_conv_app_nth apn)
      also have "\<dots> = take 20 (firsts (map info_ssid (infos @ [info])))"
        using all n True \<open>?s \<notin> set ?L\<close> by (simp only: firsts') simp
      finally have names': "scan_names (rw_scan_report_cb (Some info) b) = take 20 (firsts (map info_ssid (infos @ [info])))" .
      have "sint (ap_rssi (?rs[?n := ap] ! j)) =
          Max (?f ` {x \<in> set (infos @ [info]). info_ssid x = c_str (ap_ssid (?rs[?n := ap] ! j))})" if "j < Suc ?n" for j
      proof (cases "j = ?n")
        case True
        then show ?thesis using len \<open>?n < 20\<close> by (simp add: apn alone del: set_append) (simp add: ap_def)
      next
        case False
        then show ?thesis using keep [of j] that by (simp add: name_def)
      qed
      then show ?thesis
        using len names' old(1) True unfolding scan_ok_def image_image
        by (auto simp: step cnt(2) nth_list_update ap_def less_Suc_eq)
    next
      case False
      then have cnt: "\<not> rw_scan_count b < of_nat 20" by (simp add: word_less_nat_alt)
      have step: "rw_scan_report_cb (Some info) b = b"
        using None slen cnt by (simp add: rw_scan_report_cb_def)
      have "20 \<le> length (firsts ?L)" using names n False len by (metis length_take min.bounded_iff order_refl linorder_not_less le_antisym)
      then have "take 20 (firsts (map info_ssid (infos @ [info]))) = take 20 (firsts ?L)" by (simp only: firsts') simp
      then show ?thesis
        using len names old(1) keep unfolding step scan_ok_def image_image by (simp add: name_def)
    qed
  qed
qed

text \<open>
  C16: A scan shows every network once, with its strongest signal.  Whatever the driver reports, in any
  order and however often, the results are the first twenty different names in the order in which
  they were reported, and each has the highest of all the signal strengths reported for its name.
\<close>

theorem rw_scan_strongest:
  assumes "\<And>info. info \<in> set infos \<Longrightarrow> info_ok info"
    and "b' = foldl (\<lambda>b info. rw_scan_report_cb (Some info) b) (rw_scan_start b) infos"
  shows "scan_names b' = take LVWW_MAX_WIFI_RESULTS (firsts (map info_ssid infos)) \<and>
    (\<forall>i < unat (rw_scan_count b'). sint (ap_rssi (rw_scan_results b' ! i)) =
       Max (sint ` info_rssi ` {info \<in> set infos. info_ssid info = scan_names b' ! i}))"
proof -
  have "scan_ok infos (foldl (\<lambda>b info. rw_scan_report_cb (Some info) b) (rw_scan_start b) infos)"
    using assms(1)
  proof (induction infos rule: rev_induct)
    case Nil
    then show ?case by (simp add: scan_ok_def rw_scan_start_def scan_names_def)
  next
    case (snoc info infos)
    then show ?case using scan_report_ok [of infos _ info] by simp
  qed
  then have ok: "scan_ok infos b'" by (simp add: assms(2))
  then have "scan_names b' ! i = c_str (ap_ssid (rw_scan_results b' ! i))" if "i < unat (rw_scan_count b')" for i
  proof -
    have "length (rw_scan_results b') = 20 \<and> unat (rw_scan_count b') \<le> 20" using ok by (simp only: scan_ok_def)
    then show ?thesis using that by (simp add: scan_names_def)
  qed
  then show ?thesis using ok by (simp add: scan_ok_def)
qed

definition sample_info :: "bytes \<Rightarrow> u16 \<Rightarrow> rt_wlan_info" where
  "sample_info name rssi = \<lparr>info_ssid_len = of_nat (length name), info_ssid_val = c_array 32 name,
     info_rssi = rssi, info_open = False\<rparr>"

lemma rw_scan_strongest_witness:
  "scan_names (foldl (\<lambda>b info. rw_scan_report_cb (Some info) b) (rw_scan_start lvww_rw007_create)
     [sample_info [97] (-70), sample_info [98] (-50), sample_info [97] (-60)]) = [[97], [98]]"
proof -
  let ?infos = "[sample_info [97] (-70), sample_info [98] (-50), sample_info [97] (-60)]"
  have "info_ok info" if "info \<in> set ?infos" for info
    using that by (auto simp: info_ok_def sample_info_def info_ssid_def c_array_def)
  from rw_scan_strongest [where b' = "foldl (\<lambda>b info. rw_scan_report_cb (Some info) b) (rw_scan_start lvww_rw007_create) ?infos", OF this refl]
  show ?thesis by (simp add: info_ssid_def sample_info_def c_array_def)
qed

end
