(* ===== verification/Weather_Rw_System.thy ===== *)
theory Weather_Rw_System
  imports Weather_Rw007
begin

text \<open>
  The weather application together with the RW007 port: the UI thread, the two workers, the WLAN
  manager and the clock take turns.  Every request of the application that is not answered yet is
  somewhere in the port, or its answer is in the event queue; and everything the port posts keeps the
  invariant of the application.
\<close>

section \<open>The system\<close>

text \<open>\<open>sy_job\<close> and \<open>sy_city_job\<close> are the commands that the workers are working on.\<close>

record rw_system =
  sy_ctx :: lvww_ctx
  sy_port :: lvww_rw007
  sy_tick :: u32
  sy_job :: "lvww_rw_cmd_t option"
  sy_city_job :: "lvww_rw_cmd_t option"

datatype rw_actor = UI_THREAD | WORKER | CITY_WORKER | WLAN_MANAGER | OTHER_THREAD

inductive rw_step :: "'v fs_ops \<Rightarrow> (bytes \<Rightarrow> u64) \<Rightarrow> rw_actor \<Rightarrow> rw_system \<Rightarrow> rw_system \<Rightarrow> bool" for F strtod where
  ui: "ui_step rw_ops (sy_ctx s, sy_port s, sy_tick s) (c, b, t) \<Longrightarrow>
    rw_step F strtod UI_THREAD s (s\<lparr>sy_ctx := c, sy_port := b, sy_tick := t\<rparr>)"
| take_job: "sy_job s = None \<Longrightarrow> rw_worker_take (sy_port s) (sy_ctx s) = (b, c, job) \<Longrightarrow>
    rw_step F strtod WORKER s (s\<lparr>sy_ctx := c, sy_port := b, sy_job := job\<rparr>)"
| finish_job: "sy_job s = Some cmd \<Longrightarrow> rw_outcome_fits (cmd_data cmd) outcome \<Longrightarrow>
    rw_worker_finish outcome cmd (sy_port s) (sy_ctx s) = (b, c) \<Longrightarrow>
    rw_step F strtod WORKER s (s\<lparr>sy_ctx := c, sy_port := b, sy_job := None\<rparr>)"
| take_city: "sy_city_job s = None \<Longrightarrow> rw_city_take (sy_port s) = (b, job) \<Longrightarrow>
    rw_step F strtod CITY_WORKER s (s\<lparr>sy_port := b, sy_city_job := job\<rparr>)"
| finish_city: "sy_city_job s = Some cmd \<Longrightarrow> cmd_data cmd = RW_CMD_CITY query \<Longrightarrow> query \<noteq> [] \<Longrightarrow>
    rw_do_city F strtod query v = Some (data, v') \<Longrightarrow>
    rw_step F strtod CITY_WORKER s (s\<lparr>sy_ctx := rw_post (sy_port s) cmd data (sy_ctx s), sy_city_job := None\<rparr>)"
| server: "lvww_server_submit callback address old (sy_ctx s) () = (saved, new, c, ()) \<Longrightarrow>
    rw_step F strtod UI_THREAD s (s\<lparr>sy_ctx := c\<rparr>)"
| update: "lvww_firmware_update_cb fw_callback (sy_ctx s) () = (c, ()) \<Longrightarrow>
    rw_step F strtod UI_THREAD s (s\<lparr>sy_ctx := c\<rparr>)"
| report: "rw_step F strtod WLAN_MANAGER s (s\<lparr>sy_port := rw_scan_report_cb info (sy_port s)\<rparr>)"
| dropped: "rw_step F strtod WLAN_MANAGER s (s\<lparr>sy_ctx := rw_disconnected_cb mem_ok (sy_port s) (sy_ctx s)\<rparr>)"
| firmware: "rw_step F strtod OTHER_THREAD s (s\<lparr>sy_ctx := snd (lvww_set_firmware_info info (sy_ctx s))\<rparr>)"
| clock: "rw_step F strtod OTHER_THREAD s (s\<lparr>sy_tick := t\<rparr>)"

inductive_cases rw_stepE: "rw_step F strtod actor s s'"

section \<open>Requests and their answers\<close>

definition request_id :: "lvww_ctx \<Rightarrow> lvww_operation_t \<Rightarrow> u32" where
  "request_id c operation =
     (case operation of
        LVWW_OP_WIFI_SCAN \<Rightarrow> ctx_scan_request_id c
      | LVWW_OP_WIFI_CONNECT \<Rightarrow> ctx_connect_request_id c
      | LVWW_OP_WIFI_DISCONNECT \<Rightarrow> ctx_disconnect_request_id c
      | LVWW_OP_CITY_SEARCH \<Rightarrow> ctx_city_request_id c
      | LVWW_OP_WEATHER_FETCH \<Rightarrow> ctx_weather_request_id c
      | LVWW_OP_TIME_SYNC \<Rightarrow> ctx_time_request_id c
      | _ \<Rightarrow> 0)"

definition answers :: "lvww_operation_t \<Rightarrow> u32 \<Rightarrow> lvww_event_t \<Rightarrow> bool" where
  "answers operation n event \<longleftrightarrow> ev_request_id event = n \<and>
     (case ev_data event of
        EVT_WIFI_SCAN_RESULT count items \<Rightarrow> operation = LVWW_OP_WIFI_SCAN
      | EVT_WIFI_STATE state reason ssid \<Rightarrow>
          (state = LVWW_WIFI_ONLINE \<or> state = LVWW_WIFI_OFFLINE) \<and>
          (operation = LVWW_OP_WIFI_CONNECT \<or> operation = LVWW_OP_WIFI_DISCONNECT)
      | EVT_CITY_SEARCH_RESULT count items \<Rightarrow> operation = LVWW_OP_CITY_SEARCH
      | EVT_WEATHER_RESULT weather \<Rightarrow> operation = LVWW_OP_WEATHER_FETCH
      | EVT_TIME_RESULT utc \<Rightarrow> operation = LVWW_OP_TIME_SYNC
      | EVT_FIRMWARE_INFO info \<Rightarrow> False
      | EVT_ERROR failed code message \<Rightarrow> operation = failed)"

definition port_queue :: "lvww_operation_t \<Rightarrow> lvww_rw007 \<Rightarrow> lvww_rw_cmd_t list" where
  "port_queue operation b = (if operation = LVWW_OP_CITY_SEARCH then rw_city_queue b else rw_queue b)"

definition is_request :: "lvww_operation_t \<Rightarrow> u32 \<Rightarrow> lvww_rw_cmd_t \<Rightarrow> bool" where
  "is_request operation n cmd \<longleftrightarrow> rw_operation (cmd_data cmd) = operation \<and> cmd_request_id cmd = n"

definition queued :: "lvww_rw007 \<Rightarrow> lvww_operation_t \<Rightarrow> u32 \<Rightarrow> bool" where
  "queued b operation n \<longleftrightarrow> (\<exists>cmd \<in> set (port_queue operation b). is_request operation n cmd)"

definition in_work :: "lvww_rw_cmd_t option \<Rightarrow> lvww_rw_cmd_t option \<Rightarrow> lvww_operation_t \<Rightarrow> u32 \<Rightarrow> bool" where
  "in_work job city_job operation n \<longleftrightarrow>
     (\<exists>cmd. (if operation = LVWW_OP_CITY_SEARCH then city_job else job) = Some cmd \<and> is_request operation n cmd)"

definition answered :: "lvww_ctx \<Rightarrow> lvww_operation_t \<Rightarrow> u32 \<Rightarrow> bool" where
  "answered c operation n \<longleftrightarrow> (\<exists>event \<in> set (ctx_event_mq c). answers operation n event)"

text \<open>The port still works for the request, and somebody has it.\<close>

definition tracked ::
  "lvww_ctx \<Rightarrow> lvww_rw007 \<Rightarrow> lvww_rw_cmd_t option \<Rightarrow> lvww_rw_cmd_t option \<Rightarrow> bool" where
  "tracked c b job city_job \<longleftrightarrow>
     (\<forall>operation. request_id c operation \<noteq> 0 \<longrightarrow>
        rw_latest b operation = request_id c operation \<and> rw_cancelled b operation \<noteq> request_id c operation \<and>
        (queued b operation (request_id c operation) \<or> in_work job city_job operation (request_id c operation) \<or>
         answered c operation (request_id c operation)))"

definition no_stop :: "lvww_rw007 \<Rightarrow> bool" where
  "no_stop b \<longleftrightarrow> list_all (\<lambda>cmd. cmd_data cmd \<noteq> RW_CMD_STOP) (rw_queue b @ rw_city_queue b)"

section \<open>Turns of the UI thread\<close>

text \<open>
  What a turn may do to the requests: end one, leave one as it is, or hand a new one to the port.
\<close>

definition turn_ok :: "lvww_ctx \<times> lvww_rw007 \<times> u32 \<Rightarrow> lvww_ctx \<times> lvww_rw007 \<times> u32 \<Rightarrow> bool" where
  "turn_ok = (\<lambda>(c, b, t) (c', b', t').
     ctx_event_mq c' = ctx_event_mq c \<and> ctx_alive c' = ctx_alive c \<and> rw_bound b' = rw_bound b \<and>
     rw_running b' = rw_running b \<and> rw_city_running b' = rw_city_running b \<and> (no_stop b \<longrightarrow> no_stop b') \<and>
     rw_scan_results b' = rw_scan_results b \<and> rw_scan_count b' = rw_scan_count b \<and>
     set (rw_queue b) \<subseteq> set (rw_queue b') \<and> set (rw_city_queue b) \<subseteq> set (rw_city_queue b') \<and>
     (\<forall>operation. request_id c' operation = 0 \<or>
        request_id c' operation = request_id c operation \<and> rw_latest b' operation = rw_latest b operation \<and>
          rw_cancelled b' operation = rw_cancelled b operation \<or>
        rw_latest b' operation = request_id c' operation \<and> rw_cancelled b' operation = 0 \<and>
          queued b' operation (request_id c' operation)))"

lemma queued_mono: "set (rw_queue b) \<subseteq> set (rw_queue b') \<Longrightarrow> set (rw_city_queue b) \<subseteq> set (rw_city_queue b') \<Longrightarrow>
    queued b operation n \<Longrightarrow> queued b' operation n"
  by (auto simp: queued_def port_queue_def split: if_splits)

lemma turn_ok_trans:
  assumes "turn_ok (c, b, t) (c', b', t')" "turn_ok (c', b', t') (c'', b'', t'')"
  shows "turn_ok (c, b, t) (c'', b'', t'')"
proof -
  have mono: "queued b'' operation n" if "queued b' operation n" for operation n
    using queued_mono [OF _ _ that, of b''] assms(2) by (simp add: turn_ok_def)
  have "request_id c'' operation = 0 \<or>
      request_id c'' operation = request_id c operation \<and> rw_latest b'' operation = rw_latest b operation \<and>
        rw_cancelled b'' operation = rw_cancelled b operation \<or>
      rw_latest b'' operation = request_id c'' operation \<and> rw_cancelled b'' operation = 0 \<and>
        queued b'' operation (request_id c'' operation)" for operation
    using assms mono unfolding turn_ok_def prod.case by metis
  then show ?thesis using assms unfolding turn_ok_def prod.case by (simp only: simp_thms) blast
qed

text \<open>A turn that only ends requests.\<close>

lemma turn_ok_same:
  "ctx_event_mq c' = ctx_event_mq c \<Longrightarrow> ctx_alive c' = ctx_alive c \<Longrightarrow>
   (\<And>operation. request_id c' operation = 0 \<or> request_id c' operation = request_id c operation) \<Longrightarrow>
   turn_ok (c, b, t) (c', b, t)"
  by (auto simp: turn_ok_def)

lemma turn_ok_refl: "turn_ok (c, w) (c, w)"
  by (cases w) (simp add: turn_ok_same)

text \<open>A turn that hands a request to the port.\<close>

lemma turn_ok_send:
  assumes send: "rw_send_op data n (b, t) = (rc, b', t')" and data: "data \<noteq> RW_CMD_STOP"
    and c': "ctx_event_mq c' = ctx_event_mq c" "ctx_alive c' = ctx_alive c"
      "\<And>operation. operation \<noteq> rw_operation data \<Longrightarrow>
         request_id c' operation = 0 \<or> request_id c' operation = request_id c operation"
      "request_id c' (rw_operation data) = 0 \<or> rc = RT_EOK \<and> request_id c' (rw_operation data) = n"
  shows "turn_ok (c, b, t) (c', b', t')"
proof -
  have b': "rw_bound b' = rw_bound b" "rw_running b' = rw_running b" "rw_city_running b' = rw_city_running b"
    "no_stop b \<longrightarrow> no_stop b'" "set (rw_queue b) \<subseteq> set (rw_queue b')" "set (rw_city_queue b) \<subseteq> set (rw_city_queue b')"
    "rw_scan_results b' = rw_scan_results b" "rw_scan_count b' = rw_scan_count b"
    "\<And>operation. operation \<noteq> rw_operation data \<Longrightarrow>
       rw_latest b' operation = rw_latest b operation \<and> rw_cancelled b' operation = rw_cancelled b operation"
    "rc = RT_EOK \<Longrightarrow> rw_latest b' (rw_operation data) = n \<and> rw_cancelled b' (rw_operation data) = 0 \<and>
       queued b' (rw_operation data) n"
    using send data by (auto simp: rw_send_op_def rw_send_def Let_def fifo_send_def no_stop_def queued_def port_queue_def
        is_request_def split: if_splits)
  have "request_id c' operation = 0 \<or>
      request_id c' operation = request_id c operation \<and> rw_latest b' operation = rw_latest b operation \<and>
        rw_cancelled b' operation = rw_cancelled b operation \<or>
      rw_latest b' operation = request_id c' operation \<and> rw_cancelled b' operation = 0 \<and>
        queued b' operation (request_id c' operation)" for operation
    using b'(9,10) c'(3,4) by (cases "operation = rw_operation data") metis+
  then show ?thesis using b' c' unfolding turn_ok_def prod.case by blast
qed

text \<open>The operations of the port are always there.\<close>

lemma rw_ops_simps [simp]:
  "op_wifi_scan rw_ops = Some (rw_send_op RW_CMD_SCAN)"
  "op_wifi_connect rw_ops = Some (\<lambda>n credentials. rw_send_op (RW_CMD_CONNECT credentials) n)"
  "op_wifi_disconnect rw_ops = Some (rw_send_op RW_CMD_DISCONNECT)"
  "op_city_search rw_ops = Some (\<lambda>n query. rw_send_op (RW_CMD_CITY (take 47 query)) n)"
  "op_weather_fetch rw_ops = Some (\<lambda>n city. rw_send_op (RW_CMD_WEATHER city) n)"
  "op_time_sync rw_ops = Some (rw_send_op RW_CMD_TIME)"
  "op_cancel rw_ops = Some (\<lambda>operation n (b, t). (rw_cancel operation n b, t))"
  "prt_tick rw_ops = (\<lambda>(b, t). (t, b, t))"
  by (simp_all add: rw_ops_def)

lemmas request_id_simps = request_id_def rw_operation_def

lemma storage_turn:
  "turn_ok (c, w) (lvww_save_profiles rw_ops c w)" "turn_ok (c, w) (lvww_save_cache rw_ops c w)"
  by (cases w; auto simp: lvww_save_profiles_def lvww_save_cache_def rw_ops_def turn_ok_def request_id_def
      no_stop_def Let_def split: prod.splits lvww_operation_t.splits)+

text \<open>The clock is only read.\<close>

lemma next_request_fields:
  "lvww_next_request c = (n, c1) \<Longrightarrow> c1 = c\<lparr>ctx_next_request_id := n\<rparr> \<and> n \<noteq> 0"
  by (auto simp: lvww_next_request_def Let_def split: if_splits)

lemma retry_reads: "snd (lvww_retry_due rw_ops retry_tick w) = w" "snd (lvww_retry_deadline rw_ops w) = w"
  by (simp_all add: lvww_retry_due_def lvww_retry_deadline_def Let_def split: prod.split)

lemma scan_turn: "turn_ok (c, w) (lvww_request_scan rw_ops c w)"
proof (cases "ctx_scan_request_id c = 0")
  case True
  obtain n c1 where n: "lvww_next_request c = (n, c1)" by (metis surj_pair)
  obtain rc b' t' where s: "rw_send_op RW_CMD_SCAN n w = (rc, b', t')" by (metis prod_cases3)
  obtain b t where w: "w = (b, t)" by (metis surj_pair)
  show ?thesis
    unfolding w lvww_request_scan_def
    using True n s w next_request_fields [OF n]
    by (auto simp: Let_def intro!: turn_ok_send [OF s [unfolded w]])
      (auto simp: request_id_simps split: lvww_operation_t.splits)
qed (simp add: lvww_request_scan_def turn_ok_refl)

lemma disconnect_turn: "turn_ok (c, w) (lvww_request_disconnect rw_ops c w)"
proof (cases "ctx_disconnect_request_id c = 0")
  case True
  obtain n c1 where n: "lvww_next_request c = (n, c1)" by (metis surj_pair)
  obtain rc b' t' where s: "rw_send_op RW_CMD_DISCONNECT n w = (rc, b', t')" by (metis prod_cases3)
  obtain b t where w: "w = (b, t)" by (metis surj_pair)
  show ?thesis
    unfolding w lvww_request_disconnect_def
    using True n s w next_request_fields [OF n]
    by (auto simp: Let_def intro!: turn_ok_send [OF s [unfolded w]])
      (auto simp: request_id_simps split: lvww_operation_t.splits)
qed (simp add: lvww_request_disconnect_def turn_ok_refl)

lemma connect_turn: "turn_ok (c, w) (lvww_request_connect rw_ops credentials c w)"
proof (cases "ctx_connect_request_id c = 0")
  case True
  let ?c = "c\<lparr>ctx_pending_credentials := credentials, ctx_pending_valid := True\<rparr>"
  obtain n c1 where n: "lvww_next_request ?c = (n, c1)" by (metis surj_pair)
  obtain rc b' t' where s: "rw_send_op (RW_CMD_CONNECT credentials) n w = (rc, b', t')" by (metis prod_cases3)
  obtain b t where w: "w = (b, t)" by (metis surj_pair)
  show ?thesis
    unfolding w lvww_request_connect_def
    using True n s w next_request_fields [OF n]
    by (auto simp: Let_def intro!: turn_ok_send [OF s [unfolded w]])
      (auto simp: request_id_simps split: lvww_operation_t.splits)
qed (simp add: lvww_request_connect_def turn_ok_refl)

lemma weather_turn: "turn_ok (c, w) (lvww_request_weather rw_ops c w)"
proof (cases "ctx_weather_request_id c = 0")
  case True
  let ?c = "c\<lparr>ctx_weather_retry_tick := 0\<rparr>"
  obtain n c1 where n: "lvww_next_request ?c = (n, c1)" by (metis surj_pair)
  obtain rc b' t' where s: "rw_send_op (RW_CMD_WEATHER (cs_city (ctx_cache_store c))) n w = (rc, b', t')" by (metis prod_cases3)
  obtain due where due: "lvww_retry_due rw_ops (ctx_weather_retry_tick c) w = (due, w)" using retry_reads(1) by (metis prod.collapse)
  obtain deadline where deadline: "lvww_retry_deadline rw_ops (b', t') = (deadline, (b', t'))" using retry_reads(2) by (metis prod.collapse)
  obtain b t where w: "w = (b, t)" by (metis surj_pair)
  show ?thesis
    unfolding w lvww_request_weather_def
    using True n s w next_request_fields [OF n] due deadline
    by (auto simp: Let_def turn_ok_refl intro!: turn_ok_send [OF s [unfolded w]])
      (auto simp: request_id_simps split: lvww_operation_t.splits)
qed (simp add: lvww_request_weather_def turn_ok_refl)

lemma time_turn: "turn_ok (c, w) (lvww_request_time rw_ops c w)"
proof (cases "ctx_time_request_id c = 0")
  case True
  let ?c = "c\<lparr>ctx_time_retry_tick := 0\<rparr>"
  obtain n c1 where n: "lvww_next_request ?c = (n, c1)" by (metis surj_pair)
  obtain rc b' t' where s: "rw_send_op RW_CMD_TIME n w = (rc, b', t')" by (metis prod_cases3)
  obtain due where due: "lvww_retry_due rw_ops (ctx_time_retry_tick c) w = (due, w)" using retry_reads(1) by (metis prod.collapse)
  obtain deadline where deadline: "lvww_retry_deadline rw_ops (b', t') = (deadline, (b', t'))" using retry_reads(2) by (metis prod.collapse)
  obtain b t where w: "w = (b, t)" by (metis surj_pair)
  show ?thesis
    unfolding w lvww_request_time_def
    using True n s w next_request_fields [OF n] due deadline
    by (auto simp: Let_def turn_ok_refl intro!: turn_ok_send [OF s [unfolded w]])
      (auto simp: request_id_simps split: lvww_operation_t.splits)
qed (simp add: lvww_request_time_def turn_ok_refl)

text \<open>Turns that are made of other turns.\<close>

lemma turn_trans [trans]: "turn_ok (c, w) s \<Longrightarrow> turn_ok s s' \<Longrightarrow> turn_ok (c, w) s'"
  by (cases w, cases s, cases s') (use turn_ok_trans in blast)

lemma turn_same:
  "ctx_event_mq c' = ctx_event_mq c \<Longrightarrow> ctx_alive c' = ctx_alive c \<Longrightarrow>
   (\<And>operation. request_id c' operation = 0 \<or> request_id c' operation = request_id c operation) \<Longrightarrow>
   turn_ok (c, w) (c', w)"
  by (cases w) (simp add: turn_ok_same)

lemma upsert_turn: "turn_ok (c, w) (lvww_upsert_pending_profile rw_ops c w)"
proof -
  have saved: "turn_ok (c, w) (case lvww_save_profiles rw_ops (c\<lparr>ctx_profile_store := ps\<rparr>) w of
      (c, w) \<Rightarrow> (c\<lparr>ctx_pending_credentials := credentials_zero, ctx_pending_valid := False\<rparr>, w))" for ps
  proof -
    obtain c1 w1 where s: "lvww_save_profiles rw_ops (c\<lparr>ctx_profile_store := ps\<rparr>) w = (c1, w1)" by (metis surj_pair)
    have "turn_ok (c, w) (c\<lparr>ctx_profile_store := ps\<rparr>, w)" by (rule turn_same) (simp_all add: request_id_def split: lvww_operation_t.split)
    also have "turn_ok (c\<lparr>ctx_profile_store := ps\<rparr>, w) (c1, w1)"
      using storage_turn(1) [of "c\<lparr>ctx_profile_store := ps\<rparr>" w] s by simp
    also have "turn_ok (c1, w1) (c1\<lparr>ctx_pending_credentials := credentials_zero, ctx_pending_valid := False\<rparr>, w1)"
      by (rule turn_same) (simp_all add: request_id_def split: lvww_operation_t.split)
    finally show ?thesis using s by simp
  qed
  show ?thesis by (auto simp: lvww_upsert_pending_profile_def Let_def turn_ok_refl intro: saved)
qed

lemma online_turn: "turn_ok (c, w) (lvww_handle_wifi_state rw_ops LVWW_WIFI_ONLINE ssid c w)"
proof -
  define c1 where "c1 = c\<lparr>ctx_wifi_state := LVWW_WIFI_ONLINE, ctx_connected_ssid := c_array 33 (take 32 (c_str ssid))\<rparr>"
  obtain c2 w2 where c2: "lvww_upsert_pending_profile rw_ops c1 w = (c2, w2)" by (metis surj_pair)
  define c3 where "c3 = c2\<lparr>ctx_connect_request_id := 0, ctx_disconnect_request_id := 0,
      ctx_weather_retry_tick := 0, ctx_time_retry_tick := 0\<rparr>"
  obtain c4 w4 where c4: "lvww_request_time rw_ops c3 w2 = (c4, w4)" by (metis surj_pair)
  have "turn_ok (c, w) (c1, w)" by (rule turn_same) (simp_all add: c1_def request_id_def split: lvww_operation_t.split)
  also have "turn_ok (c1, w) (c2, w2)" using upsert_turn [of c1 w] c2 by simp
  also have "turn_ok (c2, w2) (c3, w2)"
    by (rule turn_same) (simp_all add: c3_def request_id_def split: lvww_operation_t.split)
  also have "turn_ok (c3, w2) (c4, w4)" using time_turn [of c3 w2] c4 by simp
  also have "turn_ok (c4, w4) (lvww_request_weather rw_ops c4 w4)" by (rule weather_turn)
  finally show ?thesis
    by (simp only: lvww_handle_wifi_state_def Let_def lvww_wifi_state_t.case prod.case
        c1_def [symmetric] c2 c3_def [symmetric] c4)
qed

lemma wifi_state_turn: "turn_ok (c, w) (lvww_handle_wifi_state rw_ops state ssid c w)"
proof (cases state)
  case LVWW_WIFI_ONLINE
  then show ?thesis using online_turn by simp
qed (auto simp: lvww_handle_wifi_state_def Let_def request_id_def intro!: turn_same split: lvww_operation_t.split)

lemma error_turn: "turn_ok (c, w) (lvww_handle_error rw_ops operation c w)"
proof -
  obtain deadline where "lvww_retry_deadline rw_ops w = (deadline, w)" using retry_reads(2) by (metis prod.collapse)
  then show ?thesis
    by (cases operation) (auto simp: lvww_handle_error_def Let_def request_id_def intro!: turn_same
        split: lvww_operation_t.split)
qed

lemma event_turn: "turn_ok (c, w) (lvww_handle_event rw_ops event c w)"
proof (cases "lvww_event_current c event")
  case True
  show ?thesis
  proof (cases "ev_data event")
    case (EVT_WIFI_STATE state reason ssid)
    then show ?thesis using True wifi_state_turn by (simp add: lvww_handle_event_def)
  next
    case (EVT_ERROR operation code str)
    then show ?thesis using True error_turn by (simp add: lvww_handle_event_def)
  next
    case (EVT_WEATHER_RESULT weather)
    let ?c = "c\<lparr>ctx_cache_store := (ctx_cache_store c)\<lparr>cs_weather := weather, cs_weather_valid := 1\<rparr>,
        ctx_weather_tick := snd w, ctx_weather_request_id := 0, ctx_weather_retry_tick := 0\<rparr>"
    have "turn_ok (c, w) (?c, w)" by (rule turn_same) (simp_all add: request_id_def split: lvww_operation_t.split)
    also have "turn_ok (?c, w) (lvww_save_cache rw_ops ?c w)" by (rule storage_turn)
    finally show ?thesis using True EVT_WEATHER_RESULT by (cases w) (simp add: lvww_handle_event_def)
  next
    case (EVT_TIME_RESULT utc)
    then show ?thesis
      using True by (cases w) (auto simp: lvww_handle_event_def request_id_def intro!: turn_same split: lvww_operation_t.split)
  qed (use True in \<open>auto simp: lvww_handle_event_def request_id_def Let_def copy_items_def intro!: turn_same
      split: lvww_operation_t.split\<close>)
qed (simp add: lvww_handle_event_def turn_ok_refl)

text \<open>An event that answers a request ends it.\<close>

lemma weather_request_others:
  "operation \<noteq> LVWW_OP_WEATHER_FETCH \<Longrightarrow> request_id (fst (lvww_request_weather E c w)) operation = request_id c operation"
  "operation \<noteq> LVWW_OP_TIME_SYNC \<Longrightarrow> request_id (fst (lvww_request_time E c w)) operation = request_id c operation"
  by (auto simp: lvww_request_weather_def lvww_request_time_def lvww_next_request_def Let_def request_id_def
      split: lvww_operation_t.split option.splits prod.splits)

lemma event_ends_request:
  assumes "answers operation (request_id c operation) event" "request_id c operation \<noteq> 0"
  shows "request_id (fst (lvww_handle_event E event c w)) operation = 0"
proof -
  have current: "lvww_event_current c event"
    using assms by (auto simp: answers_def lvww_event_current_def request_id_def Let_def
        split: lvww_event_data.splits lvww_operation_t.splits)
  show ?thesis
  proof (cases "ev_data event")
    case (EVT_WIFI_STATE state reason ssid)
    then have op: "operation = LVWW_OP_WIFI_CONNECT \<or> operation = LVWW_OP_WIFI_DISCONNECT"
      and state: "state = LVWW_WIFI_ONLINE \<or> state = LVWW_WIFI_OFFLINE" using assms(1) by (auto simp: answers_def)
    show ?thesis
    proof (cases "state = LVWW_WIFI_ONLINE")
      case False
      then show ?thesis
        using state op current EVT_WIFI_STATE by (auto simp: lvww_handle_event_def lvww_handle_wifi_state_def Let_def request_id_def)
    next
      case True
      let ?c1 = "c\<lparr>ctx_wifi_state := LVWW_WIFI_ONLINE, ctx_connected_ssid := c_array 33 (take 32 (c_str ssid))\<rparr>"
      obtain c2 w2 where c2: "lvww_upsert_pending_profile E ?c1 w = (c2, w2)" by (metis surj_pair)
      let ?c3 = "c2\<lparr>ctx_connect_request_id := 0, ctx_disconnect_request_id := 0,
          ctx_weather_retry_tick := 0, ctx_time_retry_tick := 0\<rparr>"
      obtain c4 w4 where c4: "lvww_request_time E ?c3 w2 = (c4, w4)" by (metis surj_pair)
      have "request_id c4 operation = 0"
        using weather_request_others(2) [of operation E ?c3 w2] op c4 by (auto simp: request_id_def)
      then have "request_id (fst (lvww_request_weather E c4 w4)) operation = 0"
        using weather_request_others(1) [of operation E c4 w4] op by auto
      then show ?thesis
        using current EVT_WIFI_STATE True c2 c4 by (simp add: lvww_handle_event_def lvww_handle_wifi_state_def)
    qed
  next
    case (EVT_ERROR failed code str)
    then show ?thesis
      using assms(1) current
      by (cases operation) (auto simp: answers_def lvww_handle_event_def lvww_handle_error_def request_id_def Let_def split: prod.split)
  next
    case (EVT_WEATHER_RESULT weather)
    then show ?thesis
      using assms(1) current
      by (auto simp: answers_def lvww_handle_event_def lvww_save_cache_def request_id_def Let_def split: prod.split option.split)
  qed (use assms(1) current in \<open>auto simp: answers_def lvww_handle_event_def request_id_def Let_def split: prod.split\<close>)
qed

lemma clock_turn: "turn_ok (c, w) (lvww_clock_timer_cb rw_ops c w)"
proof -
  obtain b now where w: "w = (b, now)" by (metis surj_pair)
  let ?due = "\<not> ctx_time_valid c \<or>
      (now - ctx_time_tick c) div RT_TICK_PER_SECOND \<ge> cfg_time_sync_seconds (ctx_cfg c)"
  obtain c1 w1 where time: "(if ?due then lvww_request_time rw_ops c w else (c, w)) = (c1, w1)" by (metis surj_pair)
  have first: "turn_ok (c, w) (c1, w1)"
    using time_turn [of c w] turn_ok_refl [of c w] time by (metis (no_types, lifting))
  then have "turn_ok (c, w) (if p then lvww_request_weather rw_ops c1 w1 else (c1, w1))" for p
    using turn_trans [OF first weather_turn] by simp
  moreover have "lvww_clock_timer_cb rw_ops c w =
      (if ctx_wifi_state c \<noteq> LVWW_WIFI_ONLINE then (c, w)
       else case if ?due then lvww_request_time rw_ops c w else (c, w) of (c, w) \<Rightarrow>
         if cs_weather_valid (ctx_cache_store c) = 0 \<or>
           (now - ctx_weather_tick c) div RT_TICK_PER_SECOND \<ge> cfg_weather_refresh_seconds (ctx_cfg c)
         then lvww_request_weather rw_ops c w else (c, w))"
    by (simp only: lvww_clock_timer_cb_def rw_ops_simps w prod.case Let_def)
  ultimately show ?thesis using turn_ok_refl [of c w] by (simp only: time prod.case) simp
qed

lemma search_turn: "turn_ok (c, w) (lvww_search_timer_cb rw_ops query c w)"
proof -
  obtain b t where w: "w = (b, t)" by (metis surj_pair)
  let ?b = "if ctx_city_request_id c \<noteq> 0 then rw_cancel LVWW_OP_CITY_SEARCH (ctx_city_request_id c) b else b"
  obtain n c1 where n: "lvww_next_request c = (n, c1)" by (metis surj_pair)
  obtain rc b' t' where s: "rw_send_op (RW_CMD_CITY (take 47 query)) n (?b, t) = (rc, b', t')" by (metis prod_cases3)
  let ?c = "if rc \<noteq> RT_EOK then c1\<lparr>ctx_city_request_id := 0\<rparr> else c1\<lparr>ctx_city_request_id := n\<rparr>"
  have "turn_ok (c, b, t) (c\<lparr>ctx_city_request_id := 0\<rparr>, ?b, t)"
    by (auto simp: turn_ok_def request_id_def rw_cancel_def no_stop_def split: lvww_operation_t.split)
  also have "turn_ok (c\<lparr>ctx_city_request_id := 0\<rparr>, ?b, t) (?c, b', t')"
    using next_request_fields [OF n]
    by (intro turn_ok_send [OF s]) (auto simp: request_id_simps split: lvww_operation_t.split)
  finally have "turn_ok (c, b, t) (?c, b', t')" .
  then show ?thesis
    using n s w by (auto simp: lvww_search_timer_cb_def cancel_request_def Let_def turn_ok_refl split: if_splits)
qed

lemma input_turn: "turn_ok (c, w) (snd (lvww_city_input_cb rw_ops input c w))"
  by (cases w) (auto simp: lvww_city_input_cb_def cancel_request_def default_cities_def Let_def turn_ok_def request_id_def
      rw_cancel_def no_stop_def split: lvww_operation_t.split)

lemma editor_turn:
  "turn_ok (c, w) (lvww_editor_submit_cb rw_ops ssid password c w)"
  "turn_ok (c, w) (lvww_editor_delete_cb rw_ops c w)"
proof -
  have close: "turn_ok (x, v) (lvww_close_editor x, v)" for x v
    by (rule turn_same) (simp_all add: lvww_close_editor_def request_id_def split: lvww_operation_t.split)
  show "turn_ok (c, w) (lvww_editor_submit_cb rw_ops ssid password c w)"
    using turn_trans [OF close connect_turn] turn_ok_refl by (simp add: lvww_editor_submit_cb_def Let_def)
  let ?c = "c\<lparr>ctx_profile_store := remove_profile (nat (ctx_editor_saved_index c)) (ctx_profile_store c)\<rparr>"
  obtain c1 w1 where c1: "lvww_save_profiles rw_ops ?c w = (c1, w1)" by (metis surj_pair)
  have "turn_ok (c, w) (?c, w)" by (rule turn_same) (simp_all add: request_id_def split: lvww_operation_t.split)
  also have "turn_ok (?c, w) (c1, w1)" using storage_turn(1) [of ?c w] c1 by simp
  also have "turn_ok (c1, w1) (lvww_close_editor c1, w1)" by (rule close)
  finally have closed: "turn_ok (c, w) (lvww_close_editor c1, w1)" .
  show "turn_ok (c, w) (lvww_editor_delete_cb rw_ops c w)"
    using c1 closed turn_trans [OF closed disconnect_turn] turn_ok_refl
    by (simp add: lvww_editor_delete_cb_def Let_def)
qed

lemma city_result_turn: "turn_ok (c, w) (lvww_city_result_cb rw_ops index c w)"
proof -
  let ?c = "c\<lparr>ctx_cache_store := (ctx_cache_store c)
              \<lparr>cs_city := ctx_city_candidates c ! index, cs_city_valid := 1, cs_weather_valid := 0\<rparr>\<rparr>"
  obtain c1 w1 where c1: "lvww_save_cache rw_ops ?c w = (c1, w1)" by (metis surj_pair)
  have "turn_ok (c, w) (?c, w)" by (rule turn_same) (simp_all add: request_id_def split: lvww_operation_t.split)
  also have "turn_ok (?c, w) (c1, w1)" using storage_turn(2) [of ?c w] c1 by simp
  also have "turn_ok (c1, w1) (lvww_request_weather rw_ops c1 w1)" by (rule weather_turn)
  finally show ?thesis using c1 by (simp add: lvww_city_result_cb_def Let_def turn_ok_refl)
qed

lemma small_turns:
  "turn_ok (c, w) (lvww_wifi_row_cb tag c, w)" "turn_ok (c, w) (lvww_add_button_cb c, w)"
  "turn_ok (c, w) (lvww_editor_security_cb c, w)" "turn_ok (c, w) (lvww_close_editor c, w)"
  by (rule turn_same; auto simp: lvww_wifi_row_cb_def lvww_add_button_cb_def lvww_editor_security_cb_def
      lvww_close_editor_def lvww_open_editor_def request_id_def Let_def split: lvww_operation_t.split)+

section \<open>Requests stay tracked\<close>

lemma turn_request:
  assumes "turn_ok (c, b, t) (c', b', t')" "request_id c' operation \<noteq> 0"
  obtains (same) "request_id c' operation = request_id c operation" "rw_latest b' operation = rw_latest b operation"
      "rw_cancelled b' operation = rw_cancelled b operation"
    | (sent) "rw_latest b' operation = request_id c' operation" "rw_cancelled b' operation = 0"
      "queued b' operation (request_id c' operation)"
  using assms unfolding turn_ok_def by auto

lemma turn_tracked:
  assumes "turn_ok (c, b, t) (c', b', t')" "tracked c b job city_job"
  shows "tracked c' b' job city_job"
  unfolding tracked_def
proof (intro allI impI)
  fix operation assume n: "request_id c' operation \<noteq> 0"
  have mq: "ctx_event_mq c' = ctx_event_mq c" using assms(1) by (simp add: turn_ok_def)
  have mono: "queued b operation n \<Longrightarrow> queued b' operation n" for n
    using assms(1) queued_mono [of b b'] by (simp add: turn_ok_def)
  from assms(1) n show "rw_latest b' operation = request_id c' operation \<and> rw_cancelled b' operation \<noteq> request_id c' operation \<and>
      (queued b' operation (request_id c' operation) \<or> in_work job city_job operation (request_id c' operation) \<or>
       answered c' operation (request_id c' operation))"
  proof (cases rule: turn_request)
    case same
    moreover have "queued b operation (request_id c operation) \<or> in_work job city_job operation (request_id c operation) \<or>
        answered c operation (request_id c operation)"
      "rw_latest b operation = request_id c operation" "rw_cancelled b operation \<noteq> request_id c operation"
      using assms(2) n same(1) by (simp_all add: tracked_def)
    ultimately show ?thesis using mono by (auto simp: answered_def mq)
  next
    case sent
    then show ?thesis using n by simp
  qed
qed

lemma event_tracked:
  assumes T: "tracked c b job city_job" and q: "ctx_event_mq c = event # q"
    and handle: "lvww_handle_event rw_ops event (c\<lparr>ctx_event_mq := q\<rparr>) (b, t) = (c', b', t')"
  shows "tracked c' b' job city_job"
  unfolding tracked_def
proof (intro allI impI)
  fix operation assume n: "request_id c' operation \<noteq> 0"
  let ?c = "c\<lparr>ctx_event_mq := q\<rparr>"
  have id: "request_id ?c operation = request_id c operation" by (simp add: request_id_def split: lvww_operation_t.split)
  have turn: "turn_ok (?c, b, t) (c', b', t')" using event_turn [of ?c "(b, t)" event] handle by simp
  have mono: "queued b operation n \<Longrightarrow> queued b' operation n" for n
    using turn queued_mono [of b b'] by (simp add: turn_ok_def)
  have mq: "ctx_event_mq c' = q" using turn by (simp add: turn_ok_def)
  from turn n show "rw_latest b' operation = request_id c' operation \<and> rw_cancelled b' operation \<noteq> request_id c' operation \<and>
      (queued b' operation (request_id c' operation) \<or> in_work job city_job operation (request_id c' operation) \<or>
       answered c' operation (request_id c' operation))"
  proof (cases rule: turn_request)
    case same
    note s = same [unfolded id]
    have "\<not> answers operation (request_id c operation) event"
      using event_ends_request [of operation ?c event rw_ops "(b, t)"] handle n s(1) by (simp add: id) metis
    moreover have "queued b operation (request_id c operation) \<or> in_work job city_job operation (request_id c operation) \<or>
        answered c operation (request_id c operation)"
      "rw_latest b operation = request_id c operation" "rw_cancelled b operation \<noteq> request_id c operation"
      using T n s(1) by (simp_all add: tracked_def)
    ultimately show ?thesis using s mono by (auto simp: answered_def mq q)
  next
    case sent
    then show ?thesis using n by simp
  qed
qed

text \<open>The flags that no turn changes.\<close>

definition sys_up :: "lvww_ctx \<Rightarrow> lvww_rw007 \<Rightarrow> bool" where
  "sys_up c b \<longleftrightarrow> ctx_alive c \<and> rw_bound b \<and> rw_running b \<and> rw_city_running b \<and> no_stop b"

lemma turn_up: "turn_ok (c, b, t) (c', b', t') \<Longrightarrow> sys_up c b \<Longrightarrow> sys_up c' b'"
  by (simp add: turn_ok_def sys_up_def)

lemma pump_tracked:
  "tracked c (fst w) job city_job \<Longrightarrow> sys_up c (fst w) \<Longrightarrow> lvww_pump rw_ops k c w = (c', w') \<Longrightarrow>
   tracked c' (fst w') job city_job \<and> sys_up c' (fst w')"
proof (induction k arbitrary: c w)
  case (Suc k)
  show ?case
  proof (cases "ctx_event_mq c")
    case Nil
    then show ?thesis using Suc.prems by (simp add: fifo_recv_def)
  next
    case (Cons event q)
    obtain c1 b1 t1 where h: "lvww_handle_event rw_ops event (c\<lparr>ctx_event_mq := q\<rparr>) (fst w, snd w) = (c1, b1, t1)"
      by (metis prod_cases3)
    have "tracked c1 b1 job city_job" by (rule event_tracked [OF Suc.prems(1) Cons h])
    moreover have "sys_up c1 b1"
      using turn_up [of "c\<lparr>ctx_event_mq := q\<rparr>" "fst w" "snd w" c1 b1 t1] event_turn [of "c\<lparr>ctx_event_mq := q\<rparr>" w event] h Suc.prems(2)
      by (simp add: sys_up_def)
    ultimately show ?thesis using Suc.IH [of c1 "(b1, t1)"] Suc.prems(3) Cons h by (simp add: fifo_recv_def)
  qed
qed simp

lemma ui_turn:
  assumes "ui_step rw_ops (c, w) (c', w')"
  shows "turn_ok (c, w) (c', w') \<or> lvww_pump rw_ops 4 c w = (c', w')"
  using assms
proof cases
  case pump
  then show ?thesis by (simp add: lvww_pump_timer_cb_def)
next
  case clock
  then show ?thesis using clock_turn [of c w] by simp
next
  case (page page)
  then show ?thesis using scan_turn [of c w] turn_ok_refl [of c w] by (simp add: lvww_show_page_def split: if_splits)
next
  case scan_button
  then show ?thesis using scan_turn [of c w] by simp
next
  case disconnect_button
  then show ?thesis using disconnect_turn [of c w] by simp
next
  case (editor_submit ssid password)
  then show ?thesis using editor_turn(1) [of c w ssid password] by simp
next
  case editor_delete
  then show ?thesis using editor_turn(2) [of c w] by simp
next
  case (city_result index)
  then show ?thesis using city_result_turn [of c w index] by simp
next
  case (city_search query)
  then show ?thesis using search_turn [of c w query] by simp
next
  case (city_input input)
  then show ?thesis using input_turn [of c w input] by simp
next
  case (wifi_row tag)
  then show ?thesis using small_turns(1) [of c w tag] by simp
next
  case add_button
  then show ?thesis using small_turns(2) [of c w] by simp
next
  case editor_security
  then show ?thesis using small_turns(3) [of c w] by simp
next
  case editor_close
  then show ?thesis using small_turns(4) [of c w] by simp
qed

lemma ui_tracked:
  assumes "ui_step rw_ops (c, b, t) (c', b', t')" "tracked c b job city_job" "sys_up c b"
  shows "tracked c' b' job city_job \<and> sys_up c' b'"
  using ui_turn [OF assms(1)]
proof
  assume "turn_ok (c, b, t) (c', b', t')"
  then show ?thesis using turn_tracked [OF _ assms(2)] turn_up [OF _ assms(3)] by blast
next
  assume "lvww_pump rw_ops 4 c (b, t) = (c', b', t')"
  then show ?thesis using pump_tracked [of c "(b, t)" job city_job 4 c' "(b', t')"] assms(2,3) by simp
qed

section \<open>Turns of the workers\<close>

text \<open>A context that only has more events.\<close>

definition more_events :: "lvww_ctx \<Rightarrow> lvww_ctx \<Rightarrow> bool" where
  "more_events c c' \<longleftrightarrow> ctx_alive c' = ctx_alive c \<and> (\<forall>operation. request_id c' operation = request_id c operation) \<and>
     set (ctx_event_mq c) \<subseteq> set (ctx_event_mq c')"

lemma more_events_refl [simp]: "more_events c c"
  by (simp add: more_events_def)

lemma post_event_more: "more_events c (snd (lvww_post_event event c))"
  by (auto simp: more_events_def lvww_post_event_def fifo_send_def request_id_def split: lvww_operation_t.split)

lemma post_more: "more_events c (rw_post b cmd data c)"
  using post_event_more by (simp add: rw_post_def)

lemma post_delivers:
  assumes "sys_up c b" "length (ctx_event_mq c) < LVWW_EVENT_QUEUE_DEPTH"
    and "rw_latest b (rw_operation (cmd_data cmd)) = cmd_request_id cmd"
      "rw_cancelled b (rw_operation (cmd_data cmd)) \<noteq> cmd_request_id cmd"
  shows "\<lparr>ev_request_id = cmd_request_id cmd, ev_data = data\<rparr> \<in> set (ctx_event_mq (rw_post b cmd data c))"
  using assms by (simp add: rw_post_def rw_request_current_def sys_up_def lvww_post_event_def fifo_send_def)

lemma tracked_more: "tracked c b job city_job \<Longrightarrow> more_events c c' \<Longrightarrow> tracked c' b job city_job"
  unfolding tracked_def more_events_def answered_def by (metis subsetD)

lemma up_more: "sys_up c b \<Longrightarrow> more_events c c' \<Longrightarrow> sys_up c' b"
  by (simp add: sys_up_def more_events_def)

text \<open>Taking a command keeps it, if somebody waits for it.\<close>

lemma take_tracked:
  assumes T: "tracked c b None city_job" and up: "sys_up c b" and take: "rw_worker_take b c = (b', c', job)"
  shows "tracked c' b' job city_job \<and> sys_up c' b'"
proof (cases "rw_queue b")
  case Nil
  then show ?thesis using assms by (simp add: rw_worker_take_def fifo_recv_def)
next
  case (Cons cmd q)
  let ?b = "b\<lparr>rw_queue := q\<rparr>" and ?op = "rw_operation (cmd_data cmd)"
  let ?current = "rw_request_current ?b ?op (cmd_request_id cmd)"
  have stop: "cmd_data cmd \<noteq> RW_CMD_STOP" using up Cons by (simp add: sys_up_def no_stop_def)
  have b': "rw_bound b' = rw_bound b" "rw_running b' = rw_running b" "rw_city_running b' = rw_city_running b"
    "rw_latest b' = rw_latest b" "rw_cancelled b' = rw_cancelled b" "rw_queue b' = q" "rw_city_queue b' = rw_city_queue b"
    and c': "more_events c c'"
    and job: "?current \<Longrightarrow> ?op \<noteq> LVWW_OP_CITY_SEARCH \<Longrightarrow> job = Some cmd"
    using take stop Cons post_more
    by (auto simp: rw_worker_take_def fifo_recv_def Let_def rw_scan_start_def rw_disconnect_start_def rw_connect_start_def
        rw_operation_def split: lvww_rw_cmd_data.splits if_splits)
  have "tracked c b' job city_job"
    unfolding tracked_def
  proof (intro allI impI)
    fix operation assume n: "request_id c operation \<noteq> 0"
    let ?n = "request_id c operation"
    have old: "rw_latest b operation = ?n" "rw_cancelled b operation \<noteq> ?n"
      "queued b operation ?n \<or> in_work None city_job operation ?n \<or> answered c operation ?n"
      using T n by (simp_all add: tracked_def)
    have "queued b operation ?n \<Longrightarrow> queued b' operation ?n \<or> in_work job city_job operation ?n"
    proof -
      assume "queued b operation ?n"
      then consider "operation = LVWW_OP_CITY_SEARCH" "queued b' operation ?n" | "queued b' operation ?n"
        | "operation \<noteq> LVWW_OP_CITY_SEARCH" "is_request operation ?n cmd"
        using Cons b' by (auto simp: queued_def port_queue_def split: if_splits)
      then show ?thesis
      proof cases
        case 3
        then have "?current" using old up by (simp add: is_request_def rw_request_current_def sys_up_def)
        then show ?thesis using job 3 by (simp add: in_work_def is_request_def)
      qed simp_all
    qed
    moreover have "in_work None city_job operation ?n \<Longrightarrow> in_work job city_job operation ?n"
      by (simp add: in_work_def split: if_splits)
    ultimately show "rw_latest b' operation = ?n \<and> rw_cancelled b' operation \<noteq> ?n \<and>
        (queued b' operation ?n \<or> in_work job city_job operation ?n \<or> answered c operation ?n)"
      using old b' by auto
  qed
  moreover have "sys_up c b'" using up b' Cons by (simp add: sys_up_def no_stop_def)
  ultimately show ?thesis using tracked_more up_more c' by blast
qed

lemma finish_tracked:
  assumes T: "tracked c b (Some cmd) city_job" and up: "sys_up c b"
    and room: "length (ctx_event_mq c) < LVWW_EVENT_QUEUE_DEPTH"
    and fits: "rw_outcome_fits (cmd_data cmd) outcome" and finish: "rw_worker_finish outcome cmd b c = (b', c')"
  shows "tracked c' b' None city_job \<and> sys_up c' b'"
proof -
  let ?op = "rw_operation (cmd_data cmd)"
  have b': "b' = b \<or> b' = b\<lparr>rw_disconnecting := False\<rparr>" and c': "more_events c c'"
    using finish fits post_more
    by (auto simp: rw_worker_finish_def rw_disconnect_finish_def rw_scan_finish_def rw_connect_finish_def
        rw_post_error_def Let_def elim!: rw_outcome_fitsE split: lvww_rw_cmd_data.splits if_splits)
  have "answered c' ?op (cmd_request_id cmd)"
    if cur: "rw_latest b ?op = cmd_request_id cmd" "rw_cancelled b ?op \<noteq> cmd_request_id cmd"
  proof -
    have up': "sys_up c (b\<lparr>rw_disconnecting := False\<rparr>)" using up by (simp add: sys_up_def no_stop_def)
    note d = post_delivers [OF up room cur] post_delivers [OF up' room, of cmd]
    show ?thesis
      using fits
    proof cases
      case (1 ok)
      then show ?thesis using finish d(1)
        by (auto simp: rw_worker_finish_def rw_scan_finish_def rw_post_error_def answered_def answers_def rw_operation_def
            split: if_splits intro!: bexI [rotated])
    next
      case (2 credentials rc ready)
      then show ?thesis using finish d(1)
        by (auto simp: rw_worker_finish_def rw_connect_finish_def answered_def answers_def rw_operation_def Let_def
            split: if_splits intro!: bexI [rotated])
    next
      case (3 rc)
      then show ?thesis using finish d(2) cur
        by (auto simp: rw_worker_finish_def rw_disconnect_finish_def rw_post_error_def answered_def answers_def rw_operation_def Let_def
            split: if_splits intro!: bexI [rotated])
    next
      case (4 city strtod to_float to_int to_u64 ready answer)
      then show ?thesis using finish d(1)
        by (auto simp: rw_worker_finish_def rw_do_weather_def answered_def answers_def rw_operation_def
            split: if_splits option.splits intro!: bexI [rotated])
    next
      case (5 ready received)
      then show ?thesis using finish d(1)
        by (auto simp: rw_worker_finish_def rw_do_time_def answered_def answers_def rw_operation_def Let_def
            split: if_splits option.splits intro!: bexI [rotated])
    qed
  qed
  note posted = this
  have "tracked c' b None city_job"
    unfolding tracked_def
  proof (intro allI impI)
    fix operation assume n': "request_id c' operation \<noteq> 0"
    let ?n = "request_id c operation"
    have id: "request_id c' operation = ?n" using c' by (simp add: more_events_def)
    then have old: "rw_latest b operation = ?n" "rw_cancelled b operation \<noteq> ?n"
      "queued b operation ?n \<or> in_work (Some cmd) city_job operation ?n \<or> answered c operation ?n"
      using T n' by (simp_all add: tracked_def)
    have "in_work (Some cmd) city_job operation ?n \<Longrightarrow> in_work None city_job operation ?n \<or> answered c' operation ?n"
      using posted old(1,2) by (auto simp: in_work_def is_request_def split: if_splits)
    moreover have "answered c operation ?n \<Longrightarrow> answered c' operation ?n"
      using c' by (auto simp: answered_def more_events_def)
    ultimately show "rw_latest b operation = request_id c' operation \<and> rw_cancelled b operation \<noteq> request_id c' operation \<and>
        (queued b operation (request_id c' operation) \<or> in_work None city_job operation (request_id c' operation) \<or>
         answered c' operation (request_id c' operation))"
      unfolding id using old by blast
  qed
  then show ?thesis using b' up up_more [OF up c'] by (auto simp: tracked_def sys_up_def no_stop_def queued_def port_queue_def)
qed

lemma take_city_tracked:
  assumes T: "tracked c b job None" and up: "sys_up c b" and take: "rw_city_take b = (b', city_job)"
  shows "tracked c b' job city_job \<and> sys_up c b'"
proof (cases "rw_city_queue b")
  case Nil
  then show ?thesis using assms by (simp add: rw_city_take_def fifo_recv_def)
next
  case (Cons cmd q)
  let ?b = "b\<lparr>rw_city_queue := q\<rparr>"
  have stop: "cmd_data cmd \<noteq> RW_CMD_STOP" using up Cons by (simp add: sys_up_def no_stop_def)
  have b': "b' = ?b"
    and job: "rw_request_current ?b LVWW_OP_CITY_SEARCH (cmd_request_id cmd) \<Longrightarrow>
      rw_operation (cmd_data cmd) = LVWW_OP_CITY_SEARCH \<Longrightarrow> city_job = Some cmd"
    using take stop Cons
    by (auto simp: rw_city_take_def fifo_recv_def Let_def rw_operation_def split: lvww_rw_cmd_data.splits if_splits)
  have "tracked c b' job city_job"
    unfolding tracked_def
  proof (intro allI impI)
    fix operation assume n: "request_id c operation \<noteq> 0"
    let ?n = "request_id c operation"
    have old: "rw_latest b operation = ?n" "rw_cancelled b operation \<noteq> ?n"
      "queued b operation ?n \<or> in_work job None operation ?n \<or> answered c operation ?n"
      using T n by (simp_all add: tracked_def)
    have "queued b operation ?n \<Longrightarrow> queued b' operation ?n \<or> in_work job city_job operation ?n"
    proof -
      assume "queued b operation ?n"
      then consider "queued b' operation ?n" | "operation = LVWW_OP_CITY_SEARCH" "is_request operation ?n cmd"
        using Cons b' by (auto simp: queued_def port_queue_def split: if_splits)
      then show ?thesis
      proof cases
        case 2
        then have "rw_request_current ?b LVWW_OP_CITY_SEARCH (cmd_request_id cmd)"
          using old up by (simp add: is_request_def rw_request_current_def sys_up_def)
        then show ?thesis using job 2 by (simp add: in_work_def is_request_def)
      qed simp
    qed
    moreover have "in_work job None operation ?n \<Longrightarrow> in_work job city_job operation ?n"
      by (simp add: in_work_def split: if_splits)
    ultimately show "rw_latest b' operation = ?n \<and> rw_cancelled b' operation \<noteq> ?n \<and>
        (queued b' operation ?n \<or> in_work job city_job operation ?n \<or> answered c operation ?n)"
      using old b' by auto
  qed
  then show ?thesis using up b' Cons by (simp add: sys_up_def no_stop_def)
qed

lemma do_city_answers: "rw_do_city F strtod query v = Some (data, v') \<Longrightarrow> \<exists>n items. data = EVT_CITY_SEARCH_RESULT n items"
  by (auto simp: rw_do_city_def Let_def split: if_splits option.splits)

lemma finish_city_tracked:
  assumes T: "tracked c b job (Some cmd)" and up: "sys_up c b"
    and room: "length (ctx_event_mq c) < LVWW_EVENT_QUEUE_DEPTH"
    and cmd: "cmd_data cmd = RW_CMD_CITY query" and data: "data = EVT_CITY_SEARCH_RESULT count items"
  shows "tracked (rw_post b cmd data c) b job None \<and> sys_up (rw_post b cmd data c) b"
proof -
  let ?c = "rw_post b cmd data c"
  have c': "more_events c ?c" by (rule post_more)
  have "tracked ?c b job None"
    unfolding tracked_def
  proof (intro allI impI)
    fix operation assume n': "request_id ?c operation \<noteq> 0"
    let ?n = "request_id c operation"
    have id: "request_id ?c operation = ?n" using c' by (simp add: more_events_def)
    then have old: "rw_latest b operation = ?n" "rw_cancelled b operation \<noteq> ?n"
      "queued b operation ?n \<or> in_work job (Some cmd) operation ?n \<or> answered c operation ?n"
      using T n' by (simp_all add: tracked_def)
    have "in_work job (Some cmd) operation ?n \<Longrightarrow> in_work job None operation ?n \<or> answered ?c operation ?n"
      using post_delivers [OF up room, of cmd data] old(1,2) cmd data
      by (auto simp: in_work_def is_request_def answered_def answers_def rw_operation_def
          split: if_splits intro!: bexI [rotated])
    moreover have "answered c operation ?n \<Longrightarrow> answered ?c operation ?n"
      using c' by (auto simp: answered_def more_events_def)
    ultimately show "rw_latest b operation = request_id ?c operation \<and> rw_cancelled b operation \<noteq> request_id ?c operation \<and>
        (queued b operation (request_id ?c operation) \<or> in_work job None operation (request_id ?c operation) \<or>
         answered ?c operation (request_id ?c operation))"
      unfolding id using old by blast
  qed
  then show ?thesis using up_more [OF up c'] by simp
qed

lemma report_fields:
  "rw_bound (rw_scan_report_cb info b) = rw_bound b" "rw_running (rw_scan_report_cb info b) = rw_running b"
  "rw_city_running (rw_scan_report_cb info b) = rw_city_running b" "rw_queue (rw_scan_report_cb info b) = rw_queue b"
  "rw_city_queue (rw_scan_report_cb info b) = rw_city_queue b" "rw_latest (rw_scan_report_cb info b) = rw_latest b"
  "rw_cancelled (rw_scan_report_cb info b) = rw_cancelled b"
  by (auto simp: rw_scan_report_cb_def Let_def split: option.split)

lemma report_queued: "queued (rw_scan_report_cb info b) = queued b" "no_stop (rw_scan_report_cb info b) = no_stop b"
  by (simp_all add: queued_def port_queue_def no_stop_def report_fields fun_eq_iff)

lemma firmware_info_more [simp]: "more_events c (c\<lparr>ctx_firmware_info := info\<rparr>)"
  by (simp add: more_events_def request_id_def split: lvww_operation_t.split)

lemma server_more: "lvww_server_submit callback address old c w = (saved, new, c', w') \<Longrightarrow> more_events c c'"
  by (auto simp: lvww_server_submit_def split: if_splits option.splits prod.splits)

lemma update_more: "lvww_firmware_update_cb callback c w = (c', w') \<Longrightarrow> more_events c c'"
  by (auto simp: lvww_firmware_update_cb_def split: if_splits option.splits prod.splits)

lemma step_tracked:
  assumes step: "rw_step F strtod actor s s'"
    and room: "actor = UI_THREAD \<or> length (ctx_event_mq (sy_ctx s)) < LVWW_EVENT_QUEUE_DEPTH"
    and T: "tracked (sy_ctx s) (sy_port s) (sy_job s) (sy_city_job s)" "sys_up (sy_ctx s) (sy_port s)"
  shows "tracked (sy_ctx s') (sy_port s') (sy_job s') (sy_city_job s') \<and> sys_up (sy_ctx s') (sy_port s')"
  using step
proof cases
  case (ui c b t)
  then show ?thesis using ui_tracked T by simp
next
  case (take_job b c job)
  then show ?thesis using take_tracked [of "sy_ctx s" "sy_port s" "sy_city_job s" b c job] T by simp
next
  case (finish_job cmd outcome b c)
  then show ?thesis using finish_tracked [of "sy_ctx s" "sy_port s" cmd "sy_city_job s" outcome b c] T room by simp
next
  case (take_city b job)
  then show ?thesis using take_city_tracked [of "sy_ctx s" "sy_port s" "sy_job s" b job] T by simp
next
  case (finish_city cmd query v data v')
  obtain n items where data: "data = EVT_CITY_SEARCH_RESULT n items" using do_city_answers [OF finish_city(6)] by blast
  have "length (ctx_event_mq (sy_ctx s)) < LVWW_EVENT_QUEUE_DEPTH" using room finish_city(1) by simp
  from finish_city_tracked [OF T(1) [unfolded finish_city(3)] T(2) this finish_city(4) data]
  show ?thesis using finish_city(2) by simp
next
  case (server callback address old saved new c)
  have "more_events (sy_ctx s) c" by (rule server_more [OF server(3)])
  then show ?thesis using server tracked_more [OF T(1)] up_more [OF T(2)] by simp
next
  case (update fw_callback c)
  have "more_events (sy_ctx s) c" by (rule update_more [OF update(3)])
  then show ?thesis using update tracked_more [OF T(1)] up_more [OF T(2)] by simp
next
  case (report info)
  then show ?thesis
    using T by (simp add: tracked_def sys_up_def report_queued report_fields)
next
  case (dropped mem_ok)
  have "more_events (sy_ctx s) (rw_disconnected_cb mem_ok (sy_port s) (sy_ctx s))"
    using post_event_more by (simp add: rw_disconnected_cb_def)
  then show ?thesis using dropped tracked_more [OF T(1)] up_more [OF T(2)] by simp
next
  case (firmware info)
  have "more_events (sy_ctx s) (snd (lvww_set_firmware_info info (sy_ctx s)))"
    using post_event_more by (simp add: lvww_set_firmware_info_def)
  then show ?thesis using firmware tracked_more [OF T(1)] up_more [OF T(2)] by simp
qed (use T in simp)

section \<open>From the start\<close>

text \<open>The runs in which no thread but the one that empties it finds the event queue full.\<close>

definition roomy_step :: "'v fs_ops \<Rightarrow> (bytes \<Rightarrow> u64) \<Rightarrow> rw_system \<Rightarrow> rw_system \<Rightarrow> bool" where
  "roomy_step F strtod s s' \<longleftrightarrow>
     (\<exists>actor. rw_step F strtod actor s s' \<and>
        (actor = UI_THREAD \<or> length (ctx_event_mq (sy_ctx s)) < LVWW_EVENT_QUEUE_DEPTH))"

definition rw_start :: "lvww_ctx \<Rightarrow> lvww_rw007 \<Rightarrow> u32 \<Rightarrow> rw_system" where
  "rw_start c b t = \<lparr>sy_ctx = c, sy_port = b, sy_tick = t, sy_job = None, sy_city_job = None\<rparr>"

lemma steps_tracked:
  assumes "(roomy_step F strtod)\<^sup>*\<^sup>* s s'"
    and "tracked (sy_ctx s) (sy_port s) (sy_job s) (sy_city_job s)" "sys_up (sy_ctx s) (sy_port s)"
  shows "tracked (sy_ctx s') (sy_port s') (sy_job s') (sy_city_job s') \<and> sys_up (sy_ctx s') (sy_port s')"
  using assms
proof (induction rule: rtranclp_induct)
  case (step s1 s2)
  from step.hyps(2) obtain actor where "rw_step F strtod actor s1 s2"
    "actor = UI_THREAD \<or> length (ctx_event_mq (sy_ctx s1)) < LVWW_EVENT_QUEUE_DEPTH"
    unfolding roomy_step_def by blast
  then show ?case using step_tracked [of F strtod actor s1 s2] step.IH [OF step.prems] by blast
qed simp

lemma load_turn: "turn_ok (c, w) (lvww_load_store rw_ops c w)"
proof -
  obtain b t where w: "w = (b, t)" by (metis surj_pair)
  have "snd (lvww_load_profiles rw_ops cfg w) = w" "snd (lvww_load_cache rw_ops cfg w) = w" for cfg
    by (simp_all add: lvww_load_profiles_def lvww_load_cache_def rw_ops_def w Let_def split: prod.split)
  then have "snd (lvww_load_store rw_ops c w) = w"
    by (simp add: lvww_load_store_def Let_def split: prod.split) (metis snd_conv)
  moreover have "\<exists>ps cs. fst (lvww_load_store rw_ops c w) = c\<lparr>ctx_profile_store := ps, ctx_cache_store := cs\<rparr>"
    by (auto simp: lvww_load_store_def Let_def split: prod.split)
  ultimately obtain ps cs where
    "lvww_load_store rw_ops c w = (c\<lparr>ctx_profile_store := ps, ctx_cache_store := cs\<rparr>, w)"
    by (metis prod.collapse)
  moreover have "turn_ok (c, w) (c\<lparr>ctx_profile_store := ps, ctx_cache_store := cs\<rparr>, w)"
    by (rule turn_same) (simp_all add: request_id_def split: lvww_operation_t.split)
  ultimately show ?thesis by simp
qed

lemma create_turn:
  assumes create: "lvww_create (Some rw_ops) config True True True w = (Some c', w')"
  shows "turn_ok ((ctx_zero (used_config config))\<lparr>ctx_alive := True\<rparr>, w) (c', w')"
proof -
  let ?z = "(ctx_zero (used_config config))\<lparr>ctx_alive := True\<rparr>"
  define c0 where "c0 = (ctx_zero (used_config config))\<lparr>ctx_alive := True, ctx_editor_saved_index := -1,
      ctx_firmware_info := lvww_firmware_info_init\<rparr>"
  obtain c1 w1 where load: "lvww_load_store rw_ops c0 w = (c1, w1)" by (metis surj_pair)
  let ?c2 = "default_cities c1"
  let ?ps = "ctx_profile_store ?c2"
  let ?last = "sint (ps_last_success ?ps)"
  have "turn_ok (?z, w) (c0, w)"
    by (rule turn_same) (simp_all add: c0_def request_id_def split: lvww_operation_t.split)
  also have "turn_ok (c0, w) (c1, w1)" using load_turn [of c0 w] load by simp
  also have "turn_ok (c1, w1) (?c2, w1)"
    by (rule turn_same) (simp_all add: default_cities_def Let_def request_id_def split: lvww_operation_t.split)
  finally have start: "turn_ok (?z, w) (?c2, w1)" .
  let ?first = "if 0 \<le> ?last \<and> ?last < int (unat (ps_count ?ps))
      then lvww_request_connect rw_ops (ps_profiles ?ps ! nat ?last) ?c2 w1 else lvww_request_scan rw_ops ?c2 w1"
  have turn: "turn_ok (?z, w) ?first"
    using turn_trans [OF start connect_turn] turn_trans [OF start scan_turn] by simp
  obtain c3 w3 where first: "?first = (c3, w3)" by (metis surj_pair)
  have "(Some c', w') = (case ?first of (c, w) \<Rightarrow> (Some c, w))"
    using create unfolding lvww_create_def option.case Let_def used_config_def [symmetric] c0_def [symmetric] load
    by (simp only: prod.case simp_thms if_False)
  then have "c' = c3 \<and> w' = w3" unfolding first by simp
  then show ?thesis using turn unfolding first by simp
qed

lemma start_tracked:
  assumes create: "lvww_create (Some rw_ops) config True True True (lvww_rw007_create, t0) = (Some c0, b0, t1)"
    and bind: "lvww_rw007_bind ready info b0 (Some c0) = (b1, Some c1)"
  shows "tracked c1 b1 None None \<and> sys_up c1 b1"
proof -
  let ?z = "(ctx_zero (used_config config))\<lparr>ctx_alive := True\<rparr>"
  have turn: "turn_ok (?z, lvww_rw007_create, t0) (c0, b0, t1)" by (rule create_turn [OF create])
  have none: "request_id ?z operation = 0" for operation
    by (simp add: request_id_def ctx_zero_def split: lvww_operation_t.split)
  then have "tracked ?z lvww_rw007_create None None" by (simp add: tracked_def)
  then have T0: "tracked c0 b0 None None" by (rule turn_tracked [OF turn])
  have up0: "ctx_alive c0" "rw_running b0" "rw_city_running b0" "no_stop b0"
    using turn by (simp_all add: turn_ok_def lvww_rw007_create_def no_stop_def)
  have "b1 = b0\<lparr>rw_bound := True\<rparr> \<and> (c1 = c0 \<or> (\<exists>event. c1 = snd (lvww_post_event event c0)))"
  proof (cases ready)
    case True
    then show ?thesis using bind unfolding lvww_rw007_bind_def option.case Let_def by simp blast
  next
    case False
    then show ?thesis using bind unfolding lvww_rw007_bind_def option.case Let_def by simp
  qed
  then have b1: "b1 = b0\<lparr>rw_bound := True\<rparr>" and c1: "more_events c0 c1" using post_event_more by auto
  have "queued b1 = queued b0" by (simp add: b1 queued_def port_queue_def fun_eq_iff)
  then have "tracked c0 b1 None None" using T0 by (simp add: tracked_def b1)
  moreover have "sys_up c0 b1" using up0 by (simp add: sys_up_def b1 no_stop_def)
  ultimately show ?thesis using tracked_more [OF _ c1] up_more [OF _ c1] by blast
qed


text \<open>A device that has never been connected starts with a scan, which the worker takes.\<close>

lemma sample_load: "fst (lvww_load_profiles rw_ops cfg (lvww_rw007_create, t)) = profile_store_zero\<lparr>ps_last_success := LVWW_INVALID_INDEX\<rparr>"
  using fresh_crc empty_kvs(2) [of LVWW_PROFILE_KEY]
  by (simp add: lvww_load_profiles_def rw_ops_def lvww_rw007_create_def rw_kv_read_def Let_def)

lemma sample_create:
  "\<exists>c0 b0. lvww_create (Some rw_ops) None True True True (lvww_rw007_create, 7) = (Some c0, b0, 7) \<and>
     ctx_scan_request_id c0 = 1 \<and> ctx_event_mq c0 = []"
proof -
  define z where "z = (ctx_zero (config_fix lvww_config_init))\<lparr>ctx_alive := True, ctx_editor_saved_index := -1,
      ctx_firmware_info := lvww_firmware_info_init\<rparr>"
  let ?w = "(lvww_rw007_create, 7 :: u32)"
  obtain c1 w1 where load: "lvww_load_store rw_ops z ?w = (c1, w1)" by (metis surj_pair)
  have c1: "\<exists>cs. c1 = z\<lparr>ctx_profile_store := profile_store_zero\<lparr>ps_last_success := LVWW_INVALID_INDEX\<rparr>, ctx_cache_store := cs\<rparr>"
    using load sample_load [of "ctx_cfg z" 7] by (auto simp: lvww_load_store_def Let_def split: prod.splits)
  have w1: "w1 = ?w"
    using load by (auto simp: lvww_load_store_def lvww_load_profiles_def lvww_load_cache_def rw_ops_def Let_def split: prod.splits)
  let ?c2 = "default_cities c1"
  have c2: "ctx_scan_request_id ?c2 = 0" "ctx_next_request_id ?c2 = 0" "ctx_event_mq ?c2 = []"
    "sint (ps_last_success (ctx_profile_store ?c2)) = -1"
    using c1 by (auto simp: default_cities_def Let_def z_def ctx_zero_def profile_store_zero_def)
  have create: "lvww_create (Some rw_ops) None True True True ?w =
      (case lvww_request_scan rw_ops ?c2 ?w of (c, w) \<Rightarrow> (Some c, w))"
    using c2(4) unfolding lvww_create_def option.case Let_def z_def [symmetric] load w1
    by (simp only: prod.case simp_thms if_False) simp
  have "\<exists>c b. lvww_request_scan rw_ops ?c2 ?w = (c, b, 7) \<and> ctx_scan_request_id c = 1 \<and> ctx_event_mq c = []"
    using c2 by (simp add: lvww_request_scan_def lvww_next_request_def rw_send_op_def rw_send_def rw_operation_def
        lvww_rw007_create_def fifo_send_def Let_def)
  then show ?thesis unfolding create by auto
qed


end
