(* ===== verification/Spec2Isabelle.thy ===== *)
theory Spec2Isabelle
  imports Ota_Http Ota_Wifi_Session Ota_Mqtt Rt_Mq Ota_Remote_Reach Ota_Remote_Address
    Weather_Stale Weather_Chunked Weather_Font Weather_Rw_System
begin

text \<open>
  Verification library of the firmware for the h743xih6 board (STM32H743, RT-Thread, LVGL).  It covers
  the two applications of the project under \<open>src/applications\<close> and the parts of the vendored packages
  their correctness rests on.

  \<^bold>\<open>The program.\<close>  The firmware updates itself over the air and shows the weather.

  \<^item> The update service (\<open>ota/ota.c\<close>) receives a package into the partition \<open>download\<close>, checks it and
    commits it to the partition \<open>upgrade\<close>, from which a bootloader installs it.  Two transports feed
    it: an HTTP client (\<open>ota_http.c\<close>) and a TCP server for a tool on the local network
    (\<open>ota_wifi.c\<close>).  A controller (\<open>ota_remote.c\<close>) asks a server over MQTT for new versions
    (\<open>ota_mqtt_protocol.c\<close>), shows offers, and runs the HTTP client on those the user accepts.
  \<^item> The weather application (\<open>lv_wifi_weather\<close>) keeps Wi-Fi profiles and the last weather, reacts to
    the user in LVGL callbacks and to its port in events.  The port \<open>ports/rw007/lvww_rw007.c\<close> does
    what takes time in two worker threads that are fed by message queues.

  \<^bold>\<open>The theories.\<close>

  \<^item> \<open>Prelude\<close>: machine integers as words, byte buffers, loads and stores of both byte orders, C strings,
    chunked loops; the locales \<open>codec\<close> (round trips of a load and a store) and \<open>stream_digest\<close>
    (feeding a digest in pieces), and the collections of simplification rules.
  \<^item> \<open>Ota_Types\<close>, \<open>Ota_Hash\<close>, \<open>Ota_Signature\<close>, \<open>Fal\<close>: the results, states and the image header; CRC-32
    and SHA-256 (\<open>ota_hash.c\<close>) with the padding and blocks of FIPS 180-4 as specification; the data a
    release signature covers (\<open>ota_signature.c\<close>); the partitions of \<open>fal_partition.c\<close> over a parametric
    flash driver.  An assertion of the partition layer is the value \<open>None\<close> of an option.
  \<^item> \<open>Ota_Service\<close>: every function of \<open>ota.c\<close> on the record \<open>ota_sys\<close>, its static variables.
    \<open>Ota_Install\<close>: what the flash helpers do to a NOR device (\<open>nor_flash\<close>), frames, and when no call
    fails.  \<open>Ota_Session\<close>: whole transfers (\<open>staged\<close>), the reachable states (\<open>ota_step\<close>), the cuts of
    power inside \<open>ota_finish\<close>.  \<open>Ota_Example\<close>: a concrete board for the witnesses.
  \<^item> \<open>Ota_Http\<close>, \<open>Ota_Wifi\<close> and \<open>Ota_Wifi_Session\<close>, \<open>Ota_Mqtt\<close>: the transports and the messages; the last
    works on JSON trees as the cJSON package builds them.
  \<^item> \<open>Ota_Remote\<close>, \<open>Ota_Remote_Safety\<close>, \<open>Ota_Remote_Reach\<close>, \<open>Ota_Remote_Address\<close>: the controller, the
    frames of its routines, the step relation of its threads with the invariant of the reachable
    states, and the server address.
  \<^item> \<open>Rt_Mq\<close>: the message queue of the kernel (\<open>rt-thread/src/ipc.c\<close>), as linked slots and as regions
    with interrupts disabled; the locale \<open>bounded_fifo\<close> is its contract, with the linked slots and
    the plain list, which every other theory uses for a queue, as interpretations.
  \<^item> \<open>Weather_Store\<close>: the data of the weather application with their memory layouts, the city catalogue
    (\<open>lvww_city_catalog.c\<close>); the locale \<open>kv_port\<close> is the contract of a key-value store, with the stores
    of the two ports as interpretations.  \<open>Weather_Core\<close>: \<open>lvww_storage.c\<close>, and requests, events and
    timers (\<open>lv_wifi_weather.c\<close>).  \<open>Weather_Ui\<close>: creation, destruction and the callbacks of
    \<open>lvww_ui.c\<close>.  \<open>Weather_Safety\<close>: the step relation \<open>ui_step\<close> of the callbacks and \<open>weather_step\<close> of the
    whole application, over any port, and their invariant.  \<open>Weather_Restart\<close>, \<open>Weather_Stale\<close>: what
    survives a restart, and two ways to stale data.
  \<^item> \<open>Weather_Date\<close>, \<open>Weather_Chunked\<close>, \<open>Weather_Json\<close>: how the port reads an HTTP answer.
    \<open>Weather_Cities\<close>, \<open>Weather_Font\<close>: the city database and the font file of \<open>lvww_assets.c\<close>, over a
    parametric file system (\<open>fs_ops\<close>).
  \<^item> \<open>Weather_Rw007\<close>: the requests, workers and events of the port on the record \<open>lvww_rw007\<close>.
    \<open>Weather_Rw_System\<close>: application and port together (\<open>rw_step\<close>), the UI thread, the two workers, the
    WLAN manager and the other threads taking turns.

  \<^bold>\<open>What is shown.\<close>  For the update: a transfer that reports OK has installed exactly the package that was
  sent, verified, however it was cut; an invalid one never reaches the slot the bootloader reads; the
  CPU is reset for installation only over a verified slot, in every reachable state and for every
  order of the threads; a cut of power inside the commit is harmless; with devices that do not fail
  every valid package is accepted; and the transports and the controller have exactly these effects.
  For the weather: the data of the application stay in order in every reachable state; no request is
  forgotten by the port while the event queue has room; dates, chunked bodies, JSON answers, the city
  database and the font are read exactly as they are written; a network that worked is
  connected to again.  Where the code does not do what it means to, a theorem shows the sequence that
  goes wrong and what it leads to (\<open>ota_init_retry_masks_error\<close>, \<open>wifi_second_begin_leaks\<close>,
  \<open>http_commit_cancel_too_late\<close>, \<open>remote_accept_stuck\<close>, \<open>remote_reconnect_spoils_offer\<close>,
  \<open>chunk_size_overrun\<close>, \<open>weather_city_mixup\<close>, \<open>weather_result_lost\<close>, \<open>rw_switch_lost\<close>,
  \<open>font_cache_damaged\<close>).

  \<^bold>\<open>Atomicity and loops.\<close>  A turn of the controller thread, a callback of the UI thread, a post to the
  event queue and the regions of the message queue are single steps, since the code holds a lock, runs
  in one thread or disables interrupts there.  A worker of the port takes a command and finishes it in
  two steps: between them any other thread may run.  Loops are structural recursion or have a proof of
  termination; \<open>mq_reset_loop\<close>, \<open>city_line_loop\<close> and \<open>city_search_loop\<close> may run forever on some input
  (a broken list, a device that never ends a file) and are partial functions into an option, whose
  results are proved to exist under the invariant of the queue and for files that can be read.  The
  event pump handles at most four events a turn, as in the code; no other bound or fuel is used.

  \<^bold>\<open>Parameters.\<close>  The flash driver, the elliptic-curve check of micro-ecc, the web client, the sockets, the
  MQTT client, the text side of cJSON, the WLAN manager, the clock, the file system, memory allocation,
  \<open>strtod\<close> and the conversions of a \<open>double\<close> are arguments of the definitions, with their documented
  behaviour as named hypotheses where a property needs it (\<open>nor_flash\<close>, \<open>file_reads\<close>, \<open>kv_backed\<close> and
  others); each such property is applied to a concrete instance.

  \<^bold>\<open>Not modelled.\<close>  Drawing, layout, keyboards and candidate bars of the user interface, which do not
  change the state of the application; the socket calls of \<open>http_get_json\<close>; the driver that hands files
  of the QSPI flash to LVGL, which passes calls on; shell commands and logging; the demonstration port
  apart from its key-value store; the display, touch and board drivers, which access registers; start-up;
  the generated font; and the vendored packages (RT-Thread apart from the message queue, LVGL, HAL and
  CMSIS, lwIP, web client, MQTT, micro-ecc, the RW007 driver).  Memory that is exhausted is modelled where
  the code checks for it.
\<close>

end
